(* ===== verification/Cypre_Base.thy ===== *)
theory Cypre_Base
  imports Main "HOL-Library.Word"
begin

text \<open>
  The prelude of the development: 64- and 32-bit unsigned arithmetic on natural
  numbers with the wrap-around of the C++ types \<open>uint64_t\<close> and \<open>uint32_t\<close>
  written out, the error codes and the \<open>Status\<close> class of
  \<open>src/src/common\<close>, the constants of \<open>constants.h\<close>, and the generic facts
  on intervals, lists and rounding that the components share.

  Counters and byte offsets are natural numbers below \<open>2 ^ 64\<close>. An operation of
  the source that can wrap is written with \<open>u64_add\<close>, \<open>u64_sub\<close> or
  \<open>u64_mul\<close>; the \<open>u64\<close> collection rewrites it to the plain operation when it does
  not wrap. Bit vectors are lists of \<open>64 word\<close>.
\<close>

named_theorems u64 \<open>elimination of the wrapping operations when they do not wrap\<close>
named_theorems status_simps \<open>unfolding of status values\<close>

section \<open>Unsigned machine arithmetic\<close>

definition u64_max :: nat where
  "u64_max = 2 ^ 64 - 1"

definition u64_add :: "nat \<Rightarrow> nat \<Rightarrow> nat" where
  "u64_add a b = (a + b) mod 2 ^ 64"

definition u64_sub :: "nat \<Rightarrow> nat \<Rightarrow> nat" where
  "u64_sub a b = (a + (2 ^ 64 - b mod 2 ^ 64)) mod 2 ^ 64"

definition u64_mul :: "nat \<Rightarrow> nat \<Rightarrow> nat" where
  "u64_mul a b = (a * b) mod 2 ^ 64"

definition u32_add :: "nat \<Rightarrow> nat \<Rightarrow> nat" where
  "u32_add a b = (a + b) mod 2 ^ 32"

definition u32_sub :: "nat \<Rightarrow> nat \<Rightarrow> nat" where
  "u32_sub a b = (a + (2 ^ 32 - b mod 2 ^ 32)) mod 2 ^ 32"

section \<open>Error codes and status values\<close>

type_synonym error_code = int

abbreviation CYPRE_OK :: error_code where "CYPRE_OK \<equiv> 0"
abbreviation CYPRE_ER_INVALID_ARGUMENT :: error_code where "CYPRE_ER_INVALID_ARGUMENT \<equiv> -1000"
abbreviation CYPRE_ER_NO_PERMISSION :: error_code where "CYPRE_ER_NO_PERMISSION \<equiv> -1001"
abbreviation CYPRE_ER_NOT_SUPPORTED :: error_code where "CYPRE_ER_NOT_SUPPORTED \<equiv> -1002"
abbreviation CYPRE_ER_NET_ERROR :: error_code where "CYPRE_ER_NET_ERROR \<equiv> -1005"
abbreviation CYPRE_C_DATA_TOO_LARGE :: error_code where "CYPRE_C_DATA_TOO_LARGE \<equiv> -2001"
abbreviation CYPRE_C_DEVICE_CLOSED :: error_code where "CYPRE_C_DEVICE_CLOSED \<equiv> -2002"
abbreviation CYPRE_C_INTERNAL_ERROR :: error_code where "CYPRE_C_INTERNAL_ERROR \<equiv> -2003"
abbreviation CYPRE_C_RING_FULL :: error_code where "CYPRE_C_RING_FULL \<equiv> -2005"
abbreviation CYPRE_C_RING_EMPTY :: error_code where "CYPRE_C_RING_EMPTY \<equiv> -2006"
abbreviation CYPRE_C_CRC_ERROR :: error_code where "CYPRE_C_CRC_ERROR \<equiv> -2007"
abbreviation CYPRE_EM_POOL_NOT_FOUND :: error_code where "CYPRE_EM_POOL_NOT_FOUND \<equiv> -3000"
abbreviation CYPRE_EM_BLOB_NOT_FOUND :: error_code where "CYPRE_EM_BLOB_NOT_FOUND \<equiv> -3001"
abbreviation CYPRE_EM_USER_NOT_FOUND :: error_code where "CYPRE_EM_USER_NOT_FOUND \<equiv> -3002"
abbreviation CYPRE_EM_ROUTER_NOT_FOUND :: error_code where "CYPRE_EM_ROUTER_NOT_FOUND \<equiv> -3003"
abbreviation CYPRE_EM_ES_NOT_FOUND :: error_code where "CYPRE_EM_ES_NOT_FOUND \<equiv> -3004"
abbreviation CYPRE_EM_STORE_ERROR :: error_code where "CYPRE_EM_STORE_ERROR \<equiv> -3005"
abbreviation CYPRE_EM_LOAD_ERROR :: error_code where "CYPRE_EM_LOAD_ERROR \<equiv> -3006"
abbreviation CYPRE_EM_DELETE_ERROR :: error_code where "CYPRE_EM_DELETE_ERROR \<equiv> -3007"
abbreviation CYPRE_EM_DECODE_ERROR :: error_code where "CYPRE_EM_DECODE_ERROR \<equiv> -3008"
abbreviation CYPRE_EM_ES_DUPLICATED :: error_code where "CYPRE_EM_ES_DUPLICATED \<equiv> -3010"
abbreviation CYPRE_EM_POOL_ALREADY_INIT :: error_code where "CYPRE_EM_POOL_ALREADY_INIT \<equiv> -3011"
abbreviation CYPRE_EM_POOL_NOT_READY :: error_code where "CYPRE_EM_POOL_NOT_READY \<equiv> -3012"
abbreviation CYPRE_EM_POOL_DUPLICATED :: error_code where "CYPRE_EM_POOL_DUPLICATED \<equiv> -3013"
abbreviation CYPRE_EM_POOL_ALLOCATE_FAIL :: error_code where "CYPRE_EM_POOL_ALLOCATE_FAIL \<equiv> -3014"
abbreviation CYPRE_EM_RG_ALLOCATE_FAIL :: error_code where "CYPRE_EM_RG_ALLOCATE_FAIL \<equiv> -3015"
abbreviation CYPRE_EM_RG_NOT_FOUND :: error_code where "CYPRE_EM_RG_NOT_FOUND \<equiv> -3016"
abbreviation CYPRE_EM_USER_DUPLICATED :: error_code where "CYPRE_EM_USER_DUPLICATED \<equiv> -3017"
abbreviation CYPRE_EM_EXCEED_TIME_LIMIT :: error_code where "CYPRE_EM_EXCEED_TIME_LIMIT \<equiv> -3018"
abbreviation CYPRE_EM_TRY_AGAIN :: error_code where "CYPRE_EM_TRY_AGAIN \<equiv> -3019"
abbreviation CYPRE_EM_GET_CONN_ERROR :: error_code where "CYPRE_EM_GET_CONN_ERROR \<equiv> -3020"
abbreviation CYPRE_EM_BRPC_SEND_FAIL :: error_code where "CYPRE_EM_BRPC_SEND_FAIL \<equiv> -3021"
abbreviation CYPRE_ES_EXTENT_EMPTY :: error_code where "CYPRE_ES_EXTENT_EMPTY \<equiv> -4000"
abbreviation CYPRE_ES_DISK_EMPTY :: error_code where "CYPRE_ES_DISK_EMPTY \<equiv> -4002"
abbreviation CYPRE_ES_DISK_NO_SPACE :: error_code where "CYPRE_ES_DISK_NO_SPACE \<equiv> -4003"
abbreviation CYPRE_ES_GET_REQ_UNIT_FAIL :: error_code where "CYPRE_ES_GET_REQ_UNIT_FAIL \<equiv> -4005"
abbreviation CYPRE_ES_PROCESS_REQ_ERROR :: error_code where "CYPRE_ES_PROCESS_REQ_ERROR \<equiv> -4006"
abbreviation CYPRE_ES_OPEN_ROCKSDB_ERROR :: error_code where "CYPRE_ES_OPEN_ROCKSDB_ERROR \<equiv> -4007"
abbreviation CYPRE_ES_INIT_SPACE_ALLOC_FAIL :: error_code where "CYPRE_ES_INIT_SPACE_ALLOC_FAIL \<equiv> -4009"
abbreviation CYPRE_ES_LOCATION_NOT_FOUND :: error_code where "CYPRE_ES_LOCATION_NOT_FOUND \<equiv> -4010"
abbreviation CYPRE_ES_ROCKSDB_STORE_ERROR :: error_code where "CYPRE_ES_ROCKSDB_STORE_ERROR \<equiv> -4011"
abbreviation CYPRE_ES_DECODE_ERROR :: error_code where "CYPRE_ES_DECODE_ERROR \<equiv> -4013"
abbreviation CYPRE_ES_REPLICATE_PART_FAIL :: error_code where "CYPRE_ES_REPLICATE_PART_FAIL \<equiv> -4014"
abbreviation CYPRE_ES_QUERY_ROUTER_FAIL :: error_code where "CYPRE_ES_QUERY_ROUTER_FAIL \<equiv> -4026"
abbreviation CYPRE_ES_RTE_RING_FULL :: error_code where "CYPRE_ES_RTE_RING_FULL \<equiv> -4028"
abbreviation CYPRE_ES_CHECKSUM_ERROR :: error_code where "CYPRE_ES_CHECKSUM_ERROR \<equiv> -4031"
abbreviation CYPRE_SM_NOT_READY :: error_code where "CYPRE_SM_NOT_READY \<equiv> -5000"
abbreviation CYPRE_SM_RESOURCE_EXHAUSTED :: error_code where "CYPRE_SM_RESOURCE_EXHAUSTED \<equiv> -5001"
abbreviation CYPRE_SM_USER_NOT_FOUND :: error_code where "CYPRE_SM_USER_NOT_FOUND \<equiv> -5002"
abbreviation CYPRE_AC_SET_NOT_FOUND :: error_code where "CYPRE_AC_SET_NOT_FOUND \<equiv> -6000"
abbreviation CYPRE_AC_CHANNEL_ERROR :: error_code where "CYPRE_AC_CHANNEL_ERROR \<equiv> -6001"

text \<open>\<open>class Status\<close>: a code and a message; only the code decides \<open>ok()\<close>.\<close>

datatype status = Status (st_code: error_code) (ToString: string)

definition Status_OK :: status where
  "Status_OK = Status CYPRE_OK []"

definition st_ok :: "status \<Rightarrow> bool" where
  "st_ok s \<longleftrightarrow> st_code s = CYPRE_OK"

definition Status_IsEmpty :: "status \<Rightarrow> bool" where
  "Status_IsEmpty s \<longleftrightarrow> st_code s = CYPRE_ES_EXTENT_EMPTY"

section \<open>Constants\<close>

definition kUserIdPrefix :: string where "kUserIdPrefix = ''user-''"
definition kPoolIdPrefix :: string where "kPoolIdPrefix = ''pool-''"
definition kBlobIdPrefix :: string where "kBlobIdPrefix = ''bb-''"
definition kPoolKvPrefix :: string where "kPoolKvPrefix = ''0x00''"
definition kUserKvPrefix :: string where "kUserKvPrefix = ''0x01''"
definition kESKvPrefix :: string where "kESKvPrefix = ''0x02''"
definition kERKvPrefix :: string where "kERKvPrefix = ''0x03''"
definition kRGKvPrefix :: string where "kRGKvPrefix = ''0x04''"
definition kBlobKvPrefix :: string where "kBlobKvPrefix = ''0x05''"

definition kMaxBlobSize :: nat where "kMaxBlobSize = 32 * 2 ^ 40"
definition kAlignSize :: nat where "kAlignSize = 4096"
definition kMaxReplicaCount :: nat where "kMaxReplicaCount = 3"

section \<open>Facts on the wrapping operations\<close>

lemma u64_add_small [u64]: "a + b < 2 ^ 64 \<Longrightarrow> u64_add a b = a + b"
  by (simp add: u64_add_def)

lemma u64_sub_small [u64]: "\<lbrakk>b \<le> a; a < 2 ^ 64\<rbrakk> \<Longrightarrow> u64_sub a b = a - b"
  by (simp add: u64_sub_def le_mod_geq)

lemma u64_sub_wrap: "\<lbrakk>a < b; b < 2 ^ 64\<rbrakk> \<Longrightarrow> u64_sub a b = a + 2 ^ 64 - b"
  unfolding u64_sub_def by (subst mod_less) auto

lemma u64_mul_small [u64]: "a * b < 2 ^ 64 \<Longrightarrow> u64_mul a b = a * b"
  by (simp add: u64_mul_def)

lemma u64_add_less [simp]: "u64_add a b < 2 ^ 64"
  by (simp add: u64_add_def)

lemma u64_sub_less [simp]: "u64_sub a b < 2 ^ 64"
  by (simp add: u64_sub_def)

lemma u32_add_small [u64]: "a + b < 2 ^ 32 \<Longrightarrow> u32_add a b = a + b"
  by (simp add: u32_add_def)

lemma u32_sub_small [u64]: "\<lbrakk>b \<le> a; a < 2 ^ 32\<rbrakk> \<Longrightarrow> u32_sub a b = a - b"
  unfolding u32_sub_def by (simp add: le_mod_geq)

section \<open>Status values\<close>

lemma Status_OK_ok [simp]: "st_ok Status_OK" "st_code Status_OK = CYPRE_OK"
  by (simp_all add: st_ok_def Status_OK_def)

lemma st_ok_Status [simp]: "st_ok (Status c m) \<longleftrightarrow> c = CYPRE_OK"
  by (simp add: st_ok_def)

lemma Status_OK_eq [simp]:
  "Status_OK = Status c m \<longleftrightarrow> c = CYPRE_OK \<and> m = []"
  "Status c m = Status_OK \<longleftrightarrow> c = CYPRE_OK \<and> m = []"
  by (auto simp: Status_OK_def)

section \<open>Intervals, rounding and lists\<close>

lemma ceil_div_bounds:
  assumes "0 < (b::nat)"
  shows "a \<le> (a + b - 1) div b * b" "(a + b - 1) div b * b < a + b"
proof -
  have "(a + b - 1) div b * b + (a + b - 1) mod b = a + b - 1" by simp
  moreover have "(a + b - 1) mod b < b" using assms by simp
  ultimately show "a \<le> (a + b - 1) div b * b" "(a + b - 1) div b * b < a + b"
    using assms by linarith+
qed

lemma ceil_div_pos: "\<lbrakk>0 < (b::nat); 0 < a\<rbrakk> \<Longrightarrow> 0 < (a + b - 1) div b"
  using ceil_div_bounds(1)[of b a] by (cases "(a + b - 1) div b") auto

lemma interval_scale:
  assumes "0 < (k::nat)" "{a..<a + m} \<inter> {b..<b + n} = {}"
  shows "{a * k..<(a + m) * k} \<inter> {b * k..<(b + n) * k} = {}"
proof (cases "m = 0 \<or> n = 0")
  case False
  with assms(2) have "a + m \<le> b \<or> b + n \<le> a"
    by (auto simp: Int_atLeastLessThan)
  then have "(a + m) * k \<le> b * k \<or> (b + n) * k \<le> a * k" by auto
  then show ?thesis by auto
qed auto

lemma sum_list_update_nat:
  "i < length xs \<Longrightarrow> sum_list (xs[i := v]) + xs ! i = sum_list xs + (v::nat)"
  by (induction xs arbitrary: i) (auto split: nat.split)

end
