(* ===== verification/Bitmap_Allocator.thy ===== *)
theory Bitmap_Allocator
  imports Cypre_Base
begin

text \<open>
  The space allocator of an extent server
  (\<open>src/src/extentserver/bitmap_allocator.{h,cpp}\<close> and \<open>space_alloc.{h,cpp}\<close>).
  A device is cut into blocks; a \<open>chunk\<close> is a bitmap over at most \<open>2 ^ 20\<close> blocks
  and a \<open>bitmap_allocator\<close> a vector of chunks.

  The result \<open>None\<close> of an operation stands for an access of \<open>data_\<close> or
  \<open>chunks_\<close> out of range, which is undefined in C++; the lemmas show that no
  operation on a well-formed allocator gives it. The mutex of a chunk makes each chunk
  operation atomic, so an operation is a function from state to state. The assertions
  of the source are compiled out (the build defines \<open>NDEBUG\<close>). The value drawn from
  \<open>butil::fast_rand()\<close> is an argument.

  The lemmas describe every operation on every branch (\<open>Chunk_Allocate_cases\<close>,
  \<open>BitmapAllocator_Allocate_cases\<close>, \<open>BitmapAllocator_Free_ok\<close>,
  \<open>BitmapAllocator_Mark_ok\<close>, \<open>BitmapAllocator_Init_ok\<close>); the contract a client
  relies on is in the theory \<open>Space_Allocator\<close>.
\<close>

unbundle bit_operations_syntax

named_theorems bitmap_defs \<open>the definitions of the bitmap allocator\<close>

section \<open>Data\<close>

definition kBlocksPerUnit :: nat where [bitmap_defs]: "kBlocksPerUnit = 64"
definition kMaxBlocksPerChunk :: nat where [bitmap_defs]: "kMaxBlocksPerChunk = 1024 * 1024"

record aunit =
  au_offset :: nat
  au_size :: nat

record chunk =
  c_chunk_idx :: nat
  c_num_blocks :: nat
  c_num_free_blocks :: nat
  c_last_free_bit :: nat
  c_block_size :: nat
  c_data :: "64 word list"

record bitmap_allocator =
  ba_block_size :: nat
  ba_capacity :: nat
  ba_chunks :: "chunk list"

section \<open>Chunk\<close>

definition Chunk :: "nat \<Rightarrow> nat \<Rightarrow> nat \<Rightarrow> chunk" where
  "Chunk chunk_idx num_blocks block_size =
     \<lparr> c_chunk_idx = chunk_idx, c_num_blocks = num_blocks, c_num_free_blocks = num_blocks,
       c_last_free_bit = 0, c_block_size = block_size,
       c_data = replicate ((num_blocks + kBlocksPerUnit - 1) div kBlocksPerUnit) 0 \<rparr>"

definition Chunk_FreeBlocks :: "chunk \<Rightarrow> nat" where
  "Chunk_FreeBlocks c = c_num_free_blocks c"

definition Chunk_UsedBlocks :: "chunk \<Rightarrow> nat" where
  "Chunk_UsedBlocks c = u64_sub (c_num_blocks c) (Chunk_FreeBlocks c)"

definition avaliable :: "chunk \<Rightarrow> nat \<Rightarrow> bool" where
  "avaliable c num_blocks \<longleftrightarrow> num_blocks \<le> c_num_free_blocks c"

definition globalBlockIndex :: "chunk \<Rightarrow> nat" where
  "globalBlockIndex c = u64_mul (c_chunk_idx c) kMaxBlocksPerChunk"

definition getIndex :: "nat \<Rightarrow> nat \<Rightarrow> nat" where
  "getIndex begin count = (begin + count) div kBlocksPerUnit"

definition getOffset :: "nat \<Rightarrow> nat \<Rightarrow> nat" where
  "getOffset begin count = (begin + count) mod kBlocksPerUnit"

text \<open>The test \<open>data_[index] & (1ULL << offset)\<close> of the inner loop.\<close>

definition test_block :: "64 word list \<Rightarrow> nat \<Rightarrow> nat \<Rightarrow> bool option" where
  "test_block data begin count =
     (let index = getIndex begin count; offset = getOffset begin count in
      if index < length data
      then Some (data ! index AND push_bit offset 1 \<noteq> 0) else None)"

text \<open>The inner loop of \<open>Chunk::Allocate\<close>: the number of free blocks seen from \<open>begin\<close>.\<close>

function scan_blocks :: "64 word list \<Rightarrow> nat \<Rightarrow> nat \<Rightarrow> nat \<Rightarrow> nat option" where
  "scan_blocks data begin num_blocks count =
     (if count < num_blocks then
        (case test_block data begin count of
           None \<Rightarrow> None
         | Some used \<Rightarrow> if used then Some count
                        else scan_blocks data begin num_blocks (Suc count))
      else Some count)"
  by pat_completeness auto
termination by (relation "measure (\<lambda>(data, begin, num_blocks, count). num_blocks - count)") auto

declare scan_blocks.simps [simp del]

text \<open>The outer loop: \<open>Some (Some begin)\<close> when a run of free blocks was found there,
  \<open>Some None\<close> when \<open>begin\<close> passed \<open>end\<close>. A used block moves \<open>begin\<close> by the
  whole length of the request.\<close>

function search_blocks :: "64 word list \<Rightarrow> nat \<Rightarrow> nat \<Rightarrow> nat \<Rightarrow> nat option option" where
  "search_blocks data num_blocks begin end =
     (if begin \<le> end then
        (case scan_blocks data begin num_blocks 0 of
           None \<Rightarrow> None
         | Some count \<Rightarrow>
             if count = num_blocks then Some (Some begin)
             else search_blocks data num_blocks (begin + num_blocks) end)
      else Some None)"
  by pat_completeness auto
termination
proof (relation "measure (\<lambda>(data, num_blocks, begin, end). Suc end - begin)", goal_cases)
  case (2 d n b e count)
  then show ?case by (cases "n = 0") (auto simp: scan_blocks.simps)
qed simp

declare search_blocks.simps [simp del]

function set_bits :: "64 word list \<Rightarrow> nat \<Rightarrow> nat \<Rightarrow> nat \<Rightarrow> 64 word list option" where
  "set_bits data begin i count =
     (if i < count then
        let index = getIndex begin i; offset = getOffset begin i in
        if index < length data
        then set_bits (data[index := data ! index OR push_bit offset 1]) begin (Suc i) count
        else None
      else Some data)"
  by pat_completeness auto
termination by (relation "measure (\<lambda>(data, begin, i, count). count - i)") auto

declare set_bits.simps [simp del]

function unset_bits :: "64 word list \<Rightarrow> nat \<Rightarrow> nat \<Rightarrow> nat \<Rightarrow> 64 word list option" where
  "unset_bits data begin i count =
     (if i < count then
        let index = getIndex begin i; offset = getOffset begin i in
        if index < length data
        then unset_bits (data[index := data ! index AND NOT (push_bit offset 1)]) begin (Suc i) count
        else None
      else Some data)"
  by pat_completeness auto
termination by (relation "measure (\<lambda>(data, begin, i, count). count - i)") auto

declare unset_bits.simps [simp del]

definition setBlock :: "chunk \<Rightarrow> nat \<Rightarrow> nat \<Rightarrow> chunk option" where
  "setBlock c begin end =
     (let count = u64_sub end begin in
      case set_bits (c_data c) begin 0 count of
        None \<Rightarrow> None
      | Some data \<Rightarrow> Some (c \<lparr> c_data := data,
            c_num_free_blocks := u64_sub (c_num_free_blocks c) count,
            c_last_free_bit := end \<rparr>))"

definition unsetBlock :: "chunk \<Rightarrow> nat \<Rightarrow> nat \<Rightarrow> chunk option" where
  "unsetBlock c begin end =
     (let count = u64_sub end begin in
      case unset_bits (c_data c) begin 0 count of
        None \<Rightarrow> None
      | Some data \<Rightarrow> Some (c \<lparr> c_data := data,
            c_num_free_blocks := u64_add (c_num_free_blocks c) count,
            c_last_free_bit := (if begin < c_last_free_bit c then begin else c_last_free_bit c) \<rparr>))"

definition Chunk_Allocate :: "chunk \<Rightarrow> nat \<Rightarrow> aunit \<Rightarrow> (status \<times> aunit \<times> chunk) option" where
  "Chunk_Allocate c num_blocks aunit =
     (if \<not> avaliable c num_blocks
      then Some (Status CYPRE_ES_DISK_NO_SPACE ''no enough free blocks'', aunit, c)
      else case search_blocks (c_data c) num_blocks (c_last_free_bit c)
                  (u64_sub (c_num_blocks c) num_blocks) of
             None \<Rightarrow> None
           | Some None \<Rightarrow> Some (Status CYPRE_ES_DISK_NO_SPACE ''no enough space'', aunit, c)
           | Some (Some begin) \<Rightarrow>
               (case setBlock c begin (u64_add begin num_blocks) of
                  None \<Rightarrow> None
                | Some c' \<Rightarrow> Some (Status_OK,
                    \<lparr> au_offset = u64_mul (u64_add (globalBlockIndex c) begin) (c_block_size c),
                      au_size = u64_mul num_blocks (c_block_size c) \<rparr>, c')))"

definition Chunk_Mark :: "chunk \<Rightarrow> nat \<Rightarrow> nat \<Rightarrow> chunk option" where
  "Chunk_Mark c offset sz =
     (let block_idx = offset div c_block_size c;
          begin = u64_sub block_idx (globalBlockIndex c);
          end = u64_add begin (sz div c_block_size c)
      in setBlock c begin end)"

definition Chunk_Free :: "chunk \<Rightarrow> nat \<Rightarrow> nat \<Rightarrow> chunk option" where
  "Chunk_Free c offset sz =
     (let block_idx = offset div c_block_size c;
          begin = u64_sub block_idx (globalBlockIndex c);
          end = u64_add begin (sz div c_block_size c)
      in unsetBlock c begin end)"

section \<open>BitmapAllocator\<close>

definition NumBlocks :: "bitmap_allocator \<Rightarrow> nat" where
  "NumBlocks a = ba_capacity a div ba_block_size a"

definition NumChunks :: "bitmap_allocator \<Rightarrow> nat" where
  "NumChunks a = u64_add (NumBlocks a) (kMaxBlocksPerChunk - 1) div kMaxBlocksPerChunk"

definition Allocator_Empty :: "bitmap_allocator \<Rightarrow> bool" where
  "Allocator_Empty a \<longleftrightarrow> NumChunks a = 0"

function sum_chunks :: "(chunk \<Rightarrow> nat) \<Rightarrow> chunk list \<Rightarrow> nat \<Rightarrow> nat \<Rightarrow> nat \<Rightarrow> nat option" where
  "sum_chunks f cs i num_chunks acc =
     (if i < num_chunks then
        if i < length cs then sum_chunks f cs (Suc i) num_chunks (u64_add acc (f (cs ! i)))
        else None
      else Some acc)"
  by pat_completeness auto
termination by (relation "measure (\<lambda>(f, cs, i, num_chunks, acc). num_chunks - i)") auto

declare sum_chunks.simps [simp del]

definition UsedBlocks :: "bitmap_allocator \<Rightarrow> nat option" where
  "UsedBlocks a = sum_chunks Chunk_UsedBlocks (ba_chunks a) 0 (NumChunks a) 0"

definition UsedSize :: "bitmap_allocator \<Rightarrow> nat option" where
  "UsedSize a = map_option (\<lambda>n. u64_mul n (ba_block_size a)) (UsedBlocks a)"

definition FreeBlocks :: "bitmap_allocator \<Rightarrow> nat option" where
  "FreeBlocks a = sum_chunks Chunk_FreeBlocks (ba_chunks a) 0 (NumChunks a) 0"

definition calcBlocksBySize :: "bitmap_allocator \<Rightarrow> nat \<Rightarrow> nat" where
  "calcBlocksBySize a sz = u64_sub (u64_add sz (ba_block_size a)) 1 div ba_block_size a"

definition calcChunkIdxByOffset :: "bitmap_allocator \<Rightarrow> nat \<Rightarrow> nat" where
  "calcChunkIdxByOffset a offset = offset div ba_block_size a div kMaxBlocksPerChunk"

function make_chunks :: "nat \<Rightarrow> nat \<Rightarrow> nat \<Rightarrow> nat \<Rightarrow> chunk list" where
  "make_chunks i num_chunks num_blocks block_size =
     (if i < num_chunks then
        let blocks_per_chunk =
              (if num_blocks > kMaxBlocksPerChunk then kMaxBlocksPerChunk else num_blocks)
        in Chunk i blocks_per_chunk block_size #
           make_chunks (Suc i) num_chunks (num_blocks - blocks_per_chunk) block_size
      else [])"
  by pat_completeness auto
termination by (relation "measure (\<lambda>(i, num_chunks, num_blocks, block_size). num_chunks - i)") auto

declare make_chunks.simps [simp del]

text \<open>\<open>Init\<close> on the default constructed allocator \<open>a\<close>.\<close>

definition BitmapAllocator_Init :: "bitmap_allocator \<Rightarrow> nat \<Rightarrow> nat \<Rightarrow> status \<times> bitmap_allocator" where
  "BitmapAllocator_Init a block_size capacity =
     (if block_size = 0 \<or> block_size mod kAlignSize \<noteq> 0 \<or> block_size > capacity
      then (Status CYPRE_ER_INVALID_ARGUMENT ''Invalid block_size or capacity'', a)
      else let a1 = a \<lparr> ba_block_size := block_size, ba_capacity := capacity \<rparr> in
           (Status_OK,
            a1 \<lparr> ba_chunks := make_chunks 0 (NumChunks a1) (NumBlocks a1) block_size \<rparr>))"

text \<open>The loop of \<open>Allocate\<close> over the chunks, from \<open>begin\<close> to \<open>end\<close> modulo their number.\<close>

function try_chunks :: "chunk list \<Rightarrow> nat \<Rightarrow> nat \<Rightarrow> nat \<Rightarrow> status \<Rightarrow> aunit
    \<Rightarrow> (status \<times> aunit \<times> chunk list) option" where
  "try_chunks cs num_blocks begin end s aunit =
     (if begin < end then
        let index = begin mod length cs in
        if index < length cs then
          (case Chunk_Allocate (cs ! index) num_blocks aunit of
             None \<Rightarrow> None
           | Some (s', aunit', c') \<Rightarrow>
               if st_ok s' then Some (s', aunit', cs[index := c'])
               else try_chunks (cs[index := c']) num_blocks (Suc begin) end s' aunit')
        else None
      else Some (s, aunit, cs))"
  by pat_completeness auto
termination by (relation "measure (\<lambda>(cs, num_blocks, begin, end, s, aunit). end - begin)") auto

declare try_chunks.simps [simp del]

definition BitmapAllocator_Allocate ::
    "bitmap_allocator \<Rightarrow> nat \<Rightarrow> nat \<Rightarrow> aunit \<Rightarrow> (status \<times> aunit \<times> bitmap_allocator) option" where
  "BitmapAllocator_Allocate a rnd want_size aunit =
     (if Allocator_Empty a
      then Some (Status CYPRE_ES_DISK_EMPTY ''bitmap allocator empty'', aunit, a)
      else let num_blocks = calcBlocksBySize a want_size in
        if num_blocks = 0
        then Some (Status CYPRE_ER_INVALID_ARGUMENT ''invalid want_size'', aunit, a)
        else let num_chunks = length (ba_chunks a); begin = rnd mod num_chunks in
          case try_chunks (ba_chunks a) num_blocks begin (begin + num_chunks) Status_OK aunit of
            None \<Rightarrow> None
          | Some (s, aunit', cs) \<Rightarrow> Some (s, aunit', a \<lparr> ba_chunks := cs \<rparr>))"

definition update_chunk ::
    "bitmap_allocator \<Rightarrow> nat \<Rightarrow> (chunk \<Rightarrow> chunk option) \<Rightarrow> bitmap_allocator option" where
  "update_chunk a i f =
     (if i < length (ba_chunks a) then
        map_option (\<lambda>c. a \<lparr> ba_chunks := (ba_chunks a)[i := c] \<rparr>) (f (ba_chunks a ! i))
      else None)"

definition BitmapAllocator_Free :: "bitmap_allocator \<Rightarrow> nat \<Rightarrow> nat \<Rightarrow> bitmap_allocator option" where
  "BitmapAllocator_Free a offset sz =
     update_chunk a (calcChunkIdxByOffset a offset) (\<lambda>c. Chunk_Free c offset sz)"

definition BitmapAllocator_Mark :: "bitmap_allocator \<Rightarrow> nat \<Rightarrow> nat \<Rightarrow> bitmap_allocator option" where
  "BitmapAllocator_Mark a offset sz =
     update_chunk a (calcChunkIdxByOffset a offset) (\<lambda>c. Chunk_Mark c offset sz)"

section \<open>SpaceAlloc\<close>

definition kAllocateBlockSize :: nat where "kAllocateBlockSize = 2 ^ 20"

text \<open>\<open>SpaceAlloc\<close> is a handle on one allocator; \<open>None\<close> before \<open>Init\<close>.\<close>

record space_alloc =
  sa_disk_capacity :: nat
  sa_bitmap_alloc :: "bitmap_allocator option"

definition empty_allocator :: bitmap_allocator where
  "empty_allocator = \<lparr> ba_block_size = 0, ba_capacity = 0, ba_chunks = [] \<rparr>"

definition SpaceAlloc_Init :: "space_alloc \<Rightarrow> int \<times> space_alloc" where
  "SpaceAlloc_Init sa =
     (let (s, alloc) = BitmapAllocator_Init empty_allocator kAllocateBlockSize (sa_disk_capacity sa)
      in if \<not> st_ok s then (- 1, sa) else (0, sa \<lparr> sa_bitmap_alloc := Some alloc \<rparr>))"

definition SpaceAlloc_Allocate ::
    "space_alloc \<Rightarrow> nat \<Rightarrow> nat \<Rightarrow> aunit \<Rightarrow> (status \<times> aunit \<times> space_alloc) option" where
  "SpaceAlloc_Allocate sa rnd want_size aunit =
     (case sa_bitmap_alloc sa of
        None \<Rightarrow> None
      | Some a \<Rightarrow>
          (case BitmapAllocator_Allocate a rnd want_size aunit of
             None \<Rightarrow> None
           | Some (s, aunit', a') \<Rightarrow>
               if \<not> st_ok s then Some (s, aunit', sa \<lparr> sa_bitmap_alloc := Some a' \<rparr>)
               else Some (Status_OK, aunit', sa \<lparr> sa_bitmap_alloc := Some a' \<rparr>)))"

definition SpaceAlloc_Free :: "space_alloc \<Rightarrow> nat \<Rightarrow> nat \<Rightarrow> space_alloc option" where
  "SpaceAlloc_Free sa offset sz =
     (case sa_bitmap_alloc sa of
        None \<Rightarrow> None
      | Some a \<Rightarrow> map_option (\<lambda>a'. sa \<lparr> sa_bitmap_alloc := Some a' \<rparr>)
                    (BitmapAllocator_Free a offset sz))"

definition SpaceAlloc_Free_aunit :: "space_alloc \<Rightarrow> aunit \<Rightarrow> space_alloc option" where
  "SpaceAlloc_Free_aunit sa aunit = SpaceAlloc_Free sa (au_offset aunit) (au_size aunit)"

definition SpaceAlloc_Mark :: "space_alloc \<Rightarrow> nat \<Rightarrow> nat \<Rightarrow> space_alloc option" where
  "SpaceAlloc_Mark sa offset sz =
     (case sa_bitmap_alloc sa of
        None \<Rightarrow> None
      | Some a \<Rightarrow> map_option (\<lambda>a'. sa \<lparr> sa_bitmap_alloc := Some a' \<rparr>)
                    (BitmapAllocator_Mark a offset sz))"

definition SpaceAlloc_UsedSize :: "space_alloc \<Rightarrow> nat option" where
  "SpaceAlloc_UsedSize sa = (case sa_bitmap_alloc sa of None \<Rightarrow> None | Some a \<Rightarrow> UsedSize a)"

section \<open>Well-formedness and the blocks in use\<close>

text \<open>\<open>blk data i\<close>: the bit of block \<open>i\<close>.\<close>

definition blk :: "64 word list \<Rightarrow> nat \<Rightarrow> bool" where
  "blk data i \<longleftrightarrow> bit (data ! (i div 64)) (i mod 64)"

definition used_list :: "chunk \<Rightarrow> nat list" where
  "used_list c = filter (blk (c_data c)) [0..<c_num_blocks c]"

definition chunk_used :: "chunk \<Rightarrow> nat set" where
  "chunk_used c = set (used_list c)"

definition chunk_wf :: "chunk \<Rightarrow> bool" where
  "chunk_wf c \<longleftrightarrow>
     0 < c_block_size c \<and> c_num_blocks c \<le> kMaxBlocksPerChunk \<and>
     (c_chunk_idx c * kMaxBlocksPerChunk + c_num_blocks c) * c_block_size c < 2 ^ 64 \<and>
     length (c_data c) = (c_num_blocks c + 63) div 64 \<and>
     c_num_free_blocks c + length (used_list c) = c_num_blocks c \<and>
     c_last_free_bit c \<le> c_num_blocks c"

definition chunk_at :: "bitmap_allocator \<Rightarrow> nat \<Rightarrow> chunk \<Rightarrow> bool" where
  "chunk_at a i c \<longleftrightarrow>
     chunk_wf c \<and> c_chunk_idx c = i \<and> c_block_size c = ba_block_size a \<and>
     c_num_blocks c = min kMaxBlocksPerChunk (NumBlocks a - i * kMaxBlocksPerChunk)"

definition alloc_wf :: "bitmap_allocator \<Rightarrow> bool" where
  "alloc_wf a \<longleftrightarrow>
     0 < ba_block_size a \<and> kAlignSize dvd ba_block_size a \<and> ba_capacity a < 2 ^ 64 \<and>
     length (ba_chunks a) = NumChunks a \<and>
     list_all (\<lambda>(i, c). chunk_at a i c) (enumerate 0 (ba_chunks a))"

text \<open>The blocks in use, by their number on the device.\<close>

definition alloc_used :: "bitmap_allocator \<Rightarrow> nat set" where
  "alloc_used a = {b. b < NumBlocks a \<and> b div kMaxBlocksPerChunk < length (ba_chunks a) \<and>
      b mod kMaxBlocksPerChunk \<in> chunk_used (ba_chunks a ! (b div kMaxBlocksPerChunk))}"

text \<open>A run of \<open>n\<close> free blocks from \<open>bg\<close>.\<close>

definition free_run :: "64 word list \<Rightarrow> nat \<Rightarrow> nat \<Rightarrow> bool" where
  "free_run data bg n \<longleftrightarrow> list_all (\<lambda>j. \<not> blk data j) [bg..<bg + n]"

text \<open>The fields a chunk operation leaves alone.\<close>

definition same_shape :: "chunk \<Rightarrow> chunk \<Rightarrow> bool" where
  "same_shape c c' \<longleftrightarrow> c_chunk_idx c' = c_chunk_idx c \<and> c_num_blocks c' = c_num_blocks c \<and>
     c_block_size c' = c_block_size c"

text \<open>No run of \<open>n\<close> free blocks at any of the positions the search of \<open>Chunk::Allocate\<close> looks at.\<close>

definition chunk_full :: "chunk \<Rightarrow> nat \<Rightarrow> bool" where
  "chunk_full c n \<longleftrightarrow> (\<forall>k. c_last_free_bit c + k * n + n \<le> c_num_blocks c \<longrightarrow>
     {c_last_free_bit c + k * n..<c_last_free_bit c + k * n + n} \<inter> chunk_used c \<noteq> {})"

text \<open>A byte range that is a non-empty run of blocks of one chunk.\<close>

definition fits :: "bitmap_allocator \<Rightarrow> nat \<Rightarrow> nat \<Rightarrow> bool" where
  "fits a offset sz \<longleftrightarrow>
     (let bs = ba_block_size a; b = offset div bs; n = sz div bs in
      offset = b * bs \<and> sz = n * bs \<and> 0 < n \<and> b + n \<le> NumBlocks a \<and>
      b mod kMaxBlocksPerChunk + n \<le> kMaxBlocksPerChunk)"

text \<open>The byte addresses in use.\<close>

definition alloc_bytes :: "bitmap_allocator \<Rightarrow> nat set" where
  "alloc_bytes a = {x. x div ba_block_size a \<in> alloc_used a}"

text \<open>The byte addresses of a unit.\<close>

definition region :: "nat \<Rightarrow> nat \<Rightarrow> nat set" where
  "region offset sz = {offset..<offset + sz}"

text \<open>A table of extents owns pairwise disjoint, allocated regions.\<close>

definition extents_ok :: "(nat \<Rightarrow> nat \<Rightarrow> bool) \<Rightarrow> nat set \<Rightarrow> ('k \<rightharpoonup> nat \<times> nat) \<Rightarrow> bool" where
  "extents_ok fit bytes m \<longleftrightarrow>
     (\<forall>k off sz. m k = Some (off, sz) \<longrightarrow> fit off sz \<and> region off sz \<subseteq> bytes) \<and>
     (\<forall>k l off sz off' sz'. k \<noteq> l \<longrightarrow> m k = Some (off, sz) \<longrightarrow> m l = Some (off', sz') \<longrightarrow>
        region off sz \<inter> region off' sz' = {})"

text \<open>The same notions for \<open>SpaceAlloc\<close>.\<close>

definition space_wf :: "space_alloc \<Rightarrow> bool" where
  "space_wf sa \<longleftrightarrow> (case sa_bitmap_alloc sa of None \<Rightarrow> False | Some a \<Rightarrow> alloc_wf a)"

definition space_bytes :: "space_alloc \<Rightarrow> nat set" where
  "space_bytes sa = (case sa_bitmap_alloc sa of None \<Rightarrow> {} | Some a \<Rightarrow> alloc_bytes a)"

definition space_fits :: "space_alloc \<Rightarrow> nat \<Rightarrow> nat \<Rightarrow> bool" where
  "space_fits sa off sz \<longleftrightarrow> (case sa_bitmap_alloc sa of None \<Rightarrow> False | Some a \<Rightarrow> fits a off sz)"

section \<open>The bit vector\<close>

lemma blk_list_update:
  assumes "b div 64 < length data"
  shows "blk (data[b div 64 := data ! (b div 64) OR push_bit (b mod 64) 1]) j \<longleftrightarrow> blk data j \<or> j = b"
    and "blk (data[b div 64 := data ! (b div 64) AND NOT (push_bit (b mod 64) 1)]) j \<longleftrightarrow> blk data j \<and> j \<noteq> b"
proof -
  have eq: "j = b \<longleftrightarrow> j div 64 = b div 64 \<and> j mod 64 = b mod 64"
    by (metis div_mult_mod_eq)
  have "bit (push_bit (b mod 64) (1 :: 64 word)) (j mod 64) \<longleftrightarrow> j mod 64 = b mod 64"
    by (auto simp: bit_exp_iff possible_bit_word)
  then show "blk (data[b div 64 := data ! (b div 64) OR push_bit (b mod 64) 1]) j \<longleftrightarrow> blk data j \<or> j = b"
    "blk (data[b div 64 := data ! (b div 64) AND NOT (push_bit (b mod 64) 1)]) j \<longleftrightarrow> blk data j \<and> j \<noteq> b"
    using assms eq unfolding blk_def
    by (cases "j div 64 = b div 64"; simp add: bit_or_iff bit_and_iff bit_not_iff nth_list_update)+
qed

lemma test_block_eq:
  "(bg + count) div 64 < length data \<Longrightarrow> test_block data bg count = Some (blk data (bg + count))"
  by (simp add: test_block_def getIndex_def getOffset_def kBlocksPerUnit_def blk_def
      bit_iff_and_push_bit_not_eq_0 Let_def)

lemma scan_blocks_spec:
  assumes "bg + n \<le> 64 * length data" "count \<le> n"
  shows "\<exists>k. scan_blocks data bg n count = Some k \<and>
           (k = n \<longleftrightarrow> (\<forall>j\<in>{bg + count..<bg + n}. \<not> blk data j))"
  using assms
proof (induction data bg n count rule: scan_blocks.induct)
  case (1 data bg n count)
  show ?case
  proof (cases "count < n")
    case True
    then have t: "test_block data bg count = Some (blk data (bg + count))"
      using 1 by (intro test_block_eq) auto
    show ?thesis
    proof (cases "blk data (bg + count)")
      case True
      then show ?thesis using t \<open>count < n\<close> by (subst scan_blocks.simps) (auto)
    next
      case False
      have "{bg + count..<bg + n} = insert (bg + count) {bg + Suc count..<bg + n}"
        using \<open>count < n\<close> by auto
      then show ?thesis using 1 t False \<open>count < n\<close> by (subst scan_blocks.simps) auto
    qed
  qed (use 1 in \<open>subst scan_blocks.simps, auto\<close>)
qed

lemma free_run_iff: "free_run data bg n \<longleftrightarrow> (\<forall>j\<in>{bg..<bg + n}. \<not> blk data j)"
  by (auto simp: free_run_def list_all_iff)

lemma scan_blocks_free_run:
  assumes "bg + n \<le> 64 * length data"
  obtains k where "scan_blocks data bg n 0 = Some k" "k = n \<longleftrightarrow> free_run data bg n"
  using scan_blocks_spec[OF assms, of 0] by (auto simp: free_run_iff)

lemma search_blocks_spec:
  assumes "e + n \<le> 64 * length data"
  shows "\<exists>r. search_blocks data n bg e = Some r \<and>
     (case r of
        Some b \<Rightarrow> bg \<le> b \<and> b \<le> e \<and> free_run data b n \<and> (\<exists>k. b = bg + k * n)
      | None \<Rightarrow> (\<forall>k. bg + k * n \<le> e \<longrightarrow> \<not> free_run data (bg + k * n) n))"
  using assms
proof (induction data n bg e rule: search_blocks.induct)
  case (1 data n bg e)
  show ?case
  proof (cases "bg \<le> e")
    case True
    with 1 have "bg + n \<le> 64 * length data" by simp
    then obtain k where k: "scan_blocks data bg n 0 = Some k" "k = n \<longleftrightarrow> free_run data bg n"
      by (rule scan_blocks_free_run)
    show ?thesis
    proof (cases "k = n")
      case True
      have "bg = bg + 0 * n" by simp
      with True show ?thesis using k \<open>bg \<le> e\<close> by (subst search_blocks.simps) auto
    next
      case False
      obtain r where r: "search_blocks data n (bg + n) e = Some r"
        "case r of Some b \<Rightarrow> bg + n \<le> b \<and> b \<le> e \<and> free_run data b n \<and> (\<exists>k. b = bg + n + k * n)
         | None \<Rightarrow> (\<forall>k. bg + n + k * n \<le> e \<longrightarrow> \<not> free_run data (bg + n + k * n) n)"
        using 1(1)[OF True k(1) False 1(2)] by blast
      have "\<not> free_run data (bg + k * n) n"
        if "\<forall>k. bg + n + k * n \<le> e \<longrightarrow> \<not> free_run data (bg + n + k * n) n"
          "bg + k * n \<le> e" for k
        using that k False by (cases k) (auto simp: add.assoc)
      moreover have "bg + n + k * n = bg + Suc k * n" for k by simp
      then have "\<exists>k. b = bg + k * n" if "\<exists>k. b = bg + n + k * n" for b using that by metis
      ultimately show ?thesis using r k False True
        by (subst search_blocks.simps) (auto split: option.splits)
    qed
  qed (subst search_blocks.simps, auto)
qed

lemma set_bits_spec:
  assumes "bg + count \<le> 64 * length data" "i \<le> count"
  shows "\<exists>d. set_bits data bg i count = Some d \<and> length d = length data \<and>
     (\<forall>j. blk d j \<longleftrightarrow> blk data j \<or> j \<in> {bg + i..<bg + count})"
  using assms
proof (induction data bg i count rule: set_bits.induct)
  case (1 data bg i count)
  show ?case
  proof (cases "i < count")
    case True
    let ?b = "bg + i"
    have r: "?b div 64 < length data" using 1 True by auto
    have "{?b..<bg + count} = insert ?b {bg + Suc i..<bg + count}" using True by auto
    then have iv: "j \<in> {?b..<bg + count} \<longleftrightarrow> j = ?b \<or> j \<in> {bg + Suc i..<bg + count}" for j by auto
    let ?d1 = "data[?b div 64 := data ! (?b div 64) OR push_bit (?b mod 64) 1]"
    have "\<exists>d. set_bits ?d1 bg (Suc i) count = Some d \<and> length d = length ?d1 \<and>
        (\<forall>j. blk d j \<longleftrightarrow> blk ?d1 j \<or> j \<in> {bg + Suc i..<bg + count})"
      using 1(1)[OF True refl refl] r True 1(2) by (simp add: getIndex_def getOffset_def kBlocksPerUnit_def)
    then obtain d where d: "set_bits ?d1 bg (Suc i) count = Some d" "length d = length data"
      "\<forall>j. blk d j \<longleftrightarrow> blk ?d1 j \<or> j \<in> {bg + Suc i..<bg + count}" by auto
    have "set_bits data bg i count = Some d"
      using d(1) r True by (subst set_bits.simps) (simp add: getIndex_def getOffset_def kBlocksPerUnit_def)
    then show ?thesis using d blk_list_update(1)[OF r] iv by auto
  qed (use 1 in \<open>subst set_bits.simps, auto\<close>)
qed

lemma unset_bits_spec:
  assumes "bg + count \<le> 64 * length data" "i \<le> count"
  shows "\<exists>d. unset_bits data bg i count = Some d \<and> length d = length data \<and>
     (\<forall>j. blk d j \<longleftrightarrow> blk data j \<and> j \<notin> {bg + i..<bg + count})"
  using assms
proof (induction data bg i count rule: unset_bits.induct)
  case (1 data bg i count)
  show ?case
  proof (cases "i < count")
    case True
    let ?b = "bg + i"
    have r: "?b div 64 < length data" using 1 True by auto
    have "{?b..<bg + count} = insert ?b {bg + Suc i..<bg + count}" using True by auto
    then have iv: "j \<in> {?b..<bg + count} \<longleftrightarrow> j = ?b \<or> j \<in> {bg + Suc i..<bg + count}" for j by auto
    let ?d1 = "data[?b div 64 := data ! (?b div 64) AND NOT (push_bit (?b mod 64) 1)]"
    have "\<exists>d. unset_bits ?d1 bg (Suc i) count = Some d \<and> length d = length ?d1 \<and>
        (\<forall>j. blk d j \<longleftrightarrow> blk ?d1 j \<and> j \<notin> {bg + Suc i..<bg + count})"
      using 1(1)[OF True refl refl] r True 1(2) by (simp add: getIndex_def getOffset_def kBlocksPerUnit_def)
    then obtain d where d: "unset_bits ?d1 bg (Suc i) count = Some d" "length d = length data"
      "\<forall>j. blk d j \<longleftrightarrow> blk ?d1 j \<and> j \<notin> {bg + Suc i..<bg + count}" by auto
    have "unset_bits data bg i count = Some d"
      using d(1) r True by (subst unset_bits.simps) (simp add: getIndex_def getOffset_def kBlocksPerUnit_def)
    then show ?thesis using d blk_list_update(2)[OF r] iv by auto
  qed (use 1 in \<open>subst unset_bits.simps, auto\<close>)
qed

section \<open>Chunk operations keep the chunk well-formed\<close>

lemma chunk_used_iff: "j \<in> chunk_used c \<longleftrightarrow> j < c_num_blocks c \<and> blk (c_data c) j"
  by (auto simp: chunk_used_def used_list_def)

lemma chunk_used_finite [simp]: "finite (chunk_used c)"
  by (simp add: chunk_used_def)

lemma chunk_used_bound: "chunk_used c \<subseteq> {..<c_num_blocks c}"
  by (auto simp: chunk_used_iff)

lemma length_used_list: "length (used_list c) = card (chunk_used c)"
  unfolding chunk_used_def by (rule distinct_card[symmetric]) (simp add: used_list_def)

lemma chunk_wfD:
  assumes "chunk_wf c"
  shows "0 < c_block_size c" "c_num_blocks c \<le> 1048576"
    "(c_chunk_idx c * 1048576 + c_num_blocks c) * c_block_size c < 2 ^ 64"
    "length (c_data c) = (c_num_blocks c + 63) div 64"
    "c_num_free_blocks c + card (chunk_used c) = c_num_blocks c"
    "c_last_free_bit c \<le> c_num_blocks c" "c_num_blocks c \<le> 64 * length (c_data c)"
  using assms by (auto simp: chunk_wf_def length_used_list kMaxBlocksPerChunk_def)

lemma chunk_global_bounds:
  assumes "chunk_wf c" "b \<le> c_num_blocks c"
  shows "globalBlockIndex c = c_chunk_idx c * 1048576"
    "(c_chunk_idx c * 1048576 + b) * c_block_size c < 2 ^ 64"
    "c_chunk_idx c * 1048576 + b < 2 ^ 64"
    "b * c_block_size c < 2 ^ 64"
proof -
  note wf = chunk_wfD[OF assms(1)]
  have "(c_chunk_idx c * 1048576 + b) * c_block_size c
        \<le> (c_chunk_idx c * 1048576 + c_num_blocks c) * c_block_size c"
    using assms(2) by (intro mult_right_mono) auto
  then show *: "(c_chunk_idx c * 1048576 + b) * c_block_size c < 2 ^ 64"
    using wf(3) by (rule le_less_trans)
  have "c_chunk_idx c * 1048576 + b \<le> (c_chunk_idx c * 1048576 + b) * c_block_size c"
    using wf(1) by simp
  with * show **: "c_chunk_idx c * 1048576 + b < 2 ^ 64" by linarith
  then show "globalBlockIndex c = c_chunk_idx c * 1048576"
    by (simp add: globalBlockIndex_def kMaxBlocksPerChunk_def u64_mul_def)
  have "b * c_block_size c \<le> (c_chunk_idx c * 1048576 + b) * c_block_size c" by simp
  with * show "b * c_block_size c < 2 ^ 64" by linarith
qed

lemma setBlock_ok:
  assumes wf: "chunk_wf c" and r: "b \<le> e" "e \<le> c_num_blocks c"
    and free: "{b..<e} \<inter> chunk_used c = {}"
  obtains c' where "setBlock c b e = Some c'" "chunk_wf c'" "same_shape c c'"
    "chunk_used c' = chunk_used c \<union> {b..<e}" "c_num_free_blocks c' = c_num_free_blocks c - (e - b)"
    "c_last_free_bit c' = e"
proof -
  note w = chunk_wfD[OF wf]
  have count: "u64_sub e b = e - b" using r w(2) by (intro u64_sub_small) auto
  obtain d where d: "set_bits (c_data c) b 0 (e - b) = Some d" "length d = length (c_data c)"
    "\<And>j. blk d j \<longleftrightarrow> blk (c_data c) j \<or> j \<in> {b..<e}"
    using set_bits_spec[of b "e - b" "c_data c" 0] r w(7) by auto
  have card: "card (chunk_used c \<union> {b..<e}) = card (chunk_used c) + (e - b)"
    using free by (subst card_Un_disjoint) auto
  have "card (chunk_used c \<union> {b..<e}) \<le> card {..<c_num_blocks c}"
    using r chunk_used_bound[of c] by (intro card_mono) auto
  then have nf: "e - b \<le> c_num_free_blocks c" using card w(5) by simp
  then have sub: "u64_sub (c_num_free_blocks c) (e - b) = c_num_free_blocks c - (e - b)"
    using w(2,5) by (intro u64_sub_small) auto
  let ?c = "c \<lparr> c_data := d, c_num_free_blocks := c_num_free_blocks c - (e - b), c_last_free_bit := e \<rparr>"
  have used: "chunk_used ?c = chunk_used c \<union> {b..<e}"
    using d(3) r by (auto simp: chunk_used_iff)
  have "chunk_wf ?c"
    using wf r d(2) nf card w(5) unfolding chunk_wf_def length_used_list used by simp
  moreover have "setBlock c b e = Some ?c"
    by (simp add: setBlock_def count d(1) sub)
  ultimately show thesis using used that by (simp add: same_shape_def)
qed

lemma unsetBlock_ok:
  assumes wf: "chunk_wf c" and r: "b \<le> e" "e \<le> c_num_blocks c"
    and used: "{b..<e} \<subseteq> chunk_used c"
  obtains c' where "unsetBlock c b e = Some c'" "chunk_wf c'" "same_shape c c'"
    "chunk_used c' = chunk_used c - {b..<e}" "c_num_free_blocks c' = c_num_free_blocks c + (e - b)"
    "c_last_free_bit c' = min b (c_last_free_bit c)"
proof -
  note w = chunk_wfD[OF wf]
  have count: "u64_sub e b = e - b" using r w(2) by (intro u64_sub_small) auto
  obtain d where d: "unset_bits (c_data c) b 0 (e - b) = Some d" "length d = length (c_data c)"
    "\<And>j. blk d j \<longleftrightarrow> blk (c_data c) j \<and> j \<notin> {b..<e}"
    using unset_bits_spec[of b "e - b" "c_data c" 0] r w(7) by auto
  have card: "card (chunk_used c - {b..<e}) = card (chunk_used c) - (e - b)"
    using used by (subst card_Diff_subset) auto
  have le: "e - b \<le> card (chunk_used c)"
    using card_mono[OF _ used] by simp
  then have add: "u64_add (c_num_free_blocks c) (e - b) = c_num_free_blocks c + (e - b)"
    using w(2,5) by (intro u64_add_small) auto
  let ?c = "c \<lparr> c_data := d, c_num_free_blocks := c_num_free_blocks c + (e - b),
    c_last_free_bit := min b (c_last_free_bit c) \<rparr>"
  have used': "chunk_used ?c = chunk_used c - {b..<e}"
    using d(3) by (auto simp: chunk_used_iff)
  have "chunk_wf ?c"
    using wf r d(2) le card w(5) unfolding chunk_wf_def length_used_list used' by auto
  moreover have "unsetBlock c b e = Some ?c"
    by (simp add: unsetBlock_def count d(1) add min_def)
  ultimately show thesis using used' that by (simp add: same_shape_def)
qed

lemma Chunk_wf:
  assumes "0 < bs" "n \<le> kMaxBlocksPerChunk" "(i * kMaxBlocksPerChunk + n) * bs < 2 ^ 64"
  shows "chunk_wf (Chunk i n bs)" "chunk_used (Chunk i n bs) = {}"
proof -
  have "\<not> blk (replicate ((63 + n) div 64) 0) j" if "j < n" for j
    using that by (subst blk_def, subst nth_replicate) auto
  then have "used_list (Chunk i n bs) = []"
    by (auto simp: used_list_def Chunk_def kBlocksPerUnit_def filter_empty_conv)
  then show "chunk_wf (Chunk i n bs)" "chunk_used (Chunk i n bs) = {}"
    using assms by (auto simp: chunk_wf_def chunk_used_def Chunk_def kBlocksPerUnit_def)
qed

lemma free_run_chunk:
  "b + n \<le> c_num_blocks c \<Longrightarrow> free_run (c_data c) b n \<longleftrightarrow> {b..<b + n} \<inter> chunk_used c = {}"
  by (auto simp: free_run_iff chunk_used_iff)

text \<open>What \<open>Chunk::Allocate\<close> does on every branch.\<close>

lemma Chunk_Allocate_cases:
  assumes wf: "chunk_wf c"
  obtains
    (ok) b c' where
      "Chunk_Allocate c n u = Some (Status_OK,
         \<lparr> au_offset = (c_chunk_idx c * 1048576 + b) * c_block_size c, au_size = n * c_block_size c \<rparr>, c')"
      "chunk_wf c'" "same_shape c c'" "c_last_free_bit c \<le> b" "b + n \<le> c_num_blocks c"
      "{b..<b + n} \<inter> chunk_used c = {}" "chunk_used c' = chunk_used c \<union> {b..<b + n}"
      "c_num_free_blocks c' = c_num_free_blocks c - n" "c_last_free_bit c' = b + n" "\<not> chunk_full c n"
  | (full) m where
      "Chunk_Allocate c n u = Some (Status CYPRE_ES_DISK_NO_SPACE m, u, c)"
      "chunk_full c n"
proof (cases "avaliable c n")
  case False
  have "\<not> n \<le> c_num_blocks c - card (chunk_used c)"
    using False chunk_wfD(5)[OF wf] by (auto simp: avaliable_def)
  then have "{b..<b + n} \<inter> chunk_used c \<noteq> {}" if "b + n \<le> c_num_blocks c" for b
  proof -
    have "card ({b..<b + n} \<union> chunk_used c) \<le> card {..<c_num_blocks c}"
      using that chunk_used_bound[of c] by (intro card_mono) auto
    then show ?thesis
      using \<open>\<not> n \<le> _\<close> by (auto simp: card_Un_disjoint)
  qed
  then show thesis using False full by (auto simp: Chunk_Allocate_def chunk_full_def)
next
  case True
  note w = chunk_wfD[OF wf]
  have n: "n \<le> c_num_blocks c" using True w(5) by (auto simp: avaliable_def)
  have sub: "u64_sub (c_num_blocks c) n = c_num_blocks c - n"
    using n w(2) by (intro u64_sub_small) auto
  obtain r where r: "search_blocks (c_data c) n (c_last_free_bit c) (c_num_blocks c - n) = Some r"
    "case r of Some b \<Rightarrow> c_last_free_bit c \<le> b \<and> b \<le> c_num_blocks c - n \<and> free_run (c_data c) b n \<and>
        (\<exists>k. b = c_last_free_bit c + k * n)
     | None \<Rightarrow> (\<forall>k. c_last_free_bit c + k * n \<le> c_num_blocks c - n \<longrightarrow>
                   \<not> free_run (c_data c) (c_last_free_bit c + k * n) n)"
    using search_blocks_spec[of "c_num_blocks c - n" n "c_data c" "c_last_free_bit c"] n w(7) by auto
  show thesis
  proof (cases r)
    case None
    then show thesis using r True sub full free_run_chunk[of _ n c]
      by (auto simp: Chunk_Allocate_def chunk_full_def le_diff_conv2[OF n])
  next
    case (Some b)
    with r n have b: "c_last_free_bit c \<le> b" "b + n \<le> c_num_blocks c" and "free_run (c_data c) b n"
      by auto
    with free_run_chunk[of b n c] have bf: "{b..<b + n} \<inter> chunk_used c = {}" by simp
    have nf: "\<not> chunk_full c n" using r Some b bf by (auto simp: chunk_full_def)
    obtain c' where c': "setBlock c b (b + n) = Some c'" "chunk_wf c'" "same_shape c c'"
      "chunk_used c' = chunk_used c \<union> {b..<b + n}" "c_num_free_blocks c' = c_num_free_blocks c - n"
      "c_last_free_bit c' = b + n"
      using setBlock_ok[OF wf _ b(2) bf] by auto
    have "u64_add b n = b + n" using b(2) w(2) by (intro u64_add_small) auto
    moreover note gb = chunk_global_bounds[OF wf, of b] and gn = chunk_global_bounds[OF wf, of n]
    ultimately show thesis
      using ok[OF _ c'(2,3) b bf c'(4-6) nf] b r c'(1) Some sub True n gb gn
      by (simp add: Chunk_Allocate_def u64)
  qed
qed

lemma alloc_wfD:
  assumes "alloc_wf a"
  shows "0 < ba_block_size a" "4096 \<le> ba_block_size a" "NumBlocks a * ba_block_size a < 2 ^ 64"
    "NumBlocks a < 2 ^ 52"
    "length (ba_chunks a) = (NumBlocks a + 1048575) div 1048576"
    "\<And>i. i < length (ba_chunks a) \<Longrightarrow> chunk_at a i (ba_chunks a ! i)"
proof -
  show bs: "0 < ba_block_size a" and b4: "4096 \<le> ba_block_size a"
    using assms by (auto simp: alloc_wf_def kAlignSize_def dvd_imp_le)
  have "NumBlocks a * ba_block_size a \<le> ba_capacity a" by (simp add: NumBlocks_def)
  then show nb: "NumBlocks a * ba_block_size a < 2 ^ 64"
    using assms by (simp add: alloc_wf_def)
  have "NumBlocks a * 4096 \<le> NumBlocks a * ba_block_size a" using b4 by simp
  from this nb have "NumBlocks a * 4096 < 2 ^ 64" by (rule le_less_trans)
  then show n52: "NumBlocks a < 2 ^ 52" by simp
  then show "length (ba_chunks a) = (NumBlocks a + 1048575) div 1048576"
    using assms by (simp add: alloc_wf_def NumChunks_def kMaxBlocksPerChunk_def u64_add_def)
  show "chunk_at a i (ba_chunks a ! i)" if "i < length (ba_chunks a)" for i
    using assms that by (auto simp: alloc_wf_def list_all_length nth_enumerate_eq)
qed

lemma alloc_wfI:
  assumes "alloc_wf a" "length cs = length (ba_chunks a)"
    "\<And>i. i < length cs \<Longrightarrow> chunk_at a i (cs ! i)"
  shows "alloc_wf (a \<lparr> ba_chunks := cs \<rparr>)"
  using assms
  by (auto simp: alloc_wf_def list_all_length nth_enumerate_eq NumChunks_def NumBlocks_def chunk_at_def)

lemma chunk_at_same_shape: "\<lbrakk>chunk_at a i c; same_shape c c'; chunk_wf c'\<rbrakk> \<Longrightarrow> chunk_at a i c'"
  by (simp add: chunk_at_def same_shape_def)

lemma NumBlocks_update [simp]: "NumBlocks (a \<lparr> ba_chunks := cs \<rparr>) = NumBlocks a"
  by (simp add: NumBlocks_def)

lemma fits_update [simp]: "fits (a \<lparr> ba_chunks := cs \<rparr>) = fits a"
  by (simp add: fits_def fun_eq_iff)

text \<open>A run of local blocks of chunk \<open>i\<close>, as blocks of the device.\<close>

lemma global_run:
  fixes x :: nat
  assumes "b + n \<le> 1048576"
  shows "x \<in> {i * 1048576 + b..<i * 1048576 + b + n} \<longleftrightarrow>
     x div 1048576 = i \<and> x mod 1048576 \<in> {b..<b + n}"
proof -
  define q r where "q = x div 1048576" and "r = x mod 1048576"
  have x: "x = q * 1048576 + r" and r: "r < 1048576" by (simp_all add: q_def r_def)
  have "q = i" if "i * 1048576 + b \<le> x" "x < i * 1048576 + b + n"
    using that x r assms by linarith
  then show ?thesis unfolding q_def[symmetric] r_def[symmetric] atLeastLessThan_iff
    using x by (cases "q = i") auto
qed

lemma chunk_at_last:
  assumes "alloc_wf a" "chunk_at a i c" "b + n \<le> c_num_blocks c" "0 < n"
  shows "i * 1048576 + b + n \<le> NumBlocks a" "b + n \<le> 1048576"
  using assms by (auto simp: chunk_at_def kMaxBlocksPerChunk_def)

lemma alloc_used_update:
  assumes "alloc_wf a" "i < length (ba_chunks a)" "same_shape (ba_chunks a ! i) c'" "b + n \<le> c_num_blocks c'"
    "0 < n"
  defines "a' \<equiv> a \<lparr> ba_chunks := (ba_chunks a)[i := c'] \<rparr>"
    and "run \<equiv> {i * 1048576 + b..<i * 1048576 + b + n}"
  shows "chunk_used c' = chunk_used (ba_chunks a ! i) \<union> {b..<b + n} \<Longrightarrow> alloc_used a' = alloc_used a \<union> run"
    and "chunk_used c' = chunk_used (ba_chunks a ! i) - {b..<b + n} \<Longrightarrow> alloc_used a' = alloc_used a - run"
    and "{b..<b + n} \<inter> chunk_used (ba_chunks a ! i) = {} \<longleftrightarrow> run \<inter> alloc_used a = {}"
    and "{b..<b + n} \<subseteq> chunk_used (ba_chunks a ! i) \<longleftrightarrow> run \<subseteq> alloc_used a"
proof -
  have at: "chunk_at a i (ba_chunks a ! i)" using alloc_wfD(6) assms by blast
  have "b + n \<le> c_num_blocks (ba_chunks a ! i)" using assms by (simp add: same_shape_def)
  note l = chunk_at_last[OF assms(1) at this assms(5)]
  note run = global_run[OF l(2), of _ i, folded run_def]
  have rb: "x < NumBlocks a" if "x \<in> run" for x using that l by (auto simp: run_def)
  have used: "x \<in> alloc_used a \<longleftrightarrow> x mod 1048576 \<in> chunk_used (ba_chunks a ! i)"
    if "x div 1048576 = i" "x < NumBlocks a" for x
    using that assms(2) by (auto simp: alloc_used_def kMaxBlocksPerChunk_def)
  have used': "x \<in> alloc_used a' \<longleftrightarrow>
      (if x div 1048576 = i then x < NumBlocks a \<and> x mod 1048576 \<in> chunk_used c' else x \<in> alloc_used a)" for x
    using assms(2) by (auto simp: alloc_used_def a'_def kMaxBlocksPerChunk_def nth_list_update)
  have ub: "x < NumBlocks a" if "x \<in> alloc_used a" for x using that by (simp add: alloc_used_def)
  have loc: "i * 1048576 + j \<in> run \<and> (i * 1048576 + j) div 1048576 = i \<and> (i * 1048576 + j) mod 1048576 = j"
    if "j \<in> {b..<b + n}" for j using that l by (auto simp: run_def)
  have img: "{b..<b + n} = (\<lambda>x. x mod 1048576) ` run"
  proof (intro set_eqI iffI)
    fix j assume "j \<in> {b..<b + n}"
    with loc[of j] show "j \<in> (\<lambda>x. x mod 1048576) ` run"
      by (intro image_eqI[of _ _ "i * 1048576 + j"]) simp_all
  qed (use run in auto)
  have on_run: "x \<in> alloc_used a \<longleftrightarrow> x mod 1048576 \<in> chunk_used (ba_chunks a ! i)" if "x \<in> run" for x
    using that used[of x] run[of x] rb[of x] by simp
  show "alloc_used a' = alloc_used a \<union> run" if "chunk_used c' = chunk_used (ba_chunks a ! i) \<union> {b..<b + n}"
  proof (rule set_eqI)
    fix x show "x \<in> alloc_used a' \<longleftrightarrow> x \<in> alloc_used a \<union> run"
      using that used[of x] used'[of x] run[of x] rb[of x] ub[of x] by auto
  qed
  show "alloc_used a' = alloc_used a - run" if "chunk_used c' = chunk_used (ba_chunks a ! i) - {b..<b + n}"
  proof (rule set_eqI)
    fix x show "x \<in> alloc_used a' \<longleftrightarrow> x \<in> alloc_used a - run"
      using that used[of x] used'[of x] run[of x] rb[of x] ub[of x] by auto
  qed
  show "{b..<b + n} \<inter> chunk_used (ba_chunks a ! i) = {} \<longleftrightarrow> run \<inter> alloc_used a = {}"
    unfolding img using on_run by blast
  show "{b..<b + n} \<subseteq> chunk_used (ba_chunks a ! i) \<longleftrightarrow> run \<subseteq> alloc_used a"
    unfolding img using on_run by blast
qed

text \<open>From blocks to bytes.\<close>

lemma region_div: "0 < bs \<Longrightarrow> x \<in> region (b * bs) (n * bs) \<longleftrightarrow> x div bs \<in> {b..<b + n}"
  unfolding region_def atLeastLessThan_iff
  by (simp add: less_eq_div_iff_mult_less_eq div_less_iff_less_mult add_mult_distrib)

lemma alloc_bytes_run:
  fixes b n :: nat
  assumes "0 < ba_block_size a" "ba_block_size a' = ba_block_size a"
  defines "reg \<equiv> region (b * ba_block_size a) (n * ba_block_size a)"
  shows "alloc_used a' = alloc_used a \<union> {b..<b + n} \<Longrightarrow> alloc_bytes a' = alloc_bytes a \<union> reg"
    and "alloc_used a' = alloc_used a - {b..<b + n} \<Longrightarrow> alloc_bytes a' = alloc_bytes a - reg"
    and "{b..<b + n} \<inter> alloc_used a = {} \<longleftrightarrow> reg \<inter> alloc_bytes a = {}"
    and "{b..<b + n} \<subseteq> alloc_used a \<longleftrightarrow> reg \<subseteq> alloc_bytes a"
proof -
  note r = region_div[OF assms(1), of _ b n, folded reg_def]
  have s: "j * ba_block_size a \<in> reg \<longleftrightarrow> j \<in> {b..<b + n}" for j
    using r[of "j * ba_block_size a"] assms(1) by simp
  show "alloc_used a' = alloc_used a \<union> {b..<b + n} \<Longrightarrow> alloc_bytes a' = alloc_bytes a \<union> reg"
    "alloc_used a' = alloc_used a - {b..<b + n} \<Longrightarrow> alloc_bytes a' = alloc_bytes a - reg"
    using r assms(2) by (auto simp: alloc_bytes_def)
  have img: "{b..<b + n} = (\<lambda>x. x div ba_block_size a) ` reg"
  proof (intro set_eqI iffI)
    fix j assume "j \<in> {b..<b + n}"
    with s[of j] show "j \<in> (\<lambda>x. x div ba_block_size a) ` reg"
      using assms(1) by (intro image_eqI[of _ _ "j * ba_block_size a"]) simp_all
  qed (use r in auto)
  show "{b..<b + n} \<inter> alloc_used a = {} \<longleftrightarrow> reg \<inter> alloc_bytes a = {}"
    unfolding img alloc_bytes_def by auto
  show "{b..<b + n} \<subseteq> alloc_used a \<longleftrightarrow> reg \<subseteq> alloc_bytes a"
    unfolding img alloc_bytes_def by auto
qed

lemma try_chunks_cases:
  assumes "\<forall>c\<in>set cs. chunk_wf c" "cs \<noteq> []"
  shows "(\<exists>i u' c'. i < length cs \<and> Chunk_Allocate (cs ! i) n u = Some (Status_OK, u', c') \<and>
            \<not> chunk_full (cs ! i) n \<and> try_chunks cs n b e s u = Some (Status_OK, u', cs[i := c'])) \<or>
     (\<exists>m. try_chunks cs n b e s u = Some ((if b < e then Status CYPRE_ES_DISK_NO_SPACE m else s), u, cs) \<and>
            (\<forall>k\<in>{b..<e}. chunk_full (cs ! (k mod length cs)) n))"
  using assms
proof (induction cs n b e s u rule: try_chunks.induct)
  case (1 cs n b e s u)
  show ?case
  proof (cases "b < e")
    case True
    let ?i = "b mod length cs"
    have i: "?i < length cs" using 1 by simp
    with 1 have "chunk_wf (cs ! ?i)" by simp
    then show ?thesis
    proof (cases rule: Chunk_Allocate_cases[where n = n and u = u])
      case (ok b' c')
      then have "try_chunks cs n b e s u = Some (Status_OK,
          \<lparr> au_offset = (c_chunk_idx (cs ! ?i) * 1048576 + b') * c_block_size (cs ! ?i),
            au_size = n * c_block_size (cs ! ?i) \<rparr>, cs[?i := c'])"
        using i True by (subst try_chunks.simps) (simp add: Let_def)
      then show ?thesis using ok(1,10) i by blast
    next
      case (full m)
      have step: "try_chunks cs n b e s u = try_chunks cs n (Suc b) e (Status CYPRE_ES_DISK_NO_SPACE m) u"
        using full i True by (subst try_chunks.simps) (simp add: Let_def)
      have split: "{b..<e} = insert b {Suc b..<e}" using True by auto
      note full(2)
      moreover note 1(1)[OF True refl i full(1) refl refl]
      ultimately show ?thesis
        using 1(2,3) i True unfolding step split by (auto split: if_splits)
    qed
  qed (subst (1 2) try_chunks.simps, simp)
qed

lemma calcBlocksBySize_eq:
  assumes "0 < ba_block_size a" "ba_block_size a < 2 ^ 64" "sz < 2 ^ 64" "calcBlocksBySize a sz \<noteq> 0"
  shows "calcBlocksBySize a sz = (sz + ba_block_size a - 1) div ba_block_size a"
proof -
  let ?bs = "ba_block_size a"
  consider "sz + ?bs < 2 ^ 64" | "sz + ?bs = 2 ^ 64" | "2 ^ 64 < sz + ?bs" by linarith
  then show ?thesis
  proof cases
    case 1
    then show ?thesis using assms(1) by (simp add: calcBlocksBySize_def u64_add_def u64_sub_small)
  next
    case 2
    then show ?thesis by (simp add: calcBlocksBySize_def u64_add_def u64_sub_def)
  next
    case 3
    then have "u64_add sz ?bs = sz + ?bs - 2 ^ 64"
      using assms(2,3) unfolding u64_add_def by (subst le_mod_geq) auto
    moreover from this 3 have "u64_sub (u64_add sz ?bs) 1 = sz + ?bs - 2 ^ 64 - 1"
      using assms(2,3) by (subst u64_sub_small) auto
    moreover have "sz + ?bs - 2 ^ 64 - 1 < ?bs" using assms by linarith
    ultimately show ?thesis using assms(4) by (simp add: calcBlocksBySize_def)
  qed
qed

lemma mod_range_cover:
  assumes "0 < (N::nat)" "i < N" shows "\<exists>k\<in>{b..<b + N}. k mod N = i"
proof -
  define q r where "q = b div N" and "r = b mod N"
  have b: "b = q * N + r" and r: "r < N" using assms by (simp_all add: q_def r_def)
  let ?k = "if r \<le> i then q * N + i else Suc q * N + i"
  have "?k mod N = i" using assms by (simp only: mod_mult_self3 mod_less if_cancel split: if_split) simp
  moreover have "?k \<in> {b..<b + N}" using assms b r by auto
  ultimately show ?thesis by blast
qed

lemma NumChunks_eq: "alloc_wf a \<Longrightarrow> NumChunks a = length (ba_chunks a)"
  by (simp add: alloc_wf_def)

text \<open>What \<open>BitmapAllocator::Allocate\<close> does on every branch.\<close>

lemma BitmapAllocator_Allocate_cases:
  assumes wf: "alloc_wf a" and want: "want < 2 ^ 64"
  obtains
    (ok) off sz a' where
      "BitmapAllocator_Allocate a rnd want u = Some (Status_OK, \<lparr> au_offset = off, au_size = sz \<rparr>, a')"
      "alloc_wf a'" "fits a' = fits a" "fits a off sz" "want \<le> sz" "sz < want + ba_block_size a"
      "region off sz \<inter> alloc_bytes a = {}" "alloc_bytes a' = alloc_bytes a \<union> region off sz"
      "\<exists>c\<in>set (ba_chunks a). \<not> chunk_full c (calcBlocksBySize a want)" "NumBlocks a \<noteq> 0"
      "calcBlocksBySize a want \<noteq> 0"
  | (fail) s where
      "BitmapAllocator_Allocate a rnd want u = Some (s, u, a)" "\<not> st_ok s"
      "s = Status CYPRE_ES_DISK_EMPTY ''bitmap allocator empty'' \<and> NumBlocks a = 0 \<or>
       s = Status CYPRE_ER_INVALID_ARGUMENT ''invalid want_size'' \<and> calcBlocksBySize a want = 0 \<or>
       st_code s = CYPRE_ES_DISK_NO_SPACE \<and> (\<forall>c\<in>set (ba_chunks a). chunk_full c (calcBlocksBySize a want))"
proof -
  note w = alloc_wfD[OF wf]
  let ?bs = "ba_block_size a" and ?n = "calcBlocksBySize a want" and ?cs = "ba_chunks a"
  show thesis
  proof (cases "Allocator_Empty a \<or> ?n = 0")
    case True
    have "NumBlocks a = 0" if "Allocator_Empty a"
      using that w(5) NumChunks_eq[OF wf] by (simp add: Allocator_Empty_def)
    with True show thesis
      by (cases "Allocator_Empty a")
        (use fail in \<open>simp_all add: BitmapAllocator_Allocate_def Let_def\<close>)
  next
    case False
    then have ne: "?cs \<noteq> []" "?n \<noteq> 0" using NumChunks_eq[OF wf] by (auto simp: Allocator_Empty_def)
    have cwf: "chunk_wf c" if "c \<in> set ?cs" for c
      using that w(6) by (metis chunk_at_def in_set_conv_nth)
    let ?b = "rnd mod length ?cs"
    have eq: "BitmapAllocator_Allocate a rnd want u =
        (case try_chunks ?cs ?n ?b (?b + length ?cs) Status_OK u of
           None \<Rightarrow> None | Some (s, u', cs) \<Rightarrow> Some (s, u', a \<lparr> ba_chunks := cs \<rparr>))"
      using False by (simp add: BitmapAllocator_Allocate_def Let_def)
    have "\<forall>c\<in>set ?cs. chunk_wf c" using cwf by blast
    from try_chunks_cases[OF this ne(1), of ?n u ?b "?b + length ?cs" Status_OK] ne(1)
    consider (A) i u' c' where "i < length ?cs" "Chunk_Allocate (?cs ! i) ?n u = Some (Status_OK, u', c')"
        "\<not> chunk_full (?cs ! i) ?n" "try_chunks ?cs ?n ?b (?b + length ?cs) Status_OK u = Some (Status_OK, u', ?cs[i := c'])"
      | (B) m where "try_chunks ?cs ?n ?b (?b + length ?cs) Status_OK u =
            Some (Status CYPRE_ES_DISK_NO_SPACE m, u, ?cs)"
          "\<forall>k\<in>{?b..<?b + length ?cs}. chunk_full (?cs ! (k mod length ?cs)) ?n"
      by auto
    then show thesis
    proof cases
      case B
      have "chunk_full c ?n" if "c \<in> set ?cs" for c
        using that B(2) mod_range_cover[of "length ?cs"] ne by (metis in_set_conv_nth length_greater_0_conv)
      then show thesis using fail B eq by simp
    next
      case A
      have cat: "chunk_at a i (?cs ! i)" and cw: "chunk_wf (?cs ! i)" using A w(6) cwf by auto
      from cw show thesis
      proof (cases rule: Chunk_Allocate_cases[where n = ?n and u = u])
        case (full m)
        then show thesis using A by simp
      next
        case (ok b c'')
        define g where "g = i * 1048576 + b"
        have c'': "c'' = c'" and u': "u' = \<lparr> au_offset = g * ?bs, au_size = ?n * ?bs \<rparr>"
          using ok A cat by (auto simp: chunk_at_def g_def)
        have n0: "0 < ?n" using ne by simp
        note last = chunk_at_last[OF wf cat ok(5) n0]
        let ?a = "a \<lparr> ba_chunks := ?cs[i := c'] \<rparr>"
        note upd = alloc_used_update[OF wf A(1) ok(3)[unfolded c''] _ n0, where b = b]
        have bnd: "b + ?n \<le> c_num_blocks c'" using ok(3,5) c'' by (simp add: same_shape_def)
        have "alloc_used ?a = alloc_used a \<union> {g..<g + ?n}"
          using upd(1)[OF bnd] ok(7) c'' by (simp add: g_def)
        then have bytes: "alloc_bytes ?a = alloc_bytes a \<union> region (g * ?bs) (?n * ?bs)"
          using alloc_bytes_run(1)[OF w(1)] by simp
        have "{g..<g + ?n} \<inter> alloc_used a = {}" using upd(3)[OF bnd] ok(6) by (simp add: g_def)
        then have disj: "region (g * ?bs) (?n * ?bs) \<inter> alloc_bytes a = {}"
          using alloc_bytes_run(3)[OF w(1) refl] by simp
        have wf': "alloc_wf ?a"
          using w(6) A(1) chunk_at_same_shape[OF cat ok(3) ok(2)] c''
          by (intro alloc_wfI[OF wf]) (auto simp: nth_list_update)
        have fit: "fits a (g * ?bs) (?n * ?bs)"
          using w(1) n0 last by (simp add: fits_def g_def kMaxBlocksPerChunk_def)
        have "0 < NumBlocks a" using last n0 by simp
        then have "1 * ?bs \<le> NumBlocks a * ?bs" by (intro mult_right_mono) auto
        then have "?bs < 2 ^ 64" using w(3) by linarith
        from calcBlocksBySize_eq[OF w(1) this want ne(2)] ceil_div_bounds[OF w(1), of want]
        have "want \<le> ?n * ?bs" "?n * ?bs < want + ?bs" by simp_all
        moreover have "\<exists>c\<in>set ?cs. \<not> chunk_full c ?n" using A(1,3) nth_mem by blast
        ultimately show thesis
          using eq A(4) u' wf' fit bytes disj ne(2) \<open>0 < NumBlocks a\<close>
          by (intro that(1)[of "g * ?bs" "?n * ?bs" ?a]) simp_all
      qed
    qed
  qed
qed

lemma fits_chunk:
  assumes wf: "alloc_wf a" and f: "fits a off sz"
  obtains b n i where "off = b * ba_block_size a" "sz = n * ba_block_size a" "0 < n"
    "i = calcChunkIdxByOffset a off" "i < length (ba_chunks a)"
    "off div ba_block_size a = b" "sz div ba_block_size a = n"
    "b = i * 1048576 + b mod 1048576" "b mod 1048576 + n \<le> c_num_blocks (ba_chunks a ! i)"
    "u64_sub b (globalBlockIndex (ba_chunks a ! i)) = b mod 1048576"
    "u64_add (b mod 1048576) n = b mod 1048576 + n"
proof -
  note w = alloc_wfD[OF wf]
  let ?bs = "ba_block_size a"
  define b n i where "b = off div ?bs" and "n = sz div ?bs" and "i = b div 1048576"
  have bn: "off = b * ?bs" "sz = n * ?bs" "0 < n" "b + n \<le> NumBlocks a" "b mod 1048576 + n \<le> 1048576"
    using f by (auto simp: fits_def b_def n_def Let_def kMaxBlocksPerChunk_def)
  have b: "b = i * 1048576 + b mod 1048576" by (simp add: i_def)
  have i: "i < length (ba_chunks a)" using bn b unfolding w(5) by linarith
  note at = w(6)[OF i]
  have lb: "b mod 1048576 + n \<le> c_num_blocks (ba_chunks a ! i)"
    using at bn b by (auto simp: chunk_at_def kMaxBlocksPerChunk_def)
  have cw: "chunk_wf (ba_chunks a ! i)" and ci: "c_chunk_idx (ba_chunks a ! i) = i"
    using at by (auto simp: chunk_at_def)
  have "globalBlockIndex (ba_chunks a ! i) = i * 1048576"
    using chunk_global_bounds(1)[OF cw, of 0] ci by simp
  moreover have "b < 2 ^ 64" using bn w(4) by simp
  ultimately have "u64_sub b (globalBlockIndex (ba_chunks a ! i)) = b mod 1048576"
    using b by (subst u64_sub_small) auto
  moreover have "u64_add (b mod 1048576) n = b mod 1048576 + n"
    using bn(5) by (intro u64_add_small) auto
  moreover have "i = calcChunkIdxByOffset a off"
    by (simp add: calcChunkIdxByOffset_def i_def b_def kMaxBlocksPerChunk_def)
  ultimately show thesis
    using that[OF bn(1-3) _ i b_def[symmetric] n_def[symmetric] b lb] by blast
qed

lemma alloc_wf_update:
  assumes "alloc_wf a" "i < length (ba_chunks a)" "same_shape (ba_chunks a ! i) c'" "chunk_wf c'"
  shows "alloc_wf (a \<lparr> ba_chunks := (ba_chunks a)[i := c'] \<rparr>)"
  using assms alloc_wfD(6)[OF assms(1)] chunk_at_same_shape[OF _ assms(3,4)]
  by (intro alloc_wfI) (auto simp: nth_list_update)

lemma BitmapAllocator_Free_ok:
  assumes wf: "alloc_wf a" and f: "fits a off sz" and used: "region off sz \<subseteq> alloc_bytes a"
  obtains a' where "BitmapAllocator_Free a off sz = Some a'" "alloc_wf a'" "fits a' = fits a"
    "alloc_bytes a' = alloc_bytes a - region off sz"
proof -
  note w = alloc_wfD[OF wf]
  obtain b n i where F: "off = b * ba_block_size a" "sz = n * ba_block_size a" "0 < n"
    "i = calcChunkIdxByOffset a off" "i < length (ba_chunks a)"
    "off div ba_block_size a = b" "sz div ba_block_size a = n"
    "b = i * 1048576 + b mod 1048576" "b mod 1048576 + n \<le> c_num_blocks (ba_chunks a ! i)"
    "u64_sub b (globalBlockIndex (ba_chunks a ! i)) = b mod 1048576"
    "u64_add (b mod 1048576) n = b mod 1048576 + n"
    using fits_chunk[OF wf f] by metis
  let ?c = "ba_chunks a ! i" and ?lb = "b mod 1048576"
  have cw: "chunk_wf ?c" and bs: "c_block_size ?c = ba_block_size a" using w(6)[OF F(5)] by (auto simp: chunk_at_def)
  have "{b..<b + n} \<subseteq> alloc_used a" using used alloc_bytes_run(4)[OF w(1) refl] F(1,2) by simp
  then have "{i * 1048576 + ?lb..<i * 1048576 + ?lb + n} \<subseteq> alloc_used a" unfolding F(8)[symmetric] .
  then have lu: "{?lb..<?lb + n} \<subseteq> chunk_used ?c"
    using alloc_used_update(4)[OF wf F(5) _ F(9,3)] by (simp add: same_shape_def)
  obtain c' where c': "unsetBlock ?c ?lb (?lb + n) = Some c'" "chunk_wf c'" "same_shape ?c c'"
    "chunk_used c' = chunk_used ?c - {?lb..<?lb + n}"
    using unsetBlock_ok[OF cw le_add1 F(9) lu] by blast
  let ?a = "a \<lparr> ba_chunks := (ba_chunks a)[i := c'] \<rparr>"
  have "?lb + n \<le> c_num_blocks c'" using F(9) c'(3) by (simp add: same_shape_def)
  from alloc_used_update(2)[OF wf F(5) c'(3) this F(3) c'(4)]
  have "alloc_used ?a = alloc_used a - {b..<b + n}" unfolding F(8)[symmetric] .
  then have "alloc_bytes ?a = alloc_bytes a - region off sz"
    using alloc_bytes_run(2)[OF w(1)] F(1,2) by simp
  moreover have "BitmapAllocator_Free a off sz = Some ?a"
    using F(5) c'(1) by (simp add: BitmapAllocator_Free_def update_chunk_def F(4)[symmetric] Chunk_Free_def
        bs F(6,7,10,11))
  ultimately show thesis using that alloc_wf_update[OF wf F(5) c'(3,2)] by simp
qed

lemma BitmapAllocator_Mark_ok:
  assumes wf: "alloc_wf a" and f: "fits a off sz" and free: "region off sz \<inter> alloc_bytes a = {}"
  obtains a' where "BitmapAllocator_Mark a off sz = Some a'" "alloc_wf a'" "fits a' = fits a"
    "alloc_bytes a' = alloc_bytes a \<union> region off sz"
proof -
  note w = alloc_wfD[OF wf]
  obtain b n i where F: "off = b * ba_block_size a" "sz = n * ba_block_size a" "0 < n"
    "i = calcChunkIdxByOffset a off" "i < length (ba_chunks a)"
    "off div ba_block_size a = b" "sz div ba_block_size a = n"
    "b = i * 1048576 + b mod 1048576" "b mod 1048576 + n \<le> c_num_blocks (ba_chunks a ! i)"
    "u64_sub b (globalBlockIndex (ba_chunks a ! i)) = b mod 1048576"
    "u64_add (b mod 1048576) n = b mod 1048576 + n"
    using fits_chunk[OF wf f] by metis
  let ?c = "ba_chunks a ! i" and ?lb = "b mod 1048576"
  have cw: "chunk_wf ?c" and bs: "c_block_size ?c = ba_block_size a" using w(6)[OF F(5)] by (auto simp: chunk_at_def)
  have "{b..<b + n} \<inter> alloc_used a = {}" using free alloc_bytes_run(3)[OF w(1) refl] F(1,2) by simp
  then have "{i * 1048576 + ?lb..<i * 1048576 + ?lb + n} \<inter> alloc_used a = {}" unfolding F(8)[symmetric] .
  then have lu: "{?lb..<?lb + n} \<inter> chunk_used ?c = {}"
    using alloc_used_update(3)[OF wf F(5) _ F(9,3)] by (simp add: same_shape_def)
  obtain c' where c': "setBlock ?c ?lb (?lb + n) = Some c'" "chunk_wf c'" "same_shape ?c c'"
    "chunk_used c' = chunk_used ?c \<union> {?lb..<?lb + n}"
    using setBlock_ok[OF cw le_add1 F(9) lu] by blast
  let ?a = "a \<lparr> ba_chunks := (ba_chunks a)[i := c'] \<rparr>"
  have "?lb + n \<le> c_num_blocks c'" using F(9) c'(3) by (simp add: same_shape_def)
  from alloc_used_update(1)[OF wf F(5) c'(3) this F(3) c'(4)]
  have "alloc_used ?a = alloc_used a \<union> {b..<b + n}" unfolding F(8)[symmetric] .
  then have "alloc_bytes ?a = alloc_bytes a \<union> region off sz"
    using alloc_bytes_run(1)[OF w(1)] F(1,2) by simp
  moreover have "BitmapAllocator_Mark a off sz = Some ?a"
    using F(5) c'(1) by (simp add: BitmapAllocator_Mark_def update_chunk_def F(4)[symmetric] Chunk_Mark_def
        bs F(6,7,10,11))
  ultimately show thesis using that alloc_wf_update[OF wf F(5) c'(3,2)] by simp
qed

lemma make_chunks_nth:
  "length (make_chunks i m nb bs) = m - i \<and>
   (\<forall>k < m - i. make_chunks i m nb bs ! k = Chunk (i + k) (min kMaxBlocksPerChunk (nb - k * kMaxBlocksPerChunk)) bs)"
proof (induction i m nb bs rule: make_chunks.induct)
  case (1 i m nb bs)
  let ?p = "min kMaxBlocksPerChunk nb"
  show ?case
  proof (cases "i < m")
    case True
    have p: "(if nb > kMaxBlocksPerChunk then kMaxBlocksPerChunk else nb) = ?p" by simp
    have step: "make_chunks i m nb bs = Chunk i ?p bs # make_chunks (Suc i) m (nb - ?p) bs"
      using True by (subst make_chunks.simps) (simp add: p Let_def del: min_def)
    have "min kMaxBlocksPerChunk (nb - ?p - k * kMaxBlocksPerChunk) =
          min kMaxBlocksPerChunk (nb - Suc k * kMaxBlocksPerChunk)" for k
      by (cases "nb \<le> kMaxBlocksPerChunk") (auto simp: min_def)
    then show ?thesis
      using 1[OF True p[symmetric]] True unfolding step by (auto simp: nth_Cons split: nat.split)
  qed (subst (1 2) make_chunks.simps, simp)
qed

lemma BitmapAllocator_Init_ok:
  assumes "0 < bs" "kAlignSize dvd bs" "bs \<le> cap" "cap < 2 ^ 64"
  obtains a' where "BitmapAllocator_Init a bs cap = (Status_OK, a')" "alloc_wf a'"
    "ba_block_size a' = bs" "NumBlocks a' = cap div bs" "alloc_used a' = {}"
proof -
  let ?a1 = "a \<lparr> ba_block_size := bs, ba_capacity := cap \<rparr>"
  let ?cs = "make_chunks 0 (NumChunks ?a1) (NumBlocks ?a1) bs" and ?K = kMaxBlocksPerChunk
  let ?a = "?a1 \<lparr> ba_chunks := ?cs \<rparr>"
  have nb: "NumBlocks ?a1 = cap div bs" by (simp add: NumBlocks_def)
  have ch: "chunk_wf (Chunk k (min ?K (cap div bs - k * ?K)) bs) \<and>
      chunk_used (Chunk k (min ?K (cap div bs - k * ?K)) bs) = {}" if "k < NumChunks ?a1" for k
  proof -
    have "4096 \<le> bs" using assms by (simp add: dvd_imp_le kAlignSize_def)
    then have "cap div bs \<le> cap div 4096" by (rule div_le_mono2[rotated]) simp
    moreover have "cap div 4096 < 2 ^ 52" using assms(4) by (simp add: div_less_iff_less_mult)
    ultimately have "cap div bs < 2 ^ 52" by (rule le_less_trans)
    then have nc: "NumChunks ?a1 = (cap div bs + 1048575) div 1048576"
      by (simp add: NumChunks_def nb kMaxBlocksPerChunk_def u64_add_def)
    then have "k * ?K + min ?K (cap div bs - k * ?K) \<le> cap div bs"
      using that by (auto simp: kMaxBlocksPerChunk_def min_def)
    then have "(k * ?K + min ?K (cap div bs - k * ?K)) * bs \<le> cap div bs * bs" by (rule mult_right_mono) simp
    also have "\<dots> \<le> cap" by simp
    finally show ?thesis using assms by (intro conjI Chunk_wf) (auto)
  qed
  have wf: "alloc_wf ?a"
    unfolding alloc_wf_def list_all_length
    using make_chunks_nth[of 0 "NumChunks ?a1" "NumBlocks ?a1" bs] ch assms
    by (auto simp: nth_enumerate_eq chunk_at_def nb NumChunks_def NumBlocks_def Chunk_def kMaxBlocksPerChunk_def)
  have "alloc_used ?a = {}"
    using make_chunks_nth[of 0 "NumChunks ?a1" "NumBlocks ?a1" bs] ch
    by (auto simp: alloc_used_def nb)
  moreover have "BitmapAllocator_Init a bs cap = (Status_OK, ?a)"
    using assms by (simp add: BitmapAllocator_Init_def Let_def dvd_eq_mod_eq_0)
  ultimately show thesis using that wf nb by simp
qed

end
