(* ===== verification/Space_Allocator.thy ===== *)
theory Space_Allocator
  imports Bitmap_Allocator
begin

text \<open>
  The contract of the space allocator: the free and used counters equal what the bitmaps
  say, the locale \<open>space_allocator\<close> states over byte addresses what a client may rely
  on, and its interpretation \<open>space\<close> discharges it for \<open>SpaceAlloc\<close>. The
  client's table of extents (\<open>extents_ok\<close>) is maintained inside the locale. The last
  section holds the properties of the allocator.
\<close>

definition demo_allocator :: bitmap_allocator where
  "demo_allocator = snd (BitmapAllocator_Init empty_allocator 4096 16384)"

section \<open>The counters\<close>

lemma sum_chunks_eq:
  assumes "m \<le> length cs" "acc + sum_list (map f (drop i (take m cs))) < 2 ^ 64" "i \<le> m"
  shows "sum_chunks f cs i m acc = Some (acc + sum_list (map f (drop i (take m cs))))"
  using assms
proof (induction f cs i m acc rule: sum_chunks.induct)
  case (1 f cs i m acc)
  show ?case
  proof (cases "i < m")
    case True
    have d: "drop i (take m cs) = cs ! i # drop (Suc i) (take m cs)"
      using True 1(2) by (simp add: Cons_nth_drop_Suc[symmetric])
    have "u64_add acc (f (cs ! i)) = acc + f (cs ! i)"
      using 1(3) unfolding d by (intro u64_add_small) simp
    then show ?thesis
      using 1 True unfolding d by (subst sum_chunks.simps) simp
  qed (use 1 in \<open>subst sum_chunks.simps, simp\<close>)
qed

lemma card_alloc_used:
  assumes wf: "alloc_wf a"
  shows "card (alloc_used a) = sum_list (map (\<lambda>c. card (chunk_used c)) (ba_chunks a))"
proof -
  let ?cs = "ba_chunks a" and ?g = "\<lambda>i j. i * 1048576 + (j::nat)"
  note w = alloc_wfD[OF wf]
  have b: "j < 1048576 \<and> i * 1048576 + j < NumBlocks a" if "i < length ?cs" "j \<in> chunk_used (?cs ! i)" for i j
    using that chunk_used_bound[of "?cs ! i"] w(6)[of i] by (fastforce simp: chunk_at_def kMaxBlocksPerChunk_def)
  have "x \<in> alloc_used a \<longleftrightarrow> x \<in> (\<Union>i<length ?cs. ?g i ` chunk_used (?cs ! i))" for x
  proof
    assume "x \<in> alloc_used a"
    then have "x div 1048576 < length ?cs" "x mod 1048576 \<in> chunk_used (?cs ! (x div 1048576))"
      by (auto simp: alloc_used_def kMaxBlocksPerChunk_def)
    then show "x \<in> (\<Union>i<length ?cs. ?g i ` chunk_used (?cs ! i))"
      by (intro UN_I[of "x div 1048576"] image_eqI[of _ _ "x mod 1048576"]) auto
  next
    assume "x \<in> (\<Union>i<length ?cs. ?g i ` chunk_used (?cs ! i))"
    then obtain i j where ij: "i < length ?cs" "j \<in> chunk_used (?cs ! i)" "x = i * 1048576 + j" by auto
    with b[OF ij(1,2)] show "x \<in> alloc_used a" by (simp add: alloc_used_def kMaxBlocksPerChunk_def)
  qed
  then have "alloc_used a = (\<Union>i<length ?cs. ?g i ` chunk_used (?cs ! i))" by blast
  moreover have "card (\<Union>i<length ?cs. ?g i ` chunk_used (?cs ! i)) = (\<Sum>i<length ?cs. card (?g i ` chunk_used (?cs ! i)))"
  proof (rule card_UN_disjoint)
    show "\<forall>i\<in>{..<length ?cs}. \<forall>j\<in>{..<length ?cs}. i \<noteq> j \<longrightarrow>
        ?g i ` chunk_used (?cs ! i) \<inter> ?g j ` chunk_used (?cs ! j) = {}"
    proof (intro ballI impI)
      fix i j assume ij: "i \<in> {..<length ?cs}" "j \<in> {..<length ?cs}" "i \<noteq> j"
      have "i * 1048576 + p \<noteq> j * 1048576 + q" if "p \<in> chunk_used (?cs ! i)" "q \<in> chunk_used (?cs ! j)" for p q
        using that b[of i p] b[of j q] ij by auto
      then show "?g i ` chunk_used (?cs ! i) \<inter> ?g j ` chunk_used (?cs ! j) = {}" by blast
    qed
  qed auto
  moreover have "card (?g i ` chunk_used (?cs ! i)) = card (chunk_used (?cs ! i))" for i
    by (rule card_image) (auto simp: inj_on_def)
  ultimately show ?thesis by (simp add: sum_list_sum_nth atLeast0LessThan)
qed

lemma alloc_counters:
  assumes wf: "alloc_wf a"
  shows "UsedBlocks a = Some (card (alloc_used a))"
    and "FreeBlocks a = Some (NumBlocks a - card (alloc_used a))"
proof -
  let ?cs = "ba_chunks a"
  note w = alloc_wfD[OF wf]
  have at: "chunk_at a i c" if "i < length ?cs" "c = ?cs ! i" for i c using that w(6) by simp
  have cw: "c_num_free_blocks c + card (chunk_used c) = c_num_blocks c \<and> c_num_blocks c < 2 ^ 64"
    if "c \<in> set ?cs" for c
    using that w(6) chunk_wfD(2,5)[of c] by (auto simp: in_set_conv_nth chunk_at_def)
  have uf: "Chunk_UsedBlocks c = card (chunk_used c)" if "c \<in> set ?cs" for c
  proof -
    have "c_num_free_blocks c \<le> c_num_blocks c" "c_num_blocks c < 2 ^ 64"
      "c_num_blocks c - c_num_free_blocks c = card (chunk_used c)"
      using cw[OF that] by linarith+
    then show ?thesis by (simp add: Chunk_UsedBlocks_def Chunk_FreeBlocks_def u64_sub_small)
  qed
  have tot: "sum_list (map c_num_blocks (take m ?cs)) = min (m * 1048576) (NumBlocks a)" if "m \<le> length ?cs" for m
    using that
  proof (induction m)
    case (Suc m)
    then have "c_num_blocks (?cs ! m) = min 1048576 (NumBlocks a - m * 1048576)"
      using at[of m] by (simp add: chunk_at_def kMaxBlocksPerChunk_def)
    then show ?case using Suc by (simp add: take_Suc_conv_app_nth)
  qed simp
  have "NumBlocks a \<le> length ?cs * 1048576" unfolding w(5) by linarith
  with tot[of "length ?cs"] have all: "sum_list (map c_num_blocks ?cs) = NumBlocks a" by simp
  have split: "sum_list (map c_num_blocks ?cs) =
      sum_list (map c_num_free_blocks ?cs) + sum_list (map (\<lambda>c. card (chunk_used c)) ?cs)"
    using cw by (subst sum_list_addf[symmetric]) (auto intro!: arg_cong[where f = sum_list] map_cong)
  have fs: "map Chunk_FreeBlocks ?cs = map c_num_free_blocks ?cs" by (simp add: Chunk_FreeBlocks_def)
  have us: "map Chunk_UsedBlocks ?cs = map (\<lambda>c. card (chunk_used c)) ?cs" using uf by simp
  have lt: "NumBlocks a < 2 ^ 64" using w(4) by simp
  have "sum_list (map Chunk_UsedBlocks ?cs) < 2 ^ 64" "sum_list (map Chunk_FreeBlocks ?cs) < 2 ^ 64"
    unfolding us fs using lt all split by linarith+
  from sum_chunks_eq[of "NumChunks a" ?cs 0 Chunk_UsedBlocks 0] this(1)
    sum_chunks_eq[of "NumChunks a" ?cs 0 Chunk_FreeBlocks 0] this(2)
  have "UsedBlocks a = Some (sum_list (map Chunk_UsedBlocks ?cs))"
    "FreeBlocks a = Some (sum_list (map Chunk_FreeBlocks ?cs))"
    by (simp_all add: UsedBlocks_def FreeBlocks_def NumChunks_eq[OF wf])
  then show "UsedBlocks a = Some (card (alloc_used a))"
    "FreeBlocks a = Some (NumBlocks a - card (alloc_used a))"
    unfolding us fs card_alloc_used[OF wf] using all split by simp_all
qed

section \<open>The contract of a space allocator\<close>

locale space_allocator =
  fixes inv :: "'s \<Rightarrow> bool"
    and bytes :: "'s \<Rightarrow> nat set"
    and fit :: "'s \<Rightarrow> nat \<Rightarrow> nat \<Rightarrow> bool"
    and allocate :: "'s \<Rightarrow> nat \<Rightarrow> nat \<Rightarrow> aunit \<Rightarrow> (status \<times> aunit \<times> 's) option"
    and release :: "'s \<Rightarrow> nat \<Rightarrow> nat \<Rightarrow> 's option"
    and mark :: "'s \<Rightarrow> nat \<Rightarrow> nat \<Rightarrow> 's option"
  assumes allocate_total: "\<lbrakk>inv s; want < 2 ^ 64\<rbrakk> \<Longrightarrow> \<exists>st u' s'. allocate s rnd want u = Some (st, u', s')"
    and allocate_ok: "\<lbrakk>inv s; want < 2 ^ 64; allocate s rnd want u = Some (st, u', s'); st_ok st\<rbrakk> \<Longrightarrow>
        inv s' \<and> fit s' = fit s \<and> fit s (au_offset u') (au_size u') \<and> want \<le> au_size u' \<and>
        region (au_offset u') (au_size u') \<inter> bytes s = {} \<and>
        bytes s' = bytes s \<union> region (au_offset u') (au_size u')"
    and allocate_fail: "\<lbrakk>inv s; want < 2 ^ 64; allocate s rnd want u = Some (st, u', s'); \<not> st_ok st\<rbrakk> \<Longrightarrow>
        s' = s \<and> u' = u"
    and release_ok: "\<lbrakk>inv s; fit s off sz; region off sz \<subseteq> bytes s\<rbrakk> \<Longrightarrow>
        \<exists>s'. release s off sz = Some s' \<and> inv s' \<and> fit s' = fit s \<and> bytes s' = bytes s - region off sz"
    and mark_ok: "\<lbrakk>inv s; fit s off sz; region off sz \<inter> bytes s = {}\<rbrakk> \<Longrightarrow>
        \<exists>s'. mark s off sz = Some s' \<and> inv s' \<and> fit s' = fit s \<and> bytes s' = bytes s \<union> region off sz"
begin

text \<open>A table of extents stays a table of disjoint, allocated regions: the new entry of
  an allocation, the removal of an entry whose region is released, and the marking of
  a stored entry.\<close>

lemma table_allocate:
  assumes "inv s" "want < 2 ^ 64" "allocate s rnd want u = Some (st, u', s')" "st_ok st"
    "extents_ok (fit s) (bytes s) m"
  shows "extents_ok (fit s') (bytes s') (m(k \<mapsto> (au_offset u', au_size u')))"
  using allocate_ok[OF assms(1-4)] assms(5) unfolding extents_ok_def
  by (auto split: if_splits) blast+

lemma table_mark:
  assumes "inv s" "fit s off sz" "region off sz \<inter> bytes s = {}" "extents_ok (fit s) (bytes s) m"
  shows "\<exists>s'. mark s off sz = Some s' \<and> inv s' \<and> fit s' = fit s \<and> bytes s' = bytes s \<union> region off sz \<and>
     extents_ok (fit s') (bytes s') (m(k \<mapsto> (off, sz)))"
  using mark_ok[OF assms(1-3)] assms(2-4) unfolding extents_ok_def
  by (auto split: if_splits) blast+

lemma table_release:
  assumes "inv s" "extents_ok (fit s) (bytes s) m" "m k = Some (off, sz)"
  shows "\<exists>s'. release s off sz = Some s' \<and> inv s' \<and> fit s' = fit s \<and> bytes s' = bytes s - region off sz \<and>
     extents_ok (fit s') (bytes s') (m(k := None))"
proof -
  have "fit s off sz" "region off sz \<subseteq> bytes s" using assms(2,3) by (auto simp: extents_ok_def)
  from release_ok[OF assms(1) this] obtain s' where s': "release s off sz = Some s'" "inv s'" "fit s' = fit s"
    "bytes s' = bytes s - region off sz" by blast
  have "extents_ok (fit s') (bytes s') (m(k := None))"
    using assms(2,3) s'(3,4) unfolding extents_ok_def by (auto split: if_splits) blast+
  with s' show ?thesis by blast
qed

end

lemma space_wfE:
  assumes "space_wf sa"
  obtains a where "sa_bitmap_alloc sa = Some a" "alloc_wf a"
  using assms by (auto simp: space_wf_def split: option.splits)

lemma SpaceAlloc_Allocate_cases:
  assumes "space_wf sa" "want < 2 ^ 64"
  obtains
    (ok) off sz sa' where
      "SpaceAlloc_Allocate sa rnd want u = Some (Status_OK, \<lparr> au_offset = off, au_size = sz \<rparr>, sa')"
      "space_wf sa'" "space_fits sa' = space_fits sa" "space_fits sa off sz" "want \<le> sz"
      "region off sz \<inter> space_bytes sa = {}" "space_bytes sa' = space_bytes sa \<union> region off sz"
  | (fail) s where "SpaceAlloc_Allocate sa rnd want u = Some (s, u, sa)" "\<not> st_ok s"
proof -
  obtain a where a: "sa_bitmap_alloc sa = Some a" "alloc_wf a" using assms(1) by (rule space_wfE)
  show thesis
  proof (cases rule: BitmapAllocator_Allocate_cases[OF a(2) assms(2), of rnd u])
    case (1 off sz a')
    then show thesis
      using ok[of off sz "sa \<lparr> sa_bitmap_alloc := Some a' \<rparr>"] a(1)
      by (simp add: SpaceAlloc_Allocate_def space_wf_def space_bytes_def space_fits_def fun_eq_iff)
  next
    case (2 s)
    moreover have "sa \<lparr> sa_bitmap_alloc := Some a \<rparr> = sa" using a(1) by (cases sa) simp
    ultimately show thesis using fail a(1) by (simp add: SpaceAlloc_Allocate_def)
  qed
qed

interpretation space: space_allocator space_wf space_bytes space_fits
  SpaceAlloc_Allocate SpaceAlloc_Free SpaceAlloc_Mark
proof (unfold_locales, goal_cases)
  case (1 s want rnd u)
  then show ?case by (cases rule: SpaceAlloc_Allocate_cases[where rnd = rnd and u = u]) auto
next
  case (2 s want rnd u st u' s')
  from 2(1,2) show ?case
    by (cases rule: SpaceAlloc_Allocate_cases[where rnd = rnd and u = u]) (use 2 in auto)
next
  case (3 s want rnd u st u' s')
  from 3(1,2) show ?case
    by (cases rule: SpaceAlloc_Allocate_cases[where rnd = rnd and u = u]) (use 3 in auto)
next
  case (4 s off sz)
  then obtain a where a: "sa_bitmap_alloc s = Some a" "alloc_wf a" by (auto elim: space_wfE)
  then show ?case using BitmapAllocator_Free_ok[OF a(2), of off sz] 4
    by (fastforce simp: SpaceAlloc_Free_def space_wf_def space_bytes_def space_fits_def fun_eq_iff)
next
  case (5 s off sz)
  then obtain a where a: "sa_bitmap_alloc s = Some a" "alloc_wf a" by (auto elim: space_wfE)
  then show ?case using BitmapAllocator_Mark_ok[OF a(2), of off sz] 5
    by (fastforce simp: SpaceAlloc_Mark_def space_wf_def space_bytes_def space_fits_def fun_eq_iff)
qed

lemma alloc_used_bytes: "alloc_wf a \<Longrightarrow> alloc_used a = {b. b * ba_block_size a \<in> alloc_bytes a}"
  by (auto dest: alloc_wfD(1) simp: alloc_bytes_def)


section \<open>Properties\<close>

lemma demo_allocator_wf: "alloc_wf demo_allocator"
  by (rule BitmapAllocator_Init_ok[of 4096 16384 empty_allocator])
    (simp_all add: demo_allocator_def kAlignSize_def)

lemma demo_allocator_eq:
  "demo_allocator = \<lparr> ba_block_size = 4096, ba_capacity = 16384,
     ba_chunks = [\<lparr> c_chunk_idx = 0, c_num_blocks = 4, c_num_free_blocks = 4, c_last_free_bit = 0,
                   c_block_size = 4096, c_data = [0] \<rparr>] \<rparr>"
  by (simp add: demo_allocator_def BitmapAllocator_Init_def empty_allocator_def kAlignSize_def Let_def
      NumChunks_def NumBlocks_def u64_add_def kMaxBlocksPerChunk_def make_chunks.simps Chunk_def
      kBlocksPerUnit_def)

lemmas alloc_eval = BitmapAllocator_Allocate_def Allocator_Empty_def NumChunks_def NumBlocks_def
  calcBlocksBySize_def try_chunks.simps Chunk_Allocate_def avaliable_def search_blocks.simps
  scan_blocks.simps test_block_def getIndex_def getOffset_def setBlock_def set_bits.simps
  globalBlockIndex_def u64_add_def u64_sub_def u64_mul_def kMaxBlocksPerChunk_def kBlocksPerUnit_def

lemma demo_allocate:
  "BitmapAllocator_Allocate demo_allocator 7 5000 \<lparr> au_offset = 0, au_size = 0 \<rparr> =
     Some (Status_OK, \<lparr> au_offset = 0, au_size = 8192 \<rparr>,
       demo_allocator \<lparr> ba_chunks := [\<lparr> c_chunk_idx = 0, c_num_blocks = 4, c_num_free_blocks = 2,
          c_last_free_bit = 2, c_block_size = 4096, c_data = [3] \<rparr>] \<rparr>)"
  by (simp add: demo_allocator_eq alloc_eval)

lemma demo_mark:
  "BitmapAllocator_Mark demo_allocator 12288 4096 =
     Some (demo_allocator \<lparr> ba_chunks := [\<lparr> c_chunk_idx = 0, c_num_blocks = 4, c_num_free_blocks = 3,
          c_last_free_bit = 4, c_block_size = 4096, c_data = [8] \<rparr>] \<rparr>)"
proof -
  let ?c = "\<lparr> c_chunk_idx = 0, c_num_blocks = 4, c_num_free_blocks = 4, c_last_free_bit = 0,
      c_block_size = 4096, c_data = [0] \<rparr>"
  have "Chunk_Mark ?c 12288 4096 = setBlock ?c 3 4"
    by (simp add: Chunk_Mark_def globalBlockIndex_def u64_add_def u64_sub_def u64_mul_def)
  also have "u64_sub 4 3 = 1" by (simp add: u64_sub_def)
  then have "setBlock ?c 3 4 = Some (?c \<lparr> c_num_free_blocks := 3, c_last_free_bit := 4, c_data := [8] \<rparr>)"
    by (simp add: setBlock_def set_bits.simps getIndex_def getOffset_def kBlocksPerUnit_def u64_sub_def)
  finally show ?thesis
    by (simp add: demo_allocator_eq BitmapAllocator_Mark_def update_chunk_def calcChunkIdxByOffset_def
        kMaxBlocksPerChunk_def)
qed

text \<open>C5: On a well-formed allocator \<open>Allocate\<close> always returns (no bitmap access is out of
  range), whatever random start it draws. On success the unit is a run of blocks of one
  chunk that holds the wanted size, is less than a block larger, and overlaps no byte in
  use; exactly its bytes become used. On failure the allocator and the out parameter
  are unchanged. The allocator stays well-formed.\<close>

theorem BitmapAllocator_Allocate_correct:
  assumes "alloc_wf a" "want < 2 ^ 64"
  shows "\<exists>s u' a'. BitmapAllocator_Allocate a rnd want u = Some (s, u', a') \<and> alloc_wf a' \<and>
     (if st_ok s
      then fits a (au_offset u') (au_size u') \<and>
           want \<le> au_size u' \<and> au_size u' < want + ba_block_size a \<and>
           region (au_offset u') (au_size u') \<inter> alloc_bytes a = {} \<and>
           alloc_bytes a' = alloc_bytes a \<union> region (au_offset u') (au_size u')
      else a' = a \<and> u' = u)"
  using assms by (cases rule: BitmapAllocator_Allocate_cases[where rnd = rnd and u = u]) (auto simp: assms)

theorem BitmapAllocator_Allocate_correct_witness:
  "alloc_wf demo_allocator \<and> (5000 :: nat) < 2 ^ 64 \<and>
   region 0 8192 \<inter> alloc_bytes demo_allocator = {} \<and> fits demo_allocator 0 8192"
  using BitmapAllocator_Allocate_correct[OF demo_allocator_wf, of 5000 7 "\<lparr> au_offset = 0, au_size = 0 \<rparr>"]
    demo_allocate demo_allocator_wf by simp

text \<open>C22: Freeing the unit that an allocation returned gives back exactly the bytes in use
  before the allocation, and the free-block counter of before.\<close>

theorem allocate_free_roundtrip:
  assumes "alloc_wf a" "want < 2 ^ 64" "BitmapAllocator_Allocate a rnd want u = Some (s, u', a')" "st_ok s"
  shows "\<exists>a''. BitmapAllocator_Free a' (au_offset u') (au_size u') = Some a'' \<and> alloc_wf a'' \<and>
     alloc_bytes a'' = alloc_bytes a \<and> FreeBlocks a'' = FreeBlocks a"
  using assms(1,2)
proof (cases rule: BitmapAllocator_Allocate_cases[where rnd = rnd and u = u])
  case (ok off sz b)
  then have u': "u' = \<lparr> au_offset = off, au_size = sz \<rparr>" and b: "b = a'" using assms(3) by auto
  obtain a'' where a'': "BitmapAllocator_Free a' off sz = Some a''" "alloc_wf a''" "fits a'' = fits a'"
    "alloc_bytes a'' = alloc_bytes a' - region off sz"
    using BitmapAllocator_Free_ok[of a' off sz] ok(2-4,8) b by (metis Un_upper2)
  then have bytes: "alloc_bytes a'' = alloc_bytes a" using ok(7,8) b by auto
  have "ba_block_size a'' = ba_block_size a \<and> NumBlocks a'' = NumBlocks a"
    using a''(1) assms(3) by (auto simp: BitmapAllocator_Free_def update_chunk_def
        BitmapAllocator_Allocate_def Let_def split: if_splits option.splits)
  with bytes have "alloc_used a'' = alloc_used a" and "NumBlocks a'' = NumBlocks a"
    using alloc_used_bytes[OF assms(1)] alloc_used_bytes[OF a''(2)] by auto
  then show ?thesis using a'' bytes u' by (auto simp: alloc_counters assms(1))
next
  case (fail s')
  then show ?thesis using assms(3,4) by auto
qed

theorem allocate_free_roundtrip_witness:
  "\<exists>a''. BitmapAllocator_Free (demo_allocator \<lparr> ba_chunks := [\<lparr> c_chunk_idx = 0, c_num_blocks = 4,
       c_num_free_blocks = 2, c_last_free_bit = 2, c_block_size = 4096, c_data = [3] \<rparr>] \<rparr>) 0 8192 = Some a'' \<and>
     alloc_bytes a'' = alloc_bytes demo_allocator \<and> FreeBlocks a'' = FreeBlocks demo_allocator"
  using allocate_free_roundtrip[OF demo_allocator_wf _ demo_allocate] by auto

text \<open>C24: \<open>Allocate\<close> reports that the disk has no space exactly when the request is a
  positive number of blocks, the device has blocks, and no chunk has a free run at a
  position its search visits: every chunk is tried, from any random start.\<close>

theorem Allocate_no_space_iff:
  assumes "alloc_wf a" "want < 2 ^ 64"
  shows "(\<exists>m u' a'. BitmapAllocator_Allocate a rnd want u = Some (Status CYPRE_ES_DISK_NO_SPACE m, u', a')) \<longleftrightarrow>
     NumBlocks a \<noteq> 0 \<and> calcBlocksBySize a want \<noteq> 0 \<and>
     list_all (\<lambda>c. chunk_full c (calcBlocksBySize a want)) (ba_chunks a)"
  using assms
proof (cases rule: BitmapAllocator_Allocate_cases[where rnd = rnd and u = u])
  case (ok off sz a')
  then show ?thesis by (auto simp: list_all_iff)
next
  case (fail s)
  have "NumBlocks a \<noteq> 0 \<and> calcBlocksBySize a want \<noteq> 0" if "st_code s = CYPRE_ES_DISK_NO_SPACE"
    using that fail(1) NumChunks_eq[OF assms(1)] alloc_wfD(5)[OF assms(1)]
    by (auto simp: BitmapAllocator_Allocate_def Allocator_Empty_def Let_def split: if_splits)
  then show ?thesis using fail by (cases s) (auto simp: list_all_iff)
qed

theorem Allocate_no_space_iff_witness:
  "(\<exists>m u' a'. BitmapAllocator_Allocate demo_allocator 0 20480 \<lparr> au_offset = 0, au_size = 0 \<rparr> =
       Some (Status CYPRE_ES_DISK_NO_SPACE m, u', a')) \<and>
   list_all (\<lambda>c. chunk_full c 5) (ba_chunks demo_allocator)"
proof -
  have "calcBlocksBySize demo_allocator 20480 = 5"
    by (simp add: demo_allocator_eq calcBlocksBySize_def u64_add_def u64_sub_def)
  moreover have "\<exists>m u' a'. BitmapAllocator_Allocate demo_allocator 0 20480 \<lparr> au_offset = 0, au_size = 0 \<rparr> =
       Some (Status CYPRE_ES_DISK_NO_SPACE m, u', a')"
    by (simp add: demo_allocator_eq BitmapAllocator_Allocate_def Allocator_Empty_def NumChunks_def NumBlocks_def
      calcBlocksBySize_def try_chunks.simps Chunk_Allocate_def avaliable_def
      u64_add_def u64_sub_def kMaxBlocksPerChunk_def)
  ultimately show ?thesis
    using Allocate_no_space_iff[OF demo_allocator_wf, of 20480 0 "\<lparr> au_offset = 0, au_size = 0 \<rparr>"] by simp
qed

text \<open>Marking an extent read back from the store moves the start of the search behind that
  extent, so the free blocks before it are not found: with one block of four marked at the
  end of the device, three blocks are free and a request of one block is refused.\<close>

theorem Mark_hides_free_blocks:
  "\<exists>a'. BitmapAllocator_Mark demo_allocator 12288 4096 = Some a' \<and> FreeBlocks a' = Some 3 \<and>
     (\<exists>m u. BitmapAllocator_Allocate a' 0 4096 u = Some (Status CYPRE_ES_DISK_NO_SPACE m, u, a'))"
  unfolding demo_mark
  by (simp add: demo_allocator_eq BitmapAllocator_Allocate_def Allocator_Empty_def NumChunks_def NumBlocks_def
      calcBlocksBySize_def try_chunks.simps Chunk_Allocate_def avaliable_def search_blocks.simps
      u64_add_def u64_sub_def kMaxBlocksPerChunk_def FreeBlocks_def sum_chunks.simps Chunk_FreeBlocks_def)

text \<open>The used and free counters of a well-formed allocator are exact: the number of used
  blocks is the number of set bits, and used and free blocks add up to the size of the
  device in blocks.\<close>

theorem allocator_counters_exact:
  assumes "alloc_wf a"
  shows "UsedBlocks a = Some (card (alloc_used a)) \<and>
     FreeBlocks a = Some (NumBlocks a - card (alloc_used a))"
  using alloc_counters[OF assms] by simp

theorem allocator_counters_exact_witness:
  "alloc_wf demo_allocator \<and> UsedBlocks demo_allocator = Some 0 \<and> card (alloc_used demo_allocator) = 0"
proof -
  have "UsedBlocks demo_allocator = Some 0"
    by (simp add: demo_allocator_eq UsedBlocks_def sum_chunks.simps Chunk_UsedBlocks_def Chunk_FreeBlocks_def
        NumChunks_def NumBlocks_def kMaxBlocksPerChunk_def u64_add_def u64_sub_def)
  with allocator_counters_exact[OF demo_allocator_wf] demo_allocator_wf show ?thesis by simp
qed

end
