(* ===== verification/Serializer.thy ===== *)
theory Serializer
  imports Cypre_Base
begin

text \<open>
  Encoding of the records that the servers keep in RocksDB
  (\<open>src/src/utils/coding.cpp\<close>, \<open>serializer.h\<close>, \<open>crc32.cpp\<close>). A stored value is
  the binary archive of the record followed by the CRC of the archive as four
  little-endian bytes.

  Bytes are the characters of a \<open>string\<close>. The checksum \<open>butil::crc32c::Value\<close> is
  the argument \<open>crc\<close> of the definitions that use it: no theorem needs more than that
  it is a function into 32 bits. The binary archive of a type is described by the
  primitives of \<open>cereal::BinaryOutputArchive\<close> on a little-endian machine: integers as
  raw bytes, strings and vectors with an eight byte length in front. The locale
  \<open>codec\<close> states that a reader inverts a writer; every record type of the servers
  interprets it.
\<close>

section \<open>Little-endian bytes\<close>

primrec le_bytes :: "nat \<Rightarrow> nat \<Rightarrow> string" where
  "le_bytes 0 v = []"
| "le_bytes (Suc k) v = char_of v # le_bytes k (v div 256)"

primrec le_value :: "string \<Rightarrow> nat" where
  "le_value [] = 0"
| "le_value (c # cs) = of_char c + 256 * le_value cs"

section \<open>Coding\<close>

text \<open>\<open>int left = input->size() - sizeof(uint32_t)\<close>: the difference, computed in
  \<open>size_t\<close> and converted to a 32-bit signed integer.\<close>

definition to_int32 :: "int \<Rightarrow> int" where
  "to_int32 x = (x + 2 ^ 31) mod 2 ^ 32 - 2 ^ 31"

definition PutFixed32 :: "string \<Rightarrow> nat \<Rightarrow> string" where
  "PutFixed32 dst v = dst @ le_bytes 4 v"

definition DecodeFixed32 :: "string \<Rightarrow> nat" where
  "DecodeFixed32 ptr = le_value (take 4 ptr)"

definition GetFixed32 :: "string \<Rightarrow> (nat \<times> string) option" where
  "GetFixed32 input =
     (let left = to_int32 (int (length input) - 4) in
      if left < 0 then None
      else Some (DecodeFixed32 (drop (nat left) input), take (nat left) input))"

section \<open>Archive primitives\<close>

definition put_u64 :: "nat \<Rightarrow> string" where
  "put_u64 v = le_bytes 8 v"

definition get_u64 :: "string \<Rightarrow> (nat \<times> string) option" where
  "get_u64 s = (if length s < 8 then None else Some (le_value (take 8 s), drop 8 s))"

definition put_u32 :: "nat \<Rightarrow> string" where
  "put_u32 v = le_bytes 4 v"

definition get_u32 :: "string \<Rightarrow> (nat \<times> string) option" where
  "get_u32 s = (if length s < 4 then None else Some (le_value (take 4 s), drop 4 s))"

text \<open>A signed 32-bit integer (\<open>int\<close> and the enumerations).\<close>

definition put_i32 :: "int \<Rightarrow> string" where
  "put_i32 v = put_u32 (nat (v mod 2 ^ 32))"

definition get_i32 :: "string \<Rightarrow> (int \<times> string) option" where
  "get_i32 s = map_option (\<lambda>(v, r). (to_int32 (int v), r)) (get_u32 s)"

definition put_str :: "string \<Rightarrow> string" where
  "put_str s = put_u64 (length s) @ s"

definition get_str :: "string \<Rightarrow> (string \<times> string) option" where
  "get_str s = (case get_u64 s of
      None \<Rightarrow> None
    | Some (n, r) \<Rightarrow> if length r < n then None else Some (take n r, drop n r))"

fun put_list :: "('a \<Rightarrow> string) \<Rightarrow> 'a list \<Rightarrow> string" where
  "put_list p xs = put_u64 (length xs) @ concat (map p xs)"

primrec get_n :: "(string \<Rightarrow> ('a \<times> string) option) \<Rightarrow> nat \<Rightarrow> string \<Rightarrow> ('a list \<times> string) option" where
  "get_n g 0 s = Some ([], s)"
| "get_n g (Suc n) s = (case g s of
      None \<Rightarrow> None
    | Some (x, r) \<Rightarrow> map_option (\<lambda>(xs, r'). (x # xs, r')) (get_n g n r))"

definition get_list :: "(string \<Rightarrow> ('a \<times> string) option) \<Rightarrow> string \<Rightarrow> ('a list \<times> string) option" where
  "get_list g s = (case get_u64 s of None \<Rightarrow> None | Some (n, r) \<Rightarrow> get_n g n r)"

section \<open>Serializer\<close>

text \<open>\<open>Decode\<close> returns false on a missing or wrong checksum; an archive that ends too
  early throws.\<close>

datatype 'a decoded = Decode_false | Decode_throw | Decode_ok 'a

definition Serializer_Encode :: "(string \<Rightarrow> 32 word) \<Rightarrow> ('a \<Rightarrow> string) \<Rightarrow> 'a \<Rightarrow> string" where
  "Serializer_Encode crc put x = (let output = put x in PutFixed32 output (unat (crc output)))"

definition Serializer_Decode ::
    "(string \<Rightarrow> 32 word) \<Rightarrow> (string \<Rightarrow> ('a \<times> string) option) \<Rightarrow> string \<Rightarrow> 'a decoded" where
  "Serializer_Decode crc get input =
     (case GetFixed32 input of
        None \<Rightarrow> Decode_false
      | Some (crc32, data) \<Rightarrow>
          let expected_crc32 = unat (crc data) in
          if crc32 \<noteq> expected_crc32 then Decode_false
          else (case get data of None \<Rightarrow> Decode_throw | Some (x, _) \<Rightarrow> Decode_ok x))"

section \<open>Byte lemmas\<close>

lemma length_le_bytes [simp]: "length (le_bytes k v) = k"
  by (induction k arbitrary: v) auto

lemma le_value_le_bytes [simp]: "le_value (le_bytes k v) = v mod 256 ^ k"
proof (induction k arbitrary: v)
  case (Suc k)
  then show ?case by (simp add: mod_mult2_eq)
qed simp

lemma to_int32_small [simp]: "\<lbrakk>- (2 ^ 31) \<le> x; x < 2 ^ 31\<rbrakk> \<Longrightarrow> to_int32 x = x"
  by (simp add: to_int32_def)

lemma get_u64_put [simp]: "v < 2 ^ 64 \<Longrightarrow> get_u64 (put_u64 v @ r) = Some (v, r)"
  by (simp add: get_u64_def put_u64_def)

lemma get_u32_put [simp]: "v < 2 ^ 32 \<Longrightarrow> get_u32 (put_u32 v @ r) = Some (v, r)"
  by (simp add: get_u32_def put_u32_def)

lemma get_i32_put [simp]:
  assumes "- (2 ^ 31) \<le> v" "v < 2 ^ 31"
  shows "get_i32 (put_i32 v @ r) = Some (v, r)"
proof -
  have "nat (v mod 2 ^ 32) < 2 ^ 32" by (simp add: nat_less_iff)
  moreover have "to_int32 (v mod 2 ^ 32) = v"
    using assms by (simp add: to_int32_def mod_add_left_eq)
  ultimately show ?thesis by (simp add: get_i32_def put_i32_def)
qed

lemma get_str_put [simp]: "length s < 2 ^ 64 \<Longrightarrow> get_str (put_str s @ r) = Some (s, r)"
  by (simp add: get_str_def put_str_def)

lemma get_n_put:
  "(\<And>x r. x \<in> set xs \<Longrightarrow> g (p x @ r) = Some (x, r)) \<Longrightarrow>
   get_n g (length xs) (concat (map p xs) @ r) = Some (xs, r)"
  by (induction xs) auto

lemma get_list_put:
  "\<lbrakk>length xs < 2 ^ 64; \<And>x r. x \<in> set xs \<Longrightarrow> g (p x @ r) = Some (x, r)\<rbrakk> \<Longrightarrow>
   get_list g (put_list p xs @ r) = Some (xs, r)"
  by (simp add: get_list_def get_n_put)

lemma GetFixed32_Put:
  assumes "v < 2 ^ 32" "length s < 2 ^ 31"
  shows "GetFixed32 (PutFixed32 s v) = Some (v, s)"
  using assms by (simp add: GetFixed32_def PutFixed32_def DecodeFixed32_def Let_def)

section \<open>The codec interface\<close>

locale codec =
  fixes put :: "'a \<Rightarrow> string"
    and get :: "string \<Rightarrow> ('a \<times> string) option"
    and valid :: "'a \<Rightarrow> bool"
  assumes get_put: "valid x \<Longrightarrow> get (put x @ r) = Some (x, r)"
begin

lemma decode_encode:
  assumes "valid x" "length (put x) < 2 ^ 31"
  shows "Serializer_Decode crc get (Serializer_Encode crc put x) = Decode_ok x"
proof -
  have "unat (crc (put x)) < 2 ^ 32" using unsigned_less[of "crc (put x)"] by simp
  from GetFixed32_Put[OF this assms(2)] show ?thesis
    using get_put[OF assms(1), of "[]"] by (simp add: Serializer_Encode_def Serializer_Decode_def Let_def)
qed

lemma encode_inject:
  assumes "valid x" "valid y" "length (put x) < 2 ^ 31" "length (put y) < 2 ^ 31"
    and "Serializer_Encode crc put x = Serializer_Encode crc put y"
  shows "x = y"
  using decode_encode[OF assms(1,3)] decode_encode[OF assms(2,4)] assms(5) by (metis decoded.inject)

end

section \<open>Properties\<close>

text \<open>A stored value whose archive part or checksum part was altered so that the two no
  longer agree is rejected by \<open>Decode\<close>, for every archive format; so is a value
  shorter than a checksum.\<close>

theorem Decode_rejects_mismatch:
  assumes "length archive < 2 ^ 31" "ck < 2 ^ 32" "ck \<noteq> unat (crc archive)"
  shows "Serializer_Decode crc get (archive @ le_bytes 4 ck) = Decode_false \<and>
     (length short < 4 \<longrightarrow> Serializer_Decode crc get short = Decode_false)"
proof
  have "GetFixed32 (PutFixed32 archive ck) = Some (ck, archive)"
    using assms by (intro GetFixed32_Put)
  then show "Serializer_Decode crc get (archive @ le_bytes 4 ck) = Decode_false"
    using assms(3) by (simp add: Serializer_Decode_def PutFixed32_def)
  show "length short < 4 \<longrightarrow> Serializer_Decode crc get short = Decode_false"
    by (auto simp: Serializer_Decode_def GetFixed32_def Let_def)
qed

theorem Decode_rejects_mismatch_witness:
  "Serializer_Decode (\<lambda>s. of_nat (length s)) get_u32 (''abcd'' @ le_bytes 4 5) = Decode_false"
  using Decode_rejects_mismatch[of "''abcd''" 5 "\<lambda>s. of_nat (length s)" get_u32 "[]"] by simp

end
