(* ===== verification/Utils.thy ===== *)
theory Utils
  imports Serializer "HOL-Library.Signed_Division"
begin

text \<open>
  Small utilities of \<open>src/src/utils\<close>: the 32-bit hash that selects a shard
  (\<open>hash.cpp\<close>), the greatest common divisor of a vector (\<open>gcd_util.cpp\<close>) and
  elapsed time in microseconds (\<open>chrono.cpp\<close>).
\<close>

unbundle bit_operations_syntax

section \<open>HashUtil\<close>

definition mm_m :: "32 word" where "mm_m = 0x5bd1e995"

text \<open>One round of the loop over four bytes.\<close>

definition mm_mix :: "32 word \<Rightarrow> string \<Rightarrow> 32 word" where
  "mm_mix h four =
     (let k = word_of_nat (le_value four) * mm_m;
          k = k XOR drop_bit 24 k;
          k = k * mm_m
      in (h * mm_m) XOR k)"

fun mm_loop :: "32 word \<Rightarrow> string \<Rightarrow> 32 word \<times> string" where
  "mm_loop h (a # b # c # d # rest) = mm_loop (mm_mix h [a, b, c, d]) rest"
| "mm_loop h rest = (h, rest)"

text \<open>\<open>int8_t\<close>: the last bytes are read as signed characters.\<close>

definition int8 :: "char \<Rightarrow> int" where
  "int8 c = (if of_char c < (128 :: int) then of_char c else of_char c - 256)"

fun mm_tail :: "32 word \<Rightarrow> string \<Rightarrow> 32 word" where
  "mm_tail h [] = h"
| "mm_tail h [a] = (h XOR word_of_int (int8 a)) * mm_m"
| "mm_tail h [a, b] = ((h XOR word_of_int (int8 b * 2 ^ 8)) XOR word_of_int (int8 a)) * mm_m"
| "mm_tail h (a # b # c # _) =
     (((h XOR word_of_int (int8 c * 2 ^ 16)) XOR word_of_int (int8 b * 2 ^ 8)) XOR word_of_int (int8 a)) * mm_m"

definition mur_mur_hash_seed :: "string \<Rightarrow> 32 word \<Rightarrow> 32 word" where
  "mur_mur_hash_seed key seed =
     (let (h, rest) = mm_loop (seed XOR word_of_nat (length key)) key;
          h = mm_tail h rest;
          h = h XOR drop_bit 13 h;
          h = h * mm_m
      in h XOR drop_bit 15 h)"

definition mur_mur_hash :: "string \<Rightarrow> 32 word" where
  "mur_mur_hash key = mur_mur_hash_seed key 97"

section \<open>GCDUtil\<close>

text \<open>\<open>std::__gcd\<close>: Euclid's loop with the remainder of C++.\<close>

function cpp_gcd :: "int \<Rightarrow> int \<Rightarrow> int" where
  "cpp_gcd m n = (if n = 0 then m else cpp_gcd n (m smod n))"
  by pat_completeness auto
termination
proof (relation "measure (\<lambda>(m, n). nat \<bar>n\<bar>)", goal_cases)
  case (2 m n)
  then have "\<bar>m smod n\<bar> < \<bar>n\<bar>" using smod_int_range[of n m] by auto
  then show ?case by simp
qed simp

declare cpp_gcd.simps [simp del]

text \<open>\<open>nums[0]\<close> of an empty vector is out of range.\<close>

definition GCDUtil_gcd :: "int list \<Rightarrow> int option" where
  "GCDUtil_gcd nums = (if nums = [] then None else Some (fold (\<lambda>num r. cpp_gcd r num) nums (nums ! 0)))"

section \<open>Chrono\<close>

record timespec =
  tv_sec :: int
  tv_nsec :: int

text \<open>The quotient of C++ rounds towards zero.\<close>

definition TimeSinceUs :: "timespec \<Rightarrow> timespec \<Rightarrow> int" where
  "TimeSinceUs s e =
     (let sec = tv_sec e - tv_sec s;
          usec = (tv_nsec e - tv_nsec s) sdiv 1000;
          (sec', usec') = (if sec > 0 \<and> usec < 0 then (sec - 1, usec + 1000000) else (sec, usec))
      in if sec' < 0 \<or> (sec' = 0 \<and> usec' < 0) then 0 else usec' + sec' * 1000000)"

definition timespec_ok :: "timespec \<Rightarrow> bool" where
  "timespec_ok t \<longleftrightarrow> 0 \<le> tv_nsec t \<and> tv_nsec t < 1000000000"

definition timespec_ns :: "timespec \<Rightarrow> int" where
  "timespec_ns t = tv_sec t * 1000000000 + tv_nsec t"

section \<open>Lemmas\<close>

lemma cpp_gcd_gcd: "\<lbrakk>0 \<le> m; 0 \<le> n\<rbrakk> \<Longrightarrow> cpp_gcd m n = gcd m n"
proof (induction m n rule: cpp_gcd.induct)
  case (1 m n)
  have "m smod n = m mod n" using 1(2,3) by (cases "n = 0") (simp_all add: smod_mod_positive)
  then show ?case
    using 1 by (subst cpp_gcd.simps) (auto simp: gcd_red_int[of m n] pos_mod_sign)
qed

lemma fold_cpp_gcd:
  "\<lbrakk>0 \<le> r; \<forall>x\<in>set nums. 0 \<le> x\<rbrakk> \<Longrightarrow>
   fold (\<lambda>num r. cpp_gcd r num) nums r = Gcd (insert r (set nums))"
proof (induction nums arbitrary: r)
  case (Cons x nums)
  then have "fold (\<lambda>num r. cpp_gcd r num) (x # nums) r = Gcd (insert (gcd r x) (set nums))"
    by (simp add: cpp_gcd_gcd)
  also have "\<dots> = Gcd (insert r (set (x # nums)))" by (simp add: gcd.assoc)
  finally show ?case .
qed simp

lemma hash_shard_less: "0 < n \<Longrightarrow> unat (mur_mur_hash key) mod n < n"
  by simp

lemma sdiv_1000: "\<bar>1000 * (x sdiv 1000) - x\<bar> < (1000 :: int)" "x sdiv 1000 < 0 \<Longrightarrow> x < 0"
  "0 < x sdiv 1000 \<Longrightarrow> 0 < x"
  by (auto simp: signed_divide_int_def sgn_if abs_if split: if_splits)

section \<open>Properties\<close>

text \<open>The result of \<open>GCDUtil::gcd\<close> on a non-empty vector of non-negative numbers is
  their greatest common divisor.\<close>

theorem GCDUtil_gcd_correct:
  assumes "nums \<noteq> []" "\<forall>x\<in>set nums. 0 \<le> x"
  shows "GCDUtil_gcd nums = Some (Gcd (set nums))"
proof -
  have "nums ! 0 \<in> set nums" using assms(1) by simp
  then show ?thesis using assms by (simp add: GCDUtil_gcd_def fold_cpp_gcd insert_absorb)
qed

theorem GCDUtil_gcd_correct_witness: "GCDUtil_gcd [12, 18, 30] = Some (Gcd {12, 18, 30})"
  using GCDUtil_gcd_correct[of "[12, 18, 30]"] by simp

text \<open>For normalised times \<open>TimeSinceUs\<close> is zero unless the end is after the start, and
  otherwise within one microsecond of the real difference.\<close>

theorem TimeSinceUs_accurate:
  assumes "timespec_ok s" "timespec_ok e"
  shows "if timespec_ns e \<le> timespec_ns s then TimeSinceUs s e = 0
     else \<bar>1000 * TimeSinceUs s e - (timespec_ns e - timespec_ns s)\<bar> < 1000"
proof -
  define d where "d = tv_nsec e - tv_nsec s"
  define q where "q = d sdiv 1000"
  have d: "\<bar>d\<bar> < 1000000000" using assms by (auto simp: timespec_ok_def d_def)
  have q: "\<bar>1000 * q - d\<bar> < 1000" "q < 0 \<Longrightarrow> d < 0" "0 < q \<Longrightarrow> 0 < d"
    unfolding q_def by (fact sdiv_1000)+
  have "timespec_ns e - timespec_ns s = (tv_sec e - tv_sec s) * 1000000000 + d"
    by (simp add: timespec_ns_def d_def algebra_simps)
  then show ?thesis
    using d q unfolding TimeSinceUs_def d_def[symmetric] q_def[symmetric] by (auto simp: Let_def)
qed

theorem TimeSinceUs_accurate_witness:
  "TimeSinceUs \<lparr> tv_sec = 1, tv_nsec = 999999000 \<rparr> \<lparr> tv_sec = 2, tv_nsec = 4000 \<rparr> = 5"
  using TimeSinceUs_accurate[of "\<lparr> tv_sec = 1, tv_nsec = 999999000 \<rparr>" "\<lparr> tv_sec = 2, tv_nsec = 4000 \<rparr>"]
  by (simp add: TimeSinceUs_def timespec_ns_def timespec_ok_def signed_divide_int_def)

end
