(* ===== verification/Write_Completion.thy ===== *)
theory Write_Completion
  imports Cypre_Base
begin

text \<open>
  The completions of one write at the grain of memory accesses. The local worker and the
  reply handlers of the secondaries run on different threads; each executes
  \<open>SetResult\<close> and then the user callback \<open>WriteDone\<close>
  (\<open>src/src/extentserver/request_context.h\<close>, \<open>replicate_engine.cpp\<close>,
  \<open>spdk_worker.cpp\<close>, \<open>extent_io_service.cpp\<close>). \<open>ref_count_\<close> is atomic, \<open>result_\<close> is a
  plain \<open>bool\<close>: the assignment in \<open>SetResult\<close> is a load followed by a store, and the steps of
  the threads interleave.
\<close>

section \<open>Threads\<close>

text \<open>Where a completing thread is: before the load of \<open>result_\<close>, between load and store (with
  the value it loaded), before the \<open>fetch_sub\<close> of \<open>WriteDone\<close>, and done.\<close>

datatype wc_pc = Load | Store bool | Sub | Finished

text \<open>\<open>wc_ok\<close> is what each thread passes to \<open>SetResult\<close>; \<open>wc_answers\<close> are the answers the
  client got, OK or not.\<close>

record wc_state =
  wc_result :: bool
  wc_refs :: nat
  wc_ok :: "bool list"
  wc_pcs :: "wc_pc list"
  wc_answers :: "bool list"

definition wc_init :: "bool list \<Rightarrow> wc_state" where
  "wc_init oks = \<lparr> wc_result = True, wc_refs = length oks, wc_ok = oks,
     wc_pcs = replicate (length oks) Load, wc_answers = [] \<rparr>"

text \<open>The next memory access of thread \<open>i\<close>.\<close>

definition wc_exec :: "nat \<Rightarrow> wc_state \<Rightarrow> wc_state" where
  "wc_exec i s =
     (case wc_pcs s ! i of
        Load \<Rightarrow> s \<lparr> wc_pcs := (wc_pcs s)[i := Store (wc_result s)] \<rparr>
      | Store loaded \<Rightarrow> s \<lparr> wc_result := (loaded \<and> wc_ok s ! i), wc_pcs := (wc_pcs s)[i := Sub] \<rparr>
      | Sub \<Rightarrow> s \<lparr> wc_refs := wc_refs s - 1, wc_pcs := (wc_pcs s)[i := Finished],
                   wc_answers := (if wc_refs s = 1 then wc_answers s @ [wc_result s] else wc_answers s) \<rparr>
      | Finished \<Rightarrow> s)"

inductive wc_step :: "wc_state \<Rightarrow> wc_state \<Rightarrow> bool" where
  exec: "i < length (wc_pcs s) \<Longrightarrow> wc_pcs s ! i \<noteq> Finished \<Longrightarrow> wc_step s (wc_exec i s)"

definition wc_inv :: "bool list \<Rightarrow> wc_state \<Rightarrow> bool" where
  "wc_inv oks s \<longleftrightarrow> wc_ok s = oks \<and> length (wc_pcs s) = length oks \<and>
     wc_refs s = length (filter (\<lambda>p. p \<noteq> Finished) (wc_pcs s)) \<and>
     (if wc_refs s = 0 then length (wc_answers s) = 1 else wc_answers s = []) \<and>
     (list_all id oks \<longrightarrow> wc_result s \<and> Store False \<notin> set (wc_pcs s) \<and> False \<notin> set (wc_answers s))"

text \<open>The accesses a thread has left.\<close>

fun wc_left :: "wc_pc \<Rightarrow> nat" where
  "wc_left Load = 3"
| "wc_left (Store loaded) = 2"
| "wc_left Sub = 1"
| "wc_left Finished = 0"

section \<open>The invariant\<close>

inductive_cases wc_stepE: "wc_step s s'"

lemma filter_update:
  assumes "i < length xs" "P (xs ! i)"
  shows "length (filter P (xs[i := y])) = (if P y then length (filter P xs) else length (filter P xs) - 1)"
    "0 < length (filter P xs)"
proof -
  have "filter P xs = filter P (take i xs) @ xs ! i # filter P (drop (Suc i) xs)"
    using id_take_nth_drop[OF assms(1)] assms(2) by (metis filter.simps(2) filter_append)
  moreover have "filter P (xs[i := y]) = filter P (take i xs) @ (if P y then y # filter P (drop (Suc i) xs) else filter P (drop (Suc i) xs))"
    using upd_conv_take_nth_drop[OF assms(1), of y] by simp
  ultimately show "length (filter P (xs[i := y])) = (if P y then length (filter P xs) else length (filter P xs) - 1)"
    "0 < length (filter P xs)" by simp_all
qed

lemma wc_init_inv: "oks \<noteq> [] \<Longrightarrow> wc_inv oks (wc_init oks)"
  by (auto simp: wc_inv_def wc_init_def filter_replicate)

lemma wc_exec_inv:
  assumes inv: "wc_inv oks s" and i: "i < length (wc_pcs s)" "wc_pcs s ! i \<noteq> Finished"
  shows "wc_inv oks (wc_exec i s)"
proof -
  let ?P = "\<lambda>p. p \<noteq> Finished"
  note I = inv[unfolded wc_inv_def]
  have pos: "0 < wc_refs s" using filter_update(2)[where P = ?P, OF i(1)] i(2) I by simp
  have upd: "length (filter ?P ((wc_pcs s)[i := y])) = (if ?P y then wc_refs s else wc_refs s - 1)" for y
    using filter_update(1)[where P = ?P, OF i] I by simp
  have sub: "set ((wc_pcs s)[i := y]) \<subseteq> insert y (set (wc_pcs s))" for y by (rule set_update_subset_insert)
  have mem: "wc_pcs s ! i \<in> set (wc_pcs s)" using i(1) by simp
  have ok: "list_all id oks \<Longrightarrow> wc_ok s ! i" using I i(1) by (simp add: list_all_length)
  show ?thesis
  proof (cases "wc_pcs s ! i")
    case Load
    then show ?thesis using I upd[of "Store (wc_result s)"] pos sub[of "Store (wc_result s)"] by (auto simp: wc_inv_def wc_exec_def)
  next
    case (Store loaded)
    then show ?thesis using I upd[of Sub] pos sub[of Sub] ok mem by (cases loaded) (auto simp: wc_inv_def wc_exec_def)
  next
    case Sub
    have J: "wc_ok s = oks" "length (wc_pcs s) = length oks" "wc_answers s = []"
      "list_all id oks \<longrightarrow> wc_result s \<and> Store False \<notin> set (wc_pcs s)" using I pos by auto
    obtain k where "wc_refs s = Suc k" using pos gr0_implies_Suc by blast
    then show ?thesis using J Sub upd[of Finished] sub[of Finished] by (cases k) (auto simp: wc_inv_def wc_exec_def)
  qed (use i(2) in simp)
qed

lemma wc_reach_inv: "wc_step\<^sup>*\<^sup>* s s' \<Longrightarrow> wc_inv oks s \<Longrightarrow> wc_inv oks s'"
  by (induction rule: rtranclp_induct) (auto elim!: wc_stepE intro: wc_exec_inv)

lemma wc_exec_left:
  assumes "i < length (wc_pcs s)" "wc_pcs s ! i \<noteq> Finished"
  shows "sum_list (map wc_left (wc_pcs (wc_exec i s))) < sum_list (map wc_left (wc_pcs s))"
proof -
  have "wc_pcs (wc_exec i s) = (wc_pcs s)[i := wc_pcs (wc_exec i s) ! i]"
    "wc_left (wc_pcs (wc_exec i s) ! i) < wc_left (wc_pcs s ! i)"
    using assms by (cases "wc_pcs s ! i"; simp add: wc_exec_def)+
  moreover have "sum_list (map wc_left ((wc_pcs s)[i := y])) + wc_left (wc_pcs s ! i) = sum_list (map wc_left (wc_pcs s)) + wc_left y" for y
    using sum_list_update_nat[of i "map wc_left (wc_pcs s)" "wc_left y"] assms(1) by (simp add: map_update)
  ultimately show ?thesis by (metis add_less_cancel_left add_less_mono1 add.commute)
qed

section \<open>Properties\<close>

text \<open>C23: However the memory accesses of the completing threads interleave, the client is
  never answered twice, and never before the last of them is done; a run goes on until all
  threads are done, after which the client was answered exactly once, and in at most three
  steps per thread. A write whose completions all succeeded is never answered with an
  error.\<close>

theorem write_completion_interleaved:
  assumes "oks \<noteq> []" "wc_step\<^sup>*\<^sup>* (wc_init oks) s"
  shows "length (wc_answers s) = (if list_all (\<lambda>p. p = Finished) (wc_pcs s) then 1 else 0) \<and>
     (\<not> list_all (\<lambda>p. p = Finished) (wc_pcs s) \<longrightarrow> (\<exists>s'. wc_step s s')) \<and>
     (\<forall>s'. wc_step s s' \<longrightarrow> sum_list (map wc_left (wc_pcs s')) < sum_list (map wc_left (wc_pcs s))) \<and>
     (list_all id oks \<longrightarrow> list_all id (wc_answers s))"
proof -
  note I = wc_reach_inv[OF assms(2) wc_init_inv[OF assms(1)], unfolded wc_inv_def]
  have z: "wc_refs s = 0 \<longleftrightarrow> list_all (\<lambda>p. p = Finished) (wc_pcs s)" using I by (auto simp: list_all_iff filter_empty_conv)
  have "\<exists>s'. wc_step s s'" if "\<not> list_all (\<lambda>p. p = Finished) (wc_pcs s)"
    using that wc_step.exec[of _ s] by (auto simp: list_all_length)
  moreover have "sum_list (map wc_left (wc_pcs s')) < sum_list (map wc_left (wc_pcs s))" if "wc_step s s'" for s'
    using that wc_exec_left by (auto elim!: wc_stepE)
  moreover have "list_all id (wc_answers s)" if "list_all id oks"
  proof -
    have "False \<notin> set (wc_answers s)" using I that by blast
    then show ?thesis unfolding list_all_iff id_def by metis
  qed
  moreover have "length (wc_answers s) = (if list_all (\<lambda>p. p = Finished) (wc_pcs s) then 1 else 0)"
    using conjunct1[OF conjunct2[OF conjunct2[OF conjunct2[OF I]]]] z by (cases "wc_refs s = 0") simp_all
  ultimately show ?thesis by blast
qed

theorem write_completion_interleaved_witness:
  "\<exists>s. wc_step\<^sup>*\<^sup>* (wc_init [True, False]) s \<and> length (wc_answers s) = 0 \<and> (\<exists>s'. wc_step s s')"
proof -
  have r: "wc_step\<^sup>*\<^sup>* (wc_init [True, False]) (wc_init [True, False])" by simp
  show ?thesis
    using write_completion_interleaved[OF _ r] by (intro exI[of _ "wc_init [True, False]"]) (simp add: wc_init_def)
qed

text \<open>C36: The error of a secondary can be lost. With two threads, one of which failed, there is
  an interleaving in which the successful thread loads \<open>result_\<close> before the failed one
  stores, and stores after it: the write is answered OK although a copy is missing.\<close>

theorem replica_failure_lost:
  "\<exists>s. wc_step\<^sup>*\<^sup>* (wc_init [True, False]) s \<and> wc_answers s = [True] \<and> list_all (\<lambda>p. p = Finished) (wc_pcs s)"
proof -
  let ?s = "\<lambda>r n p q a. \<lparr> wc_result = r, wc_refs = n, wc_ok = [True, False], wc_pcs = [p, q], wc_answers = a \<rparr>"
  have e: "wc_step s s'" if "i < length (wc_pcs s)" "wc_pcs s ! i \<noteq> Finished" "s' = wc_exec i s" for i s s'
    using wc_step.exec[OF that(1,2)] that(3) by simp
  have "wc_step (?s True 2 Load Load []) (?s True 2 (Store True) Load [])" by (rule e[of 0]) (simp_all add: wc_exec_def)
  moreover have "wc_step (?s True 2 (Store True) Load []) (?s True 2 (Store True) (Store True) [])"
    by (rule e[of 1]) (simp_all add: wc_exec_def)
  moreover have "wc_step (?s True 2 (Store True) (Store True) []) (?s False 2 (Store True) Sub [])"
    by (rule e[of 1]) (simp_all add: wc_exec_def)
  moreover have "wc_step (?s False 2 (Store True) Sub []) (?s True 2 Sub Sub [])" by (rule e[of 0]) (simp_all add: wc_exec_def)
  moreover have "wc_step (?s True 2 Sub Sub []) (?s True 1 Sub Finished [])" by (rule e[of 1]) (simp_all add: wc_exec_def)
  moreover have "wc_step (?s True 1 Sub Finished []) (?s True 0 Finished Finished [True])"
    by (rule e[of 0]) (simp_all add: wc_exec_def)
  ultimately have "wc_step\<^sup>*\<^sup>* (?s True 2 Load Load []) (?s True 0 Finished Finished [True])"
    by (meson converse_rtranclp_into_rtranclp rtranclp.rtrancl_refl)
  moreover have "wc_init [True, False] = ?s True 2 Load Load []" by (simp add: wc_init_def numeral_2_eq_2)
  ultimately show ?thesis by (intro exI[of _ "?s True 0 Finished Finished [True]"]) simp
qed

end
