(* ===== verification/Kv_Store.thy ===== *)
theory Kv_Store
  imports Serializer "HOL-Library.List_Lexorder" "HOL-Library.Char_ord" "HOL-Library.Sublist"
begin

text \<open>
  The key-value store of the servers (\<open>src/src/kvstore/rocks_store.{h,cpp}\<close>), a thin
  layer over RocksDB. RocksDB itself is described by what it documents: a finite map
  ordered bytewise by key, here a list of key-value pairs, whose writes either take
  effect or fail without one. Which of the next writes fail is decided by the
  environment: \<open>rs_faults\<close> lists the outcomes of the coming write calls.

  The iterators are positions in the ordered list; \<open>ScanPrefix\<close> seeks the prefix and
  its iterator stays valid as long as the key starts with it. The locale
  \<open>kv_store\<close> states what the managers rely on; the locale \<open>kv_table\<close> extends it
  with a codec and a key function and keeps a table in memory in agreement with the
  store.
\<close>

section \<open>Data\<close>

datatype rocks_status = RocksOk | RocksNotFound | RocksError

record rocks_store =
  rs_db :: "(string \<times> string) list"
  rs_faults :: "bool list"

definition rs_ok :: "rocks_status \<Rightarrow> bool" where
  "rs_ok s \<longleftrightarrow> s = RocksOk"

definition rs_IsNotFound :: "rocks_status \<Rightarrow> bool" where
  "rs_IsNotFound s \<longleftrightarrow> s = RocksNotFound"

section \<open>The ordered map\<close>

fun kv_insert :: "string \<Rightarrow> string \<Rightarrow> (string \<times> string) list \<Rightarrow> (string \<times> string) list" where
  "kv_insert k v [] = [(k, v)]"
| "kv_insert k v ((k', v') # r) =
     (if k < k' then (k, v) # (k', v') # r
      else if k = k' then (k, v) # r
      else (k', v') # kv_insert k v r)"

definition kv_delete :: "string \<Rightarrow> (string \<times> string) list \<Rightarrow> (string \<times> string) list" where
  "kv_delete k db = filter (\<lambda>(k', _). k' \<noteq> k) db"

definition kv_wf :: "rocks_store \<Rightarrow> bool" where
  "kv_wf st \<longleftrightarrow> sorted_wrt (<) (map fst (rs_db st))"

definition kv_lookup :: "rocks_store \<Rightarrow> string \<Rightarrow> string option" where
  "kv_lookup st = map_of (rs_db st)"

section \<open>Operations of \<open>RocksStore\<close>\<close>

text \<open>A write: the head of \<open>rs_faults\<close> says whether it fails.\<close>

definition kv_write :: "rocks_store \<Rightarrow> ((string \<times> string) list \<Rightarrow> (string \<times> string) list)
    \<Rightarrow> rocks_status \<times> rocks_store" where
  "kv_write st f =
     (case rs_faults st of
        True # fs \<Rightarrow> (RocksError, st \<lparr> rs_faults := fs \<rparr>)
      | False # fs \<Rightarrow> (RocksOk, \<lparr> rs_db = f (rs_db st), rs_faults = fs \<rparr>)
      | [] \<Rightarrow> (RocksOk, st \<lparr> rs_db := f (rs_db st) \<rparr>))"

definition RocksStore_Put :: "rocks_store \<Rightarrow> string \<Rightarrow> string \<Rightarrow> rocks_status \<times> rocks_store" where
  "RocksStore_Put st key val = kv_write st (kv_insert key val)"

definition RocksStore_MultiPut :: "rocks_store \<Rightarrow> (string \<times> string) list \<Rightarrow> rocks_status \<times> rocks_store" where
  "RocksStore_MultiPut st kvs = kv_write st (fold (\<lambda>(k, v). kv_insert k v) kvs)"

definition RocksStore_Get :: "rocks_store \<Rightarrow> string \<Rightarrow> rocks_status \<times> string" where
  "RocksStore_Get st key =
     (case kv_lookup st key of None \<Rightarrow> (RocksNotFound, []) | Some v \<Rightarrow> (RocksOk, v))"

definition RocksStore_MultiGet :: "rocks_store \<Rightarrow> string list \<Rightarrow> (rocks_status \<times> string) list" where
  "RocksStore_MultiGet st keys = map (RocksStore_Get st) keys"

definition RocksStore_Delete :: "rocks_store \<Rightarrow> string \<Rightarrow> rocks_status \<times> rocks_store" where
  "RocksStore_Delete st key = kv_write st (kv_delete key)"

definition RocksStore_MultiDelete :: "rocks_store \<Rightarrow> string list \<Rightarrow> rocks_status \<times> rocks_store" where
  "RocksStore_MultiDelete st keys = kv_write st (fold kv_delete keys)"

definition RocksStore_DeleteRange :: "rocks_store \<Rightarrow> string \<Rightarrow> string \<Rightarrow> rocks_status \<times> rocks_store" where
  "RocksStore_DeleteRange st begin end =
     kv_write st (filter (\<lambda>(k, _). \<not> (begin \<le> k \<and> k < end)))"

text \<open>\<open>Seek\<close>: the first entry whose key is not below the target.\<close>

definition kv_seek :: "rocks_store \<Rightarrow> string \<Rightarrow> (string \<times> string) list" where
  "kv_seek st key = dropWhile (\<lambda>(k, _). k < key) (rs_db st)"

definition RocksPrefixIter_Valid :: "string \<Rightarrow> (string \<times> string) list \<Rightarrow> bool" where
  "RocksPrefixIter_Valid pre it \<longleftrightarrow> it \<noteq> [] \<and> prefix pre (fst (hd it))"

definition RocksRangeIter_Valid :: "string \<Rightarrow> (string \<times> string) list \<Rightarrow> bool" where
  "RocksRangeIter_Valid end it \<longleftrightarrow> it \<noteq> [] \<and> fst (hd it) < end"

text \<open>The loop \<open>for (; iter->Valid(); iter->Next())\<close> of the callers: the entries it visits.\<close>

function iter_all :: "((string \<times> string) list \<Rightarrow> bool) \<Rightarrow> (string \<times> string) list \<Rightarrow> (string \<times> string) list" where
  "iter_all valid it = (if it \<noteq> [] \<and> valid it then hd it # iter_all valid (tl it) else [])"
  by pat_completeness auto
termination by (relation "measure (\<lambda>(_, it). length it)") auto

declare iter_all.simps [simp del]

definition RocksStore_ScanPrefix :: "rocks_store \<Rightarrow> string \<Rightarrow> (string \<times> string) list" where
  "RocksStore_ScanPrefix st pre = iter_all (RocksPrefixIter_Valid pre) (kv_seek st pre)"

definition RocksStore_ScanRange :: "rocks_store \<Rightarrow> string \<Rightarrow> string \<Rightarrow> (string \<times> string) list" where
  "RocksStore_ScanRange st begin end = iter_all (RocksRangeIter_Valid end) (kv_seek st begin)"

text \<open>A table kept in memory and the part of the store under its prefix agree: each entry
  is stored under its key, encoded, and nothing else is stored under the prefix.\<close>

definition mirrors :: "(string \<rightharpoonup> string) \<Rightarrow> string \<Rightarrow> ('id \<Rightarrow> string) \<Rightarrow> ('a \<Rightarrow> string) \<Rightarrow> ('id \<rightharpoonup> 'a) \<Rightarrow> bool" where
  "mirrors db pre key enc m \<longleftrightarrow>
     (\<forall>id. db (key id) = map_option enc (m id)) \<and>
     (\<forall>k. prefix pre k \<longrightarrow> db k \<noteq> None \<longrightarrow> (\<exists>id. k = key id))"

section \<open>The ordered map keeps its order\<close>

lemma kv_insert_keys: "fst ` set (kv_insert k v db) = insert k (fst ` set db)"
  by (induction k v db rule: kv_insert.induct) auto

lemma kv_insert_sorted: "sorted_wrt (<) (map fst db) \<Longrightarrow> sorted_wrt (<) (map fst (kv_insert k v db))"
proof (induction k v db rule: kv_insert.induct)
  case (2 k v k' v' r)
  have "\<forall>x\<in>fst ` set (kv_insert k v r). k' < x" if "k' < k"
    using that 2(2) unfolding kv_insert_keys by auto
  then show ?case using 2 by auto
qed simp

lemma kv_insert_lookup:
  "sorted_wrt (<) (map fst db) \<Longrightarrow> map_of (kv_insert k v db) = (map_of db)(k \<mapsto> v)"
proof (induction k v db rule: kv_insert.induct)
  case (2 k v k' v' r)
  then show ?case by (auto simp: fun_eq_iff)
qed auto

lemma kv_delete_sorted: "sorted_wrt (<) (map fst db) \<Longrightarrow> sorted_wrt (<) (map fst (kv_delete k db))"
  by (induction db) (auto simp: kv_delete_def)

lemma kv_delete_lookup: "map_of (kv_delete k db) = (map_of db)(k := None)"
  by (induction db) (auto simp: kv_delete_def fun_eq_iff)

lemma fold_kv_insert:
  "sorted_wrt (<) (map fst db) \<Longrightarrow>
   sorted_wrt (<) (map fst (fold (\<lambda>(k, v). kv_insert k v) kvs db)) \<and>
   map_of (fold (\<lambda>(k, v). kv_insert k v) kvs db) = map_of db ++ map_of (rev kvs)"
proof (induction kvs arbitrary: db)
  case (Cons p kvs)
  obtain k v where p: "p = (k, v)" by (cases p)
  let ?db = "kv_insert k v db"
  have "map_of (fold (\<lambda>(k, v). kv_insert k v) kvs ?db) = (map_of db)(k \<mapsto> v) ++ map_of (rev kvs)"
    using Cons kv_insert_sorted kv_insert_lookup by metis
  also have "\<dots> = map_of db ++ map_of (rev (p # kvs))"
    unfolding p by (simp add: map_add_def fun_eq_iff split: option.split)
  finally show ?case using Cons.IH[OF kv_insert_sorted[OF Cons.prems]] p by simp
qed simp

lemma fold_kv_delete:
  "sorted_wrt (<) (map fst db) \<Longrightarrow>
   sorted_wrt (<) (map fst (fold kv_delete ks db)) \<and>
   map_of (fold kv_delete ks db) = (map_of db) |` (- set ks)"
proof (induction ks arbitrary: db)
  case (Cons k ks)
  then show ?case by (auto simp: kv_delete_sorted kv_delete_lookup restrict_map_def fun_eq_iff)
qed (simp add: restrict_map_def)

section \<open>Scans\<close>

lemma iter_all_takeWhile:
  assumes "\<And>x xs. valid (x # xs) = P x"
  shows "iter_all valid it = takeWhile P it"
proof (induction it)
  case (Cons x xs)
  then show ?case using assms by (subst iter_all.simps) auto
qed (subst iter_all.simps, simp)

lemma prefix_le: "prefix p (k :: string) \<Longrightarrow> p \<le> k"
proof (induction p arbitrary: k)
  case (Cons x p)
  then show ?case by (cases k) auto
qed simp

text \<open>The keys with a given prefix are an interval of the order.\<close>

lemma prefix_interval:
  fixes p a b :: string
  assumes "prefix p a" "p \<le> b" "b \<le> a" shows "prefix p b"
  using assms
proof (induction p arbitrary: a b)
  case (Cons x p)
  then obtain a' where a: "a = x # a'" "prefix p a'" by (cases a) auto
  show ?case
  proof (cases b)
    case Nil
    then show ?thesis using Cons.prems by simp
  next
    case (Cons y b')
    then have "x = y" "p \<le> b'" "b' \<le> a'"
      using Cons.prems a by auto
    then show ?thesis using Cons.IH a Cons by auto
  qed
qed simp

lemma sorted_take_drop:
  assumes "sorted_wrt (<) (map fst db)" "\<And>k. P k \<Longrightarrow> lo \<le> k"
    and "\<And>k k'. \<lbrakk>P k'; lo \<le> k; k \<le> k'\<rbrakk> \<Longrightarrow> P k"
  shows "takeWhile (\<lambda>e. P (fst e)) (dropWhile (\<lambda>e. fst e < (lo :: string)) db) = filter (\<lambda>e. P (fst e)) db"
  using assms(1)
proof (induction db)
  case (Cons e db)
  have none: "filter (\<lambda>e. P (fst e)) db = []" if "\<not> P (fst e)" "lo \<le> fst e"
    using that Cons.prems assms(3)[of _ "fst e"] by (fastforce simp: filter_empty_conv)
  show ?case
  proof (cases "fst e < lo")
    case True
    then show ?thesis using Cons assms(2)[of "fst e"] by auto
  next
    case False
    then have drop: "dropWhile (\<lambda>e. fst e < lo) db = db"
      using Cons.prems by (cases db) (auto simp: dual_order.strict_trans1 not_less)
    show ?thesis using Cons False none unfolding drop by auto
  qed
qed simp

lemma ScanPrefix_eq:
  assumes "kv_wf st"
  shows "RocksStore_ScanPrefix st pre = filter (\<lambda>e. prefix pre (fst e)) (rs_db st)"
proof -
  have "RocksStore_ScanPrefix st pre = takeWhile (\<lambda>e. prefix pre (fst e)) (dropWhile (\<lambda>e. fst e < pre) (rs_db st))"
    unfolding RocksStore_ScanPrefix_def kv_seek_def
    by (subst iter_all_takeWhile[where P = "\<lambda>e. prefix pre (fst e)"])
      (auto simp: RocksPrefixIter_Valid_def case_prod_unfold)
  also have "\<dots> = filter (\<lambda>e. prefix pre (fst e)) (rs_db st)"
    using assms unfolding kv_wf_def by (rule sorted_take_drop[OF _ prefix_le prefix_interval])
  finally show ?thesis .
qed

lemma ScanRange_eq:
  assumes "kv_wf st"
  shows "RocksStore_ScanRange st lo hi = filter (\<lambda>e. lo \<le> fst e \<and> fst e < hi) (rs_db st)"
proof -
  have "RocksStore_ScanRange st lo hi = takeWhile (\<lambda>e. fst e < hi) (dropWhile (\<lambda>e. fst e < lo) (rs_db st))"
    unfolding RocksStore_ScanRange_def kv_seek_def
    by (subst iter_all_takeWhile[where P = "\<lambda>e. fst e < hi"])
      (auto simp: RocksRangeIter_Valid_def case_prod_unfold)
  also have "\<dots> = takeWhile (\<lambda>e. lo \<le> fst e \<and> fst e < hi) (dropWhile (\<lambda>e. fst e < lo) (rs_db st))"
  proof (rule takeWhile_cong)
    fix e assume "e \<in> set (dropWhile (\<lambda>e. fst e < lo) (rs_db st))"
    moreover have "\<forall>e\<in>set (dropWhile (\<lambda>e. fst e < lo) db). lo \<le> fst e" if "sorted_wrt (<) (map fst db)" for db :: "(string \<times> string) list"
      using that by (induction db) (auto simp: not_less intro: order.trans less_imp_le)
    ultimately show "fst e < hi \<longleftrightarrow> lo \<le> fst e \<and> fst e < hi" using assms by (auto simp: kv_wf_def)
  qed simp
  also have "\<dots> = filter (\<lambda>e. lo \<le> fst e \<and> fst e < hi) (rs_db st)"
    using assms by (intro sorted_take_drop) (auto simp: kv_wf_def)
  finally show ?thesis .
qed

section \<open>The store interface\<close>

locale kv_store =
  fixes wf :: "'s \<Rightarrow> bool"
    and lookup :: "'s \<Rightarrow> string \<Rightarrow> string option"
    and put :: "'s \<Rightarrow> string \<Rightarrow> string \<Rightarrow> rocks_status \<times> 's"
    and del :: "'s \<Rightarrow> string \<Rightarrow> rocks_status \<times> 's"
    and scan :: "'s \<Rightarrow> string \<Rightarrow> (string \<times> string) list"
  assumes put_law: "\<lbrakk>wf st; put st k v = (s, st')\<rbrakk> \<Longrightarrow>
        wf st' \<and> lookup st' = (if rs_ok s then (lookup st)(k \<mapsto> v) else lookup st)"
    and del_law: "\<lbrakk>wf st; del st k = (s, st')\<rbrakk> \<Longrightarrow>
        wf st' \<and> lookup st' = (if rs_ok s then (lookup st)(k := None) else lookup st)"
    and scan_law: "wf st \<Longrightarrow> (k, v) \<in> set (scan st pre) \<longleftrightarrow> lookup st k = Some v \<and> prefix pre k"
    and scan_distinct: "wf st \<Longrightarrow> distinct (map fst (scan st pre))"

text \<open>A table of records of one type, stored under the keys of one prefix.\<close>

locale kv_table = kv_store wf lookup put del scan + codec arch unarch valid
  for wf :: "'s \<Rightarrow> bool" and lookup and put and del and scan
    and arch :: "'a \<Rightarrow> string" and unarch and valid +
  fixes pre :: string
    and key :: "'id \<Rightarrow> string"
  assumes key_inj: "key i = key j \<Longrightarrow> i = j"
    and key_prefix: "prefix pre (key i)"
begin

lemma mirrors_put:
  assumes "wf st" "mirrors (lookup st) pre key enc m" "put st (key i) (enc x) = (s, st')"
  shows "wf st' \<and> mirrors (lookup st') pre key enc (if rs_ok s then m(i \<mapsto> x) else m)"
  using put_law[OF assms(1,3)] assms(2) key_inj unfolding mirrors_def by (auto split: if_splits)

lemma mirrors_del:
  assumes "wf st" "mirrors (lookup st) pre key enc m" "del st (key i) = (s, st')"
  shows "wf st' \<and> mirrors (lookup st') pre key enc (if rs_ok s then m(i := None) else m)"
  using del_law[OF assms(1,3)] assms(2) key_inj unfolding mirrors_def by (auto split: if_splits)

text \<open>A write under another prefix does not disturb the table.\<close>

lemma mirrors_put_other:
  assumes "wf st" "mirrors (lookup st) pre key enc m" "put st k v = (s, st')" "\<not> prefix pre k"
  shows "wf st' \<and> mirrors (lookup st') pre key enc m"
  using put_law[OF assms(1,3)] assms(2,4) key_prefix unfolding mirrors_def by (auto split: if_splits)

lemma mirrors_del_other:
  assumes "wf st" "mirrors (lookup st) pre key enc m" "del st k = (s, st')" "\<not> prefix pre k"
  shows "wf st' \<and> mirrors (lookup st') pre key enc m"
  using del_law[OF assms(1,3)] assms(2,4) key_prefix unfolding mirrors_def by (auto split: if_splits)

text \<open>A scan of the prefix finds exactly the stored records, and each decodes to the
  record of the table.\<close>

lemma scan_table:
  assumes "wf st" "mirrors (lookup st) pre key (Serializer_Encode crc arch) m"
    "\<And>i x. m i = Some x \<Longrightarrow> valid x \<and> length (arch x) < 2 ^ 31"
  shows "(k, v) \<in> set (scan st pre) \<longleftrightarrow> (\<exists>i x. k = key i \<and> m i = Some x \<and> v = Serializer_Encode crc arch x)"
    and "(k, v) \<in> set (scan st pre) \<Longrightarrow> \<exists>i x. k = key i \<and> m i = Some x \<and> Serializer_Decode crc unarch v = Decode_ok x"
proof -
  show *: "(k, v) \<in> set (scan st pre) \<longleftrightarrow> (\<exists>i x. k = key i \<and> m i = Some x \<and> v = Serializer_Encode crc arch x)" for k v
    using assms(2) key_prefix unfolding scan_law[OF assms(1)] mirrors_def by fastforce
  show "\<exists>i x. k = key i \<and> m i = Some x \<and> Serializer_Decode crc unarch v = Decode_ok x"
    if "(k, v) \<in> set (scan st pre)" using that assms(3) decode_encode unfolding * by blast
qed

end

lemma kv_write_cases:
  obtains (fail) "kv_write st f = (RocksError, st \<lparr> rs_faults := tl (rs_faults st) \<rparr>)"
  | (ok) fs where "kv_write st f = (RocksOk, \<lparr> rs_db = f (rs_db st), rs_faults = fs \<rparr>)"
proof (cases "rs_faults st")
  case Nil
  then show thesis using ok[of "[]"] by (cases st) (simp add: kv_write_def)
next
  case (Cons b fs)
  then show thesis using ok[of fs] fail by (cases b) (simp_all add: kv_write_def)
qed

interpretation rocks: kv_store kv_wf kv_lookup RocksStore_Put RocksStore_Delete RocksStore_ScanPrefix
proof (unfold_locales, goal_cases)
  case (1 st k v s st')
  then show ?case
    by (cases rule: kv_write_cases[of st "kv_insert k v"])
      (auto simp: RocksStore_Put_def kv_wf_def kv_lookup_def rs_ok_def kv_insert_sorted kv_insert_lookup)
next
  case (2 st k s st')
  then show ?case
    by (cases rule: kv_write_cases[of st "kv_delete k"])
      (auto simp: RocksStore_Delete_def kv_wf_def kv_lookup_def rs_ok_def kv_delete_sorted kv_delete_lookup)
next
  case (3 st k v pre)
  then have "distinct (map fst (rs_db st))" by (simp add: kv_wf_def strict_sorted_iff)
  then have "(k, v) \<in> set (rs_db st) \<longleftrightarrow> kv_lookup st k = Some v" by (simp add: kv_lookup_def)
  then show ?case using 3 by (auto simp: ScanPrefix_eq)
next
  case (4 st pre)
  then have "distinct (map fst (rs_db st))" by (simp add: kv_wf_def strict_sorted_iff)
  then show ?case using 4 by (simp add: ScanPrefix_eq distinct_map_filter)
qed

lemma MultiPut_law:
  assumes "kv_wf st" "RocksStore_MultiPut st kvs = (s, st')"
  shows "kv_wf st' \<and> kv_lookup st' = (if rs_ok s then kv_lookup st ++ map_of (rev kvs) else kv_lookup st)"
  using assms fold_kv_insert[of "rs_db st" kvs]
  by (cases rule: kv_write_cases[of st "fold (\<lambda>(k, v). kv_insert k v) kvs"])
    (auto simp: RocksStore_MultiPut_def kv_wf_def kv_lookup_def rs_ok_def)

lemma MultiDelete_law:
  assumes "kv_wf st" "RocksStore_MultiDelete st ks = (s, st')"
  shows "kv_wf st' \<and> kv_lookup st' = (if rs_ok s then kv_lookup st |` (- set ks) else kv_lookup st)"
  using assms fold_kv_delete[of "rs_db st" ks]
  by (cases rule: kv_write_cases[of st "fold kv_delete ks"])
    (auto simp: RocksStore_MultiDelete_def kv_wf_def kv_lookup_def rs_ok_def)

section \<open>Properties\<close>

text \<open>A prefix scan (seek to the prefix, then iterate while the key starts with it) visits
  exactly the stored entries whose key starts with the prefix, each once, in key order;
  a range scan visits exactly the entries of the half-open range.\<close>

theorem scans_complete:
  assumes "kv_wf st"
  shows "RocksStore_ScanPrefix st pre = filter (\<lambda>e. prefix pre (fst e)) (rs_db st) \<and>
     RocksStore_ScanRange st lo hi = filter (\<lambda>e. lo \<le> fst e \<and> fst e < hi) (rs_db st)"
  using ScanPrefix_eq[OF assms] ScanRange_eq[OF assms] by simp

theorem scans_complete_witness:
  "let st = \<lparr> rs_db = [(''a1'', ''x''), (''b1'', ''y''), (''b2'', ''z''), (''c'', ''w'')], rs_faults = [] \<rparr>
   in kv_wf st \<and> RocksStore_ScanPrefix st ''b'' = [(''b1'', ''y''), (''b2'', ''z'')]"
proof -
  let ?st = "\<lparr> rs_db = [(''a1'', ''x''), (''b1'', ''y''), (''b2'', ''z''), (''c'', ''w'')], rs_faults = [] \<rparr>"
  have wf: "kv_wf ?st" by (simp add: kv_wf_def)
  have "filter (\<lambda>e. prefix ''b'' (fst e)) (rs_db ?st) = [(''b1'', ''y''), (''b2'', ''z'')]" by simp
  with scans_complete[OF wf, of "''b''" "[]" "[]"] wf show ?thesis by simp
qed

end
