(* ===== verification/Meta_Table.thy ===== *)
theory Meta_Table
  imports Kv_Store "HOL-Library.AList"
begin

text \<open>
  What the managers of the extent manager share: tables of records in memory with a copy
  in the key-value store. \<open>std::unordered_map\<close> is an association list (its order stands
  for the unspecified iteration order), \<open>std::map\<close> one that is ordered by key. Numbers in
  keys are decimal, as \<open>operator<<\<close> and \<open>std::to_string\<close> print them.

  The locale \<open>meta_table\<close> extends the store interface of \<open>Kv_Store\<close> by the identifier of
  a record; its lemmas say that the loop of every \<open>recovery_from_store\<close> restores the
  table that is stored, and how writes and deletions move table and store together.
\<close>

section \<open>Maps\<close>

text \<open>\<open>map[key] = value\<close> for \<open>std::map\<close>.\<close>

fun smap_insert :: "'k :: linorder \<Rightarrow> 'v \<Rightarrow> ('k \<times> 'v) list \<Rightarrow> ('k \<times> 'v) list" where
  "smap_insert k v [] = [(k, v)]"
| "smap_insert k v ((k', v') # r) =
     (if k < k' then (k, v) # (k', v') # r
      else if k = k' then (k, v) # r
      else (k', v') # smap_insert k v r)"

section \<open>Decimal numbers\<close>

fun dec_digits :: "nat \<Rightarrow> string" where
  "dec_digits n = (if n < 10 then [char_of (48 + n)] else dec_digits (n div 10) @ [char_of (48 + n mod 10)])"

declare dec_digits.simps [simp del]

definition dec_int :: "int \<Rightarrow> string" where
  "dec_int i = (if i < 0 then CHR ''-'' # dec_digits (nat (- i)) else dec_digits (nat i))"

text \<open>The number a string of digits stands for.\<close>

definition dec_value :: "string \<Rightarrow> nat" where
  "dec_value s = foldl (\<lambda>a c. a * 10 + (of_char c - 48)) 0 s"

section \<open>Recovery\<close>

text \<open>The loop of \<open>recovery_from_store\<close>: decode each value and enter it into the table,
  stop at the first that does not decode. \<open>None\<close>: the archive reader throws.\<close>

fun recover_values :: "('k \<Rightarrow> 'a \<Rightarrow> 'm \<Rightarrow> 'm) \<Rightarrow> (string \<Rightarrow> 'a decoded) \<Rightarrow> ('a \<Rightarrow> 'k) \<Rightarrow> string list \<Rightarrow> 'm
    \<Rightarrow> (bool \<times> 'm) option" where
  "recover_values upd dec ident [] m = Some (True, m)"
| "recover_values upd dec ident (v # vs) m =
     (case dec v of
        Decode_throw \<Rightarrow> None
      | Decode_false \<Rightarrow> Some (False, m)
      | Decode_ok x \<Rightarrow> recover_values upd dec ident vs (upd (ident x) x m))"

section \<open>Writes in batches\<close>

text \<open>The loop that writes pairs \<open>n\<close> at a time, and the rest after it.\<close>

fun put_batches :: "nat \<Rightarrow> status \<Rightarrow> rocks_store \<Rightarrow> (string \<times> string) list \<Rightarrow> (string \<times> string) list \<Rightarrow> status \<times> rocks_store" where
  "put_batches n err st kvs [] =
     (if kvs \<noteq> [] then
        (case RocksStore_MultiPut st kvs of (s, st) \<Rightarrow> if \<not> rs_ok s then (err, st) else (Status_OK, st))
      else (Status_OK, st))"
| "put_batches n err st kvs (kv # m) =
     (let kvs = kvs @ [kv] in
      if length kvs = n then
        (case RocksStore_MultiPut st kvs of (s, st) \<Rightarrow> if \<not> rs_ok s then (err, st) else put_batches n err st [] m)
      else put_batches n err st kvs m)"

section \<open>A table and its copy in the store\<close>

text \<open>The store holds exactly the records of the table under the prefix of the table, each
  record is filed under its own identifier, and each is valid.\<close>

definition table_inv :: "('s \<Rightarrow> bool) \<Rightarrow> ('s \<Rightarrow> string \<Rightarrow> string option) \<Rightarrow> ('a \<Rightarrow> string) \<Rightarrow> ('a \<Rightarrow> bool) \<Rightarrow> string
    \<Rightarrow> ('id \<Rightarrow> string) \<Rightarrow> ('a \<Rightarrow> 'id) \<Rightarrow> (string \<Rightarrow> 32 word) \<Rightarrow> 's \<Rightarrow> ('id \<rightharpoonup> 'a) \<Rightarrow> bool" where
  "table_inv store_wf lookup arch valid pre key ident crc st m \<longleftrightarrow>
     store_wf st \<and> mirrors (lookup st) pre key (Serializer_Encode crc arch) m \<and>
     (\<forall>i x. m i = Some x \<longrightarrow> ident x = i \<and> valid x)"

text \<open>Some call and its answer are related.\<close>

fun list_ex2 :: "('a \<Rightarrow> 'b \<Rightarrow> bool) \<Rightarrow> 'a list \<Rightarrow> 'b list \<Rightarrow> bool" where
  "list_ex2 f (x # xs) (y # ys) \<longleftrightarrow> f x y \<or> list_ex2 f xs ys"
| "list_ex2 f _ _ \<longleftrightarrow> False"

section \<open>Lemmas on maps\<close>

lemma map_of_update [simp]: "map_of (AList.update k v m) = (map_of m)(k \<mapsto> v)"
  by (rule update_conv')

lemma map_of_delete [simp]: "map_of (AList.delete k m) = (map_of m)(k := None)"
  by (rule delete_conv')

lemma update_same: "map_of m i = Some b \<Longrightarrow> AList.update i b m = m"
  by (induction m) auto

lemma map_of_smap_insert [simp]: "map_of (smap_insert k v m) = (map_of m)(k \<mapsto> v)"
  by (induction k v m rule: smap_insert.induct) (auto simp: fun_eq_iff)

lemma smap_insert_keys: "fst ` set (smap_insert k v m) = insert k (fst ` set m)"
  by (induction k v m rule: smap_insert.induct) auto

lemma smap_insert_sorted:
  "sorted_wrt (<) (map fst m) \<Longrightarrow> sorted_wrt (<) (map fst (smap_insert k v m))"
proof (induction k v m rule: smap_insert.induct)
  case (2 k v k' v' r)
  have "\<forall>x\<in>fst ` set (smap_insert k v r). k' < x" if "k' < k"
    using that 2(2) unfolding smap_insert_keys by auto
  then show ?case using 2 by auto
qed simp

lemma sorted_delete: "sorted_wrt (<) (map fst m) \<Longrightarrow> sorted_wrt (<) (map fst (AList.delete k m))"
  by (induction m) (auto simp: AList.delete_eq)

lemma sorted_map_distinct: "sorted_wrt (<) (map fst (m :: ('k :: linorder \<times> 'v) list)) \<Longrightarrow> distinct (map fst m)"
  by (simp add: strict_sorted_iff)

lemma map_preimage: "\<forall>y\<in>set ys. \<exists>x\<in>A. y = f x \<Longrightarrow> \<exists>xs. ys = map f xs \<and> set xs \<subseteq> A"
proof (induction ys)
  case (Cons y ys)
  then obtain x xs where "x \<in> A" "y = f x" "ys = map f xs" "set xs \<subseteq> A" by auto
  then show ?case by (intro exI[of _ "x # xs"]) simp
qed simp

section \<open>Batches\<close>

lemma fold_smap_insert:
  assumes "sorted_wrt (<) (map fst (m :: (string \<times> string) list))"
  shows "sorted_wrt (<) (map fst (fold (\<lambda>x. smap_insert (k x) (v x)) xs m)) \<and>
    map_of (fold (\<lambda>x. smap_insert (k x) (v x)) xs m) = map_of m ++ map_of (rev (map (\<lambda>x. (k x, v x)) xs))"
  using assms
proof (induction xs arbitrary: m)
  case (Cons x xs)
  from Cons.IH[OF smap_insert_sorted[OF Cons.prems, of "k x" "v x"]] show ?case
    by (auto simp: fun_eq_iff map_add_def split: option.splits)
qed simp

lemma map_of_rev_distinct: "distinct (map fst kvs) \<Longrightarrow> map_of (rev kvs) = map_of kvs"
  by (simp add: map_of_inject_set flip: rev_map)

text \<open>What the batches write: all of the entries, or a part.\<close>

lemma put_batches_spec:
  assumes "kv_wf st" "distinct (map fst (kvs @ m))" "put_batches n err st kvs m = (s, st')" "\<not> st_ok err"
  shows "kv_wf st' \<and> (\<exists>n. kv_lookup st' = kv_lookup st ++ map_of (take n (kvs @ m)) \<and> (st_ok s \<longrightarrow> length (kvs @ m) \<le> n))"
  using assms
proof (induction n err st kvs m rule: put_batches.induct)
  case (1 n err st kvs)
  obtain k st1 where w: "RocksStore_MultiPut st kvs = (k, st1)" by fastforce
  have "map_of (rev kvs) = map_of kvs" using 1(2) by (simp add: map_of_rev_distinct)
  with MultiPut_law[OF 1(1) w] have "kv_wf st1" "kv_lookup st1 = (if rs_ok k then kv_lookup st ++ map_of kvs else kv_lookup st)"
    by simp_all
  then show ?case using 1 w
    by (cases "kvs = []"; cases "rs_ok k") (auto simp: st_ok_def intro: exI[of _ "length kvs"] exI[of _ 0])
next
  case (2 n err st kvs kv m)
  let ?kvs = "kvs @ [kv]"
  show ?case
  proof (cases "length ?kvs = n")
    case False
    then show ?thesis using 2(2)[OF refl False 2(3)] 2(4-6) by simp
  next
    case True
    obtain k st1 where w: "RocksStore_MultiPut st ?kvs = (k, st1)" by fastforce
    have d: "distinct (map fst ?kvs)" "distinct (map fst m)" using 2(4) by auto
    have "map_of (rev ?kvs) = map_of ?kvs" using d(1) by (rule map_of_rev_distinct)
    with MultiPut_law[OF 2(3) w] have st1: "kv_wf st1" "kv_lookup st1 = (if rs_ok k then kv_lookup st ++ map_of ?kvs else kv_lookup st)"
      by simp_all
    show ?thesis
    proof (cases "rs_ok k")
      case False
      then show ?thesis using 2(5,6) True w st1 by (auto simp: Let_def intro: exI[of _ 0])
    next
      case ok: True
      then have "put_batches n err st1 [] m = (s, st')" using 2(5) True w by (simp add: Let_def)
      from 2(1)[OF refl True w[symmetric] _ st1(1) _ this 2(6)] ok d(2)
      obtain j where n: "kv_wf st'" "kv_lookup st' = kv_lookup st1 ++ map_of (take j m)" "st_ok s \<longrightarrow> length m \<le> j" by auto
      have "map_of (?kvs @ take j m) = map_of ?kvs ++ map_of (take j m)"
      proof -
        have "dom (map_of ?kvs) \<inter> dom (map_of (take j m)) = {}"
          using 2(4) by (auto simp: dom_map_of_conv_image_fst dest!: in_set_takeD)
        then show ?thesis by (simp add: map_add_comm)
      qed
      then have "kv_lookup st' = kv_lookup st ++ map_of (?kvs @ take j m)" using n(2) st1(2) ok by (simp only: map_add_assoc if_True)
      moreover have "take (length ?kvs + j) (kvs @ kv # m) = ?kvs @ take j m" by simp
      ultimately have "kv_lookup st' = kv_lookup st ++ map_of (take (length ?kvs + j) (kvs @ kv # m))" by (simp only:)
      then show ?thesis using n(1,3) by (intro conjI exI[of _ "length ?kvs + j"]) auto
    qed
  qed
qed

lemma put_batches_status: "fst (put_batches n err st kvs m) = Status_OK \<or> fst (put_batches n err st kvs m) = err"
  by (induction n err st kvs m rule: put_batches.induct) (auto simp: Let_def split: prod.splits)

section \<open>Decimal numbers are unambiguous\<close>

lemma dec_digits_value:
  "n < 10 \<Longrightarrow> of_char (char_of (48 + n) :: char) = (48 + n :: nat)"
  by simp

lemma dec_digits_ne: "dec_digits n \<noteq> []"
  by (subst dec_digits.simps) simp

lemma dec_value_digits: "dec_value (dec_digits n) = n"
proof (induction n rule: dec_digits.induct)
  case (1 n)
  show ?case
  proof (cases "n < 10")
    case True
    then show ?thesis by (subst dec_digits.simps) (simp add: dec_value_def dec_digits_value)
  next
    case False
    then have "dec_digits n = dec_digits (n div 10) @ [char_of (48 + n mod 10)]" by (subst dec_digits.simps) simp
    moreover have "of_char (char_of (48 + n mod 10) :: char) = (48 + n mod 10 :: nat)" by simp
    ultimately show ?thesis using 1[OF False] by (simp add: dec_value_def)
  qed
qed

lemma dec_digits_inject [simp]: "dec_digits m = dec_digits n \<longleftrightarrow> m = n"
  by (metis dec_value_digits)

lemma dec_digits_chars: "c \<in> set (dec_digits n) \<Longrightarrow> 48 \<le> (of_char c :: nat) \<and> (of_char c :: nat) < 58"
proof (induction n rule: dec_digits.induct)
  case (1 n)
  show ?case
  proof (cases "n < 10")
    case True
    then show ?thesis using 1(2) by (subst (asm) dec_digits.simps) (simp add: dec_digits_value)
  next
    case False
    then have "dec_digits n = dec_digits (n div 10) @ [char_of (48 + n mod 10)]" by (subst dec_digits.simps) simp
    moreover have "of_char (char_of (48 + n mod 10) :: char) = (48 + n mod 10 :: nat)" by simp
    ultimately show ?thesis using 1 False by (auto simp: dec_digits_value)
  qed
qed

lemma dec_digits_no_sign: "dec_digits n \<noteq> CHR ''-'' # s"
proof
  assume "dec_digits n = CHR ''-'' # s"
  then have "CHR ''-'' \<in> set (dec_digits n)" by simp
  from dec_digits_chars[OF this] show False by simp
qed

lemma dec_int_inject [simp]: "dec_int i = dec_int j \<longleftrightarrow> i = j"
  by (auto simp: dec_int_def dec_digits_no_sign dec_digits_no_sign[symmetric] split: if_splits)

section \<open>The table interface\<close>

lemma table_invD:
  assumes "table_inv store_wf lookup arch valid pre key ident crc st m"
  shows "store_wf st" "mirrors (lookup st) pre key (Serializer_Encode crc arch) m"
    "m i = Some x \<Longrightarrow> ident x = i" "m i = Some x \<Longrightarrow> valid x"
  using assms by (auto simp: table_inv_def)

locale meta_table = kv_table wf lookup put del scan arch unarch valid pre key
  for wf :: "'s \<Rightarrow> bool" and lookup and put and del and scan
    and arch :: "'a \<Rightarrow> string" and unarch and valid and pre and key :: "'id \<Rightarrow> string" +
  fixes ident :: "'a \<Rightarrow> 'id"
  assumes short: "valid x \<Longrightarrow> length (arch x) < 2 ^ 31"
begin

lemma inv_put:
  assumes "table_inv wf lookup arch valid pre key ident crc st m" "valid x"
    and "put st (key (ident x)) (Serializer_Encode crc arch x) = (s, st')"
  shows "table_inv wf lookup arch valid pre key ident crc st' (if rs_ok s then m(ident x \<mapsto> x) else m)"
  using mirrors_put[OF table_invD(1,2)[OF assms(1)] assms(3)] assms(1,2) by (auto simp: table_inv_def)

lemma inv_del:
  assumes "table_inv wf lookup arch valid pre key ident crc st m" "del st (key i) = (s, st')"
  shows "table_inv wf lookup arch valid pre key ident crc st' (if rs_ok s then m(i := None) else m)"
  using mirrors_del[OF table_invD(1,2)[OF assms(1)] assms(2)] assms(1) by (auto simp: table_inv_def)

lemma inv_put_other:
  assumes "table_inv wf lookup arch valid pre key ident crc st m" "put st k v = (s, st')" "\<not> prefix pre k"
  shows "table_inv wf lookup arch valid pre key ident crc st' m"
  using mirrors_put_other[OF table_invD(1,2)[OF assms(1)] assms(2,3)] assms(1) by (auto simp: table_inv_def)

lemma inv_del_other:
  assumes "table_inv wf lookup arch valid pre key ident crc st m" "del st k = (s, st')" "\<not> prefix pre k"
  shows "table_inv wf lookup arch valid pre key ident crc st' m"
  using mirrors_del_other[OF table_invD(1,2)[OF assms(1)] assms(2,3)] assms(1) by (auto simp: table_inv_def)

lemma recover_all:
  assumes "\<And>x. x \<in> set xs \<Longrightarrow> dec (enc x) = Decode_ok x"
  shows "recover_values upd dec ident (map enc xs) m = Some (True, fold (\<lambda>x. upd (ident x) x) xs m)"
  using assms by (induction xs arbitrary: m) auto

lemma fold_upd:
  assumes "\<And>k v m. look (upd k v m) = (look m)(k \<mapsto> v)"
  shows "look (fold (\<lambda>x. upd (ident x) x) xs m) = look m ++ map_of (rev (map (\<lambda>x. (ident x, x)) xs))"
  using assms by (induction xs arbitrary: m) (auto simp: map_add_def fun_eq_iff split: option.split)

text \<open>The values a scan finds are the encoded records of the table.\<close>

lemma scan_records:
  assumes inv: "table_inv wf lookup arch valid pre key ident crc st m"
  obtains xs where "map snd (scan st pre) = map (Serializer_Encode crc arch) xs" "\<forall>x. x \<in> set xs \<longleftrightarrow> (\<exists>i. m i = Some x)"
proof -
  let ?enc = "Serializer_Encode crc arch"
  note I = table_invD[OF inv]
  have S: "(k, y) \<in> set (scan st pre) \<longleftrightarrow> (\<exists>i x. k = key i \<and> m i = Some x \<and> y = ?enc x)" for k y
    by (rule scan_table(1)[OF I(1,2)]) (use I(4) short in blast)
  have "\<forall>v\<in>set (map snd (scan st pre)). \<exists>x\<in>ran m. v = ?enc x" using S by (force simp: ran_def)
  from map_preimage[OF this] obtain xs where xs: "map snd (scan st pre) = map ?enc xs" "set xs \<subseteq> ran m" by blast
  have "x \<in> set xs" if i: "m i = Some x" for i x
  proof -
    have "?enc x \<in> set (map snd (scan st pre))" using S i by force
    then obtain y where y: "y \<in> set xs" "?enc x = ?enc y" unfolding xs(1) by auto
    then obtain j where "m j = Some y" using xs(2) by (auto simp: ran_def)
    then show ?thesis using y i I(4) short encode_inject[of x y crc] by metis
  qed
  then show thesis using that[OF xs(1)] xs(2) by (auto simp: ran_def)
qed

text \<open>Recovery on a store that mirrors a table returns that table.\<close>

lemma recover_table:
  assumes inv: "table_inv wf lookup arch valid pre key ident crc st m"
    and upd: "\<And>k v t. look (upd k v t) = (look t)(k \<mapsto> v)" and empty: "look t0 = Map.empty"
  shows "\<exists>t. recover_values upd (Serializer_Decode crc unarch) ident (map snd (scan st pre)) t0 = Some (True, t) \<and> look t = m"
proof -
  note I = table_invD[OF inv]
  obtain xs where xs: "map snd (scan st pre) = map (Serializer_Encode crc arch) xs" "\<forall>x. x \<in> set xs \<longleftrightarrow> (\<exists>i. m i = Some x)"
    by (rule scan_records[OF inv])
  have "Serializer_Decode crc unarch (Serializer_Encode crc arch x) = Decode_ok x" if "x \<in> set xs" for x
    using that xs(2) I(4) short decode_encode by blast
  from recover_all[of xs "Serializer_Decode crc unarch" "Serializer_Encode crc arch" upd t0, OF this]
  have "recover_values upd (Serializer_Decode crc unarch) ident (map snd (scan st pre)) t0 = Some (True, fold (\<lambda>x. upd (ident x) x) xs t0)"
    by (simp add: xs(1))
  moreover have "map_of (rev (map (\<lambda>x. (ident x, x)) xs)) = m"
  proof
    fix i
    show "map_of (rev (map (\<lambda>x. (ident x, x)) xs)) i = m i"
    proof (cases "m i")
      case None
      then have "i \<notin> ident ` set xs" using xs(2) I(3) by force
      then show ?thesis using None by (force simp: map_of_eq_None_iff)
    next
      case (Some x)
      then have "(i, x) \<in> set (rev (map (\<lambda>x. (ident x, x)) xs))" using xs(2) I(3) by force
      moreover have "y = x" if "(i, y) \<in> set (rev (map (\<lambda>x. (ident x, x)) xs))" for y
        using that xs(2) I(3) Some by force
      ultimately show ?thesis using Some by (metis map_of_SomeD weak_map_of_SomeI)
    qed
  qed
  ultimately show ?thesis using fold_upd[of look upd xs t0, OF upd] empty by simp
qed

end

end
