(* ===== verification/Em_Enum.thy ===== *)
theory Em_Enum
  imports Meta_Table
begin

text \<open>
  The enumerations of the extent manager (\<open>src/src/extentmanager/enum.h\<close>) and how the
  archive stores records that contain them: as the integer of the enumerator, and a
  record of a versioned class (\<open>CEREAL_CLASS_VERSION\<close>) with its version in front. A code
  that is no enumerator has no meaning in the program; reading one is \<open>None\<close>.
\<close>

section \<open>Enumerations\<close>

datatype pool_type = kPoolTypeHDD | kPoolTypeSSD | kPoolTypeNVMeSSD | kPoolTypeSpecial | kPoolTypeUnknown
datatype pool_status = kPoolStatusCreated | kPoolStatusInitializing | kPoolStatusEnabled | kPoolStatusDisabled | kPoolStatusUnknown
datatype failure_domain = kFailureDomainRack | kFailureDomainHost | kFailureDomainNode | kFailureDomainUnknown
datatype user_status = kUserStatusCreated | kUserStatusDeleted | kUserStatusUnknown
datatype es_status = kESStatusOk | kESStatusFailed | kESStatusRecovering | kESStatusRebalancing | kESStatusUnknown
datatype blob_type = kBlobTypeGeneral | kBlobTypeSuperior | kBlobTypeExcellent | kBlobTypeUnknown
datatype blob_status = kBlobStatusCreated | kBlobStatusDeleted | kBlobStatusResizing | kBlobStatusSnapshotting | kBlobStatusCloning | kBlobStatusUnknown
datatype rg_status = kRGStatusOk | kRGStatusDowngrade | kRGStatusRecovering | kRGStatusRebalancing | kRGStatusUnknown

definition pool_type_codes :: "(pool_type \<times> int) list" where
  "pool_type_codes = [(kPoolTypeHDD, 0), (kPoolTypeSSD, 1), (kPoolTypeNVMeSSD, 2), (kPoolTypeSpecial, 3), (kPoolTypeUnknown, -1)]"

definition pool_status_codes :: "(pool_status \<times> int) list" where
  "pool_status_codes = [(kPoolStatusCreated, 0), (kPoolStatusInitializing, 1), (kPoolStatusEnabled, 2), (kPoolStatusDisabled, 3),
     (kPoolStatusUnknown, -1)]"

definition failure_domain_codes :: "(failure_domain \<times> int) list" where
  "failure_domain_codes = [(kFailureDomainRack, 0), (kFailureDomainHost, 1), (kFailureDomainNode, 2), (kFailureDomainUnknown, -1)]"

definition user_status_codes :: "(user_status \<times> int) list" where
  "user_status_codes = [(kUserStatusCreated, 0), (kUserStatusDeleted, 1), (kUserStatusUnknown, -1)]"

definition es_status_codes :: "(es_status \<times> int) list" where
  "es_status_codes = [(kESStatusOk, 0), (kESStatusFailed, 1), (kESStatusRecovering, 2), (kESStatusRebalancing, 3), (kESStatusUnknown, -1)]"

definition blob_type_codes :: "(blob_type \<times> int) list" where
  "blob_type_codes = [(kBlobTypeGeneral, 0), (kBlobTypeSuperior, 1), (kBlobTypeExcellent, 2), (kBlobTypeUnknown, -1)]"

definition blob_status_codes :: "(blob_status \<times> int) list" where
  "blob_status_codes = [(kBlobStatusCreated, 0), (kBlobStatusDeleted, 1), (kBlobStatusResizing, 2), (kBlobStatusSnapshotting, 3),
     (kBlobStatusCloning, 4), (kBlobStatusUnknown, -1)]"

definition rg_status_codes :: "(rg_status \<times> int) list" where
  "rg_status_codes = [(kRGStatusOk, 0), (kRGStatusDowngrade, 1), (kRGStatusRecovering, 2), (kRGStatusRebalancing, 3), (kRGStatusUnknown, -1)]"

section \<open>Archive primitives\<close>

definition put_enum :: "('e \<times> int) list \<Rightarrow> 'e \<Rightarrow> string" where
  "put_enum codes e = put_i32 (case map_of codes e of None \<Rightarrow> -1 | Some c \<Rightarrow> c)"

definition get_enum :: "('e \<times> int) list \<Rightarrow> string \<Rightarrow> ('e \<times> string) option" where
  "get_enum codes s = (case get_i32 s of
      None \<Rightarrow> None
    | Some (c, r) \<Rightarrow> map_option (\<lambda>e. (e, r)) (map_of (map prod.swap codes) c))"

text \<open>Reading one field, then the rest.\<close>

definition get_then :: "(string \<Rightarrow> ('a \<times> string) option) \<Rightarrow> ('a \<Rightarrow> string \<Rightarrow> 'b option) \<Rightarrow> string \<Rightarrow> 'b option" where
  "get_then g k s = (case g s of None \<Rightarrow> None | Some (x, r) \<Rightarrow> k x r)"

text \<open>An enumerator that the archive can store and restore.\<close>

definition enum_ok :: "('e \<times> int) list \<Rightarrow> 'e \<Rightarrow> bool" where
  "enum_ok codes e \<longleftrightarrow> (case map_of codes e of
      None \<Rightarrow> False
    | Some c \<Rightarrow> - (2 ^ 31) \<le> c \<and> c < 2 ^ 31 \<and> map_of (map prod.swap codes) c = Some e)"

section \<open>Lemmas\<close>

lemma get_enum_put: "enum_ok codes e \<Longrightarrow> get_enum codes (put_enum codes e @ r) = Some (e, r)"
  by (auto simp: enum_ok_def get_enum_def put_enum_def split: option.splits)

lemma enums_ok [simp]:
  "enum_ok pool_type_codes a"
  "enum_ok pool_status_codes b"
  "enum_ok failure_domain_codes c"
  "enum_ok user_status_codes d"
  "enum_ok es_status_codes e"
  "enum_ok blob_type_codes f"
  "enum_ok blob_status_codes g"
  "enum_ok rg_status_codes h"
proof -
  show "enum_ok pool_type_codes a" by (cases a) (simp_all add: enum_ok_def pool_type_codes_def)
  show "enum_ok pool_status_codes b" by (cases b) (simp_all add: enum_ok_def pool_status_codes_def)
  show "enum_ok failure_domain_codes c" by (cases c) (simp_all add: enum_ok_def failure_domain_codes_def)
  show "enum_ok user_status_codes d" by (cases d) (simp_all add: enum_ok_def user_status_codes_def)
  show "enum_ok es_status_codes e" by (cases e) (simp_all add: enum_ok_def es_status_codes_def)
  show "enum_ok blob_type_codes f" by (cases f) (simp_all add: enum_ok_def blob_type_codes_def)
  show "enum_ok blob_status_codes g" by (cases g) (simp_all add: enum_ok_def blob_status_codes_def)
  show "enum_ok rg_status_codes h" by (cases h) (simp_all add: enum_ok_def rg_status_codes_def)
qed

lemma length_put [simp]:
  "length (put_u64 v) = 8" "length (put_u32 v) = 4" "length (put_i32 i) = 4" "length (put_str s) = 8 + length s"
  "length (put_enum codes e) = 4"
  by (simp_all add: put_u64_def put_u32_def put_i32_def put_str_def put_enum_def)

lemma get_then_put [simp]:
  "v < 2 ^ 64 \<Longrightarrow> get_then get_u64 k1 (put_u64 v @ r) = k1 v r"
  "w < 2 ^ 32 \<Longrightarrow> get_then get_u32 k2 (put_u32 w @ r) = k2 w r"
  "- (2 ^ 31) \<le> i \<Longrightarrow> i < 2 ^ 31 \<Longrightarrow> get_then get_i32 k3 (put_i32 i @ r) = k3 i r"
  "length s < 2 ^ 64 \<Longrightarrow> get_then get_str k4 (put_str s @ r) = k4 s r"
  "enum_ok codes e \<Longrightarrow> get_then (get_enum codes) k5 (put_enum codes e @ r) = k5 e r"
  by (simp_all add: get_then_def get_enum_put)

end
