(* ===== verification/Pb_Types.thy ===== *)
theory Pb_Types
  imports Em_Enum
begin

text \<open>
  The messages of \<open>src/src/common/pb/types.proto\<close> that the servers exchange, as records,
  and the conversions between the enumerations of the extent manager and those of the
  messages (\<open>src/src/utils/pb_transfer.cpp\<close>). Unset optional fields read as their
  defaults, so the records hold plain values.
\<close>

section \<open>Messages\<close>

datatype pb_user_status = USER_STATUS_CREATED | USER_STATUS_DELETED | USER_STATUS_UNKNOWN
datatype pb_blob_type = BLOB_TYPE_GENERAL | BLOB_TYPE_SUPERIOR | BLOB_TYPE_EXCELLENT | BLOB_TYPE_UNKNOWN
datatype pb_blob_status = BLOB_STATUS_CREATED | BLOB_STATUS_DELETED | BLOB_STATUS_RESIZING | BLOB_STATUS_SNAPSHOTTING
  | BLOB_STATUS_CLONING | BLOB_STATUS_UNKNOWN
datatype pb_es_status = ES_STATUS_OK | ES_STATUS_FAILED | ES_STATUS_RECOVERING | ES_STATUS_REBALANCING | ES_STATUS_UNKNOWN
datatype pb_rg_status = RG_STATUS_OK | RG_STATUS_DOWNGRADE | RG_STATUS_RECOVERING | RG_STATUS_REBALANCING | RG_STATUS_UNKNOWN
datatype pb_pool_type = POOL_TYPE_HDD | POOL_TYPE_SSD | POOL_TYPE_NVME_SSD | POOL_TYPE_SPECIAL | POOL_TYPE_UNKNOWN
datatype pb_pool_status = POOL_STATUS_CREATED | POOL_STATUS_ENABLED | POOL_STATUS_DISABLED | POOL_STATUS_UNKNOWN
datatype pb_failure_domain = FAILURE_DOMAIN_RACK | FAILURE_DOMAIN_HOST | FAILURE_DOMAIN_NODE | FAILURE_DOMAIN_UNKNOWN

record pb_user =
  pbu_id :: string
  pbu_name :: string
  pbu_email :: string
  pbu_comments :: string
  pbu_status :: pb_user_status
  pbu_pool_id :: string
  pbu_set_id :: int
  pbu_create_date :: string
  pbu_update_date :: string

record pb_blob =
  pbb_id :: string
  pbb_name :: string
  pbb_size :: nat
  pbb_type :: pb_blob_type
  pbb_desc :: string
  pbb_status :: pb_blob_status
  pbb_pool_id :: string
  pbb_user_id :: string
  pbb_instance_id :: string
  pbb_create_date :: string
  pbb_update_date :: string

record pb_endpoint =
  pbe_public_ip :: string
  pbe_public_port :: int
  pbe_private_ip :: string
  pbe_private_port :: int

record pb_extent_server =
  pbs_id :: int
  pbs_name :: string
  pbs_size :: nat
  pbs_capacity :: nat
  pbs_pool_id :: string
  pbs_host :: string
  pbs_rack :: string
  pbs_status :: pb_es_status
  pbs_endpoint :: pb_endpoint
  pbs_create_date :: string
  pbs_update_date :: string

text \<open>\<open>extent_size\<close> is a \<open>uint32\<close> in the message.\<close>

record pb_replica_group =
  pbr_id :: string
  pbr_status :: pb_rg_status
  pbr_extent_size :: nat
  pbr_nr_extents :: nat
  pbr_pool_id :: string
  pbr_create_date :: string
  pbr_update_date :: string
  pbr_extent_servers :: "int list"

record pb_pool =
  pbp_id :: string
  pbp_name :: string
  pbp_type :: pb_pool_type
  pbp_status :: pb_pool_status
  pbp_replica_count :: int
  pbp_rg_count :: int
  pbp_es_count :: int
  pbp_failure_domain :: pb_failure_domain
  pbp_create_date :: string
  pbp_update_date :: string
  pbp_capacity :: nat
  pbp_size :: nat
  pbp_extent_size :: nat
  pbp_num_extents :: nat

record pb_es_instance =
  pbi_es_id :: int
  pbi_public_ip :: string
  pbi_public_port :: int
  pbi_private_ip :: string
  pbi_private_port :: int

text \<open>A router in the making: the primary is unset until it is assigned.\<close>

record pb_extent_router =
  pbx_extent_id :: string
  pbx_rg_id :: string
  pbx_primary :: "pb_es_instance option"
  pbx_secondaries :: "pb_es_instance list"

record pb_extent_manager =
  pbm_id :: int
  pbm_name :: string
  pbm_endpoint :: pb_endpoint

record pb_set =
  pbset_id :: int
  pbset_name :: string
  pbset_em :: pb_extent_manager
  pbset_pools :: "pb_pool list"

record pb_set_route =
  pbsr_set_id :: int
  pbsr_set_name :: string
  pbsr_ip :: string
  pbsr_port :: int

section \<open>Conversions\<close>

definition ToPbUserStatus :: "user_status \<Rightarrow> pb_user_status" where
  "ToPbUserStatus s = (case s of
      kUserStatusCreated \<Rightarrow> USER_STATUS_CREATED | kUserStatusDeleted \<Rightarrow> USER_STATUS_DELETED | _ \<Rightarrow> USER_STATUS_UNKNOWN)"

definition blobtype_valid :: "pb_blob_type \<Rightarrow> bool" where
  "blobtype_valid t = (case t of
      BLOB_TYPE_GENERAL \<Rightarrow> True | BLOB_TYPE_SUPERIOR \<Rightarrow> True | BLOB_TYPE_EXCELLENT \<Rightarrow> True | _ \<Rightarrow> False)"

definition FromPbBlobType :: "pb_blob_type \<Rightarrow> blob_type" where
  "FromPbBlobType t = (case t of
      BLOB_TYPE_GENERAL \<Rightarrow> kBlobTypeGeneral | BLOB_TYPE_SUPERIOR \<Rightarrow> kBlobTypeSuperior
    | BLOB_TYPE_EXCELLENT \<Rightarrow> kBlobTypeExcellent | _ \<Rightarrow> kBlobTypeUnknown)"

definition toPbBlobType :: "blob_type \<Rightarrow> pb_blob_type" where
  "toPbBlobType t = (case t of
      kBlobTypeGeneral \<Rightarrow> BLOB_TYPE_GENERAL | kBlobTypeSuperior \<Rightarrow> BLOB_TYPE_SUPERIOR
    | kBlobTypeExcellent \<Rightarrow> BLOB_TYPE_EXCELLENT | _ \<Rightarrow> BLOB_TYPE_UNKNOWN)"

definition toPbBlobStatus :: "blob_status \<Rightarrow> pb_blob_status" where
  "toPbBlobStatus s = (case s of
      kBlobStatusCreated \<Rightarrow> BLOB_STATUS_CREATED | kBlobStatusDeleted \<Rightarrow> BLOB_STATUS_DELETED
    | kBlobStatusResizing \<Rightarrow> BLOB_STATUS_RESIZING | kBlobStatusSnapshotting \<Rightarrow> BLOB_STATUS_SNAPSHOTTING
    | kBlobStatusCloning \<Rightarrow> BLOB_STATUS_CLONING | _ \<Rightarrow> BLOB_STATUS_UNKNOWN)"

definition FromPbPoolType :: "pb_pool_type \<Rightarrow> pool_type" where
  "FromPbPoolType t = (case t of
      POOL_TYPE_HDD \<Rightarrow> kPoolTypeHDD | POOL_TYPE_SSD \<Rightarrow> kPoolTypeSSD | POOL_TYPE_NVME_SSD \<Rightarrow> kPoolTypeNVMeSSD
    | POOL_TYPE_SPECIAL \<Rightarrow> kPoolTypeSpecial | _ \<Rightarrow> kPoolTypeUnknown)"

definition FromPbFailureDomain :: "pb_failure_domain \<Rightarrow> failure_domain" where
  "FromPbFailureDomain d = (case d of
      FAILURE_DOMAIN_RACK \<Rightarrow> kFailureDomainRack | FAILURE_DOMAIN_HOST \<Rightarrow> kFailureDomainHost
    | FAILURE_DOMAIN_NODE \<Rightarrow> kFailureDomainNode | _ \<Rightarrow> kFailureDomainUnknown)"

definition ToPbPoolType :: "pool_type \<Rightarrow> pb_pool_type" where
  "ToPbPoolType t = (case t of
      kPoolTypeHDD \<Rightarrow> POOL_TYPE_HDD | kPoolTypeSSD \<Rightarrow> POOL_TYPE_SSD | kPoolTypeNVMeSSD \<Rightarrow> POOL_TYPE_NVME_SSD
    | _ \<Rightarrow> POOL_TYPE_UNKNOWN)"

definition ToPbPoolStatus :: "pool_status \<Rightarrow> pb_pool_status" where
  "ToPbPoolStatus s = (case s of
      kPoolStatusCreated \<Rightarrow> POOL_STATUS_CREATED | kPoolStatusEnabled \<Rightarrow> POOL_STATUS_ENABLED
    | kPoolStatusDisabled \<Rightarrow> POOL_STATUS_DISABLED | _ \<Rightarrow> POOL_STATUS_UNKNOWN)"

definition ToPbFailureDomain :: "failure_domain \<Rightarrow> pb_failure_domain" where
  "ToPbFailureDomain d = (case d of
      kFailureDomainRack \<Rightarrow> FAILURE_DOMAIN_RACK | kFailureDomainHost \<Rightarrow> FAILURE_DOMAIN_HOST
    | kFailureDomainNode \<Rightarrow> FAILURE_DOMAIN_NODE | _ \<Rightarrow> FAILURE_DOMAIN_UNKNOWN)"

definition pool_type_valid :: "pb_pool_type \<Rightarrow> bool" where
  "pool_type_valid t = (case t of
      POOL_TYPE_HDD \<Rightarrow> True | POOL_TYPE_SSD \<Rightarrow> True | POOL_TYPE_NVME_SSD \<Rightarrow> True | _ \<Rightarrow> False)"

definition failure_domain_valid :: "pb_failure_domain \<Rightarrow> bool" where
  "failure_domain_valid d = (case d of
      FAILURE_DOMAIN_RACK \<Rightarrow> True | FAILURE_DOMAIN_HOST \<Rightarrow> True | FAILURE_DOMAIN_NODE \<Rightarrow> True | _ \<Rightarrow> False)"

definition ToPbExtentServerStatus :: "es_status \<Rightarrow> pb_es_status" where
  "ToPbExtentServerStatus s = (case s of
      kESStatusOk \<Rightarrow> ES_STATUS_OK | kESStatusFailed \<Rightarrow> ES_STATUS_FAILED | kESStatusRecovering \<Rightarrow> ES_STATUS_RECOVERING
    | kESStatusRebalancing \<Rightarrow> ES_STATUS_REBALANCING | _ \<Rightarrow> ES_STATUS_UNKNOWN)"

definition ToPbRgStatus :: "rg_status \<Rightarrow> pb_rg_status" where
  "ToPbRgStatus s = (case s of
      kRGStatusOk \<Rightarrow> RG_STATUS_OK | kRGStatusDowngrade \<Rightarrow> RG_STATUS_DOWNGRADE | kRGStatusRecovering \<Rightarrow> RG_STATUS_RECOVERING
    | kRGStatusRebalancing \<Rightarrow> RG_STATUS_REBALANCING | _ \<Rightarrow> RG_STATUS_UNKNOWN)"

definition ToPbSetRoute :: "pb_set \<Rightarrow> pb_set_route" where
  "ToPbSetRoute s = \<lparr> pbsr_set_id = pbset_id s, pbsr_set_name = pbset_name s,
     pbsr_ip = pbe_public_ip (pbm_endpoint (pbset_em s)), pbsr_port = pbe_public_port (pbm_endpoint (pbset_em s)) \<rparr>"

section \<open>Conversions that lose nothing\<close>

text \<open>The types and failure domains that the services accept come back unchanged.\<close>

lemma pb_roundtrips:
  "FromPbBlobType (toPbBlobType bt) = bt" "blobtype_valid pbt \<Longrightarrow> toPbBlobType (FromPbBlobType pbt) = pbt"
  "pool_type_valid pt \<Longrightarrow> ToPbPoolType (FromPbPoolType pt) = pt"
  "FromPbFailureDomain (ToPbFailureDomain d) = d" "failure_domain_valid fd \<Longrightarrow> ToPbFailureDomain (FromPbFailureDomain fd) = fd"
proof -
  show "FromPbBlobType (toPbBlobType bt) = bt" by (cases bt) (simp_all add: FromPbBlobType_def toPbBlobType_def)
  show "blobtype_valid pbt \<Longrightarrow> toPbBlobType (FromPbBlobType pbt) = pbt"
    by (cases pbt) (simp_all add: FromPbBlobType_def toPbBlobType_def blobtype_valid_def)
  show "pool_type_valid pt \<Longrightarrow> ToPbPoolType (FromPbPoolType pt) = pt"
    by (cases pt) (simp_all add: FromPbPoolType_def ToPbPoolType_def pool_type_valid_def)
  show "FromPbFailureDomain (ToPbFailureDomain d) = d" by (cases d) (simp_all add: FromPbFailureDomain_def ToPbFailureDomain_def)
  show "failure_domain_valid fd \<Longrightarrow> ToPbFailureDomain (FromPbFailureDomain fd) = fd"
    by (cases fd) (simp_all add: FromPbFailureDomain_def ToPbFailureDomain_def failure_domain_valid_def)
qed

end
