(* ===== verification/Es_Manager.thy ===== *)
theory Es_Manager
  imports Pb_Types
begin

text \<open>
  Extent servers as the extent manager knows them, and the manager of the extent servers of
  one pool (\<open>src/src/extentmanager/extent_server.{h,cpp}\<close>). The table is a \<open>std::map\<close> from
  ids to servers. The counters of replication groups and the weight are not stored; a
  server that is read from the store has them zero.
\<close>

section \<open>Extent servers\<close>

record extent_server =
  es_id :: int
  es_name :: string
  es_status :: es_status
  es_public_ip :: string
  es_public_port :: int
  es_private_ip :: string
  es_private_port :: int
  es_used :: nat
  es_capacity :: nat
  es_pool_id :: string
  es_host :: string
  es_rack :: string
  es_create_time :: string
  es_update_time :: string
  es_rgs :: nat
  es_primary_rgs :: nat
  es_secondary_rgs :: nat
  es_weight :: nat

type_synonym es_map = "(int \<times> extent_server) list"

definition ExtentServer :: "string \<Rightarrow> int \<Rightarrow> string \<Rightarrow> string \<Rightarrow> int \<Rightarrow> string \<Rightarrow> int \<Rightarrow> nat \<Rightarrow> nat \<Rightarrow> string \<Rightarrow> string
    \<Rightarrow> string \<Rightarrow> extent_server" where
  "ExtentServer now eid name public_ip public_port private_ip private_port sz capacity pool_id host rack =
     \<lparr> es_id = eid, es_name = name, es_status = kESStatusOk, es_public_ip = public_ip, es_public_port = public_port,
       es_private_ip = private_ip, es_private_port = private_port, es_used = sz, es_capacity = capacity,
       es_pool_id = pool_id, es_host = host, es_rack = rack, es_create_time = now, es_update_time = now,
       es_rgs = 0, es_primary_rgs = 0, es_secondary_rgs = 0, es_weight = 0 \<rparr>"

definition ToPbEndpoint :: "extent_server \<Rightarrow> pb_endpoint" where
  "ToPbEndpoint e = \<lparr> pbe_public_ip = es_public_ip e, pbe_public_port = es_public_port e,
     pbe_private_ip = es_private_ip e, pbe_private_port = es_private_port e \<rparr>"

definition ToPbExtentServer :: "extent_server \<Rightarrow> pb_extent_server" where
  "ToPbExtentServer e = \<lparr> pbs_id = es_id e, pbs_name = es_name e, pbs_size = es_used e, pbs_capacity = es_capacity e,
     pbs_pool_id = es_pool_id e, pbs_host = es_host e, pbs_rack = es_rack e,
     pbs_status = ToPbExtentServerStatus (es_status e), pbs_endpoint = ToPbEndpoint e,
     pbs_create_date = es_create_time e, pbs_update_date = es_update_time e \<rparr>"

definition ToPbEsInstance :: "extent_server \<Rightarrow> pb_es_instance" where
  "ToPbEsInstance e = \<lparr> pbi_es_id = es_id e, pbi_public_ip = es_public_ip e, pbi_public_port = es_public_port e,
     pbi_private_ip = es_private_ip e, pbi_private_port = es_private_port e \<rparr>"

definition es_prefix :: "string \<Rightarrow> string" where
  "es_prefix pool_id = kESKvPrefix @ ''_'' @ pool_id"

definition es_key :: "string \<Rightarrow> int \<Rightarrow> string" where
  "es_key pool_id eid = es_prefix pool_id @ ''_'' @ dec_int eid"

definition es_kv_key :: "extent_server \<Rightarrow> string" where
  "es_kv_key e = es_key (es_pool_id e) (es_id e)"

definition put_es :: "extent_server \<Rightarrow> string" where
  "put_es e = put_u32 0 @ put_i32 (es_id e) @ put_str (es_name e) @ put_enum es_status_codes (es_status e) @
     put_str (es_public_ip e) @ put_i32 (es_public_port e) @ put_str (es_private_ip e) @ put_i32 (es_private_port e) @
     put_u64 (es_used e) @ put_u64 (es_capacity e) @ put_str (es_pool_id e) @ put_str (es_host e) @ put_str (es_rack e) @
     put_str (es_create_time e) @ put_str (es_update_time e)"

definition get_es :: "string \<Rightarrow> (extent_server \<times> string) option" where
  "get_es =
     get_then get_u32 (\<lambda>version. get_then get_i32 (\<lambda>eid. get_then get_str (\<lambda>name. get_then (get_enum es_status_codes) (\<lambda>status.
     get_then get_str (\<lambda>public_ip. get_then get_i32 (\<lambda>public_port. get_then get_str (\<lambda>private_ip. get_then get_i32 (\<lambda>private_port.
     get_then get_u64 (\<lambda>used. get_then get_u64 (\<lambda>capacity. get_then get_str (\<lambda>pool_id. get_then get_str (\<lambda>host.
     get_then get_str (\<lambda>rack. get_then get_str (\<lambda>create_time. get_then get_str (\<lambda>update_time r.
       Some (\<lparr> es_id = eid, es_name = name, es_status = status, es_public_ip = public_ip, es_public_port = public_port,
               es_private_ip = private_ip, es_private_port = private_port, es_used = used, es_capacity = capacity,
               es_pool_id = pool_id, es_host = host, es_rack = rack, es_create_time = create_time,
               es_update_time = update_time, es_rgs = 0, es_primary_rgs = 0, es_secondary_rgs = 0, es_weight = 0 \<rparr>, r))))))))))))))))"

section \<open>Operations of \<open>EsManager\<close>\<close>

definition persist_es :: "(string \<Rightarrow> 32 word) \<Rightarrow> rocks_store \<Rightarrow> extent_server \<Rightarrow> rocks_status \<times> rocks_store" where
  "persist_es crc st e = RocksStore_Put st (es_kv_key e) (Serializer_Encode crc put_es e)"

fun check_new_es :: "es_map \<Rightarrow> string \<Rightarrow> string \<Rightarrow> int \<Rightarrow> string \<Rightarrow> int \<Rightarrow> status" where
  "check_new_es [] name public_ip public_port private_ip private_port = Status_OK"
| "check_new_es ((_, e) # m) name public_ip public_port private_ip private_port =
     (if es_name e = name then Status CYPRE_ER_INVALID_ARGUMENT ''es name conflict''
      else if es_public_ip e = public_ip \<and> es_public_port e = public_port
      then Status CYPRE_ER_INVALID_ARGUMENT ''es public addr conflict''
      else if es_private_ip e = private_ip \<and> es_private_port e = private_port
      then Status CYPRE_ER_INVALID_ARGUMENT ''es private addr conflict''
      else check_new_es m name public_ip public_port private_ip private_port)"

text \<open>A later difference overwrites the message of an earlier one.\<close>

definition check_old_es :: "extent_server \<Rightarrow> string \<Rightarrow> string \<Rightarrow> int \<Rightarrow> string \<Rightarrow> int \<Rightarrow> status" where
  "check_old_es e name public_ip public_port private_ip private_port =
     (if es_private_ip e \<noteq> private_ip \<or> es_private_port e \<noteq> private_port
      then Status CYPRE_ER_INVALID_ARGUMENT ''es private addr changed''
      else if es_public_ip e \<noteq> public_ip \<or> es_public_port e \<noteq> public_port
      then Status CYPRE_ER_INVALID_ARGUMENT ''es public addr changed''
      else if es_name e \<noteq> name then Status CYPRE_ER_INVALID_ARGUMENT ''es name changed''
      else Status_OK)"

definition create_es :: "(string \<Rightarrow> 32 word) \<Rightarrow> string \<Rightarrow> rocks_store \<Rightarrow> es_map \<Rightarrow> int \<Rightarrow> string \<Rightarrow> string \<Rightarrow> int \<Rightarrow> string
    \<Rightarrow> int \<Rightarrow> nat \<Rightarrow> nat \<Rightarrow> string \<Rightarrow> string \<Rightarrow> string \<Rightarrow> status \<times> rocks_store \<times> es_map" where
  "create_es crc now st m eid name public_ip public_port private_ip private_port sz capacity pool_id host rack =
     (if map_of m eid \<noteq> None then (Status CYPRE_EM_ES_DUPLICATED ''Es already exist'', st, m)
      else let s = check_new_es m name public_ip public_port private_ip private_port in
        if \<not> st_ok s then (s, st, m)
        else let e = ExtentServer now eid name public_ip public_port private_ip private_port sz capacity pool_id host rack;
                 (k, st) = persist_es crc st e
             in if \<not> rs_ok k then (Status CYPRE_EM_STORE_ERROR ''persist es meta to store failed'', st, m)
                else (Status_OK, st, smap_insert (es_id e) e m))"

definition update_es :: "(string \<Rightarrow> 32 word) \<Rightarrow> rocks_store \<Rightarrow> es_map \<Rightarrow> int \<Rightarrow> string \<Rightarrow> string \<Rightarrow> int \<Rightarrow> string \<Rightarrow> int \<Rightarrow> nat
    \<Rightarrow> status \<times> rocks_store \<times> es_map" where
  "update_es crc st m eid name public_ip public_port private_ip private_port sz =
     (case map_of m eid of
        None \<Rightarrow> (Status CYPRE_EM_ES_NOT_FOUND ''not found extentserver'', st, m)
      | Some e \<Rightarrow>
          let s = check_old_es e name public_ip public_port private_ip private_port in
          if \<not> st_ok s then (s, st, m)
          else let e = e \<lparr> es_used := sz \<rparr>;
                   m = smap_insert eid e m;
                   (k, st) = persist_es crc st e
               in if \<not> rs_ok k then (Status CYPRE_EM_STORE_ERROR ''persist es meta to store failed'', st, m)
                  else (Status_OK, st, m))"

definition delete_es :: "rocks_store \<Rightarrow> es_map \<Rightarrow> int \<Rightarrow> status \<times> rocks_store \<times> es_map" where
  "delete_es st m eid =
     (case map_of m eid of
        None \<Rightarrow> (Status CYPRE_EM_ES_NOT_FOUND ''not found extentserver'', st, m)
      | Some e \<Rightarrow>
          let (k, st) = RocksStore_Delete st (es_kv_key e) in
          if \<not> rs_ok k then (Status CYPRE_EM_DELETE_ERROR ''delete es meta from store failed'', st, m)
          else (Status_OK, st, AList.delete eid m))"

text \<open>Failures of single deletions are only logged.\<close>

definition delete_all_es :: "rocks_store \<Rightarrow> es_map \<Rightarrow> status \<times> rocks_store \<times> es_map" where
  "delete_all_es st m = (Status_OK, fold (\<lambda>(_, e) st. snd (RocksStore_Delete st (es_kv_key e))) m st, [])"

definition query_es :: "es_map \<Rightarrow> int \<Rightarrow> status \<times> pb_extent_server option" where
  "query_es m eid =
     (case map_of m eid of
        None \<Rightarrow> (Status CYPRE_EM_ES_NOT_FOUND ''not found extentserver'', None)
      | Some e \<Rightarrow> (Status_OK, Some (ToPbExtentServer e)))"

text \<open>\<open>query_es_router\<close> fills a router with the servers of a group; an unknown id is an
  access through \<open>end()\<close>.\<close>

fun es_instances :: "es_map \<Rightarrow> int list \<Rightarrow> pb_es_instance list option" where
  "es_instances m [] = Some []"
| "es_instances m (i # is) =
     (case map_of m i of
        None \<Rightarrow> None
      | Some e \<Rightarrow> map_option (\<lambda>r. ToPbEsInstance e # r) (es_instances m is))"

definition query_es_router :: "es_map \<Rightarrow> int list \<Rightarrow> pb_extent_router \<Rightarrow> pb_extent_router option" where
  "query_es_router m es_group router =
     map_option (\<lambda>is. case is of
          [] \<Rightarrow> router
        | p # ss \<Rightarrow> router \<lparr> pbx_primary := Some p, pbx_secondaries := pbx_secondaries router @ ss \<rparr>)
       (es_instances m es_group)"

definition es_exist :: "es_map \<Rightarrow> int \<Rightarrow> bool" where
  "es_exist m eid \<longleftrightarrow> map_of m eid \<noteq> None"

definition total_capacity :: "es_map \<Rightarrow> nat" where
  "total_capacity m = foldl (\<lambda>a (_, e). u64_add a (es_capacity e)) 0 m"

definition total_used :: "es_map \<Rightarrow> nat" where
  "total_used m = foldl (\<lambda>a (_, e). u64_add a (es_used e)) 0 m"

definition list_es :: "es_map \<Rightarrow> pb_extent_server list" where
  "list_es m = map (\<lambda>(_, e). ToPbExtentServer e) m"

definition list_es_ptrs :: "es_map \<Rightarrow> extent_server list" where
  "list_es_ptrs m = map snd m"

definition es_recovery_from_store :: "(string \<Rightarrow> 32 word) \<Rightarrow> rocks_store \<Rightarrow> es_map \<Rightarrow> string \<Rightarrow> (bool \<times> es_map) option" where
  "es_recovery_from_store crc st m pool_id =
     recover_values smap_insert (Serializer_Decode crc get_es) es_id (map snd (RocksStore_ScanPrefix st (es_prefix pool_id))) m"

section \<open>What holds of a manager\<close>

definition es_stored :: "extent_server \<Rightarrow> extent_server" where
  "es_stored e = e \<lparr> es_rgs := 0, es_primary_rgs := 0, es_secondary_rgs := 0, es_weight := 0 \<rparr>"

definition es_fits :: "extent_server \<Rightarrow> bool" where
  "es_fits e \<longleftrightarrow> (\<forall>i\<in>{es_id e, es_public_port e, es_private_port e}. - (2 ^ 31) \<le> i \<and> i < 2 ^ 31) \<and>
     es_used e < 2 ^ 64 \<and> es_capacity e < 2 ^ 64 \<and>
     (\<forall>s\<in>{es_name e, es_public_ip e, es_private_ip e, es_pool_id e, es_host e, es_rack e, es_create_time e, es_update_time e}.
        length s < 2 ^ 24)"

definition pool_es :: "string \<Rightarrow> extent_server \<Rightarrow> bool" where
  "pool_es pool_id e \<longleftrightarrow> es_fits e \<and> es_pool_id e = pool_id \<and> es_stored e = e"

definition es_inv :: "(string \<Rightarrow> 32 word) \<Rightarrow> string \<Rightarrow> rocks_store \<Rightarrow> es_map \<Rightarrow> bool" where
  "es_inv crc pool_id st m \<longleftrightarrow> sorted_wrt (<) (map fst m) \<and>
     table_inv kv_wf kv_lookup put_es (pool_es pool_id) (es_prefix pool_id) (es_key pool_id) es_id crc st
       (\<lambda>i. map_option es_stored (map_of m i))"

text \<open>What identifies a server: its name and its two addresses.\<close>

definition es_clash :: "extent_server \<Rightarrow> extent_server \<Rightarrow> bool" where
  "es_clash e f \<longleftrightarrow> es_name e = es_name f \<or>
     (es_public_ip e = es_public_ip f \<and> es_public_port e = es_public_port f) \<or>
     (es_private_ip e = es_private_ip f \<and> es_private_port e = es_private_port f)"

definition identities_distinct :: "(int \<rightharpoonup> extent_server) \<Rightarrow> bool" where
  "identities_distinct m \<longleftrightarrow> (\<forall>i j e f. m i = Some e \<longrightarrow> m j = Some f \<longrightarrow> es_clash e f \<longrightarrow> i = j)"

text \<open>The calls that change a manager, and runs of them.\<close>

datatype es_op =
    Create_es string int string string int string int nat nat string string
  | Update_es int string string int string int nat
  | Delete_es int

fun es_exec :: "(string \<Rightarrow> 32 word) \<Rightarrow> string \<Rightarrow> es_op \<Rightarrow> rocks_store \<times> es_map \<Rightarrow> status \<times> rocks_store \<times> es_map" where
  "es_exec crc p (Create_es now i name pip pport vip vport sz capacity host rack) (st, m) =
     create_es crc now st m i name pip pport vip vport sz capacity p host rack"
| "es_exec crc p (Update_es i name pip pport vip vport sz) (st, m) = update_es crc st m i name pip pport vip vport sz"
| "es_exec crc p (Delete_es i) (st, m) = delete_es st m i"

fun es_run :: "(string \<Rightarrow> 32 word) \<Rightarrow> string \<Rightarrow> es_op list \<Rightarrow> rocks_store \<times> es_map \<Rightarrow> status list \<times> rocks_store \<times> es_map" where
  "es_run crc p [] c = ([], c)"
| "es_run crc p (op # ops) c = (case es_exec crc p op c of (s, c) \<Rightarrow> (case es_run crc p ops c of (ss, c) \<Rightarrow> (s # ss, c)))"

definition demo_es_ops :: "es_op list" where
  "demo_es_ops = [Create_es ''t0'' 1 ''es1'' ''10.0.0.1'' 80 ''10.1.0.1'' 81 0 100 ''h1'' ''r1'',
     Create_es ''t1'' 2 ''es2'' ''10.0.0.1'' 80 ''10.1.0.2'' 81 0 100 ''h2'' ''r1'']"

section \<open>The table of extent servers\<close>

lemma es_stored_simps [simp]:
  "put_es (es_stored e) = put_es e" "es_id (es_stored e) = es_id e" "es_pool_id (es_stored e) = es_pool_id e"
  "es_stored (es_stored e) = es_stored e" "es_fits (es_stored e) = es_fits e" "es_clash (es_stored e) f = es_clash e f"
  "es_clash e (es_stored f) = es_clash e f"
  by (simp_all add: es_stored_def put_es_def es_fits_def es_clash_def)

lemma get_put_es: "es_fits e \<Longrightarrow> get_es (put_es e @ r) = Some (es_stored e, r)"
  by (simp add: get_es_def put_es_def es_fits_def es_stored_def)

interpretation ess: meta_table kv_wf kv_lookup RocksStore_Put RocksStore_Delete RocksStore_ScanPrefix
  put_es get_es "pool_es pool_id" "es_prefix pool_id" "es_key pool_id" es_id for pool_id
proof unfold_locales
  show "length (put_es x) < 2 ^ 31" if "pool_es pool_id x" for x
    using that by (auto simp: pool_es_def es_fits_def put_es_def)
qed (auto simp: es_key_def pool_es_def get_put_es)

lemma check_new_es_ok:
  "st_ok (check_new_es m name pip pport vip vport) \<longleftrightarrow>
     (\<forall>(i, e)\<in>set m. es_name e \<noteq> name \<and> (es_public_ip e, es_public_port e) \<noteq> (pip, pport) \<and>
        (es_private_ip e, es_private_port e) \<noteq> (vip, vport))"
  by (induction m name pip pport vip vport rule: check_new_es.induct) (auto simp: st_ok_def)

lemma persist_es_inv:
  assumes inv: "es_inv crc p st m" and w: "persist_es crc st e = (s, st')" and f: "es_fits e" "es_pool_id e = p"
  shows "es_inv crc p st' (if rs_ok s then smap_insert (es_id e) e m else m)"
proof -
  have "RocksStore_Put st (es_key p (es_id (es_stored e))) (Serializer_Encode crc put_es (es_stored e)) = (s, st')"
    using w f by (simp add: persist_es_def es_kv_key_def Serializer_Encode_def)
  from ess.inv_put[OF _ _ this, of "\<lambda>i. map_option es_stored (map_of m i)"]
  have "table_inv kv_wf kv_lookup put_es (pool_es p) (es_prefix p) (es_key p) es_id crc st'
      (if rs_ok s then (\<lambda>i. map_option es_stored (map_of m i))(es_id e \<mapsto> es_stored e) else (\<lambda>i. map_option es_stored (map_of m i)))"
    using inv f by (cases "rs_ok s") (simp_all add: es_inv_def pool_es_def)
  moreover have "(\<lambda>i. map_option es_stored (map_of (smap_insert (es_id e) e m) i)) =
      (\<lambda>i. map_option es_stored (map_of m i))(es_id e \<mapsto> es_stored e)" by (simp add: fun_eq_iff)
  ultimately show ?thesis using inv by (cases "rs_ok s") (simp_all add: es_inv_def smap_insert_sorted)
qed

lemma delete_es_inv:
  assumes inv: "es_inv crc p st m" and d: "delete_es st m i = (s, st', m')"
  shows "es_inv crc p st' m'"
proof (cases "map_of m i")
  case None
  then show ?thesis using d inv by (auto simp: delete_es_def)
next
  case (Some e)
  have "map_option es_stored (map_of m i) = Some (es_stored e)" using Some by simp
  from table_invD(3,4)[OF conjunct2[OF inv[unfolded es_inv_def]] this]
  have k: "es_kv_key e = es_key p i" by (simp add: es_kv_key_def pool_es_def)
  obtain r st1 where del: "RocksStore_Delete st (es_key p i) = (r, st1)" by fastforce
  have "(\<lambda>j. map_option es_stored (map_of (AList.delete i m) j)) = (\<lambda>i. map_option es_stored (map_of m i))(i := None)"
    by (simp add: fun_eq_iff)
  with ess.inv_del[OF _ del, of crc "\<lambda>i. map_option es_stored (map_of m i)"] inv
  have "es_inv crc p st1 (if rs_ok r then AList.delete i m else m)"
    by (cases "rs_ok r") (simp_all add: es_inv_def sorted_delete)
  then show ?thesis using d del k Some by (auto simp: delete_es_def Let_def split: if_splits)
qed

lemma es_recovered:
  assumes "es_inv crc p st m"
  shows "\<exists>t. es_recovery_from_store crc st [] p = Some (True, t) \<and> map_of t = (\<lambda>i. map_option es_stored (map_of m i))"
  using ess.recover_table[of p crc st _ map_of smap_insert "[]"] assms by (simp add: es_inv_def es_recovery_from_store_def)

text \<open>What a call does to the table.\<close>

lemma es_exec_table:
  assumes "es_exec crc p op (st, m) = (s, st', m')" "sorted_wrt (<) (map fst m)"
  shows "m' = m \<or>
    (\<exists>e. map_of m (es_id e) = None \<and> (\<forall>(i, f)\<in>set m. \<not> es_clash f e) \<and> m' = smap_insert (es_id e) e m) \<or>
    (\<exists>i e sz. map_of m i = Some e \<and> m' = smap_insert i (e \<lparr> es_used := sz \<rparr>) m) \<or>
    (\<exists>i. m' = AList.delete i m)"
proof (cases op)
  case (Create_es now i name pip pport vip vport sz capacity host rack)
  let ?e = "ExtentServer now i name pip pport vip vport sz capacity p host rack"
  have "m' = m \<or> (map_of m (es_id ?e) = None \<and> (\<forall>(i, f)\<in>set m. \<not> es_clash f ?e) \<and> m' = smap_insert (es_id ?e) ?e m)"
    using assms(1) Create_es
    by (auto simp: create_es_def Let_def ExtentServer_def check_new_es_ok es_clash_def split: if_splits prod.splits)
  then show ?thesis by blast
next
  case (Update_es i name pip pport vip vport sz)
  then show ?thesis using assms(1) by (auto simp: update_es_def Let_def split: if_splits option.splits prod.splits)
next
  case (Delete_es i)
  then show ?thesis using assms(1) by (auto simp: delete_es_def Let_def split: if_splits option.splits prod.splits)
qed

lemma es_exec_identities:
  assumes e: "es_exec crc p op (st, m) = (s, st', m')" and d: "sorted_wrt (<) (map fst m)" and u: "identities_distinct (map_of m)"
  shows "sorted_wrt (<) (map fst m') \<and> identities_distinct (map_of m')"
proof
  show "sorted_wrt (<) (map fst m')" using es_exec_table[OF e d] d by (auto intro: smap_insert_sorted sorted_delete)
  have sym: "es_clash e f = es_clash f e" for e f by (auto simp: es_clash_def)
  have mem: "(i, f) \<in> set m" if "map_of m i = Some f" for i f using that by (rule map_of_SomeD)
  have used: "es_clash (e \<lparr> es_used := sz \<rparr>) f = es_clash e f" for e f :: extent_server and sz by (simp add: es_clash_def)
  from es_exec_table[OF e d] show "identities_distinct (map_of m')"
  proof (elim disjE exE conjE)
    fix e assume "\<forall>(i, f)\<in>set m. \<not> es_clash f e" "m' = smap_insert (es_id e) e m"
    then show ?thesis using u mem sym unfolding identities_distinct_def by (auto split: if_splits) blast+
  next
    fix i e sz assume *: "map_of m i = Some e" "m' = smap_insert i (e \<lparr> es_used := sz \<rparr>) m"
    then show ?thesis using u used sym unfolding identities_distinct_def
      by (auto split: if_splits simp del: map_of_eq_Some_iff)
  next
    fix i assume "m' = AList.delete i m"
    then show ?thesis using u unfolding identities_distinct_def by (auto split: if_splits)
  qed (use u in simp)
qed

lemma es_run_identities:
  assumes "es_run crc p ops (st, m) = (ss, st', m')" "sorted_wrt (<) (map fst m)" "identities_distinct (map_of m)"
  shows "sorted_wrt (<) (map fst m') \<and> identities_distinct (map_of m')"
  using assms
proof (induction ops arbitrary: st m ss)
  case (Cons op ops)
  obtain s st1 m1 where e: "es_exec crc p op (st, m) = (s, st1, m1)" by (cases "es_exec crc p op (st, m)") auto
  obtain ss1 c where r: "es_run crc p ops (st1, m1) = (ss1, c)" by (cases "es_run crc p ops (st1, m1)")
  then have "es_run crc p ops (st1, m1) = (ss1, st', m')" using Cons.prems(1) e by simp
  then show ?case using Cons.IH es_exec_identities[OF e Cons.prems(2,3)] by blast
qed simp

section \<open>Property of the extent server manager\<close>

text \<open>C26: Whatever heartbeats and deletions a pool sees, from no extent servers on and whichever
  writes the store refuses, no two of its servers share an id, a name, a public address or
  a private address.\<close>

theorem es_identities_unique:
  assumes "es_run crc p ops (st, []) = (ss, st', m)" "(i, e) \<in> set m" "(j, f) \<in> set m"
    and "i = j \<or> es_name e = es_name f \<or> (es_public_ip e, es_public_port e) = (es_public_ip f, es_public_port f) \<or>
      (es_private_ip e, es_private_port e) = (es_private_ip f, es_private_port f)"
  shows "i = j \<and> e = f"
proof -
  have "sorted_wrt (<) (map fst m)" and u: "identities_distinct (map_of m)"
    using es_run_identities[OF assms(1)] by (simp_all add: identities_distinct_def)
  from sorted_map_distinct[OF this(1)] have m: "map_of m i = Some e" "map_of m j = Some f" using assms(2,3) by simp_all
  show ?thesis using u m assms(4) unfolding identities_distinct_def es_clash_def by (metis option.inject prod.inject)
qed

theorem es_identities_unique_witness:
  "\<exists>ss st m e. es_run (\<lambda>_. 0) ''pool-a'' demo_es_ops (\<lparr> rs_db = [], rs_faults = [] \<rparr>, []) = (ss, st, m) \<and>
     map st_ok ss = [True, False] \<and> m = [(1, e)] \<and> ((1 :: int) = 1 \<and> e = e)"
proof -
  let ?e = "ExtentServer ''t0'' 1 ''es1'' ''10.0.0.1'' 80 ''10.1.0.1'' 81 0 100 ''pool-a'' ''h1'' ''r1''"
  obtain st where w: "persist_es (\<lambda>_. 0) \<lparr> rs_db = [], rs_faults = [] \<rparr> ?e = (RocksOk, st)"
    by (simp add: persist_es_def RocksStore_Put_def kv_write_def)
  have c1: "create_es (\<lambda>_. 0) ''t0'' \<lparr> rs_db = [], rs_faults = [] \<rparr> [] 1 ''es1'' ''10.0.0.1'' 80 ''10.1.0.1'' 81 0 100 ''pool-a'' ''h1'' ''r1'' =
      (Status_OK, st, [(1, ?e)])" using w by (simp add: create_es_def rs_ok_def st_ok_def Let_def) (simp add: ExtentServer_def)
  have c2: "create_es (\<lambda>_. 0) ''t1'' st [(1, ?e)] 2 ''es2'' ''10.0.0.1'' 80 ''10.1.0.2'' 81 0 100 ''pool-a'' ''h2'' ''r1'' =
      (Status CYPRE_ER_INVALID_ARGUMENT ''es public addr conflict'', st, [(1, ?e)])"
    by (simp add: create_es_def ExtentServer_def st_ok_def)
  have r: "es_run (\<lambda>_. 0) ''pool-a'' demo_es_ops (\<lparr> rs_db = [], rs_faults = [] \<rparr>, []) =
      ([Status_OK, Status CYPRE_ER_INVALID_ARGUMENT ''es public addr conflict''], st, [(1, ?e)])"
    by (simp add: demo_es_ops_def c1 c2[simplified])
  show ?thesis using es_identities_unique[OF r, of 1 ?e 1 ?e] r by (simp add: st_ok_def)
qed

end
