(* ===== verification/Std_Heap.thy ===== *)
theory Std_Heap
  imports Main "HOL-Library.Multiset"
begin

text \<open>
  \<open>std::priority_queue\<close> on a vector, as the standard library of GCC implements it
  (\<open>__push_heap\<close>, \<open>__adjust_heap\<close>, \<open>pop_heap\<close>): the managers keep pointers to objects in
  such queues and change the objects while they are queued, so what \<open>push\<close> and \<open>pop\<close> do
  to the vector matters, not only what they do when the order of the queue is intact.
  \<open>lt\<close> is the comparator; \<open>top\<close> is the first element.

  The locale \<open>pqueue\<close> is the interface the clients use: queues as multisets, and the top
  as a largest element while the order is intact.
\<close>

section \<open>Operations\<close>

definition heap_parent :: "nat \<Rightarrow> nat" where
  "heap_parent i = (i - 1) div 2"

text \<open>\<open>__push_heap\<close>: the hole moves up while its parent is smaller than the value.\<close>

function heap_up :: "('a \<Rightarrow> 'a \<Rightarrow> bool) \<Rightarrow> nat \<Rightarrow> 'a \<Rightarrow> 'a list \<Rightarrow> 'a list" where
  "heap_up lt hole v xs =
     (if hole > 0 \<and> lt (xs ! heap_parent hole) v
      then heap_up lt (heap_parent hole) v (xs[hole := xs ! heap_parent hole])
      else xs[hole := v])"
  by pat_completeness auto
termination by (relation "measure (\<lambda>(_, hole, _, _). hole)") (auto simp: heap_parent_def)

text \<open>The loop of \<open>__adjust_heap\<close>: the hole moves down to the larger child.\<close>

definition big_child :: "('a \<Rightarrow> 'a \<Rightarrow> bool) \<Rightarrow> nat \<Rightarrow> 'a list \<Rightarrow> nat" where
  "big_child lt hole xs =
     (let child = 2 * (hole + 1) in if lt (xs ! child) (xs ! (child - 1)) then child - 1 else child)"

function heap_down :: "('a \<Rightarrow> 'a \<Rightarrow> bool) \<Rightarrow> nat \<Rightarrow> 'a list \<Rightarrow> nat \<times> 'a list" where
  "heap_down lt hole xs =
     (if hole < (length xs - 1) div 2
      then heap_down lt (big_child lt hole xs) (xs[hole := xs ! big_child lt hole xs])
      else (hole, xs))"
  by pat_completeness auto
termination
proof (relation "measure (\<lambda>(_, hole, xs). length xs - hole)", goal_cases)
  case (2 lt hole xs)
  then show ?case by (auto simp: big_child_def)
qed simp

declare heap_up.simps [simp del] heap_down.simps [simp del]

definition heap_adjust :: "('a \<Rightarrow> 'a \<Rightarrow> bool) \<Rightarrow> 'a \<Rightarrow> 'a list \<Rightarrow> 'a list" where
  "heap_adjust lt v xs =
     (let (hole, xs) = heap_down lt 0 xs;
          (hole, xs) = (if even (length xs) \<and> hole = (length xs - 2) div 2
                        then (2 * hole + 1, xs[hole := xs ! (2 * hole + 1)]) else (hole, xs))
      in heap_up lt hole v xs)"

definition heap_push :: "('a \<Rightarrow> 'a \<Rightarrow> bool) \<Rightarrow> 'a \<Rightarrow> 'a list \<Rightarrow> 'a list" where
  "heap_push lt v xs = heap_up lt (length xs) v (xs @ [v])"

text \<open>The last element takes the place of the first.\<close>

definition heap_pop :: "('a \<Rightarrow> 'a \<Rightarrow> bool) \<Rightarrow> 'a list \<Rightarrow> 'a list" where
  "heap_pop lt xs = (if length xs \<le> 1 then [] else heap_adjust lt (last xs) (butlast xs))"

text \<open>\<open>top\<close>; on an empty queue it has no defined result.\<close>

definition heap_top :: "'a list \<Rightarrow> 'a option" where
  "heap_top xs = (case xs of [] \<Rightarrow> None | x # _ \<Rightarrow> Some x)"

text \<open>The order of the queue: no element is larger than its parent.\<close>

definition is_heap :: "('a \<Rightarrow> 'a \<Rightarrow> bool) \<Rightarrow> 'a list \<Rightarrow> bool" where
  "is_heap lt xs \<longleftrightarrow> (\<forall>i<length xs. i > 0 \<longrightarrow> \<not> lt (xs ! heap_parent i) (xs ! i))"

section \<open>Elements\<close>

lemma mset_hole:
  assumes "h < length xs" "p < length xs" "p \<noteq> h"
  shows "mset (xs[h := xs ! p, p := v]) = mset (xs[h := v])"
proof -
  have "mset ((xs[h := v])[h := (xs[h := v]) ! p, p := (xs[h := v]) ! h]) = mset (xs[h := v])"
    using assms by (intro mset_swap) simp_all
  then show ?thesis using assms by (simp add: list_update_swap)
qed

lemma big_child_cases: "big_child lt hole xs = 2 * hole + 1 \<or> big_child lt hole xs = 2 * hole + 2"
  by (simp add: big_child_def)

lemma heap_up_step: "hole > 0 \<Longrightarrow> lt (xs ! heap_parent hole) v \<Longrightarrow>
    heap_up lt hole v xs = heap_up lt (heap_parent hole) v (xs[hole := xs ! heap_parent hole])"
  by (subst heap_up.simps) simp

lemma heap_up_stop: "\<not> (hole > 0 \<and> lt (xs ! heap_parent hole) v) \<Longrightarrow> heap_up lt hole v xs = xs[hole := v]"
  by (subst heap_up.simps) auto

lemma heap_parent_less: "hole > 0 \<Longrightarrow> heap_parent hole < hole"
  by (simp add: heap_parent_def)

lemma heap_up_mset: "hole < length xs \<Longrightarrow> mset (heap_up lt hole v xs) = mset (xs[hole := v])"
proof (induction lt hole v xs rule: heap_up.induct)
  case (1 lt hole v xs)
  show ?case
  proof (cases "hole > 0 \<and> lt (xs ! heap_parent hole) v")
    case True
    then have p: "heap_parent hole < length xs" "heap_parent hole \<noteq> hole" using heap_parent_less[of hole] 1(2) by auto
    then have "mset (heap_up lt hole v xs) = mset (xs[hole := xs ! heap_parent hole, heap_parent hole := v])"
      using 1(1)[OF True] True by (simp add: heap_up_step)
    then show ?thesis using mset_hole[OF 1(2) p] by simp
  qed (simp add: heap_up_stop)
qed

lemma heap_up_length: "length (heap_up lt hole v xs) = length xs"
  by (induction lt hole v xs rule: heap_up.induct) (subst heap_up.simps, simp)

lemma heap_down_mset:
  assumes "hole < length xs" "heap_down lt hole xs = (h, ys)"
  shows "h < length ys \<and> length ys = length xs \<and> mset (ys[h := v]) = mset (xs[hole := v])"
  using assms
proof (induction lt hole xs arbitrary: h ys rule: heap_down.induct)
  case (1 lt hole xs)
  show ?case
  proof (cases "hole < (length xs - 1) div 2")
    case True
    let ?c = "big_child lt hole xs"
    have c: "?c < length xs" "?c \<noteq> hole" using True big_child_cases[of lt hole xs] by auto
    have "heap_down lt ?c (xs[hole := xs ! ?c]) = (h, ys)" using 1(3) True by (subst (asm) heap_down.simps) simp
    from 1(1)[OF True _ this] c have "h < length ys" "length ys = length xs"
        "mset (ys[h := v]) = mset (xs[hole := xs ! ?c, ?c := v])" by simp_all
    then show ?thesis using mset_hole[OF 1(2) c(1) c(2)] by simp
  next
    case False
    then show ?thesis using 1(2,3) by (subst (asm) heap_down.simps) simp
  qed
qed

lemma heap_adjust_mset:
  assumes "xs \<noteq> []"
  shows "mset (heap_adjust lt v xs) = add_mset v (mset (tl xs)) \<and> length (heap_adjust lt v xs) = length xs"
proof -
  obtain h ys where d: "heap_down lt 0 xs = (h, ys)" by fastforce
  from heap_down_mset[OF _ this, of v] assms have m: "h < length ys" "length ys = length xs" "mset (ys[h := v]) = mset (xs[0 := v])" by auto
  have t: "mset (xs[0 := v]) = add_mset v (mset (tl xs))" using assms by (cases xs) auto
  show ?thesis
  proof (cases "even (length ys) \<and> h = (length ys - 2) div 2")
    case True
    then have c: "2 * h + 1 < length ys" using m(1) by (cases "length ys") (auto elim!: evenE)
    have "mset (heap_up lt (2 * h + 1) v (ys[h := ys ! (2 * h + 1)])) = mset (ys[h := v])"
      using heap_up_mset[of "2 * h + 1" "ys[h := ys ! (2 * h + 1)]" lt v] mset_hole[OF m(1) c, of v] c by simp
    then show ?thesis using True d m t by (auto simp: heap_adjust_def heap_up_length)
  next
    case False
    then show ?thesis using d m t heap_up_mset[OF m(1)] by (auto simp: heap_adjust_def heap_up_length)
  qed
qed

lemma heap_push_mset: "mset (heap_push lt v xs) = add_mset v (mset xs)"
  using heap_up_mset[of "length xs" "xs @ [v]" lt v] by (simp add: heap_push_def)

lemma heap_pop_mset: "xs \<noteq> [] \<Longrightarrow> add_mset (hd xs) (mset (heap_pop lt xs)) = mset xs"
proof (cases "length xs \<le> 1")
  case True
  assume "xs \<noteq> []"
  then show ?thesis using True by (cases xs) (auto simp: heap_pop_def)
next
  case False
  then obtain x y ys where xs: "xs = x # y # ys" by (metis le_numeral_extra(4) length_0_conv list.exhaust list.size(4) One_nat_def Suc_eq_plus1 add_0 zero_le_one)
  let ?b = "butlast xs"
  have b: "?b \<noteq> []" "xs = ?b @ [last xs]" using xs by auto
  have "mset xs = add_mset (last xs) (mset ?b)" by (subst b(2)) simp
  moreover have "mset ?b = add_mset (hd xs) (mset (tl ?b))" using xs by simp
  moreover have "mset (heap_pop lt xs) = add_mset (last xs) (mset (tl ?b))"
    using False heap_adjust_mset[OF b(1), of lt "last xs"] by (simp add: heap_pop_def)
  ultimately show ?thesis by simp
qed

section \<open>Order\<close>

text \<open>The comparator compares keys. A queue with a hole: the order holds around the hole.\<close>

definition heap_except :: "('a \<Rightarrow> 'k :: linorder) \<Rightarrow> nat \<Rightarrow> 'a list \<Rightarrow> bool" where
  "heap_except f h xs \<longleftrightarrow>
     (\<forall>i<length xs. 0 < i \<longrightarrow> i \<noteq> h \<longrightarrow> heap_parent i \<noteq> h \<longrightarrow> f (xs ! i) \<le> f (xs ! heap_parent i)) \<and>
     (\<forall>i<length xs. 0 < i \<longrightarrow> heap_parent i = h \<longrightarrow> 0 < h \<longrightarrow> f (xs ! i) \<le> f (xs ! heap_parent h))"

lemma heap_exceptD:
  assumes "heap_except f h xs" "i < length xs" "0 < i"
  shows "i \<noteq> h \<Longrightarrow> heap_parent i \<noteq> h \<Longrightarrow> f (xs ! i) \<le> f (xs ! heap_parent i)"
    and "heap_parent i = h \<Longrightarrow> 0 < h \<Longrightarrow> f (xs ! i) \<le> f (xs ! heap_parent h)"
  using assms by (auto simp: heap_except_def)

lemma heap_parent_child: "heap_parent i = h \<Longrightarrow> 0 < i \<Longrightarrow> i = 2 * h + 1 \<or> i = 2 * h + 2"
  by (auto simp: heap_parent_def)

lemma heap_up_heap:
  assumes "heap_except f h xs" "h < length xs" "\<forall>i<length xs. 0 < i \<longrightarrow> heap_parent i = h \<longrightarrow> f (xs ! i) \<le> f v"
  shows "is_heap (\<lambda>a b. f a < f b) (heap_up (\<lambda>a b. f a < f b) h v xs)"
  using assms
proof (induction h arbitrary: xs rule: less_induct)
  case (less h)
  let ?p = "heap_parent h"
  note D = heap_exceptD[OF less.prems(1)]
  show ?case
  proof (cases "h > 0 \<and> f (xs ! ?p) < f v")
    case True
    then have p: "?p < h" "?p < length xs" using heap_parent_less[of h] less.prems(2) by auto
    let ?xs = "xs[h := xs ! ?p]"
    have "heap_except f ?p ?xs" unfolding heap_except_def
    proof (intro conjI allI impI)
      fix i assume i: "i < length ?xs" "0 < i" "i \<noteq> ?p" "heap_parent i \<noteq> ?p"
      then have "i \<noteq> h" by auto
      then show "f (?xs ! i) \<le> f (?xs ! heap_parent i)"
        using D[of i] i True less.prems(2) by (cases "heap_parent i = h") auto
    next
      fix i assume i: "i < length ?xs" "0 < i" "heap_parent i = ?p" "0 < ?p"
      have q: "heap_parent ?p \<noteq> h" "heap_parent ?p < ?p" using heap_parent_less[OF i(4)] p by auto
      have "f (xs ! ?p) \<le> f (xs ! heap_parent ?p)" using D(1)[OF p(2) i(4)] p q by auto
      moreover have "f (xs ! i) \<le> f (xs ! ?p)" if "i \<noteq> h" using D(1)[of i] i that p by auto
      ultimately show "f (?xs ! i) \<le> f (?xs ! heap_parent ?p)"
        using p q i less.prems(2) by (cases "i = h") auto
    qed
    moreover have "\<forall>i<length ?xs. 0 < i \<longrightarrow> heap_parent i = ?p \<longrightarrow> f (?xs ! i) \<le> f v"
    proof (intro allI impI)
      fix i assume i: "i < length ?xs" "0 < i" "heap_parent i = ?p"
      have "f (xs ! i) \<le> f (xs ! ?p)" if "i \<noteq> h" using D(1)[of i] i that p by auto
      then show "f (?xs ! i) \<le> f v" using True i less.prems(2) by (cases "i = h") auto
    qed
    ultimately show ?thesis using less.IH[OF p(1), of ?xs] True p by (simp add: heap_up_step)
  next
    case False
    have "f ((xs[h := v]) ! i) \<le> f ((xs[h := v]) ! heap_parent i)" if i: "i < length xs" "0 < i" for i
      using D(1)[OF i] less.prems(2,3) False i heap_parent_less[OF i(2)]
      by (cases "i = h"; cases "heap_parent i = h") auto
    then show ?thesis using False by (auto simp: heap_up_stop is_heap_def not_less)
  qed
qed

lemma heap_except_down:
  assumes e: "heap_except f h xs" and c: "c < length xs" "0 < c" "heap_parent c = h"
    and big: "\<forall>i<length xs. 0 < i \<longrightarrow> heap_parent i = h \<longrightarrow> f (xs ! i) \<le> f (xs ! c)"
  shows "heap_except f c (xs[h := xs ! c])"
proof -
  note D = heap_exceptD[OF e]
  have h: "h < c" "h < length xs" using c heap_parent_less[OF c(2)] by auto
  show ?thesis unfolding heap_except_def
  proof (intro conjI allI impI)
    fix i assume i: "i < length (xs[h := xs ! c])" "0 < i" "i \<noteq> c" "heap_parent i \<noteq> c"
    have "heap_parent i < i" using heap_parent_less[OF i(2)] .
    then show "f (xs[h := xs ! c] ! i) \<le> f (xs[h := xs ! c] ! heap_parent i)"
      using D(1)[of i] D(2)[OF c(1,2)] i c h big by (cases "i = h"; cases "heap_parent i = h") auto
  next
    fix i assume i: "i < length (xs[h := xs ! c])" "0 < i" "heap_parent i = c" "0 < c"
    then have "i \<noteq> h" using h heap_parent_less[OF i(2)] by auto
    then show "f (xs[h := xs ! c] ! i) \<le> f (xs[h := xs ! c] ! heap_parent c)"
      using D(1)[of i] i c h by auto
  qed
qed

lemma heap_down_except:
  assumes "heap_except f hole xs" "hole < length xs" "heap_down (\<lambda>a b. f a < f b) hole xs = (h, ys)"
  shows "heap_except f h ys \<and> (length ys - 1) div 2 \<le> h"
  using assms
proof (induction "length xs - hole" arbitrary: hole xs rule: less_induct)
  case less
  show ?case
  proof (cases "hole < (length xs - 1) div 2")
    case True
    let ?c = "big_child (\<lambda>a b. f a < f b) hole xs"
    have c: "?c < length xs" "hole < ?c" "heap_parent ?c = hole"
      using True big_child_cases[of "\<lambda>a b. f a < f b" hole xs] by (auto simp: heap_parent_def)
    have big: "\<forall>i<length xs. 0 < i \<longrightarrow> heap_parent i = hole \<longrightarrow> f (xs ! i) \<le> f (xs ! ?c)"
    proof (intro allI impI)
      fix i assume "i < length xs" "0 < i" "heap_parent i = hole"
      then have "i = 2 * hole + 1 \<or> i = 2 * hole + 2" by (intro heap_parent_child)
      then show "f (xs ! i) \<le> f (xs ! ?c)" by (auto simp: big_child_def)
    qed
    have "heap_down (\<lambda>a b. f a < f b) ?c (xs[hole := xs ! ?c]) = (h, ys)"
      using less.prems(3) True by (subst (asm) heap_down.simps) simp
    from less.hyps[OF _ _ _ this] heap_except_down[OF less.prems(1) c(1) _ c(3) big] c show ?thesis by auto
  next
    case False
    then show ?thesis using less.prems by (subst (asm) heap_down.simps) auto
  qed
qed

lemma heap_adjust_heap:
  assumes "heap_except f 0 xs" "xs \<noteq> []"
  shows "is_heap (\<lambda>a b. f a < f b) (heap_adjust (\<lambda>a b. f a < f b) v xs)"
proof -
  let ?lt = "\<lambda>a b. f a < f b"
  obtain h ys where d: "heap_down ?lt 0 xs = (h, ys)" by fastforce
  from heap_down_except[OF assms(1) _ d] heap_down_mset[OF _ d, of v] assms(2)
  have e: "heap_except f h ys" "(length ys - 1) div 2 \<le> h" "h < length ys" by auto
  show ?thesis
  proof (cases "even (length ys) \<and> h = (length ys - 2) div 2")
    case True
    let ?c = "2 * h + 1"
    obtain b where b: "length ys = 2 * b" using True by (blast elim: evenE)
    then have "0 < b" "h = b - 1" using True e(3) by auto
    then have c: "?c < length ys" "length ys = 2 * h + 2" using b by auto
    have child: "i = ?c" if "i < length ys" "0 < i" "heap_parent i = h" for i
      using heap_parent_child[OF that(3,2)] that(1) c(2) by auto
    have "heap_except f ?c (ys[h := ys ! ?c])"
    proof (rule heap_except_down[OF e(1) c(1)])
      show "\<forall>i<length ys. 0 < i \<longrightarrow> heap_parent i = h \<longrightarrow> f (ys ! i) \<le> f (ys ! ?c)"
        using child by auto
    qed (simp_all add: heap_parent_def)
    moreover have "\<forall>i<length ys. 0 < i \<longrightarrow> heap_parent i \<noteq> ?c"
    proof (intro allI impI notI)
      fix i assume "i < length ys" "0 < i" "heap_parent i = ?c"
      with heap_parent_child[of i ?c] c(2) show False by auto
    qed
    ultimately have "is_heap ?lt (heap_up ?lt ?c v (ys[h := ys ! ?c]))" using c(1) by (intro heap_up_heap) auto
    then show ?thesis using True d by (simp add: heap_adjust_def)
  next
    case False
    have "heap_parent i \<noteq> h" if i: "i < length ys" "0 < i" for i
    proof
      assume "heap_parent i = h"
      then have "i = 2 * h + 1" using heap_parent_child[of i h] i e(2) by auto
      then have "length ys = 2 * h + 2" using i e(2) by linarith
      then show False using False by simp
    qed
    then have "is_heap ?lt (heap_up ?lt h v ys)" using e by (intro heap_up_heap) auto
    then show ?thesis using False d by (auto simp: heap_adjust_def)
  qed
qed

lemma heap_push_heap:
  fixes f :: "'a \<Rightarrow> 'k :: linorder"
  assumes "is_heap (\<lambda>a b. f a < f b) xs"
  shows "is_heap (\<lambda>a b. f a < f b) (heap_push (\<lambda>a b. f a < f b) v xs)"
  unfolding heap_push_def
proof (rule heap_up_heap)
  have *: "heap_parent i < length xs" if "0 < i" "i \<le> length xs" for i using heap_parent_less[OF that(1)] that by simp
  have **: "heap_parent i \<noteq> length xs" if "0 < i" "i < length (xs @ [v])" for i using *[of i] that by auto
  show "heap_except f (length xs) (xs @ [v])"
    unfolding heap_except_def
  proof (intro conjI allI impI)
    fix i assume i: "i < length (xs @ [v])" "0 < i" "i \<noteq> length xs"
    then show "f ((xs @ [v]) ! i) \<le> f ((xs @ [v]) ! heap_parent i)"
      using assms *[of i] by (auto simp: is_heap_def nth_append not_less)
  qed (use ** in blast)
  show "\<forall>i<length (xs @ [v]). 0 < i \<longrightarrow> heap_parent i = length xs \<longrightarrow> f ((xs @ [v]) ! i) \<le> f v"
    using ** by blast
qed simp

lemma heap_pop_heap:
  fixes f :: "'a \<Rightarrow> 'k :: linorder"
  assumes "is_heap (\<lambda>a b. f a < f b) xs"
  shows "is_heap (\<lambda>a b. f a < f b) (heap_pop (\<lambda>a b. f a < f b) xs)"
proof (cases "length xs \<le> 1")
  case True
  then show ?thesis by (simp add: heap_pop_def is_heap_def)
next
  case False
  have "heap_except f 0 (butlast xs)" unfolding heap_except_def
  proof (intro conjI allI impI)
    fix i assume i: "i < length (butlast xs)" "0 < i"
    then have "heap_parent i < length (butlast xs)" using heap_parent_less[OF i(2)] by simp
    then show "f (butlast xs ! i) \<le> f (butlast xs ! heap_parent i)"
      using assms i by (simp add: is_heap_def nth_butlast not_less)
  qed simp
  moreover have "butlast xs \<noteq> []" using False by (cases xs; cases "tl xs") auto
  ultimately show ?thesis using False heap_adjust_heap by (auto simp: heap_pop_def)
qed

text \<open>The key of the first element may change before it is removed.\<close>

lemma heap_pop_changed:
  fixes f g :: "'a \<Rightarrow> 'k :: linorder"
  assumes h: "is_heap (\<lambda>a b. f a < f b) xs" and d: "distinct xs" and g: "\<And>x. x \<in> set xs \<Longrightarrow> x \<noteq> hd xs \<Longrightarrow> g x = f x"
  shows "is_heap (\<lambda>a b. g a < g b) (heap_pop (\<lambda>a b. g a < g b) xs)"
proof (cases "length xs \<le> 1")
  case True
  then show ?thesis by (simp add: heap_pop_def is_heap_def)
next
  case False
  have "heap_except g 0 (butlast xs)" unfolding heap_except_def
  proof (intro conjI allI impI)
    fix i assume i: "i < length (butlast xs)" "0 < i" "heap_parent i \<noteq> 0"
    then have p: "heap_parent i < length (butlast xs)" using heap_parent_less[OF i(2)] by simp
    have *: "g (xs ! k) = f (xs ! k)" if "0 < k" "k < length xs" for k
      using g[of "xs ! k"] that d by (simp add: hd_conv_nth nth_eq_iff_index_eq length_greater_0_conv[symmetric] del: length_greater_0_conv)
    have "f (xs ! i) \<le> f (xs ! heap_parent i)" using h i by (simp add: is_heap_def not_less)
    then show "g (butlast xs ! i) \<le> g (butlast xs ! heap_parent i)"
      using *[of i] *[of "heap_parent i"] i p by (simp add: nth_butlast)
  qed simp
  moreover have "butlast xs \<noteq> []" using False by (cases xs; cases "tl xs") auto
  ultimately show ?thesis using False heap_adjust_heap by (auto simp: heap_pop_def)
qed

lemma heap_top_max:
  fixes f :: "'a \<Rightarrow> 'k :: linorder"
  shows "is_heap (\<lambda>a b. f a < f b) xs \<Longrightarrow> i < length xs \<Longrightarrow> f (xs ! i) \<le> f (xs ! 0)"
proof (induction i rule: less_induct)
  case (less i)
  show ?case
  proof (cases "i = 0")
    case False
    then have p: "heap_parent i < i" by (intro heap_parent_less) simp
    have "f (xs ! i) \<le> f (xs ! heap_parent i)" using less.prems False by (simp add: is_heap_def not_less)
    also have "\<dots> \<le> f (xs ! 0)" using less p by simp
    finally show ?thesis .
  qed simp
qed

text \<open>The order only depends on the keys of the elements.\<close>

lemma is_heap_cong: "(\<And>x. x \<in> set xs \<Longrightarrow> f x = g x) \<Longrightarrow> is_heap (\<lambda>a b. f a < f b) xs = is_heap (\<lambda>a b. g a < g b) xs"
proof -
  assume *: "\<And>x. x \<in> set xs \<Longrightarrow> f x = g x"
  have "f (xs ! i) = g (xs ! i) \<and> f (xs ! heap_parent i) = g (xs ! heap_parent i)" if "i < length xs" for i
    using * that by (auto simp: heap_parent_def)
  then show ?thesis by (auto simp: is_heap_def)
qed

section \<open>The queue interface\<close>

locale pqueue =
  fixes push :: "('a \<Rightarrow> 'a \<Rightarrow> bool) \<Rightarrow> 'a \<Rightarrow> 'q \<Rightarrow> 'q"
    and pop :: "('a \<Rightarrow> 'a \<Rightarrow> bool) \<Rightarrow> 'q \<Rightarrow> 'q"
    and top :: "'q \<Rightarrow> 'a option"
    and items :: "'q \<Rightarrow> 'a multiset"
    and ordered :: "('a \<Rightarrow> int) \<Rightarrow> 'q \<Rightarrow> bool"
  assumes push_items: "items (push lt v q) = add_mset v (items q)"
    and top_empty: "top q = None \<longleftrightarrow> items q = {#}"
    and pop_items: "top q = Some x \<Longrightarrow> add_mset x (items (pop lt q)) = items q"
    and push_ordered: "ordered f q \<Longrightarrow> ordered f (push (\<lambda>a b. f a < f b) v q)"
    and pop_ordered: "ordered f q \<Longrightarrow> ordered f (pop (\<lambda>a b. f a < f b) q)"
    and top_largest: "ordered f q \<Longrightarrow> top q = Some x \<Longrightarrow> y \<in># items q \<Longrightarrow> f y \<le> f x"
begin

lemma push_set: "set_mset (items (push lt v q)) = insert v (set_mset (items q))"
  by (simp add: push_items)

lemma pop_keeps:
  assumes "top q = Some x" "y \<in># items q" "y \<noteq> x"
  shows "y \<in># items (pop lt q)"
proof -
  have "y \<in># add_mset x (items (pop lt q))" unfolding pop_items[OF assms(1)] by (rule assms(2))
  then show ?thesis using assms(3) by simp
qed

lemma pop_subset:
  assumes "top q = Some x"
  shows "set_mset (items (pop lt q)) \<subseteq> set_mset (items q)"
  unfolding pop_items[OF assms, of lt, symmetric] by auto

text \<open>Taking the top out and putting it back keeps the elements.\<close>

lemma repush_items: "top q = Some x \<Longrightarrow> items (push lt x (pop lt' q)) = items q"
  by (simp add: push_items pop_items)

end

lemma heap_top_hd: "heap_top xs = Some x \<longleftrightarrow> xs \<noteq> [] \<and> x = hd xs"
  by (cases xs) (auto simp: heap_top_def)

interpretation std_heap: pqueue heap_push heap_pop heap_top mset "\<lambda>f. is_heap (\<lambda>a b. f a < f b)"
proof unfold_locales
  show "f y \<le> f x" if "is_heap (\<lambda>a b. f a < f b) q" "heap_top q = Some x" "y \<in># mset q" for f :: "'a \<Rightarrow> int" and q x y
    using that heap_top_max[OF that(1)] by (force simp: heap_top_hd in_set_conv_nth hd_conv_nth)
  show "add_mset x (mset (heap_pop lt q)) = mset q" if "heap_top q = Some x" for lt q and x :: 'a
    using that heap_pop_mset[of q lt] by (simp add: heap_top_hd)
  show "heap_top q = None \<longleftrightarrow> mset q = {#}" for q :: "'a list" by (cases q) (simp_all add: heap_top_def)
qed (simp_all add: heap_push_mset heap_push_heap heap_pop_heap)

end
