(* ===== verification/Rg_Allocater.thy ===== *)
theory Rg_Allocater
  imports Es_Manager Std_Heap Utils
begin

text \<open>
  The three allocaters of replication groups
  (\<open>src/src/extentmanager/rg_allocater.h\<close>, \<open>rg_allocater_by_{es,host,rack}.cpp\<close>): they choose
  the extent servers of a group so that no two are in the same failure domain. The
  servers, hosts and racks are objects that several priority queues point to; here a queue
  holds ids or names, the objects are in tables, and the counters that order a queue are
  looked up in them. The table of extent servers is the one of the extent server manager,
  because the allocaters change the counters of its servers.

  \<open>None\<close>: a division by zero, or \<open>top()\<close> of an empty queue. The functions that select a
  server return the server and the new state.
\<close>

section \<open>Load\<close>

record rg_stat =
  stat_rgs :: nat
  stat_primary_rgs :: nat
  stat_secondary_rgs :: nat
  stat_weight :: nat

definition Stat :: rg_stat where
  "Stat = \<lparr> stat_rgs = 0, stat_primary_rgs = 0, stat_secondary_rgs = 0, stat_weight = 0 \<rparr>"

text \<open>\<open>1000000 * count / weight\<close>, with an \<open>int\<close> product and an unsigned quotient.\<close>

definition load :: "nat \<Rightarrow> nat \<Rightarrow> nat" where
  "load cnt weight = nat (to_int32 (1000000 * int cnt) mod 2 ^ 64) div weight"

definition more_loaded :: "nat \<Rightarrow> nat \<Rightarrow> nat \<Rightarrow> nat \<Rightarrow> nat \<Rightarrow> nat \<Rightarrow> bool" where
  "more_loaded sec pri weight sec' pri' weight' \<longleftrightarrow>
     load sec weight > load sec' weight' \<or> load pri weight > load pri' weight'"

definition es_of :: "es_map \<Rightarrow> int \<Rightarrow> extent_server" where
  "es_of em i = the (map_of em i)"

definition EsCmp :: "es_map \<Rightarrow> int \<Rightarrow> int \<Rightarrow> bool" where
  "EsCmp em l r = more_loaded (es_secondary_rgs (es_of em l)) (es_primary_rgs (es_of em l)) (es_weight (es_of em l))
     (es_secondary_rgs (es_of em r)) (es_primary_rgs (es_of em r)) (es_weight (es_of em r))"

definition stat_cmp :: "rg_stat \<Rightarrow> rg_stat \<Rightarrow> bool" where
  "stat_cmp l r = more_loaded (stat_secondary_rgs l) (stat_primary_rgs l) (stat_weight l)
     (stat_secondary_rgs r) (stat_primary_rgs r) (stat_weight r)"

text \<open>Hosts with a queue of servers, racks with a queue of hosts.\<close>

record host =
  host_ess :: "int list"
  host_stat :: rg_stat

record rack =
  rack_hosts :: "string list"
  rack_stat :: rg_stat

type_synonym host_map = "(string \<times> host) list"
type_synonym rack_map = "(string \<times> rack) list"

definition host_of :: "host_map \<Rightarrow> string \<Rightarrow> host" where
  "host_of hm n = the (map_of hm n)"

definition rack_of :: "rack_map \<Rightarrow> string \<Rightarrow> rack" where
  "rack_of km n = the (map_of km n)"

definition HostCmp :: "host_map \<Rightarrow> string \<Rightarrow> string \<Rightarrow> bool" where
  "HostCmp hm l r = stat_cmp (host_stat (host_of hm l)) (host_stat (host_of hm r))"

definition RackCmp :: "rack_map \<Rightarrow> string \<Rightarrow> string \<Rightarrow> bool" where
  "RackCmp km l r = stat_cmp (rack_stat (rack_of km l)) (rack_stat (rack_of km r))"

definition incr_primary :: "rg_stat \<Rightarrow> rg_stat" where
  "incr_primary s = s \<lparr> stat_rgs := stat_rgs s + 1, stat_primary_rgs := stat_primary_rgs s + 1 \<rparr>"

definition incr_secondary :: "rg_stat \<Rightarrow> rg_stat" where
  "incr_secondary s = s \<lparr> stat_rgs := stat_rgs s + 1, stat_secondary_rgs := stat_secondary_rgs s + 1 \<rparr>"

definition es_incr_primary :: "int \<Rightarrow> es_map \<Rightarrow> es_map" where
  "es_incr_primary i em = (let e = es_of em i in
     smap_insert i (e \<lparr> es_primary_rgs := es_primary_rgs e + 1, es_rgs := es_rgs e + 1 \<rparr>) em)"

definition es_incr_secondary :: "int \<Rightarrow> es_map \<Rightarrow> es_map" where
  "es_incr_secondary i em = (let e = es_of em i in
     smap_insert i (e \<lparr> es_secondary_rgs := es_secondary_rgs e + 1, es_rgs := es_rgs e + 1 \<rparr>) em)"

section \<open>What the allocaters share\<close>

fun host_rack_loop :: "es_map \<Rightarrow> int list \<Rightarrow> (string \<times> string) list \<Rightarrow> status" where
  "host_rack_loop em [] host_rack_map = Status_OK"
| "host_rack_loop em (i # ess) host_rack_map =
     (let es = es_of em i in
      case map_of host_rack_map (es_host es) of
        Some r \<Rightarrow> if r \<noteq> es_rack es then Status CYPRE_ER_INVALID_ARGUMENT [] else host_rack_loop em ess host_rack_map
      | None \<Rightarrow> host_rack_loop em ess (AList.update (es_host es) (es_rack es) host_rack_map))"

definition host_rack_valid :: "es_map \<Rightarrow> int list \<Rightarrow> status" where
  "host_rack_valid em ess = host_rack_loop em ess []"

text \<open>The divisor of the weights: the greatest common divisor of the sizes in extents.\<close>

definition weight_divisor :: "nat \<Rightarrow> es_map \<Rightarrow> int list \<Rightarrow> int option" where
  "weight_divisor extent_size em ess =
     GCDUtil_gcd (map (\<lambda>i. to_int32 (int (es_capacity (es_of em i) div extent_size))) ess)"

definition set_weight :: "nat \<Rightarrow> int \<Rightarrow> int \<Rightarrow> es_map \<Rightarrow> es_map" where
  "set_weight extent_size r i em = (let e = es_of em i in
     smap_insert i (e \<lparr> es_weight := es_capacity e div extent_size div nat (r mod 2 ^ 64) \<rparr>) em)"

text \<open>No division by zero: in the weights, or in the comparisons of the queues.\<close>

definition weights_defined :: "nat \<Rightarrow> es_map \<Rightarrow> int list \<Rightarrow> int \<Rightarrow> bool" where
  "weights_defined extent_size em ess r \<longleftrightarrow> extent_size > 0 \<and> r \<noteq> 0 \<and>
     (\<forall>i\<in>set ess. es_capacity (es_of em i) div extent_size div nat (r mod 2 ^ 64) > 0)"

text \<open>The loop of \<open>select_secondary\<close>: take elements off the queue while they are excluded.\<close>

function skip_excluded :: "('a \<Rightarrow> 'a \<Rightarrow> bool) \<Rightarrow> ('a \<Rightarrow> bool) \<Rightarrow> 'a list \<Rightarrow> 'a list \<Rightarrow> ('a \<times> 'a list \<times> 'a list) option" where
  "skip_excluded cmp excluded heap tmp =
     (case heap of
        [] \<Rightarrow> None
      | x # _ \<Rightarrow> if excluded x then skip_excluded cmp excluded (heap_pop cmp heap) (tmp @ [x]) else Some (x, heap, tmp))"
  by pat_completeness auto
termination
proof (relation "measure (\<lambda>(_, _, heap, _). length heap)", goal_cases)
  case (2 cmp excluded heap tmp x xs)
  then have "add_mset (hd heap) (mset (heap_pop cmp heap)) = mset heap" by (intro heap_pop_mset) simp
  then have "Suc (length (heap_pop cmp heap)) = length heap" by (metis size_add_mset size_mset)
  then show ?case by simp
qed simp

declare skip_excluded.simps [simp del]

section \<open>\<open>RGAllocaterByEs\<close>\<close>

definition by_es_init :: "nat \<Rightarrow> es_map \<Rightarrow> int list \<Rightarrow> (status \<times> int list \<times> es_map) option" where
  "by_es_init extent_size em ess =
     (let s = host_rack_valid em ess in
      if \<not> st_ok s then Some (s, [], em)
      else case weight_divisor extent_size em ess of
          None \<Rightarrow> None
        | Some r \<Rightarrow>
            if \<not> weights_defined extent_size em ess r then None
            else let (heap, em) = fold (\<lambda>i (heap, em). let em = set_weight extent_size r i em in (heap_push (EsCmp em) i heap, em)) ess ([], em)
                 in Some (Status_OK, heap, em))"

definition by_es_primary :: "int list \<Rightarrow> es_map \<Rightarrow> (int \<times> int list \<times> es_map) option" where
  "by_es_primary heap em =
     (case heap_top heap of
        None \<Rightarrow> None
      | Some i \<Rightarrow>
          let em = es_incr_primary i em;
              heap = heap_pop (EsCmp em) heap;
              heap = heap_push (EsCmp em) i heap
          in Some (i, heap, em))"

definition by_es_secondary :: "int list \<Rightarrow> es_map \<Rightarrow> int list \<Rightarrow> (int \<times> int list \<times> es_map) option" where
  "by_es_secondary heap em ess =
     (case skip_excluded (EsCmp em) (\<lambda>i. i \<in> set ess) heap [] of
        None \<Rightarrow> None
      | Some (i, heap, tmp) \<Rightarrow>
          let em = es_incr_secondary i em;
              heap = heap_pop (EsCmp em) heap;
              heap = heap_push (EsCmp em) i heap;
              heap = fold (heap_push (EsCmp em)) tmp heap
          in Some (i, heap, em))"

section \<open>\<open>RGAllocaterByHost\<close>\<close>

record host_allocater =
  ha_hosts :: "string list"
  ha_host_map :: host_map

text \<open>One turn of the loop of \<open>init\<close>: a server joins its host, a new host joins the queue.\<close>

definition host_add_es :: "nat \<Rightarrow> es_map \<Rightarrow> int \<Rightarrow> host_map \<Rightarrow> host_map" where
  "host_add_es weight em i hm =
     (let n = es_host (es_of em i);
          h = (case map_of hm n of None \<Rightarrow> \<lparr> host_ess = [], host_stat = Stat \<rparr> | Some h \<Rightarrow> h)
      in AList.update n \<lparr> host_ess = heap_push (EsCmp em) i (host_ess h),
           host_stat = (host_stat h) \<lparr> stat_weight := u64_add (stat_weight (host_stat h)) weight \<rparr> \<rparr> hm)"

definition by_host_step :: "nat \<Rightarrow> int \<Rightarrow> int \<Rightarrow> host_allocater \<times> es_map \<Rightarrow> host_allocater \<times> es_map" where
  "by_host_step extent_size r i = (\<lambda>(a, em).
     let em = set_weight extent_size r i em;
         n = es_host (es_of em i);
         hm = host_add_es (es_weight (es_of em i)) em i (ha_host_map a);
         hosts = (if map_of (ha_host_map a) n \<noteq> None then ha_hosts a else heap_push (HostCmp hm) n (ha_hosts a))
     in (\<lparr> ha_hosts = hosts, ha_host_map = hm \<rparr>, em))"

definition by_host_init :: "nat \<Rightarrow> es_map \<Rightarrow> int list \<Rightarrow> (status \<times> host_allocater \<times> es_map) option" where
  "by_host_init extent_size em ess =
     (let s = host_rack_valid em ess; a = \<lparr> ha_hosts = [], ha_host_map = [] \<rparr> in
      if \<not> st_ok s then Some (s, a, em)
      else case weight_divisor extent_size em ess of
          None \<Rightarrow> None
        | Some r \<Rightarrow>
            if \<not> weights_defined extent_size em ess r then None
            else Some (Status_OK, fold (by_host_step extent_size r) ess (a, em)))"

text \<open>A server of the host at the top of the queue is chosen; \<open>incr\<close> and \<open>es_incr\<close> count it as a
  primary or as a secondary.\<close>

definition by_host_take :: "(rg_stat \<Rightarrow> rg_stat) \<Rightarrow> (int \<Rightarrow> es_map \<Rightarrow> es_map) \<Rightarrow> host_allocater \<Rightarrow> es_map \<Rightarrow> string
    \<Rightarrow> (int \<times> host_allocater \<times> es_map) option" where
  "by_host_take incr es_incr a em n =
     (let h = host_of (ha_host_map a) n in
      case heap_top (host_ess h) of
        None \<Rightarrow> None
      | Some i \<Rightarrow>
          let em = es_incr i em;
              hm = AList.update n (h \<lparr> host_stat := incr (host_stat h) \<rparr>) (ha_host_map a);
              hosts = heap_pop (HostCmp hm) (ha_hosts a);
              ess = heap_pop (EsCmp em) (host_ess h);
              hosts = heap_push (HostCmp hm) n hosts;
              ess = heap_push (EsCmp em) i ess;
              hm = AList.update n \<lparr> host_ess = ess, host_stat = incr (host_stat h) \<rparr> hm
          in Some (i, \<lparr> ha_hosts = hosts, ha_host_map = hm \<rparr>, em))"

definition by_host_primary :: "host_allocater \<Rightarrow> es_map \<Rightarrow> (int \<times> host_allocater \<times> es_map) option" where
  "by_host_primary a em =
     (case heap_top (ha_hosts a) of
        None \<Rightarrow> None
      | Some n \<Rightarrow> by_host_take incr_primary es_incr_primary a em n)"

definition by_host_secondary :: "host_allocater \<Rightarrow> es_map \<Rightarrow> int list \<Rightarrow> (int \<times> host_allocater \<times> es_map) option" where
  "by_host_secondary a em ess =
     (case skip_excluded (HostCmp (ha_host_map a)) (\<lambda>n. \<exists>i\<in>set ess. es_host (es_of em i) = n) (ha_hosts a) [] of
        None \<Rightarrow> None
      | Some (n, hosts, tmp) \<Rightarrow>
          (case by_host_take incr_secondary es_incr_secondary (a \<lparr> ha_hosts := hosts \<rparr>) em n of
             None \<Rightarrow> None
           | Some (i, a, em) \<Rightarrow>
               Some (i, a \<lparr> ha_hosts := fold (heap_push (HostCmp (ha_host_map a))) tmp (ha_hosts a) \<rparr>, em)))"

section \<open>\<open>RGAllocaterByRack\<close>\<close>

record rack_allocater =
  ra_racks :: "string list"
  ra_rack_map :: rack_map
  ra_host_map :: host_map

text \<open>One turn of the loop of \<open>init\<close>: the host is pushed to the rack once per server.\<close>

definition by_rack_step :: "nat \<Rightarrow> int \<Rightarrow> int \<Rightarrow> rack_allocater \<times> es_map \<Rightarrow> rack_allocater \<times> es_map" where
  "by_rack_step extent_size r i = (\<lambda>(a, em).
     let em = set_weight extent_size r i em;
         es = es_of em i;
         hm = host_add_es (es_weight es) em i (ra_host_map a);
         k = (case map_of (ra_rack_map a) (es_rack es) of None \<Rightarrow> \<lparr> rack_hosts = [], rack_stat = Stat \<rparr> | Some k \<Rightarrow> k);
         km = AList.update (es_rack es)
                \<lparr> rack_hosts = heap_push (HostCmp hm) (es_host es) (rack_hosts k),
                  rack_stat = (rack_stat k) \<lparr> stat_weight := u64_add (stat_weight (rack_stat k)) (es_weight es) \<rparr> \<rparr> (ra_rack_map a);
         racks = (if map_of (ra_rack_map a) (es_rack es) \<noteq> None then ra_racks a else heap_push (RackCmp km) (es_rack es) (ra_racks a))
     in (\<lparr> ra_racks = racks, ra_rack_map = km, ra_host_map = hm \<rparr>, em))"

definition by_rack_init :: "nat \<Rightarrow> es_map \<Rightarrow> int list \<Rightarrow> (status \<times> rack_allocater \<times> es_map) option" where
  "by_rack_init extent_size em ess =
     (let s = host_rack_valid em ess; a = \<lparr> ra_racks = [], ra_rack_map = [], ra_host_map = [] \<rparr> in
      if \<not> st_ok s then Some (s, a, em)
      else case weight_divisor extent_size em ess of
          None \<Rightarrow> None
        | Some r \<Rightarrow>
            if \<not> weights_defined extent_size em ess r then None
            else Some (Status_OK, fold (by_rack_step extent_size r) ess (a, em)))"

definition by_rack_take :: "(rg_stat \<Rightarrow> rg_stat) \<Rightarrow> (int \<Rightarrow> es_map \<Rightarrow> es_map) \<Rightarrow> rack_allocater \<Rightarrow> es_map \<Rightarrow> string
    \<Rightarrow> (int \<times> rack_allocater \<times> es_map) option" where
  "by_rack_take incr es_incr a em kn =
     (let k = rack_of (ra_rack_map a) kn in
      case heap_top (rack_hosts k) of
        None \<Rightarrow> None
      | Some n \<Rightarrow>
          let h = host_of (ra_host_map a) n in
          case heap_top (host_ess h) of
            None \<Rightarrow> None
          | Some i \<Rightarrow>
              let em = es_incr i em;
                  hm = AList.update n (h \<lparr> host_stat := incr (host_stat h) \<rparr>) (ra_host_map a);
                  km = AList.update kn (k \<lparr> rack_stat := incr (rack_stat k) \<rparr>) (ra_rack_map a);
                  racks = heap_pop (RackCmp km) (ra_racks a);
                  hosts = heap_pop (HostCmp hm) (rack_hosts k);
                  ess = heap_pop (EsCmp em) (host_ess h);
                  racks = heap_push (RackCmp km) kn racks;
                  hosts = heap_push (HostCmp hm) n hosts;
                  ess = heap_push (EsCmp em) i ess;
                  hm = AList.update n \<lparr> host_ess = ess, host_stat = incr (host_stat h) \<rparr> hm;
                  km = AList.update kn \<lparr> rack_hosts = hosts, rack_stat = incr (rack_stat k) \<rparr> km
              in Some (i, \<lparr> ra_racks = racks, ra_rack_map = km, ra_host_map = hm \<rparr>, em))"

definition by_rack_primary :: "rack_allocater \<Rightarrow> es_map \<Rightarrow> (int \<times> rack_allocater \<times> es_map) option" where
  "by_rack_primary a em =
     (case heap_top (ra_racks a) of
        None \<Rightarrow> None
      | Some kn \<Rightarrow> by_rack_take incr_primary es_incr_primary a em kn)"

definition by_rack_secondary :: "rack_allocater \<Rightarrow> es_map \<Rightarrow> int list \<Rightarrow> (int \<times> rack_allocater \<times> es_map) option" where
  "by_rack_secondary a em ess =
     (case skip_excluded (RackCmp (ra_rack_map a)) (\<lambda>k. \<exists>i\<in>set ess. es_rack (es_of em i) = k) (ra_racks a) [] of
        None \<Rightarrow> None
      | Some (kn, racks, tmp) \<Rightarrow>
          (case by_rack_take incr_secondary es_incr_secondary (a \<lparr> ra_racks := racks \<rparr>) em kn of
             None \<Rightarrow> None
           | Some (i, a, em) \<Rightarrow>
               Some (i, a \<lparr> ra_racks := fold (heap_push (RackCmp (ra_rack_map a))) tmp (ra_racks a) \<rparr>, em)))"

section \<open>The allocater of a pool\<close>

datatype allocater = By_rack rack_allocater | By_host host_allocater | By_es "int list"

definition allocater_init :: "failure_domain \<Rightarrow> nat \<Rightarrow> es_map \<Rightarrow> int list \<Rightarrow> (status \<times> allocater \<times> es_map) option" where
  "allocater_init fd extent_size em ess =
     (case fd of
        kFailureDomainRack \<Rightarrow> map_option (\<lambda>(s, a, em). (s, By_rack a, em)) (by_rack_init extent_size em ess)
      | kFailureDomainHost \<Rightarrow> map_option (\<lambda>(s, a, em). (s, By_host a, em)) (by_host_init extent_size em ess)
      | kFailureDomainNode \<Rightarrow> map_option (\<lambda>(s, a, em). (s, By_es a, em)) (by_es_init extent_size em ess)
      | kFailureDomainUnknown \<Rightarrow>
          Some (Status CYPRE_ER_INVALID_ARGUMENT ''failuredomain not defined'', By_es [], em))"

fun select_primary :: "allocater \<times> es_map \<Rightarrow> (int \<times> allocater \<times> es_map) option" where
  "select_primary (By_rack a, em) = map_option (\<lambda>(i, a, em). (i, By_rack a, em)) (by_rack_primary a em)"
| "select_primary (By_host a, em) = map_option (\<lambda>(i, a, em). (i, By_host a, em)) (by_host_primary a em)"
| "select_primary (By_es a, em) = map_option (\<lambda>(i, a, em). (i, By_es a, em)) (by_es_primary a em)"

fun select_secondary :: "allocater \<times> es_map \<Rightarrow> int list \<Rightarrow> (int \<times> allocater \<times> es_map) option" where
  "select_secondary (By_rack a, em) ess = map_option (\<lambda>(i, a, em). (i, By_rack a, em)) (by_rack_secondary a em ess)"
| "select_secondary (By_host a, em) ess = map_option (\<lambda>(i, a, em). (i, By_host a, em)) (by_host_secondary a em ess)"
| "select_secondary (By_es a, em) ess = map_option (\<lambda>(i, a, em). (i, By_es a, em)) (by_es_secondary a em ess)"

section \<open>What the allocaters promise\<close>

text \<open>The failure domain of a server.\<close>

datatype domain = In_rack string | In_host string | Node int

definition es_domain :: "failure_domain \<Rightarrow> es_map \<Rightarrow> int \<Rightarrow> domain" where
  "es_domain fd em i =
     (case fd of kFailureDomainRack \<Rightarrow> In_rack (es_rack (es_of em i)) | kFailureDomainHost \<Rightarrow> In_host (es_host (es_of em i)) | _ \<Rightarrow> Node i)"

text \<open>The counters and weights do not matter for the place of a server.\<close>

definition same_places :: "es_map \<Rightarrow> es_map \<Rightarrow> bool" where
  "same_places em0 em \<longleftrightarrow> (\<forall>i. map_option es_stored (map_of em i) = map_option es_stored (map_of em0 i))"

definition es_ids :: "es_map \<Rightarrow> int set" where
  "es_ids em = fst ` set em"

definition es_heap_ok :: "es_map \<Rightarrow> int list \<Rightarrow> bool" where
  "es_heap_ok em0 heap \<longleftrightarrow> set heap = es_ids em0"

text \<open>A host and its servers; every host that has servers is in the queue.\<close>

definition host_ok :: "es_map \<Rightarrow> string \<Rightarrow> host \<Rightarrow> bool" where
  "host_ok em0 n h \<longleftrightarrow> host_ess h \<noteq> [] \<and> (\<forall>i\<in>set (host_ess h). i \<in> es_ids em0 \<and> es_host (es_of em0 i) = n)"

definition host_heap_ok :: "es_map \<Rightarrow> host_allocater \<Rightarrow> bool" where
  "host_heap_ok em0 a \<longleftrightarrow> set (ha_hosts a) = (\<lambda>i. es_host (es_of em0 i)) ` es_ids em0 \<and>
     (\<forall>n\<in>set (ha_hosts a). \<exists>h. map_of (ha_host_map a) n = Some h \<and> host_ok em0 n h)"

definition rack_ok :: "es_map \<Rightarrow> host_map \<Rightarrow> string \<Rightarrow> rack \<Rightarrow> bool" where
  "rack_ok em0 hm kn k \<longleftrightarrow> rack_hosts k \<noteq> [] \<and>
     (\<forall>n\<in>set (rack_hosts k). \<exists>h. map_of hm n = Some h \<and> host_ok em0 n h \<and> (\<forall>i\<in>set (host_ess h). es_rack (es_of em0 i) = kn))"

definition rack_heap_ok :: "es_map \<Rightarrow> rack_allocater \<Rightarrow> bool" where
  "rack_heap_ok em0 a \<longleftrightarrow> set (ra_racks a) = (\<lambda>i. es_rack (es_of em0 i)) ` es_ids em0 \<and>
     (\<forall>kn\<in>set (ra_racks a). \<exists>k. map_of (ra_rack_map a) kn = Some k \<and> rack_ok em0 (ra_host_map a) kn k)"

fun allocater_ok :: "failure_domain \<Rightarrow> es_map \<Rightarrow> allocater \<times> es_map \<Rightarrow> bool" where
  "allocater_ok fd em0 (By_rack a, em) \<longleftrightarrow> fd = kFailureDomainRack \<and> rack_heap_ok em0 a \<and> same_places em0 em"
| "allocater_ok fd em0 (By_host a, em) \<longleftrightarrow> fd = kFailureDomainHost \<and> host_heap_ok em0 a \<and> same_places em0 em"
| "allocater_ok fd em0 (By_es a, em) \<longleftrightarrow> fd = kFailureDomainNode \<and> es_heap_ok em0 a \<and> same_places em0 em"

section \<open>Queues as sets\<close>

lemma set_heap_push [simp]: "set (heap_push cmp x q) = insert x (set q)"
  using std_heap.push_set[of cmp x q] by simp

lemma set_fold_push [simp]: "set (fold (heap_push cmp) xs q) = set xs \<union> set q"
  by (induction xs arbitrary: q) auto

lemma set_repush: "heap_top q = Some x \<Longrightarrow> insert x (set (heap_pop cmp q)) = set q"
  by (metis set_mset_add_mset_insert set_mset_mset std_heap.pop_items)

lemma heap_top_in: "heap_top q = Some x \<Longrightarrow> x \<in> set q"
  by (auto simp: heap_top_hd)

lemma heap_top_ex: "q \<noteq> [] \<Longrightarrow> \<exists>x. heap_top q = Some x"
  by (cases q) (auto simp: heap_top_def)

lemma skip_excluded_Some:
  assumes "skip_excluded cmp ex heap tmp = Some (x, heap', tmp')"
  shows "\<not> ex x \<and> heap_top heap' = Some x \<and> set tmp' \<union> set heap' = set tmp \<union> set heap"
  using assms
proof (induction cmp ex heap tmp rule: skip_excluded.induct)
  case (1 cmp ex heap tmp)
  show ?case
  proof (cases heap)
    case Nil
    then show ?thesis using 1(2) by (subst (asm) skip_excluded.simps) simp
  next
    case (Cons y ys)
    have top: "heap_top heap = Some y" using Cons by (simp add: heap_top_def)
    show ?thesis
    proof (cases "ex y")
      case True
      then have "skip_excluded cmp ex (heap_pop cmp heap) (tmp @ [y]) = Some (x, heap', tmp')"
        using 1(2) Cons by (subst (asm) skip_excluded.simps) simp
      from 1(1)[OF Cons True this] show ?thesis using set_repush[OF top, of cmp] by auto
    next
      case False
      then show ?thesis using 1(2) Cons top by (subst (asm) skip_excluded.simps) auto
    qed
  qed
qed

lemma skip_excluded_ex:
  assumes "y \<in> set heap" "\<not> ex y"
  shows "\<exists>r. skip_excluded cmp ex heap tmp = Some r"
  using assms
proof (induction cmp ex heap tmp rule: skip_excluded.induct)
  case (1 cmp ex heap tmp)
  then obtain x xs where heap: "heap = x # xs" by (cases heap) auto
  show ?case
  proof (cases "ex x")
    case True
    then have "y \<in> set (heap_pop cmp heap)"
      using std_heap.pop_keeps[of heap x y cmp] 1(2,3) heap by (auto simp: heap_top_def)
    from 1(1)[OF heap True this 1(3)] show ?thesis using heap True by (subst skip_excluded.simps) simp
  next
    case False
    then show ?thesis using heap by (subst skip_excluded.simps) simp
  qed
qed

lemma skip_excluded_found:
  assumes "y \<in> set heap" "\<not> ex y"
  obtains x heap' tmp where "skip_excluded cmp ex heap [] = Some (x, heap', tmp)" "\<not> ex x" "heap_top heap' = Some x"
    "set tmp \<union> set heap' = set heap"
proof -
  obtain x heap' tmp where s: "skip_excluded cmp ex heap [] = Some (x, heap', tmp)"
    using skip_excluded_ex[of y heap ex cmp "[]", OF assms] by auto
  from skip_excluded_Some[OF s] show thesis by (intro that[OF s]) auto
qed

section \<open>Counters do not move servers\<close>

lemma same_placesD:
  assumes "same_places em0 em" "i \<in> es_ids em0"
  shows "\<exists>e. map_of em i = Some e \<and> es_of em i = e" "es_host (es_of em i) = es_host (es_of em0 i)"
    "es_rack (es_of em i) = es_rack (es_of em0 i)"
proof -
  have "map_of em0 i \<noteq> None" using assms(2) unfolding map_of_eq_None_iff es_ids_def by simp
  then obtain e0 where e0: "map_of em0 i = Some e0" by auto
  from spec[OF assms(1)[unfolded same_places_def], of i] e0
  obtain e where e: "map_of em i = Some e" "es_stored e = es_stored e0" by auto
  have "es_host e = es_host e0" "es_rack e = es_rack e0"
    using arg_cong[OF e(2), of es_host] arg_cong[OF e(2), of es_rack] by (simp_all add: es_stored_def)
  then show "\<exists>e. map_of em i = Some e \<and> es_of em i = e" "es_host (es_of em i) = es_host (es_of em0 i)"
      "es_rack (es_of em i) = es_rack (es_of em0 i)"
    using e e0 by (simp_all add: es_of_def)
qed

lemma same_places_update:
  assumes s: "same_places em0 em" and i: "i \<in> es_ids em0" and e: "es_stored e = es_stored (es_of em i)"
  shows "same_places em0 (smap_insert i e em)"
proof -
  obtain e' where "map_of em i = Some e'" "es_of em i = e'" using same_placesD(1)[OF s i] by blast
  then have "map_option es_stored (map_of (smap_insert i e em) j) = map_option es_stored (map_of em j)" for j
    using e by (cases "j = i") auto
  then show ?thesis using s by (simp add: same_places_def)
qed

lemma same_places_steps:
  assumes "same_places em0 em" "i \<in> es_ids em0"
  shows "same_places em0 (es_incr_primary i em)" "same_places em0 (es_incr_secondary i em)" "same_places em0 (set_weight x r i em)"
  by (simp_all add: es_incr_primary_def es_incr_secondary_def set_weight_def Let_def same_places_update[OF assms] es_stored_def)

section \<open>Selection by server\<close>

lemma by_es_primary_ok:
  assumes "es_heap_ok em0 heap" "same_places em0 em" "em0 \<noteq> []"
  shows "\<exists>i heap' em'. by_es_primary heap em = Some (i, heap', em') \<and> es_heap_ok em0 heap' \<and> same_places em0 em' \<and> i \<in> es_ids em0"
proof -
  have "heap \<noteq> []" using assms(1,3) by (auto simp: es_heap_ok_def es_ids_def)
  then obtain i where i: "heap_top heap = Some i" using heap_top_ex by blast
  then have "i \<in> es_ids em0" using assms(1) heap_top_in[OF i] by (simp add: es_heap_ok_def)
  then show ?thesis using i assms(1,2) set_repush[OF i]
    by (auto simp: by_es_primary_def es_heap_ok_def Let_def same_places_steps)
qed

lemma by_es_secondary_ok:
  assumes h: "es_heap_ok em0 heap" and p: "same_places em0 em" and j: "j \<in> es_ids em0" "j \<notin> set g"
  shows "\<exists>i heap' em'. by_es_secondary heap em g = Some (i, heap', em') \<and> es_heap_ok em0 heap' \<and> same_places em0 em' \<and>
    i \<in> es_ids em0 \<and> i \<notin> set g"
proof -
  have "j \<in> set heap" using h j(1) by (simp add: es_heap_ok_def)
  from skip_excluded_found[of j heap "\<lambda>i. i \<in> set g" "EsCmp em", OF this j(2)]
  obtain i heap' tmp where s: "skip_excluded (EsCmp em) (\<lambda>i. i \<in> set g) heap [] = Some (i, heap', tmp)" "i \<notin> set g"
    and top: "heap_top heap' = Some i" and u: "set tmp \<union> set heap' = es_ids em0"
    using h unfolding es_heap_ok_def by metis
  then have "i \<in> es_ids em0" using heap_top_in[OF top] by auto
  then show ?thesis using s p u set_repush[OF top]
    by (auto simp: by_es_secondary_def es_heap_ok_def Let_def same_places_steps)
qed

section \<open>Selection by host\<close>

text \<open>Hosts keep their servers.\<close>

definition hosts_kept :: "es_map \<Rightarrow> host_map \<Rightarrow> host_map \<Rightarrow> bool" where
  "hosts_kept em0 hm hm' \<longleftrightarrow> (\<forall>m h. map_of hm m = Some h \<longrightarrow> host_ok em0 m h \<longrightarrow>
     (\<exists>h'. map_of hm' m = Some h' \<and> host_ok em0 m h' \<and> set (host_ess h') = set (host_ess h)))"

lemma hosts_keptD: "hosts_kept em0 hm hm' \<Longrightarrow> map_of hm m = Some h \<Longrightarrow> host_ok em0 m h \<Longrightarrow>
    \<exists>h'. map_of hm' m = Some h' \<and> host_ok em0 m h' \<and> set (host_ess h') = set (host_ess h)"
  by (simp add: hosts_kept_def)

lemma hosts_kept_update:
  assumes "map_of hm n = Some h" "host_ok em0 n h" "set (host_ess h') = set (host_ess h)"
  shows "hosts_kept em0 hm (AList.update n h' (AList.update n h'' hm))"
proof -
  have "host_ess h' \<noteq> []" using assms(2,3) by (metis host_ok_def set_empty)
  then have "host_ok em0 n h'" using assms(2,3) by (simp add: host_ok_def)
  then show ?thesis using assms by (auto simp: hosts_kept_def)
qed

lemma host_heap_ok_kept:
  assumes "host_heap_ok em0 a" "set (ha_hosts b) = set (ha_hosts a)" "hosts_kept em0 (ha_host_map a) (ha_host_map b)"
  shows "host_heap_ok em0 b"
  unfolding host_heap_ok_def
proof (intro conjI ballI)
  show "set (ha_hosts b) = (\<lambda>i. es_host (es_of em0 i)) ` es_ids em0" using assms(1,2) by (simp add: host_heap_ok_def)
  fix n assume "n \<in> set (ha_hosts b)"
  then obtain h where "map_of (ha_host_map a) n = Some h" "host_ok em0 n h" using assms(1,2) unfolding host_heap_ok_def by blast
  from hosts_keptD[OF assms(3) this] show "\<exists>h. map_of (ha_host_map b) n = Some h \<and> host_ok em0 n h" by blast
qed

lemma by_host_take_ok:
  assumes n: "heap_top (ha_hosts a) = Some n" and h: "map_of (ha_host_map a) n = Some h" "host_ok em0 n h"
    and p: "same_places em0 em" and incr: "\<And>i. i \<in> es_ids em0 \<Longrightarrow> same_places em0 (es_incr i em)"
  obtains i a' em' where "by_host_take incr es_incr a em n = Some (i, a', em')" "set (ha_hosts a') = set (ha_hosts a)"
    "hosts_kept em0 (ha_host_map a) (ha_host_map a')" "same_places em0 em'" "i \<in> es_ids em0" "es_host (es_of em0 i) = n"
proof -
  obtain i where i: "heap_top (host_ess h) = Some i" using heap_top_ex[of "host_ess h"] h(2) unfolding host_ok_def by blast
  have e: "i \<in> es_ids em0" "es_host (es_of em0 i) = n" using h(2) heap_top_in[OF i] by (auto simp: host_ok_def)
  let ?em = "es_incr i em"
  let ?hm = "AList.update n (h \<lparr> host_stat := incr (host_stat h) \<rparr>) (ha_host_map a)"
  let ?hosts = "heap_push (HostCmp ?hm) n (heap_pop (HostCmp ?hm) (ha_hosts a))"
  let ?h = "\<lparr> host_ess = heap_push (EsCmp ?em) i (heap_pop (EsCmp ?em) (host_ess h)), host_stat = incr (host_stat h) \<rparr>"
  let ?a = "\<lparr> ha_hosts = ?hosts, ha_host_map = AList.update n ?h ?hm \<rparr>"
  have t: "by_host_take incr es_incr a em n = Some (i, ?a, ?em)"
    using h(1) i by (simp add: by_host_take_def host_of_def Let_def)
  have s: "set (ha_hosts ?a) = set (ha_hosts a)" "set (host_ess ?h) = set (host_ess h)"
    using set_repush[OF n(1)] set_repush[OF i] by simp_all
  have "hosts_kept em0 (ha_host_map a) (ha_host_map ?a)" using hosts_kept_update[OF h s(2)] by simp
  from that[OF t s(1) this incr[OF e(1)] e] show thesis .
qed

lemma by_host_primary_ok:
  assumes h: "host_heap_ok em0 a" and p: "same_places em0 em" and "em0 \<noteq> []"
  shows "\<exists>i a' em'. by_host_primary a em = Some (i, a', em') \<and> host_heap_ok em0 a' \<and> same_places em0 em' \<and> i \<in> es_ids em0"
proof -
  have "ha_hosts a \<noteq> []" using assms(1,3) by (auto simp: host_heap_ok_def es_ids_def)
  then obtain n where n: "heap_top (ha_hosts a) = Some n" using heap_top_ex by blast
  obtain g where g: "map_of (ha_host_map a) n = Some g" "host_ok em0 n g" using h heap_top_in[OF n] unfolding host_heap_ok_def by blast
  obtain i a' em' where t: "by_host_take incr_primary es_incr_primary a em n = Some (i, a', em')" "set (ha_hosts a') = set (ha_hosts a)"
      "hosts_kept em0 (ha_host_map a) (ha_host_map a')" "same_places em0 em'" "i \<in> es_ids em0" "es_host (es_of em0 i) = n"
    by (rule by_host_take_ok[OF n g p]) (rule same_places_steps(1)[OF p])
  have "by_host_primary a em = Some (i, a', em')" using n t(1) by (simp add: by_host_primary_def)
  then show ?thesis using host_heap_ok_kept[OF h t(2,3)] t(4,5) by blast
qed

lemma by_host_secondary_ok:
  assumes h: "host_heap_ok em0 a" and p: "same_places em0 em" and g: "set g \<subseteq> es_ids em0"
    and j: "j \<in> es_ids em0" "es_host (es_of em0 j) \<notin> (\<lambda>i. es_host (es_of em0 i)) ` set g"
  shows "\<exists>i a' em'. by_host_secondary a em g = Some (i, a', em') \<and> host_heap_ok em0 a' \<and> same_places em0 em' \<and>
    i \<in> es_ids em0 \<and> es_host (es_of em0 i) \<notin> (\<lambda>i. es_host (es_of em0 i)) ` set g"
proof -
  let ?ex = "\<lambda>n. \<exists>i\<in>set g. es_host (es_of em i) = n"
  have "es_host (es_of em i) = es_host (es_of em0 i)" if "i \<in> set g" for i using same_placesD(2)[OF p] g that by blast
  then have ex: "?ex n \<longleftrightarrow> n \<in> (\<lambda>i. es_host (es_of em0 i)) ` set g" for n by auto
  have "es_host (es_of em0 j) \<in> set (ha_hosts a)" "\<not> ?ex (es_host (es_of em0 j))" using h j unfolding ex host_heap_ok_def by auto
  from skip_excluded_found[of "es_host (es_of em0 j)" "ha_hosts a" ?ex "HostCmp (ha_host_map a)", OF this]
  obtain n hosts tmp where s: "skip_excluded (HostCmp (ha_host_map a)) ?ex (ha_hosts a) [] = Some (n, hosts, tmp)" "\<not> ?ex n"
      "heap_top hosts = Some n" "set tmp \<union> set hosts = set (ha_hosts a)" .
  have "n \<in> set (ha_hosts a)" using heap_top_in[OF s(3)] s(4) by blast
  then obtain f where f: "map_of (ha_host_map a) n = Some f" "host_ok em0 n f" using h unfolding host_heap_ok_def by blast
  let ?a = "a \<lparr> ha_hosts := hosts \<rparr>"
  obtain i a' em' where t: "by_host_take incr_secondary es_incr_secondary ?a em n = Some (i, a', em')" "set (ha_hosts a') = set (ha_hosts ?a)"
      "hosts_kept em0 (ha_host_map ?a) (ha_host_map a')" "same_places em0 em'" "i \<in> es_ids em0" "es_host (es_of em0 i) = n"
    by (rule by_host_take_ok[of ?a n f em0 em es_incr_secondary]) (use s(3) f p in \<open>simp_all add: same_places_steps\<close>)
  let ?b = "a' \<lparr> ha_hosts := fold (heap_push (HostCmp (ha_host_map a'))) tmp (ha_hosts a') \<rparr>"
  have "set (ha_hosts ?b) = set (ha_hosts a)" "hosts_kept em0 (ha_host_map a) (ha_host_map ?b)" using t(2,3) s(4) by simp_all
  then have "host_heap_ok em0 ?b" by (rule host_heap_ok_kept[OF h])
  moreover have "by_host_secondary a em g = Some (i, ?b, em')" using s(1) t(1) by (simp add: by_host_secondary_def)
  ultimately show ?thesis using t(4-6) s(2) unfolding ex by blast
qed

section \<open>Selection by rack\<close>

lemma rack_ok_kept:
  assumes "rack_ok em0 hm kn k" "hosts_kept em0 hm hm'" "set (rack_hosts k') = set (rack_hosts k)"
  shows "rack_ok em0 hm' kn k'"
  unfolding rack_ok_def
proof (intro conjI ballI)
  show "rack_hosts k' \<noteq> []" using assms(1,3) by (metis rack_ok_def set_empty)
  fix n assume "n \<in> set (rack_hosts k')"
  then obtain h where h: "map_of hm n = Some h" "host_ok em0 n h" "\<forall>i\<in>set (host_ess h). es_rack (es_of em0 i) = kn"
    using assms(1,3) unfolding rack_ok_def by blast
  from hosts_keptD[OF assms(2) h(1,2)] h(3)
  show "\<exists>h. map_of hm' n = Some h \<and> host_ok em0 n h \<and> (\<forall>i\<in>set (host_ess h). es_rack (es_of em0 i) = kn)" by auto
qed

lemma rack_heap_ok_kept:
  assumes a: "rack_heap_ok em0 a" and r: "set (ra_racks b) = set (ra_racks a)" and h: "hosts_kept em0 (ra_host_map a) (ra_host_map b)"
    and k: "map_of (ra_rack_map a) kn = Some k" "map_of (ra_rack_map b) = (map_of (ra_rack_map a))(kn \<mapsto> k')" "set (rack_hosts k') = set (rack_hosts k)"
  shows "rack_heap_ok em0 b"
  unfolding rack_heap_ok_def
proof (intro conjI ballI)
  show "set (ra_racks b) = (\<lambda>i. es_rack (es_of em0 i)) ` es_ids em0" using a r by (simp add: rack_heap_ok_def)
  fix m assume "m \<in> set (ra_racks b)"
  then obtain j where j: "map_of (ra_rack_map a) m = Some j" "rack_ok em0 (ra_host_map a) m j" using a r unfolding rack_heap_ok_def by blast
  show "\<exists>k. map_of (ra_rack_map b) m = Some k \<and> rack_ok em0 (ra_host_map b) m k"
    using rack_ok_kept[OF j(2) h] j(1) k by (cases "m = kn") auto
qed

lemma by_rack_take_ok:
  assumes n: "heap_top (ra_racks a) = Some kn" and k: "map_of (ra_rack_map a) kn = Some k" "rack_ok em0 (ra_host_map a) kn k"
    and incr: "\<And>i. i \<in> es_ids em0 \<Longrightarrow> same_places em0 (es_incr i em)"
  obtains i a' em' k' where "by_rack_take incr es_incr a em kn = Some (i, a', em')" "set (ra_racks a') = set (ra_racks a)"
    "hosts_kept em0 (ra_host_map a) (ra_host_map a')" "map_of (ra_rack_map a') = (map_of (ra_rack_map a))(kn \<mapsto> k')"
    "set (rack_hosts k') = set (rack_hosts k)" "same_places em0 em'" "i \<in> es_ids em0" "es_rack (es_of em0 i) = kn"
proof -
  obtain n where top: "heap_top (rack_hosts k) = Some n" using heap_top_ex[of "rack_hosts k"] k(2) unfolding rack_ok_def by blast
  then obtain h where h: "map_of (ra_host_map a) n = Some h" "host_ok em0 n h" "\<forall>i\<in>set (host_ess h). es_rack (es_of em0 i) = kn"
    using k(2) heap_top_in[OF top] unfolding rack_ok_def by blast
  obtain i where i: "heap_top (host_ess h) = Some i" using heap_top_ex[of "host_ess h"] h(2) unfolding host_ok_def by blast
  have e: "i \<in> es_ids em0" "es_rack (es_of em0 i) = kn" using h(2,3) heap_top_in[OF i] by (auto simp: host_ok_def)
  let ?em = "es_incr i em"
  let ?hm = "AList.update n (h \<lparr> host_stat := incr (host_stat h) \<rparr>) (ra_host_map a)"
  let ?km = "AList.update kn (k \<lparr> rack_stat := incr (rack_stat k) \<rparr>) (ra_rack_map a)"
  let ?racks = "heap_push (RackCmp ?km) kn (heap_pop (RackCmp ?km) (ra_racks a))"
  let ?h = "\<lparr> host_ess = heap_push (EsCmp ?em) i (heap_pop (EsCmp ?em) (host_ess h)), host_stat = incr (host_stat h) \<rparr>"
  let ?k = "\<lparr> rack_hosts = heap_push (HostCmp ?hm) n (heap_pop (HostCmp ?hm) (rack_hosts k)), rack_stat = incr (rack_stat k) \<rparr>"
  let ?a = "\<lparr> ra_racks = ?racks, ra_rack_map = AList.update kn ?k ?km, ra_host_map = AList.update n ?h ?hm \<rparr>"
  have t: "by_rack_take incr es_incr a em kn = Some (i, ?a, ?em)"
    using k(1) h(1) top i by (simp add: by_rack_take_def rack_of_def host_of_def Let_def)
  have s: "set (ra_racks ?a) = set (ra_racks a)" "set (host_ess ?h) = set (host_ess h)" "set (rack_hosts ?k) = set (rack_hosts k)"
    using set_repush[OF n] set_repush[OF i] set_repush[OF top] by simp_all
  have hk: "hosts_kept em0 (ra_host_map a) (ra_host_map ?a)" using hosts_kept_update[OF h(1,2) s(2)] by simp
  have rk: "map_of (ra_rack_map ?a) = (map_of (ra_rack_map a))(kn \<mapsto> ?k)" by simp
  from that[OF t s(1) hk rk s(3) incr[OF e(1)] e] show thesis .
qed

lemma by_rack_primary_ok:
  assumes h: "rack_heap_ok em0 a" and p: "same_places em0 em" and "em0 \<noteq> []"
  shows "\<exists>i a' em'. by_rack_primary a em = Some (i, a', em') \<and> rack_heap_ok em0 a' \<and> same_places em0 em' \<and> i \<in> es_ids em0"
proof -
  have "ra_racks a \<noteq> []" using assms(1,3) by (auto simp: rack_heap_ok_def es_ids_def)
  then obtain kn where n: "heap_top (ra_racks a) = Some kn" using heap_top_ex by blast
  obtain k where k: "map_of (ra_rack_map a) kn = Some k" "rack_ok em0 (ra_host_map a) kn k"
    using h heap_top_in[OF n] unfolding rack_heap_ok_def by blast
  obtain i a' em' k' where t: "by_rack_take incr_primary es_incr_primary a em kn = Some (i, a', em')" "set (ra_racks a') = set (ra_racks a)"
      "hosts_kept em0 (ra_host_map a) (ra_host_map a')" "map_of (ra_rack_map a') = (map_of (ra_rack_map a))(kn \<mapsto> k')"
      "set (rack_hosts k') = set (rack_hosts k)" "same_places em0 em'" "i \<in> es_ids em0" "es_rack (es_of em0 i) = kn"
    by (rule by_rack_take_ok[of a kn k em0 es_incr_primary em]) (use n k p in \<open>simp_all add: same_places_steps\<close>)
  have "by_rack_primary a em = Some (i, a', em')" using n t(1) by (simp add: by_rack_primary_def)
  then show ?thesis using rack_heap_ok_kept[OF h t(2,3) k(1) t(4,5)] t(6,7) by blast
qed

lemma by_rack_secondary_ok:
  assumes h: "rack_heap_ok em0 a" and p: "same_places em0 em" and g: "set g \<subseteq> es_ids em0"
    and j: "j \<in> es_ids em0" "es_rack (es_of em0 j) \<notin> (\<lambda>i. es_rack (es_of em0 i)) ` set g"
  shows "\<exists>i a' em'. by_rack_secondary a em g = Some (i, a', em') \<and> rack_heap_ok em0 a' \<and> same_places em0 em' \<and>
    i \<in> es_ids em0 \<and> es_rack (es_of em0 i) \<notin> (\<lambda>i. es_rack (es_of em0 i)) ` set g"
proof -
  let ?ex = "\<lambda>n. \<exists>i\<in>set g. es_rack (es_of em i) = n"
  have "es_rack (es_of em i) = es_rack (es_of em0 i)" if "i \<in> set g" for i using same_placesD(3)[OF p] g that by blast
  then have ex: "?ex n \<longleftrightarrow> n \<in> (\<lambda>i. es_rack (es_of em0 i)) ` set g" for n by auto
  have "es_rack (es_of em0 j) \<in> set (ra_racks a)" "\<not> ?ex (es_rack (es_of em0 j))" using h j unfolding ex rack_heap_ok_def by auto
  from skip_excluded_found[of "es_rack (es_of em0 j)" "ra_racks a" ?ex "RackCmp (ra_rack_map a)", OF this]
  obtain kn racks tmp where s: "skip_excluded (RackCmp (ra_rack_map a)) ?ex (ra_racks a) [] = Some (kn, racks, tmp)" "\<not> ?ex kn"
      "heap_top racks = Some kn" "set tmp \<union> set racks = set (ra_racks a)" .
  have "kn \<in> set (ra_racks a)" using heap_top_in[OF s(3)] s(4) by blast
  then obtain k where k: "map_of (ra_rack_map a) kn = Some k" "rack_ok em0 (ra_host_map a) kn k" using h unfolding rack_heap_ok_def by blast
  let ?a = "a \<lparr> ra_racks := racks \<rparr>"
  obtain i a' em' k' where t: "by_rack_take incr_secondary es_incr_secondary ?a em kn = Some (i, a', em')" "set (ra_racks a') = set (ra_racks ?a)"
      "hosts_kept em0 (ra_host_map ?a) (ra_host_map a')" "map_of (ra_rack_map a') = (map_of (ra_rack_map ?a))(kn \<mapsto> k')"
      "set (rack_hosts k') = set (rack_hosts k)" "same_places em0 em'" "i \<in> es_ids em0" "es_rack (es_of em0 i) = kn"
    by (rule by_rack_take_ok[of ?a kn k em0 es_incr_secondary em]) (use s(3) k p in \<open>simp_all add: same_places_steps\<close>)
  let ?b = "a' \<lparr> ra_racks := fold (heap_push (RackCmp (ra_rack_map a'))) tmp (ra_racks a') \<rparr>"
  have "set (ra_racks ?b) = set (ra_racks a)" "hosts_kept em0 (ra_host_map a) (ra_host_map ?b)"
      "map_of (ra_rack_map ?b) = (map_of (ra_rack_map a))(kn \<mapsto> k')" using t(2-4) s(4) by simp_all
  then have "rack_heap_ok em0 ?b" by (rule rack_heap_ok_kept[OF h _ _ k(1) _ t(5)])
  moreover have "by_rack_secondary a em g = Some (i, ?b, em')" using s(1) t(1) by (simp add: by_rack_secondary_def)
  ultimately show ?thesis using t(6-8) s(2) unfolding ex by blast
qed

section \<open>The allocater interface\<close>

locale rg_allocater =
  fixes ok :: "'s \<Rightarrow> bool"
    and servers :: "int set"
    and domain_of :: "int \<Rightarrow> 'd"
    and primary :: "'s \<Rightarrow> (int \<times> 's) option"
    and secondary :: "'s \<Rightarrow> int list \<Rightarrow> (int \<times> 's) option"
  assumes finite_servers: "finite servers"
    and primary_law: "ok s \<Longrightarrow> servers \<noteq> {} \<Longrightarrow> \<exists>i s'. primary s = Some (i, s') \<and> ok s' \<and> i \<in> servers"
    and secondary_law: "ok s \<Longrightarrow> set g \<subseteq> servers \<Longrightarrow> j \<in> servers \<Longrightarrow> domain_of j \<notin> domain_of ` set g \<Longrightarrow>
      \<exists>i s'. secondary s g = Some (i, s') \<and> ok s' \<and> i \<in> servers \<and> domain_of i \<notin> domain_of ` set g"
begin

text \<open>A group of \<open>n\<close> servers in different domains.\<close>

definition group_ok :: "nat \<Rightarrow> int list \<Rightarrow> bool" where
  "group_ok n g \<longleftrightarrow> length g = n \<and> set g \<subseteq> servers \<and> distinct (map domain_of g)"

lemma primary_group: "ok s \<Longrightarrow> servers \<noteq> {} \<Longrightarrow> \<exists>i s'. primary s = Some (i, s') \<and> ok s' \<and> group_ok 1 [i]"
  using primary_law[of s] by (auto simp: group_ok_def)

lemma secondary_group:
  assumes "ok s" "group_ok n g" "n < card (domain_of ` servers)"
  shows "\<exists>i s'. secondary s g = Some (i, s') \<and> ok s' \<and> group_ok (Suc n) (g @ [i])"
proof -
  have g: "set g \<subseteq> servers" "length g = n" "distinct (map domain_of g)" using assms(2) by (auto simp: group_ok_def)
  have "card (domain_of ` set g) \<le> n" using g(2) by (metis card_image_le card_length le_trans finite_set)
  then have "\<not> domain_of ` servers \<subseteq> domain_of ` set g" using assms(3) by (metis card_mono finite_imageI finite_set leD le_trans)
  then obtain j where "j \<in> servers" "domain_of j \<notin> domain_of ` set g" by blast
  from secondary_law[OF assms(1) g(1) this] show ?thesis using g by (auto simp: group_ok_def)
qed

end

interpretation alloc: rg_allocater "allocater_ok fd em0" "es_ids em0" "es_domain fd em0" select_primary select_secondary for fd em0
proof unfold_locales
  show "\<exists>i s'. select_primary s = Some (i, s') \<and> allocater_ok fd em0 s' \<and> i \<in> es_ids em0"
    if "allocater_ok fd em0 s" "es_ids em0 \<noteq> {}" for s
  proof -
    obtain a em where s: "s = (a, em)" by (cases s)
    have ne: "em0 \<noteq> []" using that(2) by (auto simp: es_ids_def)
    show ?thesis
    proof (cases a)
      case (By_rack b)
      then show ?thesis using by_rack_primary_ok[OF _ _ ne, of b em] that(1) s by auto
    next
      case (By_host b)
      then show ?thesis using by_host_primary_ok[OF _ _ ne, of b em] that(1) s by auto
    next
      case (By_es b)
      then show ?thesis using by_es_primary_ok[OF _ _ ne, of b em] that(1) s by auto
    qed
  qed
  show "\<exists>i s'. select_secondary s g = Some (i, s') \<and> allocater_ok fd em0 s' \<and> i \<in> es_ids em0 \<and> es_domain fd em0 i \<notin> es_domain fd em0 ` set g"
    if "allocater_ok fd em0 s" "set g \<subseteq> es_ids em0" "j \<in> es_ids em0" "es_domain fd em0 j \<notin> es_domain fd em0 ` set g" for s g j
  proof -
    obtain a em where s: "s = (a, em)" by (cases s)
    show ?thesis
    proof (cases a)
      case (By_rack b)
      then show ?thesis using by_rack_secondary_ok[of em0 b em g j] that s by (auto simp: es_domain_def image_iff)
    next
      case (By_host b)
      then show ?thesis using by_host_secondary_ok[of em0 b em g j] that s by (auto simp: es_domain_def image_iff)
    next
      case (By_es b)
      then show ?thesis using by_es_secondary_ok[of em0 b em j g] that s by (auto simp: es_domain_def image_iff)
    qed
  qed
qed (simp add: es_ids_def)

section \<open>Initialisation\<close>

lemma host_rack_loop_ok:
  assumes "st_ok (host_rack_loop em ess hr)"
  shows "(\<forall>i\<in>set ess. \<forall>r. map_of hr (es_host (es_of em i)) = Some r \<longrightarrow> r = es_rack (es_of em i)) \<and>
    (\<forall>i\<in>set ess. \<forall>j\<in>set ess. es_host (es_of em j) = es_host (es_of em i) \<longrightarrow> es_rack (es_of em j) = es_rack (es_of em i))"
  using assms
proof (induction em ess hr rule: host_rack_loop.induct)
  case (2 em k ess hr)
  let ?H = "\<lambda>i. es_host (es_of em i)" and ?R = "\<lambda>i. es_rack (es_of em i)"
  have known: "(\<forall>i\<in>set ess. \<forall>r. map_of hr (?H i) = Some r \<longrightarrow> r = ?R i) \<and> (\<forall>i\<in>set ess. ?H i = ?H k \<longrightarrow> ?R i = ?R k) \<and>
      (\<forall>i\<in>set ess. \<forall>j\<in>set ess. ?H j = ?H i \<longrightarrow> ?R j = ?R i) \<and> (\<forall>r. map_of hr (?H k) = Some r \<longrightarrow> r = ?R k)"
  proof (cases "map_of hr (?H k)")
    case None
    have "st_ok (host_rack_loop em ess (AList.update (?H k) (?R k) hr))" using 2(3) None by (simp add: Let_def)
    note IH = 2(1)[OF refl None this]
    have "r = ?R i" if i: "i \<in> set ess" "map_of hr (?H i) = Some r" for i r
    proof (cases "?H i = ?H k")
      case False
      then show ?thesis using conjunct1[OF IH] i by simp
    qed (use None i in simp)
    moreover have "?R i = ?R k" if i: "i \<in> set ess" "?H i = ?H k" for i using conjunct1[OF IH] i by simp
    moreover have "\<forall>r. map_of hr (?H k) = Some r \<longrightarrow> r = ?R k" using None by simp
    ultimately show ?thesis using conjunct2[OF IH] by blast
  next
    case (Some r)
    then have ok: "r = ?R k" "st_ok (host_rack_loop em ess hr)" using 2(3) by (auto simp: Let_def st_ok_def split: if_splits)
    then have "\<not> r \<noteq> ?R k" by simp
    note IH = 2(2)[OF refl Some this ok(2)]
    have "?R i = ?R k" if i: "i \<in> set ess" "?H i = ?H k" for i using conjunct1[OF IH] i Some ok(1) by simp
    moreover have "\<forall>r. map_of hr (?H k) = Some r \<longrightarrow> r = ?R k" using Some ok(1) by simp
    ultimately show ?thesis using IH by blast
  qed
  then have "\<forall>i\<in>insert k (set ess). \<forall>r. map_of hr (?H i) = Some r \<longrightarrow> r = ?R i"
      "\<forall>i\<in>insert k (set ess). \<forall>j\<in>insert k (set ess). ?H j = ?H i \<longrightarrow> ?R j = ?R i" by (blast, metis insert_iff)
  then show ?case by (simp only: list.set)
qed simp

definition racks_consistent :: "es_map \<Rightarrow> bool" where
  "racks_consistent em0 \<longleftrightarrow> (\<forall>i\<in>es_ids em0. \<forall>j\<in>es_ids em0. es_host (es_of em0 j) = es_host (es_of em0 i) \<longrightarrow>
     es_rack (es_of em0 j) = es_rack (es_of em0 i))"

lemma host_rack_valid_ok: "st_ok (host_rack_valid em ess) \<Longrightarrow> set ess = es_ids em \<Longrightarrow> racks_consistent em"
  using host_rack_loop_ok[of em ess "[]"] unfolding host_rack_valid_def racks_consistent_def by blast

lemma same_places_refl: "same_places em em"
  by (simp add: same_places_def)

lemma by_es_fold:
  assumes "set ess \<subseteq> es_ids em0" "same_places em0 em"
    and "fold (\<lambda>i (heap, em). let em = set_weight x r i em in (heap_push (EsCmp em) i heap, em)) ess (heap, em) = (heap', em')"
  shows "set heap' = set heap \<union> set ess \<and> same_places em0 em'"
  using assms
proof (induction ess arbitrary: heap em)
  case (Cons i ess)
  let ?em = "set_weight x r i em"
  have "same_places em0 ?em" using Cons.prems(1,2) by (intro same_places_steps) auto
  moreover have "fold (\<lambda>i (heap, em). let em = set_weight x r i em in (heap_push (EsCmp em) i heap, em)) ess (heap_push (EsCmp ?em) i heap, ?em) = (heap', em')"
    using Cons.prems(3) by (simp add: Let_def)
  ultimately show ?case using Cons.IH[of ?em "heap_push (EsCmp ?em) i heap"] Cons.prems(1) by auto
qed simp

text \<open>Servers join hosts.\<close>

definition hosts_ok :: "es_map \<Rightarrow> host_map \<Rightarrow> bool" where
  "hosts_ok em0 hm \<longleftrightarrow> (\<forall>n h. map_of hm n = Some h \<longrightarrow> host_ok em0 n h)"

lemma host_add_es_map:
  assumes "same_places em0 em" "i \<in> es_ids em0" "hosts_ok em0 hm"
  shows "\<exists>h. map_of (host_add_es w em i hm) = (map_of hm)(es_host (es_of em0 i) \<mapsto> h) \<and> host_ok em0 (es_host (es_of em0 i)) h \<and>
    set (host_ess h) = insert i (case map_of hm (es_host (es_of em0 i)) of None \<Rightarrow> {} | Some h \<Rightarrow> set (host_ess h))"
proof -
  let ?n = "es_host (es_of em0 i)"
  let ?h = "case map_of hm ?n of None \<Rightarrow> \<lparr> host_ess = [], host_stat = Stat \<rparr> | Some h \<Rightarrow> h"
  let ?h' = "\<lparr> host_ess = heap_push (EsCmp em) i (host_ess ?h),
    host_stat = (host_stat ?h) \<lparr> stat_weight := u64_add (stat_weight (host_stat ?h)) w \<rparr> \<rparr>"
  have m: "map_of (host_add_es w em i hm) = (map_of hm)(?n \<mapsto> ?h')"
    using same_placesD(2)[OF assms(1,2)] by (simp add: host_add_es_def Let_def)
  have s: "set (host_ess ?h') = insert i (case map_of hm ?n of None \<Rightarrow> {} | Some h \<Rightarrow> set (host_ess h))"
    by (simp split: option.split)
  have "host_ess ?h' \<noteq> []" using s by (metis empty_set insert_not_empty)
  moreover have "\<forall>j\<in>set (host_ess ?h'). j \<in> es_ids em0 \<and> es_host (es_of em0 j) = ?n"
    unfolding s using assms(2,3) by (auto simp: hosts_ok_def host_ok_def split: option.splits)
  ultimately have "host_ok em0 ?n ?h'" unfolding host_ok_def by (rule conjI)
  from m this s show ?thesis by (intro exI[of _ ?h'] conjI)
qed

definition host_init_ok :: "es_map \<Rightarrow> int set \<Rightarrow> host_allocater \<Rightarrow> bool" where
  "host_init_ok em0 done a \<longleftrightarrow> hosts_ok em0 (ha_host_map a) \<and> dom (map_of (ha_host_map a)) = set (ha_hosts a) \<and>
     set (ha_hosts a) = (\<lambda>i. es_host (es_of em0 i)) ` done"

lemma by_host_fold:
  assumes "set ess \<subseteq> es_ids em0" "same_places em0 em" "host_init_ok em0 done a"
    and "fold (by_host_step x r) ess (a, em) = (a', em')"
  shows "host_init_ok em0 (done \<union> set ess) a' \<and> same_places em0 em'"
  using assms
proof (induction ess arbitrary: "done" a em)
  case (Cons i ess)
  have i: "i \<in> es_ids em0" using Cons.prems(1) by simp
  let ?em = "set_weight x r i em" and ?n = "es_host (es_of em0 i)"
  have p: "same_places em0 ?em" using Cons.prems(2) i by (intro same_places_steps)
  have n: "es_host (es_of ?em i) = ?n" by (rule same_placesD(2)[OF p i])
  let ?hm = "host_add_es (es_weight (es_of ?em i)) ?em i (ha_host_map a)"
  let ?hosts = "if map_of (ha_host_map a) ?n \<noteq> None then ha_hosts a else heap_push (HostCmp ?hm) ?n (ha_hosts a)"
  let ?a = "\<lparr> ha_hosts = ?hosts, ha_host_map = ?hm \<rparr>"
  have st: "by_host_step x r i (a, em) = (?a, ?em)" by (simp add: by_host_step_def Let_def n)
  have ok: "hosts_ok em0 (ha_host_map a)" "dom (map_of (ha_host_map a)) = set (ha_hosts a)" "set (ha_hosts a) = (\<lambda>i. es_host (es_of em0 i)) ` done"
    using Cons.prems(3) by (auto simp: host_init_ok_def)
  obtain h where h: "map_of ?hm = (map_of (ha_host_map a))(?n \<mapsto> h)" "host_ok em0 ?n h" using host_add_es_map[OF p i ok(1)] by blast
  have "hosts_ok em0 ?hm" using ok(1) h by (simp add: hosts_ok_def)
  moreover have "set ?hosts = insert ?n (set (ha_hosts a))" using ok(2) by auto
  ultimately have "host_init_ok em0 (insert i done) ?a" using ok(2,3) h(1) by (simp add: host_init_ok_def)
  from Cons.IH[OF _ p this] Cons.prems(1,4) st show ?case by simp
qed simp

text \<open>Hosts join racks.\<close>

definition rack_init_ok :: "es_map \<Rightarrow> int set \<Rightarrow> rack_allocater \<Rightarrow> bool" where
  "rack_init_ok em0 done a \<longleftrightarrow> hosts_ok em0 (ra_host_map a) \<and> dom (map_of (ra_rack_map a)) = set (ra_racks a) \<and>
     set (ra_racks a) = (\<lambda>i. es_rack (es_of em0 i)) ` done \<and>
     (\<forall>kn k. map_of (ra_rack_map a) kn = Some k \<longrightarrow> rack_ok em0 (ra_host_map a) kn k)"

lemma host_joins_rack:
  assumes c: "racks_consistent em0" and i: "i \<in> es_ids em0" and ok: "hosts_ok em0 hm" "host_ok em0 n h" and n: "n = es_host (es_of em0 i)"
    and h: "map_of hm' = (map_of hm)(n \<mapsto> h)" "set (host_ess h) = insert i (case map_of hm n of None \<Rightarrow> {} | Some h \<Rightarrow> set (host_ess h))"
  shows "\<forall>j\<in>set (host_ess h). es_rack (es_of em0 j) = es_rack (es_of em0 i)"
    and "rack_ok em0 hm kn k \<Longrightarrow> rack_ok em0 hm' kn k"
proof -
  have same: "es_rack (es_of em0 j) = es_rack (es_of em0 i)" if "map_of hm n = Some g" "j \<in> set (host_ess g)" for j g
    using that ok(1) c i n unfolding hosts_ok_def host_ok_def racks_consistent_def by blast
  then show new: "\<forall>j\<in>set (host_ess h). es_rack (es_of em0 j) = es_rack (es_of em0 i)"
    unfolding h(2) by (auto split: option.splits simp del: map_of_eq_Some_iff)
  assume r: "rack_ok em0 hm kn k"
  have "\<exists>h. map_of hm' m = Some h \<and> host_ok em0 m h \<and> (\<forall>i\<in>set (host_ess h). es_rack (es_of em0 i) = kn)"
    if m: "m \<in> set (rack_hosts k)" for m
  proof -
    obtain g where g: "map_of hm m = Some g" "host_ok em0 m g" "\<forall>i\<in>set (host_ess g). es_rack (es_of em0 i) = kn"
      using r m unfolding rack_ok_def by blast
    show ?thesis
    proof (cases "m = n")
      case False
      then show ?thesis using g h(1) by auto
    next
      case True
      obtain j where "j \<in> set (host_ess g)" using g(2) by (cases "host_ess g") (auto simp: host_ok_def)
      then have "es_rack (es_of em0 i) = kn" using same[of g j] g(1,3) True by auto
      then show ?thesis using new h(1) ok(2) True by auto
    qed
  qed
  then show "rack_ok em0 hm' kn k" using r unfolding rack_ok_def by blast
qed

lemma by_rack_fold:
  assumes "racks_consistent em0" "set ess \<subseteq> es_ids em0" "same_places em0 em" "rack_init_ok em0 done a"
    and "fold (by_rack_step x r) ess (a, em) = (a', em')"
  shows "rack_init_ok em0 (done \<union> set ess) a' \<and> same_places em0 em'"
  using assms
proof (induction ess arbitrary: "done" a em)
  case (Cons i ess)
  have i: "i \<in> es_ids em0" using Cons.prems(2) by simp
  let ?em = "set_weight x r i em" and ?n = "es_host (es_of em0 i)" and ?kn = "es_rack (es_of em0 i)"
  have p: "same_places em0 ?em" using Cons.prems(3) i by (intro same_places_steps)
  have n: "es_host (es_of ?em i) = ?n" "es_rack (es_of ?em i) = ?kn" by (rule same_placesD[OF p i])+
  let ?hm = "host_add_es (es_weight (es_of ?em i)) ?em i (ra_host_map a)"
  let ?k = "case map_of (ra_rack_map a) ?kn of None \<Rightarrow> \<lparr> rack_hosts = [], rack_stat = Stat \<rparr> | Some k \<Rightarrow> k"
  let ?k' = "\<lparr> rack_hosts = heap_push (HostCmp ?hm) ?n (rack_hosts ?k),
    rack_stat = (rack_stat ?k) \<lparr> stat_weight := u64_add (stat_weight (rack_stat ?k)) (es_weight (es_of ?em i)) \<rparr> \<rparr>"
  let ?km = "AList.update ?kn ?k' (ra_rack_map a)"
  let ?racks = "if map_of (ra_rack_map a) ?kn \<noteq> None then ra_racks a else heap_push (RackCmp ?km) ?kn (ra_racks a)"
  let ?a = "\<lparr> ra_racks = ?racks, ra_rack_map = ?km, ra_host_map = ?hm \<rparr>"
  have st: "by_rack_step x r i (a, em) = (?a, ?em)" by (simp add: by_rack_step_def Let_def n)
  have ok: "hosts_ok em0 (ra_host_map a)" "dom (map_of (ra_rack_map a)) = set (ra_racks a)"
      "set (ra_racks a) = (\<lambda>i. es_rack (es_of em0 i)) ` done" "\<forall>kn k. map_of (ra_rack_map a) kn = Some k \<longrightarrow> rack_ok em0 (ra_host_map a) kn k"
    using Cons.prems(4) by (auto simp: rack_init_ok_def)
  obtain h where h: "map_of ?hm = (map_of (ra_host_map a))(?n \<mapsto> h)" "host_ok em0 ?n h"
      "set (host_ess h) = insert i (case map_of (ra_host_map a) ?n of None \<Rightarrow> {} | Some h \<Rightarrow> set (host_ess h))"
    using host_add_es_map[OF p i ok(1)] by blast
  note J = host_joins_rack[OF Cons.prems(1) i ok(1) h(2) refl h(1,3)]
  have hs: "hosts_ok em0 ?hm" using ok(1) h(1,2) by (simp add: hosts_ok_def)
  have rs: "set ?racks = insert ?kn (set (ra_racks a))" using ok(2) by auto
  have "rack_ok em0 ?hm ?kn ?k'"
    unfolding rack_ok_def
  proof (intro conjI ballI)
    show "rack_hosts ?k' \<noteq> []" by (metis empty_set insert_not_empty rack.select_convs(1) set_heap_push)
    fix m assume "m \<in> set (rack_hosts ?k')"
    then consider "m = ?n" | k where "map_of (ra_rack_map a) ?kn = Some k" "m \<in> set (rack_hosts k)" by (auto split: option.splits)
    then show "\<exists>h. map_of ?hm m = Some h \<and> host_ok em0 m h \<and> (\<forall>i\<in>set (host_ess h). es_rack (es_of em0 i) = ?kn)"
    proof cases
      case 1
      then show ?thesis using h(1,2) J(1) by auto
    next
      case (2 k)
      from J(2)[of ?kn k] ok(4) 2 show ?thesis unfolding rack_ok_def by blast
    qed
  qed
  then have "\<forall>kn k. map_of ?km kn = Some k \<longrightarrow> rack_ok em0 ?hm kn k" using ok(4) J(2) by (simp del: map_of_eq_Some_iff)
  then have "rack_init_ok em0 (insert i done) ?a" unfolding rack_init_ok_def using hs rs ok(2,3) by simp
  from Cons.IH[OF Cons.prems(1) _ p this] Cons.prems(2,5) st show ?case by simp
qed simp

lemma allocater_init_ok:
  assumes init: "allocater_init fd x em ess = Some (s, a, em')" and s: "st_ok s" and ess: "set ess = es_ids em"
  shows "allocater_ok fd em (a, em')"
proof (cases fd)
  case kFailureDomainRack
  then obtain b where a: "a = By_rack b" "by_rack_init x em ess = Some (s, b, em')" using init by (auto simp: allocater_init_def)
  then obtain r where f: "fold (by_rack_step x r) ess (\<lparr> ra_racks = [], ra_rack_map = [], ra_host_map = [] \<rparr>, em) = (b, em')"
      "st_ok (host_rack_valid em ess)"
    using s by (auto simp: by_rack_init_def Let_def split: if_splits option.splits)
  have "rack_init_ok em {} \<lparr> ra_racks = [], ra_rack_map = [], ra_host_map = [] \<rparr>" by (simp add: rack_init_ok_def hosts_ok_def)
  from by_rack_fold[OF host_rack_valid_ok[OF f(2) ess] _ same_places_refl this f(1)] ess
  have "rack_init_ok em (es_ids em) b" "same_places em em'" by auto
  then have "rack_heap_ok em b" unfolding rack_init_ok_def rack_heap_ok_def by blast
  then show ?thesis using a kFailureDomainRack \<open>same_places em em'\<close> by simp
next
  case kFailureDomainHost
  then obtain b where a: "a = By_host b" "by_host_init x em ess = Some (s, b, em')" using init by (auto simp: allocater_init_def)
  then obtain r where f: "fold (by_host_step x r) ess (\<lparr> ha_hosts = [], ha_host_map = [] \<rparr>, em) = (b, em')"
    using s by (auto simp: by_host_init_def Let_def split: if_splits option.splits)
  have "host_init_ok em {} \<lparr> ha_hosts = [], ha_host_map = [] \<rparr>" by (simp add: host_init_ok_def hosts_ok_def)
  from by_host_fold[OF _ same_places_refl this f] ess have "host_init_ok em (es_ids em) b" "same_places em em'" by auto
  then have "host_heap_ok em b" unfolding host_init_ok_def host_heap_ok_def hosts_ok_def by blast
  then show ?thesis using a kFailureDomainHost \<open>same_places em em'\<close> by simp
next
  case kFailureDomainNode
  then obtain b where a: "a = By_es b" "by_es_init x em ess = Some (s, b, em')" using init by (auto simp: allocater_init_def)
  then obtain r where f: "fold (\<lambda>i (heap, em). let em = set_weight x r i em in (heap_push (EsCmp em) i heap, em)) ess ([], em) = (b, em')"
    using s by (auto simp: by_es_init_def Let_def split: if_splits option.splits prod.splits)
  from by_es_fold[OF _ same_places_refl f] ess have "set b = es_ids em" "same_places em em'" by auto
  then show ?thesis using a kFailureDomainNode by (simp add: es_heap_ok_def)
next
  case kFailureDomainUnknown
  then show ?thesis using init s by (auto simp: allocater_init_def st_ok_def)
qed

section \<open>No domain left\<close>

lemma skip_excluded_all: "\<forall>x\<in>set heap. ex x \<Longrightarrow> skip_excluded cmp ex heap tmp = None"
proof (induction cmp ex heap tmp rule: skip_excluded.induct)
  case (1 cmp ex heap tmp)
  show ?case
  proof (cases heap)
    case (Cons x xs)
    have "set (heap_pop cmp heap) \<subseteq> set heap" using std_heap.pop_subset[of heap x cmp] Cons by (simp add: heap_top_def)
    then show ?thesis using 1 Cons by (subst skip_excluded.simps) auto
  qed (subst skip_excluded.simps, simp)
qed

locale exhausted_allocater = rg_allocater ok servers domain_of primary secondary
  for ok :: "'s \<Rightarrow> bool" and servers :: "int set" and domain_of :: "int \<Rightarrow> 'd" and primary and secondary +
  assumes exhausted: "ok s \<Longrightarrow> set g \<subseteq> servers \<Longrightarrow> domain_of ` servers \<subseteq> domain_of ` set g \<Longrightarrow> secondary s g = None"
begin

lemma full_group_stuck:
  assumes "ok s" "group_ok n g" "card (domain_of ` servers) \<le> n"
  shows "secondary s g = None"
proof -
  have g: "set g \<subseteq> servers" "length g = n" "distinct (map domain_of g)" using assms(2) by (auto simp: group_ok_def)
  then have "card (domain_of ` set g) = n" by (metis distinct_card length_map set_map)
  then have "domain_of ` set g = domain_of ` servers"
    using g(1) assms(3) finite_servers by (intro card_subset_eq) (auto intro: le_antisym card_mono)
  then show ?thesis using exhausted[OF assms(1) g(1)] by simp
qed

end

interpretation alloc_exhausted: exhausted_allocater "allocater_ok fd em0" "es_ids em0" "es_domain fd em0" select_primary select_secondary for fd em0
proof unfold_locales
  show "select_secondary s g = None"
    if "allocater_ok fd em0 s" "set g \<subseteq> es_ids em0" "es_domain fd em0 ` es_ids em0 \<subseteq> es_domain fd em0 ` set g" for s g
  proof -
    note P = that
    obtain a em where s: "s = (a, em)" by (cases s)
    show ?thesis
    proof (cases a)
      case (By_rack b)
      then have fd: "fd = kFailureDomainRack" "rack_heap_ok em0 b" "same_places em0 em" using P(1) s by auto
      have "\<forall>k\<in>set (ra_racks b). \<exists>i\<in>set g. es_rack (es_of em i) = k"
      proof
        fix k assume "k \<in> set (ra_racks b)"
        then obtain j where j: "j \<in> es_ids em0" "k = es_rack (es_of em0 j)" using fd(2) by (auto simp: rack_heap_ok_def)
        then obtain i where i: "i \<in> set g" "es_domain fd em0 j = es_domain fd em0 i" using P(3) by blast
        then have "es_rack (es_of em i) = k" using same_placesD(3)[OF fd(3), of i] P(2) j(2) fd(1) by (auto simp: es_domain_def)
        then show "\<exists>i\<in>set g. es_rack (es_of em i) = k" using i(1) by blast
      qed
      then show ?thesis using By_rack s by (simp add: by_rack_secondary_def skip_excluded_all)
    next
      case (By_host b)
      then have fd: "fd = kFailureDomainHost" "host_heap_ok em0 b" "same_places em0 em" using P(1) s by auto
      have "\<forall>k\<in>set (ha_hosts b). \<exists>i\<in>set g. es_host (es_of em i) = k"
      proof
        fix k assume "k \<in> set (ha_hosts b)"
        then obtain j where j: "j \<in> es_ids em0" "k = es_host (es_of em0 j)" using fd(2) by (auto simp: host_heap_ok_def)
        then obtain i where i: "i \<in> set g" "es_domain fd em0 j = es_domain fd em0 i" using P(3) by blast
        then have "es_host (es_of em i) = k" using same_placesD(2)[OF fd(3), of i] P(2) j(2) fd(1) by (auto simp: es_domain_def)
        then show "\<exists>i\<in>set g. es_host (es_of em i) = k" using i(1) by blast
      qed
      then show ?thesis using By_host s by (simp add: by_host_secondary_def skip_excluded_all)
    next
      case (By_es b)
      then have fd: "fd = kFailureDomainNode" "es_heap_ok em0 b" using P(1) s by auto
      have "\<forall>i\<in>set b. i \<in> set g" using fd P(3) by (auto simp: es_heap_ok_def es_domain_def)
      then show ?thesis using By_es s by (simp add: by_es_secondary_def skip_excluded_all)
    qed
  qed
qed

end
