(* ===== verification/Replication_Group.thy ===== *)
theory Replication_Group
  imports Rg_Allocater
begin

text \<open>
  Replication groups and their manager
  (\<open>src/src/extentmanager/replication_group.{h,cpp}\<close>): the groups of extent servers of a
  pool, made once when the pool is initialised, and the allocation of extents to groups,
  the least loaded group of the least loaded primary first.

  A group is shared between the table of the manager and the queue of its primary; the
  queues hold ids. \<open>shuffle\<close> is the order in which \<open>std::unordered_map\<close> iterates over its
  entries, which is unspecified. \<open>None\<close>: \<open>top()\<close> of an empty queue, a division by zero, or
  an access through \<open>end()\<close>.
\<close>

section \<open>Groups\<close>

record replication_group =
  rg_id :: string
  rg_status :: rg_status
  rg_nr_extents :: nat
  rg_pool_id :: string
  rg_create_time :: string
  rg_update_time :: string
  rg_extent_servers :: "int list"

type_synonym rg_map = "(string \<times> replication_group) list"

definition ReplicationGroup :: "string \<Rightarrow> string \<Rightarrow> string \<Rightarrow> replication_group" where
  "ReplicationGroup now gid pool_id =
     \<lparr> rg_id = gid, rg_status = kRGStatusOk, rg_nr_extents = 0, rg_pool_id = pool_id,
       rg_create_time = now, rg_update_time = now, rg_extent_servers = [] \<rparr>"

definition ToPbReplicationGroup :: "nat \<Rightarrow> replication_group \<Rightarrow> pb_replica_group" where
  "ToPbReplicationGroup extent_size g =
     \<lparr> pbr_id = rg_id g, pbr_status = ToPbRgStatus (rg_status g), pbr_extent_size = extent_size mod 2 ^ 32,
       pbr_nr_extents = rg_nr_extents g, pbr_pool_id = rg_pool_id g, pbr_create_date = rg_create_time g,
       pbr_update_date = rg_update_time g, pbr_extent_servers = rg_extent_servers g \<rparr>"

definition rg_prefix :: "string \<Rightarrow> string" where
  "rg_prefix pool_id = kRGKvPrefix @ ''_'' @ pool_id"

definition rg_key :: "string \<Rightarrow> string \<Rightarrow> string" where
  "rg_key pool_id gid = rg_prefix pool_id @ ''_'' @ gid"

definition rg_kv_key :: "replication_group \<Rightarrow> string" where
  "rg_kv_key g = rg_key (rg_pool_id g) (rg_id g)"

definition put_rg :: "replication_group \<Rightarrow> string" where
  "put_rg g = put_u32 0 @ put_str (rg_id g) @ put_enum rg_status_codes (rg_status g) @ put_u64 (rg_nr_extents g) @
     put_str (rg_pool_id g) @ put_str (rg_create_time g) @ put_str (rg_update_time g) @ put_list put_i32 (rg_extent_servers g)"

definition get_rg :: "string \<Rightarrow> (replication_group \<times> string) option" where
  "get_rg =
     get_then get_u32 (\<lambda>version. get_then get_str (\<lambda>gid. get_then (get_enum rg_status_codes) (\<lambda>status. get_then get_u64 (\<lambda>nr_extents.
     get_then get_str (\<lambda>pool_id. get_then get_str (\<lambda>create_time. get_then get_str (\<lambda>update_time. get_then (get_list get_i32) (\<lambda>ess r.
       Some (\<lparr> rg_id = gid, rg_status = status, rg_nr_extents = nr_extents, rg_pool_id = pool_id,
               rg_create_time = create_time, rg_update_time = update_time, rg_extent_servers = ess \<rparr>, r)))))))))"

text \<open>The groups of one primary, and the manager.\<close>

record es_rg =
  esrg_weight :: nat
  esrg_nr_extents :: nat
  esrg_heap :: "string list"

record rg_mgr =
  rgm_map :: rg_map
  rgm_es_rgs :: "(int \<times> es_rg) list"
  rgm_heap :: "int list"

definition rg_of :: "rg_map \<Rightarrow> string \<Rightarrow> replication_group" where
  "rg_of m i = the (map_of m i)"

definition RGCmp :: "rg_map \<Rightarrow> string \<Rightarrow> string \<Rightarrow> bool" where
  "RGCmp m l r \<longleftrightarrow> rg_nr_extents (rg_of m l) > rg_nr_extents (rg_of m r)"

definition es_rg_load :: "es_rg \<Rightarrow> nat" where
  "es_rg_load e = u64_mul 10000 (esrg_nr_extents e) div esrg_weight e"

definition EsRgCmp :: "(int \<times> es_rg) list \<Rightarrow> int \<Rightarrow> int \<Rightarrow> bool" where
  "EsRgCmp m l r \<longleftrightarrow> es_rg_load (the (map_of m l)) > es_rg_load (the (map_of m r))"

definition RgManager :: rg_mgr where
  "RgManager = \<lparr> rgm_map = [], rgm_es_rgs = [], rgm_heap = [] \<rparr>"

section \<open>\<open>RgManager::init\<close>\<close>

text \<open>A round of the loops that choose servers: each group gets one more.\<close>

fun extend_groups :: "('s \<Rightarrow> int list \<Rightarrow> (int \<times> 's) option) \<Rightarrow> 's \<Rightarrow> rg_map \<Rightarrow> (rg_map \<times> 's) option" where
  "extend_groups select s [] = Some ([], s)"
| "extend_groups select s ((i, g) # m) =
     (case select s (rg_extent_servers g) of
        None \<Rightarrow> None
      | Some (e, s) \<Rightarrow>
          map_option (\<lambda>(m, s). ((i, g \<lparr> rg_extent_servers := rg_extent_servers g @ [e] \<rparr>) # m, s)) (extend_groups select s m))"

fun extend_rounds :: "('s \<Rightarrow> int list \<Rightarrow> (int \<times> 's) option) \<Rightarrow> nat \<Rightarrow> 's \<Rightarrow> rg_map \<Rightarrow> (rg_map \<times> 's) option" where
  "extend_rounds select 0 s m = Some (m, s)"
| "extend_rounds select (Suc n) s m =
     (case extend_groups select s m of None \<Rightarrow> None | Some (m, s) \<Rightarrow> extend_rounds select n s m)"

text \<open>One turn of \<open>build_heap\<close>.\<close>

definition build_step :: "rg_map \<Rightarrow> string \<times> replication_group \<Rightarrow> (int \<times> es_rg) list \<times> int list \<Rightarrow> ((int \<times> es_rg) list \<times> int list) option" where
  "build_step m = (\<lambda>(i, g) (es_rgs, heap).
     case rg_extent_servers g of
       [] \<Rightarrow> None
     | primary # _ \<Rightarrow>
         let e = (case map_of es_rgs primary of None \<Rightarrow> \<lparr> esrg_weight = 0, esrg_nr_extents = 0, esrg_heap = [] \<rparr> | Some e \<Rightarrow> e);
             e = \<lparr> esrg_weight = esrg_weight e + 1, esrg_nr_extents = u64_add (esrg_nr_extents e) (rg_nr_extents g),
                   esrg_heap = heap_push (RGCmp m) i (esrg_heap e) \<rparr>;
             es_rgs' = smap_insert primary e es_rgs
         in Some (es_rgs', if map_of es_rgs primary \<noteq> None then heap else heap_push (EsRgCmp es_rgs') primary heap))"

fun build_loop :: "rg_map \<Rightarrow> rg_map \<Rightarrow> (int \<times> es_rg) list \<times> int list \<Rightarrow> ((int \<times> es_rg) list \<times> int list) option" where
  "build_loop m [] c = Some c"
| "build_loop m (r # rs) c = (case build_step m r c of None \<Rightarrow> None | Some c \<Rightarrow> build_loop m rs c)"

definition build_heap :: "rg_mgr \<Rightarrow> rg_mgr option" where
  "build_heap mgr = map_option (\<lambda>(es_rgs, heap). mgr \<lparr> rgm_es_rgs := es_rgs, rgm_heap := heap \<rparr>)
     (build_loop (rgm_map mgr) (rgm_map mgr) ([], rgm_heap mgr))"

definition new_groups :: "string \<Rightarrow> string \<Rightarrow> nat \<Rightarrow> rg_map \<Rightarrow> rg_map" where
  "new_groups now pool_id rg_total m =
     fold (\<lambda>i. let gid = pool_id @ ''.'' @ dec_digits i in AList.update gid (ReplicationGroup now gid pool_id)) [0..<rg_total] m"

definition rg_kvs :: "(string \<Rightarrow> 32 word) \<Rightarrow> rg_map \<Rightarrow> (string \<times> string) list" where
  "rg_kvs crc m = map (\<lambda>(_, g). (rg_kv_key g, Serializer_Encode crc put_rg g)) m"

definition rg_init :: "(string \<Rightarrow> 32 word) \<Rightarrow> string \<Rightarrow> nat \<Rightarrow> nat \<Rightarrow> (rg_map \<Rightarrow> rg_map) \<Rightarrow> rocks_store \<Rightarrow> rg_mgr \<Rightarrow> es_map
    \<Rightarrow> string \<Rightarrow> int \<Rightarrow> failure_domain \<Rightarrow> int list \<Rightarrow> (status \<times> rocks_store \<times> rg_mgr \<times> es_map) option" where
  "rg_init crc now extent_size rg_per_es shuffle st mgr em pool_id replica_count fd ess =
     (case allocater_init fd extent_size em ess of
        None \<Rightarrow> None
      | Some (s, a, em) \<Rightarrow>
          if \<not> st_ok s then Some (s, st, mgr, em)
          else let m = shuffle (new_groups now pool_id (rg_per_es * length ess) (rgm_map mgr)) in
            case extend_groups (\<lambda>s _. select_primary s) (a, em) m of
              None \<Rightarrow> None
            | Some (m, s) \<Rightarrow>
                (case extend_rounds select_secondary (nat (replica_count - 1)) s m of
                   None \<Rightarrow> None
                 | Some (m, a, em) \<Rightarrow>
                     let mgr = mgr \<lparr> rgm_map := m \<rparr>;
                         (s, st) = put_batches 50 (Status CYPRE_EM_STORE_ERROR ''persist replication meta failed'') st [] (rg_kvs crc m)
                     in if \<not> st_ok s then Some (s, st, mgr, em)
                        else map_option (\<lambda>mgr. (Status_OK, st, mgr, em)) (build_heap mgr)))"

section \<open>Queries\<close>

definition query_rg :: "nat \<Rightarrow> rg_mgr \<Rightarrow> string \<Rightarrow> status \<times> pb_replica_group option" where
  "query_rg extent_size mgr gid =
     (case map_of (rgm_map mgr) gid of
        None \<Rightarrow> (Status CYPRE_EM_RG_NOT_FOUND ''not found rg'', None)
      | Some g \<Rightarrow> (Status_OK, Some (ToPbReplicationGroup extent_size g)))"

definition query_es_group :: "rg_mgr \<Rightarrow> string \<Rightarrow> int list option" where
  "query_es_group mgr gid = map_option rg_extent_servers (map_of (rgm_map mgr) gid)"

definition total_nr_extents :: "rg_mgr \<Rightarrow> nat" where
  "total_nr_extents mgr = foldl (\<lambda>a (_, g). u64_add a (rg_nr_extents g)) 0 (rgm_map mgr)"

definition list_rg :: "nat \<Rightarrow> rg_mgr \<Rightarrow> pb_replica_group list" where
  "list_rg extent_size mgr = map (\<lambda>(_, g). ToPbReplicationGroup extent_size g) (rgm_map mgr)"

section \<open>Allocation of extents\<close>

text \<open>\<open>nearfull\<close>: the largest quotient of used and capacity, an integer, against 0.85.\<close>

fun fill_ratio :: "es_map \<Rightarrow> int list \<Rightarrow> nat \<Rightarrow> nat option" where
  "fill_ratio em [] ratio = Some ratio"
| "fill_ratio em (v # vec) ratio =
     (case map_of em v of
        None \<Rightarrow> None
      | Some e \<Rightarrow> if es_capacity e = 0 then None
          else let tmp = es_used e div es_capacity e in fill_ratio em vec (if tmp > ratio then tmp else ratio))"

definition nearfull :: "rg_map \<Rightarrow> es_map \<Rightarrow> string \<Rightarrow> bool option" where
  "nearfull m em gid =
     (case map_of m gid of
        None \<Rightarrow> None
      | Some g \<Rightarrow> map_option (\<lambda>ratio. 85 < 100 * ratio) (fill_ratio em (rg_extent_servers g) 0))"

text \<open>The inner loop of \<open>allocate_rg\<close>: take groups off the queue while they are nearly full. It
  ends with a group, because the queue is asked for its top after each removal.\<close>

function skip_nearfull :: "(string \<Rightarrow> string \<Rightarrow> bool) \<Rightarrow> (string \<Rightarrow> bool option) \<Rightarrow> string list \<Rightarrow> string list
    \<Rightarrow> (string \<times> string list \<times> string list) option" where
  "skip_nearfull cmp full heap tmp =
     (case heap of
        [] \<Rightarrow> None
      | g # _ \<Rightarrow> (case full g of
            None \<Rightarrow> None
          | Some True \<Rightarrow> skip_nearfull cmp full (heap_pop cmp heap) (tmp @ [g])
          | Some False \<Rightarrow> Some (g, heap, tmp)))"
  by pat_completeness auto
termination
proof (relation "measure (\<lambda>(_, _, heap, _). length heap)", goal_cases)
  case (2 cmp full heap tmp g gs)
  then have "add_mset (hd heap) (mset (heap_pop cmp heap)) = mset heap" by (intro heap_pop_mset) simp
  then have "Suc (length (heap_pop cmp heap)) = length heap" by (metis size_add_mset size_mset)
  then show ?case by simp
qed simp

declare skip_nearfull.simps [simp del]

definition allocate_rg :: "rg_mgr \<Rightarrow> es_map \<Rightarrow> (string \<times> rg_mgr) option" where
  "allocate_rg mgr em =
     (case heap_top (rgm_heap mgr) of
        None \<Rightarrow> None
      | Some p \<Rightarrow>
          let m = rgm_map mgr; e = the (map_of (rgm_es_rgs mgr) p) in
          case skip_nearfull (RGCmp m) (nearfull m em) (esrg_heap e) [] of
            None \<Rightarrow> None
          | Some (gid, heap, tmp) \<Rightarrow>
              let heap = fold (heap_push (RGCmp m)) tmp heap;
                  g = rg_of m gid;
                  m = AList.update gid (g \<lparr> rg_nr_extents := u64_add (rg_nr_extents g) 1 \<rparr>) m;
                  heap = heap_pop (RGCmp m) heap;
                  heap = heap_push (RGCmp m) gid heap;
                  es_rgs = smap_insert p (e \<lparr> esrg_heap := heap, esrg_nr_extents := u64_add (esrg_nr_extents e) 1 \<rparr>) (rgm_es_rgs mgr);
                  es_heap = heap_pop (EsRgCmp es_rgs) (rgm_heap mgr);
                  es_heap = heap_push (EsRgCmp es_rgs) p es_heap
              in Some (gid, \<lparr> rgm_map = m, rgm_es_rgs = es_rgs, rgm_heap = es_heap \<rparr>))"

text \<open>The first loop of \<open>allocate_rgs\<close>; the flag says whether it got through.\<close>

fun allocate_loop :: "nat \<Rightarrow> rg_mgr \<Rightarrow> es_map \<Rightarrow> string list \<Rightarrow> (bool \<times> string list \<times> rg_mgr) option" where
  "allocate_loop 0 mgr em rg_ids = Some (True, rg_ids, mgr)"
| "allocate_loop (Suc n) mgr em rg_ids =
     (case allocate_rg mgr em of
        None \<Rightarrow> None
      | Some (gid, mgr) \<Rightarrow> if gid \<noteq> [] then allocate_loop n mgr em (rg_ids @ [gid]) else Some (False, rg_ids, mgr))"

definition changed_kvs :: "(string \<Rightarrow> 32 word) \<Rightarrow> rg_map \<Rightarrow> string list \<Rightarrow> (string \<times> string) list" where
  "changed_kvs crc m rgs = fold (\<lambda>gid. let g = rg_of m gid in smap_insert (rg_kv_key g) (Serializer_Encode crc put_rg g)) rgs []"

definition allocate_rgs :: "(string \<Rightarrow> 32 word) \<Rightarrow> rocks_store \<Rightarrow> rg_mgr \<Rightarrow> es_map \<Rightarrow> int
    \<Rightarrow> (status \<times> string list \<times> rocks_store \<times> rg_mgr) option" where
  "allocate_rgs crc st mgr em extent_num =
     (case allocate_loop (nat extent_num) mgr em [] of
        None \<Rightarrow> None
      | Some (ok, rg_ids, mgr) \<Rightarrow>
          if \<not> ok then Some (Status CYPRE_EM_RG_ALLOCATE_FAIL ''resource is not enough.'', rg_ids, st, mgr)
          else let (s, st) = put_batches 100 (Status CYPRE_EM_STORE_ERROR ''persist replication meta failed'') st []
                     (changed_kvs crc (rgm_map mgr) (remdups rg_ids))
               in Some (s, rg_ids, st, mgr))"

definition delete_all_rg :: "rocks_store \<Rightarrow> rg_mgr \<Rightarrow> status \<times> rocks_store \<times> rg_mgr" where
  "delete_all_rg st mgr =
     (Status_OK, fold (\<lambda>(_, g) st. snd (RocksStore_Delete st (rg_kv_key g))) (rgm_map mgr) st,
      \<lparr> rgm_map = [], rgm_es_rgs = [], rgm_heap = [] \<rparr>)"

definition rg_recovery_from_store :: "(string \<Rightarrow> 32 word) \<Rightarrow> (rg_map \<Rightarrow> rg_map) \<Rightarrow> rocks_store \<Rightarrow> rg_mgr \<Rightarrow> string
    \<Rightarrow> (bool \<times> rg_mgr) option" where
  "rg_recovery_from_store crc shuffle st mgr pool_id =
     (case recover_values AList.update (Serializer_Decode crc get_rg) rg_id
             (map snd (RocksStore_ScanPrefix st (rg_prefix pool_id))) (rgm_map mgr) of
        None \<Rightarrow> None
      | Some (False, m) \<Rightarrow> Some (False, mgr \<lparr> rgm_map := m \<rparr>)
      | Some (True, m) \<Rightarrow> map_option (\<lambda>mgr. (True, mgr)) (build_heap (mgr \<lparr> rgm_map := shuffle m \<rparr>)))"

section \<open>What holds of the groups\<close>

text \<open>Everything of a group but its servers.\<close>

definition rg_frame :: "rg_map \<Rightarrow> rg_map" where
  "rg_frame m = map (\<lambda>(i, g). (i, g \<lparr> rg_extent_servers := [] \<rparr>)) m"

lemma rg_frame_simps [simp]:
  "rg_frame [] = []" "rg_frame ((i, g) # m) = (i, g \<lparr> rg_extent_servers := [] \<rparr>) # rg_frame m"
  by (simp_all add: rg_frame_def)

lemma fst_rg_frame: "map fst (rg_frame m) = map fst m"
  by (simp add: rg_frame_def o_def split_beta)

lemma rg_frame_keys: "rg_frame m' = rg_frame m \<Longrightarrow> map fst m' = map fst m"
  using fst_rg_frame[of m] fst_rg_frame[of m'] by simp

context rg_allocater
begin

definition groups_ok :: "nat \<Rightarrow> rg_map \<Rightarrow> bool" where
  "groups_ok n m \<longleftrightarrow> (\<forall>(i, g)\<in>set m. group_ok n (rg_extent_servers g))"

lemma groups_ok_Cons [simp]: "groups_ok n [] " "groups_ok n ((i, g) # m) \<longleftrightarrow> group_ok n (rg_extent_servers g) \<and> groups_ok n m"
  by (auto simp: groups_ok_def)

text \<open>A round gives every group one more server.\<close>

lemma extend_groups_ok:
  assumes step: "\<And>s g. ok s \<Longrightarrow> group_ok n g \<Longrightarrow> \<exists>i s'. sel s g = Some (i, s') \<and> ok s' \<and> group_ok (Suc n) (g @ [i])"
    and "ok s" "groups_ok n m"
  shows "\<exists>m' s'. extend_groups sel s m = Some (m', s') \<and> ok s' \<and> groups_ok (Suc n) m' \<and> rg_frame m' = rg_frame m"
  using assms(2,3)
proof (induction m arbitrary: s)
  case (Cons r m)
  obtain i g where r: "r = (i, g)" by (cases r)
  obtain e s1 where e: "sel s (rg_extent_servers g) = Some (e, s1)" "ok s1" "group_ok (Suc n) (rg_extent_servers g @ [e])"
    using step[of s "rg_extent_servers g"] Cons.prems r by auto
  obtain m' s' where m: "extend_groups sel s1 m = Some (m', s')" "ok s'" "groups_ok (Suc n) m'" "rg_frame m' = rg_frame m"
    using Cons.IH[OF e(2)] Cons.prems(2) r by auto
  then show ?case using r e by simp
qed simp

lemma extend_rounds_ok:
  assumes "ok s" "groups_ok n m" "n + k \<le> card (domain_of ` servers)"
  shows "\<exists>m' s'. extend_rounds secondary k s m = Some (m', s') \<and> ok s' \<and> groups_ok (n + k) m' \<and> rg_frame m' = rg_frame m"
  using assms
proof (induction k arbitrary: s n m)
  case (Suc k)
  have "n < card (domain_of ` servers)" using Suc.prems(3) by simp
  from extend_groups_ok[of n secondary s m, OF secondary_group[OF _ _ this] Suc.prems(1,2)]
  obtain m1 s1 where 1: "extend_groups secondary s m = Some (m1, s1)" "ok s1" "groups_ok (Suc n) m1" "rg_frame m1 = rg_frame m" by blast
  from Suc.IH[OF 1(2,3)] Suc.prems(3) 1(1,4) show ?case by simp
qed simp

lemma extend_primaries_ok:
  assumes "ok s" "groups_ok 0 m" "servers \<noteq> {}"
  shows "\<exists>m' s'. extend_groups (\<lambda>s _. primary s) s m = Some (m', s') \<and> ok s' \<and> groups_ok 1 m' \<and> rg_frame m' = rg_frame m"
proof -
  have "\<exists>i s'. primary s = Some (i, s') \<and> ok s' \<and> group_ok (Suc 0) (g @ [i])" if "ok s" "group_ok 0 g" for s g
    using primary_group[OF that(1) assms(3)] that(2) by (auto simp: group_ok_def)
  from extend_groups_ok[of 0 "\<lambda>s _. primary s" s m, OF this assms(1,2)] show ?thesis by simp
qed

end

section \<open>New groups\<close>

lemma new_groups_eq:
  "new_groups now p n [] = map (\<lambda>i. (p @ ''.'' @ dec_digits i, ReplicationGroup now (p @ ''.'' @ dec_digits i) p)) [0..<n]"
proof -
  have "fold (\<lambda>i. AList.update (p @ ''.'' @ dec_digits i) (ReplicationGroup now (p @ ''.'' @ dec_digits i) p)) [0..<n] [] =
      map (\<lambda>i. (p @ ''.'' @ dec_digits i, ReplicationGroup now (p @ ''.'' @ dec_digits i) p)) [0..<n]"
  proof (induction n)
    case (Suc n)
    have "AList.update k v m = m @ [(k, v)]" if "k \<notin> fst ` set m" for k v and m :: rg_map
      using that by (induction m) auto
    then show ?case using Suc by (simp add: image_image image_iff)
  qed simp
  then show ?thesis by (simp add: new_groups_def Let_def)
qed

lemma new_groups_shuffled:
  assumes "\<And>m. mset (shuffle m) = mset m"
  shows "length (shuffle (new_groups now p n [])) = n" "distinct (map fst (shuffle (new_groups now p n [])))"
    "(i, g) \<in> set (shuffle (new_groups now p n [])) \<Longrightarrow> g = ReplicationGroup now i p"
proof -
  note m = assms[of "new_groups now p n []"]
  show "length (shuffle (new_groups now p n [])) = n" using arg_cong[OF m, of size] by (simp add: new_groups_eq)
  have "mset (map fst (shuffle (new_groups now p n []))) = mset (map fst (new_groups now p n []))" using m by (simp add: mset_map)
  moreover have "distinct (map fst (new_groups now p n []))" by (simp add: new_groups_eq distinct_map inj_on_def)
  ultimately show "distinct (map fst (shuffle (new_groups now p n [])))" by (metis mset_eq_imp_distinct_iff)
  show "g = ReplicationGroup now i p" if "(i, g) \<in> set (shuffle (new_groups now p n []))"
    using that mset_eq_setD[OF m] by (auto simp: new_groups_eq)
qed

lemma build_loop_defined:
  "\<forall>(i, g)\<in>set rs. rg_extent_servers g \<noteq> [] \<Longrightarrow> \<exists>c'. build_loop m rs c = Some c'"
proof (induction rs arbitrary: c)
  case (Cons r rs)
  have "build_step m r c \<noteq> None"
    using Cons.prems by (cases r; cases c; cases "rg_extent_servers (snd r)") (auto simp: build_step_def Let_def)
  then show ?case using Cons by auto
qed simp

lemma build_heap_defined:
  assumes "\<forall>(i, g)\<in>set (rgm_map mgr). rg_extent_servers g \<noteq> []"
  shows "\<exists>mgr'. build_heap mgr = Some mgr' \<and> rgm_map mgr' = rgm_map mgr"
  using build_loop_defined[OF assms, of "rgm_map mgr" "([], rgm_heap mgr)"] by (auto simp: build_heap_def)

lemma rg_init_run:
  assumes sh: "\<And>m. mset (shuffle m) = mset m" and init: "allocater_init fd x em ess = Some (Status_OK, a, em1)"
    and ess: "set ess = es_ids em" "ess \<noteq> []" and rc: "1 \<le> rc" "nat rc \<le> card (es_domain fd em ` es_ids em)"
  obtains m s2 where
    "extend_groups (\<lambda>s _. select_primary s) (a, em1) (shuffle (new_groups now p (per * length ess) [])) = Some (m, s2)"
    "\<exists>m' a' em'. extend_rounds select_secondary (nat (rc - 1)) s2 m = Some (m', a', em') \<and> alloc.groups_ok em fd (nat rc) m' \<and>
       rg_frame m' = shuffle (new_groups now p (per * length ess) []) \<and> allocater_ok fd em (a', em')"
proof -
  let ?m = "shuffle (new_groups now p (per * length ess) [])"
  have a: "allocater_ok fd em (a, em1)" by (rule allocater_init_ok[OF init _ ess(1)]) (simp add: st_ok_def)
  have g: "g = ReplicationGroup now i p" if "(i, g) \<in> set ?m" for i g by (rule new_groups_shuffled(3)[OF sh that])
  have e: "rg_extent_servers g = []" if "(i, g) \<in> set ?m" for i g using g[OF that] by (simp add: ReplicationGroup_def)
  have 0: "alloc.groups_ok em fd 0 ?m" unfolding alloc.groups_ok_def using e by (auto simp: alloc.group_ok_def)
  have f: "rg_frame ?m = ?m" unfolding rg_frame_def using e by (intro map_idI) (auto intro: replication_group.equality)
  have "es_ids em \<noteq> {}" using ess by (metis set_empty)
  from alloc.extend_primaries_ok[OF a 0 this] obtain m1 s1 where 1: "extend_groups (\<lambda>s _. select_primary s) (a, em1) ?m = Some (m1, s1)"
      "allocater_ok fd em s1" "alloc.groups_ok em fd 1 m1" "rg_frame m1 = ?m" using f by auto
  have n: "1 + nat (rc - 1) = nat rc" using rc(1) by simp
  from alloc.extend_rounds_ok[OF 1(2,3), of "nat (rc - 1)"] rc(2) 1(4) show thesis
    unfolding n by (intro that[OF 1(1)]) (auto simp: split_paired_Ex)
qed

lemma rg_init_ok:
  assumes sh: "\<And>m. mset (shuffle m) = mset m" and init: "allocater_init fd x em ess = Some (Status_OK, a, em1)"
    and ess: "set ess = es_ids em" "ess \<noteq> []" and rc: "1 \<le> rc" "nat rc \<le> card (es_domain fd em ` es_ids em)"
  shows "\<exists>s st' mgr em'. rg_init crc now x per shuffle st RgManager em p rc fd ess = Some (s, st', mgr, em') \<and>
    (st_ok s \<or> st_code s = CYPRE_EM_STORE_ERROR) \<and> alloc.groups_ok em fd (nat rc) (rgm_map mgr) \<and>
    rg_frame (rgm_map mgr) = shuffle (new_groups now p (per * length ess) []) \<and> same_places em em' \<and>
    (st_ok s \<longrightarrow> build_heap (RgManager \<lparr> rgm_map := rgm_map mgr \<rparr>) = Some mgr)"
proof -
  obtain m1 s2 where 1: "extend_groups (\<lambda>s _. select_primary s) (a, em1) (shuffle (new_groups now p (per * length ess) [])) = Some (m1, s2)"
      and 2: "\<exists>m' a' em'. extend_rounds select_secondary (nat (rc - 1)) s2 m1 = Some (m', a', em') \<and> alloc.groups_ok em fd (nat rc) m' \<and>
        rg_frame m' = shuffle (new_groups now p (per * length ess) []) \<and> allocater_ok fd em (a', em')"
    by (rule rg_init_run[OF sh init ess rc])
  obtain m' a' em' where r: "extend_rounds select_secondary (nat (rc - 1)) s2 m1 = Some (m', a', em')" "alloc.groups_ok em fd (nat rc) m'"
      "rg_frame m' = shuffle (new_groups now p (per * length ess) [])" "allocater_ok fd em (a', em')" using 2 by blast
  have places: "same_places em em'" using r(4) by (cases a') auto
  let ?err = "Status CYPRE_EM_STORE_ERROR ''persist replication meta failed''"
  obtain s st' where w: "put_batches 50 ?err st [] (rg_kvs crc m') = (s, st')" by fastforce
  have s: "st_ok s \<or> s = ?err" using w put_batches_status[of 50 ?err st "[]" "rg_kvs crc m'"] by auto
  have i: "rg_init crc now x per shuffle st RgManager em p rc fd ess =
      (if \<not> st_ok s then Some (s, st', RgManager \<lparr> rgm_map := m' \<rparr>, em')
       else map_option (\<lambda>mgr. (Status_OK, st', mgr, em')) (build_heap (RgManager \<lparr> rgm_map := m' \<rparr>)))"
    using init 1 r(1) w by (simp add: rg_init_def RgManager_def Let_def st_ok_def)
  have "\<forall>(i, g)\<in>set m'. rg_extent_servers g \<noteq> []" using r(2) rc(1) unfolding alloc.groups_ok_def alloc.group_ok_def by fastforce
  from build_heap_defined[of "RgManager \<lparr> rgm_map := m' \<rparr>"] this obtain mgr where
    b: "build_heap (RgManager \<lparr> rgm_map := m' \<rparr>) = Some mgr" "rgm_map mgr = m'" by auto
  show ?thesis
  proof (cases "st_ok s")
    case True
    then show ?thesis using i b r(2,3) places by (simp add: st_ok_def)
  next
    case False
    then show ?thesis using i s r(2,3) places by simp
  qed
qed

text \<open>Without a domain for each replica there is no way out of the selection.\<close>

context exhausted_allocater
begin

lemma extend_groups_stuck:
  assumes "ok s" "groups_ok n m" "card (domain_of ` servers) \<le> n" "m \<noteq> []"
  shows "extend_groups secondary s m = None"
  using assms full_group_stuck by (cases m) auto

lemma extend_rounds_stuck:
  assumes "ok s" "groups_ok n m" "card (domain_of ` servers) < n + k" "m \<noteq> []" "0 < k"
  shows "extend_rounds secondary k s m = None"
  using assms
proof (induction k arbitrary: s n m)
  case (Suc k)
  show ?case
  proof (cases "n < card (domain_of ` servers)")
    case False
    then show ?thesis using extend_groups_stuck[OF Suc.prems(1,2) _ Suc.prems(4)] by simp
  next
    case True
    from extend_groups_ok[of n secondary s m, OF secondary_group[OF _ _ this] Suc.prems(1,2)]
    obtain m1 s1 where 1: "extend_groups secondary s m = Some (m1, s1)" "ok s1" "groups_ok (Suc n) m1" "rg_frame m1 = rg_frame m" by blast
    have "m1 \<noteq> []" using rg_frame_keys[OF 1(4)] Suc.prems(4) by auto
    moreover have "0 < k" using True Suc.prems(3) by (cases k) auto
    ultimately show ?thesis using Suc.IH[OF 1(2,3)] Suc.prems(3) 1(1) by simp
  qed
qed simp

end

section \<open>Properties of the groups\<close>

text \<open>Three extent servers on two hosts, for the examples.\<close>

definition demo_es_map :: es_map where
  "demo_es_map = map (\<lambda>(i, h). (i, ExtentServer ''t'' i ''es'' ''ip'' 1 ''ip'' 2 0 200 ''pool-a'' h ''r1'')) [(1, ''h1''), (2, ''h2''), (3, ''h2'')]"

lemma demo_init:
  obtains a em1 where "allocater_init kFailureDomainHost 10 demo_es_map (map fst demo_es_map) = Some (Status_OK, a, em1)"
proof -
  have v: "st_ok (host_rack_valid demo_es_map (map fst demo_es_map))"
    by (simp add: host_rack_valid_def demo_es_map_def es_of_def ExtentServer_def st_ok_def Let_def)
  have w: "weight_divisor 10 demo_es_map (map fst demo_es_map) = Some 20"
    by (simp add: weight_divisor_def demo_es_map_def es_of_def ExtentServer_def GCDUtil_gcd_def cpp_gcd.simps to_int32_def)
  have d: "weights_defined 10 demo_es_map (map fst demo_es_map) 20"
    by (simp add: weights_defined_def demo_es_map_def es_of_def ExtentServer_def)
  obtain b em where "fold (by_host_step 10 20) (map fst demo_es_map) (\<lparr> ha_hosts = [], ha_host_map = [] \<rparr>, demo_es_map) = (b, em)" by fastforce
  then show thesis using v w d by (intro that[of "By_host b" em]) (simp add: allocater_init_def by_host_init_def)
qed

text \<open>C11: If the extent servers of a pool lie in at least as many failure domains as a group has
  replicas, the initialisation of the groups returns, with success or with a failed write,
  and every group then has exactly the wanted number of extent servers of the pool, no two
  in the same failure domain; there are \<open>rg_per_es\<close> groups per extent server, with
  different ids.\<close>

theorem groups_spread:
  assumes sh: "\<And>m. mset (shuffle m) = mset m" and init: "allocater_init fd x em (map fst em) = Some (Status_OK, a, em1)"
    and "em \<noteq> []" and rc: "1 \<le> rc" "nat rc \<le> card (es_domain fd em ` es_ids em)"
  shows "\<exists>s st' mgr em'. rg_init crc now x per shuffle st RgManager em p rc fd (map fst em) = Some (s, st', mgr, em') \<and>
    (st_ok s \<or> st_code s = CYPRE_EM_STORE_ERROR) \<and> length (rgm_map mgr) = per * length em \<and> distinct (map fst (rgm_map mgr)) \<and>
    (\<forall>(i, g)\<in>set (rgm_map mgr). rg_id g = i \<and> rg_pool_id g = p \<and> length (rg_extent_servers g) = nat rc \<and>
       set (rg_extent_servers g) \<subseteq> fst ` set em \<and> distinct (map (es_domain fd em) (rg_extent_servers g)))"
proof -
  have ess: "set (map fst em) = es_ids em" "map fst em \<noteq> []" using assms(3) by (auto simp: es_ids_def)
  let ?m = "shuffle (new_groups now p (per * length (map fst em)) [])"
  obtain s st' mgr em' where r: "rg_init crc now x per shuffle st RgManager em p rc fd (map fst em) = Some (s, st', mgr, em')"
      "st_ok s \<or> st_code s = CYPRE_EM_STORE_ERROR" "alloc.groups_ok em fd (nat rc) (rgm_map mgr)" "rg_frame (rgm_map mgr) = ?m"
    using rg_init_ok[OF sh init ess rc, of crc now per st p] by blast
  note S = new_groups_shuffled[OF sh, where now = now and p = p and n = "per * length (map fst em)"]
  have k: "map fst (rgm_map mgr) = map fst ?m" using arg_cong[OF r(4), of "map fst"] by (simp add: fst_rg_frame)
  have l: "length (rgm_map mgr) = per * length em" using arg_cong[OF k, of length] S(1) by simp
  have "rg_id g = i \<and> rg_pool_id g = p \<and> length (rg_extent_servers g) = nat rc \<and> set (rg_extent_servers g) \<subseteq> fst ` set em \<and>
      distinct (map (es_domain fd em) (rg_extent_servers g))" if g: "(i, g) \<in> set (rgm_map mgr)" for i g
  proof -
    have "(i, g \<lparr> rg_extent_servers := [] \<rparr>) \<in> set ?m" unfolding r(4)[symmetric] rg_frame_def using g by force
    from arg_cong[OF S(3)[OF this], of rg_id] arg_cong[OF S(3)[OF this], of rg_pool_id]
    have "rg_id g = i" "rg_pool_id g = p" by (simp_all add: ReplicationGroup_def)
    moreover have "alloc.group_ok em fd (nat rc) (rg_extent_servers g)" using r(3) g unfolding alloc.groups_ok_def by blast
    ultimately show ?thesis unfolding alloc.group_ok_def es_ids_def[symmetric] by simp
  qed
  then have "\<forall>(i, g)\<in>set (rgm_map mgr). rg_id g = i \<and> rg_pool_id g = p \<and> length (rg_extent_servers g) = nat rc \<and>
       set (rg_extent_servers g) \<subseteq> fst ` set em \<and> distinct (map (es_domain fd em) (rg_extent_servers g))" by blast
  moreover have "distinct (map fst (rgm_map mgr))" unfolding k by (rule S(2))
  ultimately show ?thesis using r(1,2) l by (intro exI[of _ s] exI[of _ st'] exI[of _ mgr] exI[of _ em'] conjI)
qed

theorem groups_spread_witness:
  "\<exists>s st' mgr em'. rg_init (\<lambda>_. 0) ''t'' 10 2 rev \<lparr> rs_db = [], rs_faults = [] \<rparr> RgManager demo_es_map ''pool-a'' 2 kFailureDomainHost [1, 2, 3] =
      Some (s, st', mgr, em') \<and> length (rgm_map mgr) = 6"
proof -
  obtain a em1 where i: "allocater_init kFailureDomainHost 10 demo_es_map (map fst demo_es_map) = Some (Status_OK, a, em1)"
    by (rule demo_init)
  have "es_domain kFailureDomainHost demo_es_map ` es_ids demo_es_map = {In_host ''h1'', In_host ''h2''}"
    by (simp add: es_domain_def es_ids_def demo_es_map_def es_of_def ExtentServer_def)
  then have c: "nat 2 \<le> card (es_domain kFailureDomainHost demo_es_map ` es_ids demo_es_map)" by simp
  have m: "map fst demo_es_map = [1, 2, 3]" "demo_es_map \<noteq> []" "length demo_es_map = 3" by (simp_all add: demo_es_map_def)
  from groups_spread[where shuffle = rev and crc = "\<lambda>_. 0" and now = "''t''" and per = 2 and st = "\<lparr> rs_db = [], rs_faults = [] \<rparr>"
      and p = "''pool-a''", OF _ i m(2) _ c] show ?thesis unfolding m by auto
qed

text \<open>The rounds do not get through when there are fewer domains than replicas.\<close>

lemma rg_init_stuck:
  assumes sh: "\<And>m. mset (shuffle m) = mset m" and init: "allocater_init fd x em (map fst em) = Some (Status_OK, a, em1)"
    and "em \<noteq> []" "1 < rc" "card (es_domain fd em ` es_ids em) < nat rc" "0 < per"
  shows "rg_init crc now x per shuffle st RgManager em p rc fd (map fst em) = None"
proof -
  have ess: "set (map fst em) = es_ids em" "es_ids em \<noteq> {}" using assms(3) by (auto simp: es_ids_def)
  let ?m = "shuffle (new_groups now p (per * length (map fst em)) [])"
  have a: "allocater_ok fd em (a, em1)" by (rule allocater_init_ok[OF init _ ess(1)]) (simp add: st_ok_def)
  have e: "rg_extent_servers g = []" if "(i, g) \<in> set ?m" for i g
    using new_groups_shuffled(3)[OF sh that] by (simp add: ReplicationGroup_def)
  have "alloc.groups_ok em fd 0 ?m" unfolding alloc.groups_ok_def using e by (auto simp: alloc.group_ok_def)
  from alloc.extend_primaries_ok[OF a this ess(2)] obtain m1 s1 where 1: "extend_groups (\<lambda>s _. select_primary s) (a, em1) ?m = Some (m1, s1)"
      "allocater_ok fd em s1" "alloc.groups_ok em fd 1 m1" "rg_frame m1 = rg_frame ?m" by blast
  have "length m1 = per * length em" using arg_cong[OF rg_frame_keys[OF 1(4)], of length] new_groups_shuffled(1)[OF sh] by simp
  then have "m1 \<noteq> []" using assms(3,6) by auto
  then have "extend_rounds select_secondary (nat (rc - 1)) s1 m1 = None"
    using assms(4,5) by (intro alloc_exhausted.extend_rounds_stuck[OF 1(2,3)]) auto
  then show ?thesis using init 1(1) by (simp add: rg_init_def RgManager_def st_ok_def)
qed

text \<open>C40: If there are fewer failure domains than replicas, the initialisation does not report
  that the allocation failed: it asks an empty queue for its top.\<close>

theorem too_few_domains_undefined:
  assumes sh: "\<And>m. mset (shuffle m) = mset m" and init: "allocater_init fd x em (map fst em) = Some (Status_OK, a, em1)"
    and "em \<noteq> []" "1 < rc" "card (es_domain fd em ` es_ids em) < nat rc" "0 < per"
  shows "rg_init crc now x per shuffle st RgManager em p rc fd (map fst em) = None"
  using assms by (rule rg_init_stuck)

theorem too_few_domains_undefined_witness:
  "rg_init (\<lambda>_. 0) ''t'' 10 1 rev \<lparr> rs_db = [], rs_faults = [] \<rparr> RgManager demo_es_map ''pool-a'' 3 kFailureDomainHost (map fst demo_es_map) = None"
proof -
  obtain a em1 where i: "allocater_init kFailureDomainHost 10 demo_es_map (map fst demo_es_map) = Some (Status_OK, a, em1)"
    by (rule demo_init)
  have "es_domain kFailureDomainHost demo_es_map ` es_ids demo_es_map = {In_host ''h1'', In_host ''h2''}"
    by (simp add: es_domain_def es_ids_def demo_es_map_def es_of_def ExtentServer_def)
  then have c: "card (es_domain kFailureDomainHost demo_es_map ` es_ids demo_es_map) < nat 3" by simp
  show ?thesis by (rule too_few_domains_undefined[OF _ i _ _ c]) (simp_all add: demo_es_map_def)
qed

section \<open>Groups that are nearly full\<close>

lemma fill_ratio_eq:
  assumes "\<forall>v\<in>set vec. \<exists>e. map_of em v = Some e \<and> 0 < es_capacity e"
  shows "\<exists>r'. fill_ratio em vec r = Some r' \<and> (0 < r' \<longleftrightarrow> 0 < r \<or> (\<exists>v\<in>set vec. es_capacity (es_of em v) \<le> es_used (es_of em v)))"
  using assms
proof (induction vec arbitrary: r)
  case (Cons v vec)
  then obtain e where e: "map_of em v = Some e" "0 < es_capacity e" by auto
  let ?r = "if es_used e div es_capacity e > r then es_used e div es_capacity e else r"
  obtain r' where r': "fill_ratio em vec ?r = Some r'" "0 < r' \<longleftrightarrow> 0 < ?r \<or> (\<exists>v\<in>set vec. es_capacity (es_of em v) \<le> es_used (es_of em v))"
    using Cons.IH[of ?r] Cons.prems by auto
  have "0 < ?r \<longleftrightarrow> 0 < r \<or> es_capacity (es_of em v) \<le> es_used (es_of em v)"
  proof -
    have "0 < es_used e div es_capacity e \<longleftrightarrow> es_capacity e \<le> es_used e" using e(2) by (simp add: div_greater_zero_iff)
    then show ?thesis using e(1) by (cases "0 < es_used e div es_capacity e") (auto simp: es_of_def)
  qed
  then show ?case using r' e by (simp add: Let_def)
qed simp

text \<open>The threshold of 85 percent is not applied: the ratio is a quotient of integers, so a
  group counts as nearly full exactly when one of its servers is completely full.\<close>

theorem nearfull_only_when_full:
  assumes "map_of m i = Some g" "\<forall>v\<in>set (rg_extent_servers g). \<exists>e. map_of em v = Some e \<and> 0 < es_capacity e"
  shows "nearfull m em i = Some (\<exists>v\<in>set (rg_extent_servers g). es_capacity (es_of em v) \<le> es_used (es_of em v))"
  using fill_ratio_eq[OF assms(2), of 0] assms(1) by (auto simp: nearfull_def)

theorem nearfull_only_when_full_witness:
  "nearfull [(''g'', ReplicationGroup ''t'' ''g'' ''p'' \<lparr> rg_extent_servers := [1] \<rparr>)]
     [(1, ExtentServer ''t'' 1 ''es'' ''ip'' 1 ''ip'' 2 199 200 ''p'' ''h'' ''r'')] ''g'' = Some False"
proof -
  let ?g = "ReplicationGroup ''t'' ''g'' ''p'' \<lparr> rg_extent_servers := [1] \<rparr>"
  let ?em = "[(1, ExtentServer ''t'' 1 ''es'' ''ip'' 1 ''ip'' 2 199 200 ''p'' ''h'' ''r'')]"
  have "nearfull [(''g'', ?g)] ?em ''g'' = Some (\<exists>v\<in>set (rg_extent_servers ?g). es_capacity (es_of ?em v) \<le> es_used (es_of ?em v))"
    by (rule nearfull_only_when_full) (simp_all add: ExtentServer_def)
  then show ?thesis by (simp add: es_of_def ExtentServer_def)
qed

section \<open>Extents are spread evenly over the groups of a primary\<close>

definition rg_key_of :: "rg_map \<Rightarrow> string \<Rightarrow> int" where
  "rg_key_of m i = - int (rg_nr_extents (rg_of m i))"

lemma RGCmp_key: "RGCmp m = (\<lambda>a b. rg_key_of m a < rg_key_of m b)"
  by (simp add: RGCmp_def rg_key_of_def fun_eq_iff)

text \<open>The queue of a primary holds its groups, in order, and their loads differ by at most one.\<close>

definition queue_ok :: "rg_map \<Rightarrow> int \<Rightarrow> string list \<Rightarrow> bool" where
  "queue_ok m p q \<longleftrightarrow> q \<noteq> [] \<and> distinct q \<and> is_heap (RGCmp m) q \<and>
     set q = {i. \<exists>g. map_of m i = Some g \<and> hd (rg_extent_servers g) = p} \<and>
     (\<forall>i\<in>set q. \<forall>j\<in>set q. rg_nr_extents (rg_of m i) \<le> rg_nr_extents (rg_of m j) + 1)"

definition queues_ok :: "rg_mgr \<Rightarrow> bool" where
  "queues_ok mgr \<longleftrightarrow> rgm_heap mgr \<noteq> [] \<and>
     (\<forall>p. p \<in> set (rgm_heap mgr) \<longleftrightarrow> (\<exists>g\<in>ran (map_of (rgm_map mgr)). hd (rg_extent_servers g) = p)) \<and>
     (\<forall>p\<in>set (rgm_heap mgr). \<exists>e. map_of (rgm_es_rgs mgr) p = Some e \<and> queue_ok (rgm_map mgr) p (esrg_heap e))"

lemma queue_ok_other:
  assumes q: "queue_ok m p q" and g: "map_of m i = Some g" "hd (rg_extent_servers g) \<noteq> p" and m: "map_of m' = (map_of m)(i \<mapsto> g \<lparr> rg_nr_extents := x \<rparr>)"
  shows "queue_ok m' p q"
proof -
  have set_q: "set q = {i. \<exists>g. map_of m i = Some g \<and> hd (rg_extent_servers g) = p}" using q unfolding queue_ok_def by blast
  have i: "i \<notin> set q" using g unfolding set_q by auto
  then have *: "rg_of m' j = rg_of m j" if "j \<in> set q" for j using that m by (auto simp: rg_of_def)
  have "is_heap (RGCmp m') q" using q is_heap_cong[of q "rg_key_of m'" "rg_key_of m"] * unfolding queue_ok_def RGCmp_key by (simp add: rg_key_of_def)
  moreover have "{i. \<exists>g. map_of m' i = Some g \<and> hd (rg_extent_servers g) = p} = {i. \<exists>g. map_of m i = Some g \<and> hd (rg_extent_servers g) = p}"
    using m g by auto
  ultimately show ?thesis using q * unfolding queue_ok_def by simp
qed

lemma queue_ok_step:
  assumes q: "queue_ok m p q" and i: "heap_top q = Some i" and b: "rg_nr_extents (rg_of m i) + 1 < 2 ^ 64"
    and m: "map_of m' = (map_of m)(i \<mapsto> (rg_of m i) \<lparr> rg_nr_extents := u64_add (rg_nr_extents (rg_of m i)) 1 \<rparr>)"
  shows "queue_ok m' p (heap_push (RGCmp m') i (heap_pop (RGCmp m') q))"
proof -
  have Q: "q \<noteq> []" "distinct q" "is_heap (\<lambda>a b. rg_key_of m a < rg_key_of m b) q"
      "set q = {i. \<exists>g. map_of m i = Some g \<and> hd (rg_extent_servers g) = p}"
      "\<forall>i\<in>set q. \<forall>j\<in>set q. rg_nr_extents (rg_of m i) \<le> rg_nr_extents (rg_of m j) + 1"
    using q unfolding queue_ok_def RGCmp_key by auto
  let ?q = "heap_push (RGCmp m') i (heap_pop (RGCmp m') q)"
  have ms: "mset ?q = mset q" by (rule std_heap.repush_items[OF i])
  have hd: "hd q = i" "i \<in> set q" using i by (auto simp: heap_top_hd)
  obtain g where g: "map_of m i = Some g" "hd (rg_extent_servers g) = p" using hd(2) unfolding Q(4) by blast
  have same: "rg_of m' j = rg_of m j" if "j \<noteq> i" for j using that m by (simp add: rg_of_def)
  have new: "rg_nr_extents (rg_of m' i) = rg_nr_extents (rg_of m i) + 1"
    using m b by (simp add: rg_of_def u64_add_def)
  have least: "rg_nr_extents (rg_of m i) \<le> rg_nr_extents (rg_of m j)" if "j \<in> set q" for j
    using std_heap.top_largest[OF Q(3) i, of j] that by (simp add: rg_key_of_def)
  have "is_heap (RGCmp m') (heap_pop (RGCmp m') q)" unfolding RGCmp_key
    by (rule heap_pop_changed[OF Q(3,2)]) (use same hd(1) in \<open>simp add: rg_key_of_def\<close>)
  then have h: "is_heap (RGCmp m') ?q" unfolding RGCmp_key by (rule heap_push_heap)
  have s: "set q = {i. \<exists>g. map_of m' i = Some g \<and> hd (rg_extent_servers g) = p}"
    unfolding Q(4) using m g by (auto simp: rg_of_def)
  have "rg_nr_extents (rg_of m' a) \<le> rg_nr_extents (rg_of m' c) + 1" if a: "a \<in> set q" "c \<in> set q" for a c
  proof -
    have "rg_nr_extents (rg_of m a) \<le> rg_nr_extents (rg_of m c) + 1" using Q(5) a by blast
    then show ?thesis using least[OF a(2)] least[OF a(1)] new same[of a] same[of c] by (cases "a = i"; cases "c = i") auto
  qed
  then show ?thesis using h s Q(1,2) mset_eq_setD[OF ms] mset_eq_imp_distinct_iff[OF ms] ms unfolding queue_ok_def by auto
qed

lemma skip_nearfull_first:
  "heap_top q = Some i \<Longrightarrow> full i = Some False \<Longrightarrow> skip_nearfull cmp full q tmp = Some (i, q, tmp)"
  by (subst skip_nearfull.simps) (cases q, auto simp: heap_top_def)

text \<open>One allocation.\<close>

lemma allocate_rg_ok:
  assumes ok: "queues_ok mgr" and full: "\<forall>i\<in>dom (map_of (rgm_map mgr)). nearfull (rgm_map mgr) em i = Some False"
    and b: "\<forall>g\<in>ran (map_of (rgm_map mgr)). rg_nr_extents g + 1 < 2 ^ 64"
  obtains i mgr' g where "allocate_rg mgr em = Some (i, mgr')" "queues_ok mgr'" "map_of (rgm_map mgr) i = Some g"
    "map_of (rgm_map mgr') = (map_of (rgm_map mgr))(i \<mapsto> g \<lparr> rg_nr_extents := rg_nr_extents g + 1 \<rparr>)"
proof -
  let ?m = "rgm_map mgr"
  have H: "rgm_heap mgr \<noteq> []" "\<forall>p. p \<in> set (rgm_heap mgr) \<longleftrightarrow> (\<exists>g\<in>ran (map_of ?m). hd (rg_extent_servers g) = p)"
      "\<forall>p\<in>set (rgm_heap mgr). \<exists>e. map_of (rgm_es_rgs mgr) p = Some e \<and> queue_ok ?m p (esrg_heap e)"
    using ok unfolding queues_ok_def by auto
  obtain p where p: "heap_top (rgm_heap mgr) = Some p" using heap_top_ex[OF H(1)] by blast
  obtain e where e: "map_of (rgm_es_rgs mgr) p = Some e" "queue_ok ?m p (esrg_heap e)" using H(3) heap_top_in[OF p] by blast
  have "esrg_heap e \<noteq> []" using e(2) unfolding queue_ok_def by blast
  then obtain i where i: "heap_top (esrg_heap e) = Some i" using heap_top_ex by blast
  have "i \<in> {i. \<exists>g. map_of ?m i = Some g \<and> hd (rg_extent_servers g) = p}"
    using heap_top_in[OF i] e(2) unfolding queue_ok_def by blast
  then obtain g where g: "map_of ?m i = Some g" "hd (rg_extent_servers g) = p" by blast
  have nf: "nearfull ?m em i = Some False" using full g(1) by blast
  have bg: "rg_nr_extents g + 1 < 2 ^ 64" using b g(1) by (auto simp: ran_def simp del: map_of_eq_Some_iff)
  let ?m' = "AList.update i (g \<lparr> rg_nr_extents := u64_add (rg_nr_extents g) 1 \<rparr>) ?m"
  let ?q = "heap_push (RGCmp ?m') i (heap_pop (RGCmp ?m') (esrg_heap e))"
  let ?er = "smap_insert p (e \<lparr> esrg_heap := ?q, esrg_nr_extents := u64_add (esrg_nr_extents e) 1 \<rparr>) (rgm_es_rgs mgr)"
  let ?h = "heap_push (EsRgCmp ?er) p (heap_pop (EsRgCmp ?er) (rgm_heap mgr))"
  let ?mgr = "\<lparr> rgm_map = ?m', rgm_es_rgs = ?er, rgm_heap = ?h \<rparr>"
  have a: "allocate_rg mgr em = Some (i, ?mgr)"
    using p e(1) g(1) skip_nearfull_first[OF i, of "nearfull ?m em" "RGCmp ?m" "[]"] nf by (simp add: allocate_rg_def rg_of_def Let_def)
  have m': "map_of ?m' = (map_of ?m)(i \<mapsto> g \<lparr> rg_nr_extents := rg_nr_extents g + 1 \<rparr>)" using bg by (simp add: u64_add_def)
  have q: "queue_ok ?m' p ?q" using queue_ok_step[OF e(2) i, of ?m'] bg g(1) by (simp add: rg_of_def)
  have "queues_ok ?mgr" unfolding queues_ok_def
  proof (intro conjI allI ballI)
    have h: "set ?h = set (rgm_heap mgr)" using set_repush[OF p] by simp
    show "rgm_heap ?mgr \<noteq> []" using h H(1) by (metis rg_mgr.select_convs(3) set_empty)
    have "ran (map_of ?m') = insert (g \<lparr> rg_nr_extents := rg_nr_extents g + 1 \<rparr>) {x. \<exists>j. j \<noteq> i \<and> map_of ?m j = Some x}"
      unfolding m' by (auto simp: ran_def)
    moreover have "ran (map_of ?m) = insert g {x. \<exists>j. j \<noteq> i \<and> map_of ?m j = Some x}" using g(1) by (auto simp: ran_def) (metis option.inject)
    ultimately have "(\<exists>x\<in>ran (map_of ?m'). hd (rg_extent_servers x) = c) \<longleftrightarrow> (\<exists>x\<in>ran (map_of ?m). hd (rg_extent_servers x) = c)" for c
      by simp
    then show "c \<in> set (rgm_heap ?mgr) \<longleftrightarrow> (\<exists>x\<in>ran (map_of (rgm_map ?mgr)). hd (rg_extent_servers x) = c)" for c using H(2) h by simp
    fix c assume "c \<in> set (rgm_heap ?mgr)"
    then obtain f where f: "map_of (rgm_es_rgs mgr) c = Some f" "queue_ok ?m c (esrg_heap f)" using H(3) h by auto
    show "\<exists>e. map_of (rgm_es_rgs ?mgr) c = Some e \<and> queue_ok (rgm_map ?mgr) c (esrg_heap e)"
    proof (cases "c = p")
      case True
      then show ?thesis using q by simp
    next
      case False
      then have "queue_ok ?m' c (esrg_heap f)" using queue_ok_other[OF f(2) g(1)] g(2) m' by metis
      then show ?thesis using f(1) False by simp
    qed
  qed
  then show thesis using that[OF a _ g(1)] m' by simp
qed

lemma nearfull_same: "map_of m i = Some g \<Longrightarrow> map_of m' = (map_of m)(i \<mapsto> g \<lparr> rg_nr_extents := x \<rparr>) \<Longrightarrow> nearfull m' em j = nearfull m em j"
  by (simp add: nearfull_def)

lemma allocate_loop_ok:
  assumes "queues_ok mgr" "\<forall>i\<in>dom (map_of (rgm_map mgr)). i \<noteq> [] \<and> nearfull (rgm_map mgr) em i = Some False"
    and "\<forall>g\<in>ran (map_of (rgm_map mgr)). rg_nr_extents g + n < 2 ^ 64"
  shows "\<exists>ids mgr'. allocate_loop n mgr em acc = Some (True, acc @ ids, mgr') \<and> length ids = n \<and> set ids \<subseteq> dom (map_of (rgm_map mgr)) \<and>
    queues_ok mgr' \<and> (\<forall>i. map_of (rgm_map mgr') i = map_option (\<lambda>g. g \<lparr> rg_nr_extents := rg_nr_extents g + count_list ids i \<rparr>) (map_of (rgm_map mgr) i))"
  using assms
proof (induction n arbitrary: mgr acc)
  case (Suc n)
  obtain i mgr1 g where 1: "allocate_rg mgr em = Some (i, mgr1)" "queues_ok mgr1" "map_of (rgm_map mgr) i = Some g"
      "map_of (rgm_map mgr1) = (map_of (rgm_map mgr))(i \<mapsto> g \<lparr> rg_nr_extents := rg_nr_extents g + 1 \<rparr>)"
    by (rule allocate_rg_ok[OF Suc.prems(1), of em]) (use Suc.prems(2,3) in fastforce)+
  have d: "dom (map_of (rgm_map mgr1)) = dom (map_of (rgm_map mgr))" using 1(3,4) by auto
  have "\<forall>i\<in>dom (map_of (rgm_map mgr1)). i \<noteq> [] \<and> nearfull (rgm_map mgr1) em i = Some False"
    using Suc.prems(2) nearfull_same[OF 1(3,4)] d by simp
  moreover have "\<forall>g\<in>ran (map_of (rgm_map mgr1)). rg_nr_extents g + n < 2 ^ 64"
    using Suc.prems(3) 1(3) unfolding 1(4) by (fastforce simp: ran_def split: if_splits simp del: map_of_eq_Some_iff)
  ultimately obtain ids mgr' where r: "allocate_loop n mgr1 em (acc @ [i]) = Some (True, (acc @ [i]) @ ids, mgr')" "length ids = n"
      "set ids \<subseteq> dom (map_of (rgm_map mgr1))" "queues_ok mgr'"
      "\<forall>i. map_of (rgm_map mgr') i = map_option (\<lambda>g. g \<lparr> rg_nr_extents := rg_nr_extents g + count_list ids i \<rparr>) (map_of (rgm_map mgr1) i)"
    using Suc.IH[OF 1(2), of "acc @ [i]"] by blast
  have "i \<noteq> []" using Suc.prems(2) 1(3) by blast
  moreover have "map_of (rgm_map mgr') j = map_option (\<lambda>g. g \<lparr> rg_nr_extents := rg_nr_extents g + count_list (i # ids) j \<rparr>) (map_of (rgm_map mgr) j)" for j
    using spec[OF r(5), of j] 1(3,4) by simp
  ultimately show ?case using 1(1,3) r(1-4) d by (intro exI[of _ "i # ids"] exI[of _ mgr']) auto
qed (simp add: option.map_ident)

text \<open>The queues after \<open>build_heap\<close> on groups without extents.\<close>

definition built :: "rg_map \<Rightarrow> (int \<times> es_rg) list \<Rightarrow> int list \<Rightarrow> bool" where
  "built rs ers heap \<longleftrightarrow> set heap = {p. \<exists>(i, g)\<in>set rs. hd (rg_extent_servers g) = p} \<and> dom (map_of ers) = set heap \<and>
     (\<forall>p e. map_of ers p = Some e \<longrightarrow> distinct (esrg_heap e) \<and>
        set (esrg_heap e) = {i. \<exists>g. (i, g) \<in> set rs \<and> hd (rg_extent_servers g) = p})"

lemma build_step_built:
  assumes b: "built rs ers heap" and s: "build_step m (i, g) (ers, heap) = Some (ers', heap')" and i: "i \<notin> fst ` set rs"
  shows "built (rs @ [(i, g)]) ers' heap'"
proof -
  obtain p ps where g: "rg_extent_servers g = p # ps" using s by (cases "rg_extent_servers g") (auto simp: build_step_def)
  have B: "set heap = {p. \<exists>(i, g)\<in>set rs. hd (rg_extent_servers g) = p}" "dom (map_of ers) = set heap"
      "\<And>p e. map_of ers p = Some e \<Longrightarrow> distinct (esrg_heap e) \<and> set (esrg_heap e) = {i. \<exists>g. (i, g) \<in> set rs \<and> hd (rg_extent_servers g) = p}"
    using b unfolding built_def by blast+
  define q where "q = (case map_of ers p of None \<Rightarrow> [] | Some e \<Rightarrow> esrg_heap e)"
  have q: "distinct q" "set q = {i. \<exists>g. (i, g) \<in> set rs \<and> hd (rg_extent_servers g) = p}"
  proof -
    have "distinct q \<and> set q = {i. \<exists>g. (i, g) \<in> set rs \<and> hd (rg_extent_servers g) = p}"
    proof (cases "map_of ers p")
      case None
      then have "p \<notin> set heap" using B(2) by auto
      then show ?thesis using None unfolding q_def B(1) by auto
    next
      case (Some e)
      then show ?thesis using B(3)[OF Some] by (simp add: q_def)
    qed
    then show "distinct q" "set q = {i. \<exists>g. (i, g) \<in> set rs \<and> hd (rg_extent_servers g) = p}" by auto
  qed
  obtain e where e: "ers' = smap_insert p e ers" "esrg_heap e = heap_push (RGCmp m) i q"
      "set heap' = insert p (set heap)"
  proof -
    let ?e0 = "case map_of ers p of None \<Rightarrow> \<lparr> esrg_weight = 0, esrg_nr_extents = 0, esrg_heap = [] \<rparr> | Some e \<Rightarrow> e"
    let ?e = "\<lparr> esrg_weight = esrg_weight ?e0 + 1, esrg_nr_extents = u64_add (esrg_nr_extents ?e0) (rg_nr_extents g),
      esrg_heap = heap_push (RGCmp m) i (esrg_heap ?e0) \<rparr>"
    let ?h = "if map_of ers p \<noteq> None then heap else heap_push (EsRgCmp (smap_insert p ?e ers)) p heap"
    have S: "build_step m (i, g) (ers, heap) = Some (smap_insert p ?e ers, ?h)" using g by (simp add: build_step_def Let_def)
    note 0 = s[unfolded S option.inject prod.inject]
    note 1 = conjunct1[OF 0, symmetric] conjunct2[OF 0, symmetric]
    have 2: "esrg_heap ?e = heap_push (RGCmp m) i q" by (simp add: q_def split: option.split)
    have "map_of ers p \<noteq> None \<longleftrightarrow> p \<in> set heap" using B(2) by auto
    then have "set heap' = insert p (set heap)" unfolding 1(2) by auto
    from that[OF 1(1) 2 this] show thesis .
  qed
  have "i \<notin> set q" using i q(2) by force
  then have d: "distinct (esrg_heap e)" "set (esrg_heap e) = insert i (set q)"
    using q(1) heap_push_mset[of "RGCmp m" i q] unfolding e(2) by (metis distinct.simps(2) mset.simps(2) mset_eq_imp_distinct_iff, simp)
  have "set heap' = {p. \<exists>(i, g)\<in>set (rs @ [(i, g)]). hd (rg_extent_servers g) = p}" unfolding e(3) B(1) using g by auto
  moreover have "dom (map_of ers') = set heap'" using e(1,3) B(2) by simp
  moreover have "distinct (esrg_heap f) \<and> set (esrg_heap f) = {j. \<exists>h. (j, h) \<in> set (rs @ [(i, g)]) \<and> hd (rg_extent_servers h) = c}"
    if f: "map_of ers' c = Some f" for c f
  proof (cases "c = p")
    case True
    then have "f = e" using f e(1) by simp
    then show ?thesis using d q(2) g True by auto
  next
    case False
    then show ?thesis using f e(1) B(3)[of c f] g by auto
  qed
  ultimately show ?thesis unfolding built_def by blast
qed

lemma build_loop_built:
  assumes "built rs0 ers heap" "build_loop m rs (ers, heap) = Some (ers', heap')" "distinct (map fst (rs0 @ rs))"
  shows "built (rs0 @ rs) ers' heap'"
  using assms
proof (induction rs arbitrary: rs0 ers heap)
  case (Cons r rs)
  obtain i g where r: "r = (i, g)" by (cases r)
  obtain es1 h1 where s: "build_step m (i, g) (ers, heap) = Some (es1, h1)" "build_loop m rs (es1, h1) = Some (ers', heap')"
    using Cons.prems(2) r by (auto split: option.splits)
  have "i \<notin> fst ` set rs0" using Cons.prems(3) r by auto
  from Cons.IH[OF build_step_built[OF Cons.prems(1) s(1) this] s(2)] show ?case using Cons.prems(3) r by simp
qed simp

lemma build_heap_queues:
  assumes d: "distinct (map fst m)" and g: "\<forall>(i, g)\<in>set m. rg_extent_servers g \<noteq> [] \<and> rg_nr_extents g = 0" and ne: "m \<noteq> []"
    and b: "build_heap (RgManager \<lparr> rgm_map := m \<rparr>) = Some mgr"
  shows "queues_ok mgr \<and> rgm_map mgr = m"
proof -
  obtain ers heap where l: "build_loop m m ([], []) = Some (ers, heap)" "mgr = \<lparr> rgm_map = m, rgm_es_rgs = ers, rgm_heap = heap \<rparr>"
    using b by (auto simp: build_heap_def RgManager_def)
  have "built [] [] []" by (auto simp: built_def)
  from build_loop_built[OF this l(1)] d have B: "set heap = {p. \<exists>(i, g)\<in>set m. hd (rg_extent_servers g) = p}" "dom (map_of ers) = set heap"
      "\<And>p e. map_of ers p = Some e \<Longrightarrow> distinct (esrg_heap e) \<and> set (esrg_heap e) = {i. \<exists>g. (i, g) \<in> set m \<and> hd (rg_extent_servers g) = p}"
    unfolding built_def by auto
  have zero: "rg_nr_extents (rg_of m i) = 0" if "(i, h) \<in> set m" for i h using g d that by (fastforce simp: rg_of_def)
  have "queues_ok mgr" unfolding queues_ok_def l(2) rg_mgr.select_convs
  proof (intro conjI allI ballI)
    show "heap \<noteq> []" using ne B(1) by (cases m) auto
    show "p \<in> set heap \<longleftrightarrow> (\<exists>g\<in>ran (map_of m). hd (rg_extent_servers g) = p)" for p
      unfolding B(1) using d by (force simp: ran_distinct)
    fix p assume p: "p \<in> set heap"
    then obtain e where e: "map_of ers p = Some e" using B(2) by blast
    note E = B(3)[OF e]
    have "esrg_heap e \<noteq> []" using p E unfolding B(1) by fastforce
    moreover have z: "rg_nr_extents (rg_of m i) = 0" if "i \<in> set (esrg_heap e)" for i using that E zero by blast
    moreover have "rg_nr_extents (rg_of m (esrg_heap e ! heap_parent i)) = 0" if "i < length (esrg_heap e)" "0 < i" for i
      using z[OF nth_mem, of "heap_parent i"] heap_parent_less[of i] that by simp
    then have "is_heap (RGCmp m) (esrg_heap e)" by (simp add: is_heap_def RGCmp_def)
    moreover have "set (esrg_heap e) = {i. \<exists>g. map_of m i = Some g \<and> hd (rg_extent_servers g) = p}" using E d by auto
    ultimately have "queue_ok m p (esrg_heap e)" unfolding queue_ok_def using E by auto
    then show "\<exists>e. map_of ers p = Some e \<and> queue_ok m p (esrg_heap e)" using e by blast
  qed
  then show ?thesis using l(2) by simp
qed

text \<open>C21: Allocating \<open>n\<close> extents in a freshly initialised pool none of whose groups is nearly full
  gives \<open>n\<close> groups of the pool, whatever the order of the groups; each group counts exactly
  the extents it was given, and two groups with the same primary never differ by more than
  one extent.\<close>

theorem extents_balanced:
  assumes "distinct (map fst m)" "m \<noteq> []" "\<forall>(i, g)\<in>set m. i \<noteq> [] \<and> rg_extent_servers g \<noteq> [] \<and> rg_nr_extents g = 0"
    and full: "\<forall>i\<in>fst ` set m. nearfull m em i = Some False"
    and b: "build_heap (RgManager \<lparr> rgm_map := m \<rparr>) = Some mgr" and n: "0 \<le> n" "n < 2 ^ 31"
  shows "\<exists>s ids st' mgr'. allocate_rgs crc st mgr em n = Some (s, ids, st', mgr') \<and> (st_ok s \<or> st_code s = CYPRE_EM_STORE_ERROR) \<and>
    length ids = nat n \<and> set ids \<subseteq> fst ` set m \<and> (\<forall>i\<in>fst ` set m. rg_nr_extents (rg_of (rgm_map mgr') i) = count_list ids i) \<and>
    (\<forall>(i, g)\<in>set m. \<forall>(j, h)\<in>set m. hd (rg_extent_servers g) = hd (rg_extent_servers h) \<longrightarrow> count_list ids i \<le> count_list ids j + 1)"
proof -
  have "\<forall>(i, g)\<in>set m. rg_extent_servers g \<noteq> [] \<and> rg_nr_extents g = 0" using assms(3) by blast
  then have q: "queues_ok mgr" "rgm_map mgr = m" using build_heap_queues[OF assms(1) _ assms(2) b] by blast+
  have "\<forall>i\<in>dom (map_of (rgm_map mgr)). i \<noteq> [] \<and> nearfull (rgm_map mgr) em i = Some False"
    unfolding q(2) dom_map_of_conv_image_fst using assms(3) full by fastforce
  moreover have "\<forall>g\<in>ran (map_of (rgm_map mgr)). rg_nr_extents g + nat n < 2 ^ 64"
    using assms(3) n unfolding q(2) ran_distinct[OF assms(1)] by auto
  ultimately obtain ids mgr' where r: "allocate_loop (nat n) mgr em [] = Some (True, ids, mgr')" "length ids = nat n" "set ids \<subseteq> fst ` set m" "queues_ok mgr'"
      "\<And>i. map_of (rgm_map mgr') i = map_option (\<lambda>g. g \<lparr> rg_nr_extents := rg_nr_extents g + count_list ids i \<rparr>) (map_of m i)"
    using allocate_loop_ok[OF q(1), of em "nat n" "[]"] unfolding q(2) dom_map_of_conv_image_fst by fastforce
  have new: "map_of (rgm_map mgr') i = Some (g \<lparr> rg_nr_extents := count_list ids i \<rparr>)" if "(i, g) \<in> set m" for i g
    using that assms(1,3) r(5)[of i] by fastforce
  have "count_list ids i \<le> count_list ids j + 1" if ij: "(i, g) \<in> set m" "(j, h) \<in> set m" "hd (rg_extent_servers g) = hd (rg_extent_servers h)" for i g j h
  proof -
    let ?p = "hd (rg_extent_servers g)"
    have "?p \<in> set (rgm_heap mgr')" using r(4) new[OF ij(1)] unfolding queues_ok_def by (metis ranI replication_group.select_convs(7) replication_group.surjective replication_group.update_convs(3))
    then obtain e :: es_rg where e: "queue_ok (rgm_map mgr') ?p (esrg_heap e)" using r(4) unfolding queues_ok_def by blast
    have "i \<in> set (esrg_heap e)" "j \<in> set (esrg_heap e)" using e new[OF ij(1)] new[OF ij(2)] ij(3) unfolding queue_ok_def by simp_all
    then have "rg_nr_extents (rg_of (rgm_map mgr') i) \<le> rg_nr_extents (rg_of (rgm_map mgr') j) + 1" using e unfolding queue_ok_def by blast
    then show ?thesis using new[OF ij(1)] new[OF ij(2)] by (simp add: rg_of_def)
  qed
  moreover have "\<forall>i\<in>fst ` set m. rg_nr_extents (rg_of (rgm_map mgr') i) = count_list ids i" using new by (auto simp: rg_of_def)
  moreover obtain s st' where w: "put_batches 100 (Status CYPRE_EM_STORE_ERROR ''persist replication meta failed'') st []
      (changed_kvs crc (rgm_map mgr') (remdups ids)) = (s, st')" by fastforce
  moreover have "st_ok s \<or> st_code s = CYPRE_EM_STORE_ERROR"
    using w put_batches_status[of 100 "Status CYPRE_EM_STORE_ERROR ''persist replication meta failed''" st "[]" "changed_kvs crc (rgm_map mgr') (remdups ids)"] by auto
  ultimately show ?thesis using r(1-3) by (intro exI[of _ s] exI[of _ ids] exI[of _ st'] exI[of _ mgr']) (auto simp: allocate_rgs_def)
qed

text \<open>Two groups with the same primary.\<close>

definition demo_groups :: rg_map where
  "demo_groups = map (\<lambda>i. (i, ReplicationGroup ''t'' i ''pool-a'' \<lparr> rg_extent_servers := [1, 2] \<rparr>)) [''g1'', ''g2'']"

theorem extents_balanced_witness:
  "\<exists>mgr s ids st' mgr'. build_heap (RgManager \<lparr> rgm_map := demo_groups \<rparr>) = Some mgr \<and>
     allocate_rgs (\<lambda>_. 0) \<lparr> rs_db = [], rs_faults = [] \<rparr> mgr demo_es_map 5 = Some (s, ids, st', mgr') \<and> length ids = 5 \<and>
     count_list ids ''g1'' \<le> count_list ids ''g2'' + 1 \<and> count_list ids ''g2'' \<le> count_list ids ''g1'' + 1"
proof -
  obtain mgr where b: "build_heap (RgManager \<lparr> rgm_map := demo_groups \<rparr>) = Some mgr"
    using build_heap_defined[of "RgManager \<lparr> rgm_map := demo_groups \<rparr>"] by (auto simp: demo_groups_def RgManager_def)
  have f: "\<forall>i\<in>fst ` set demo_groups. nearfull demo_groups demo_es_map i = Some False"
    by (simp add: demo_groups_def nearfull_def demo_es_map_def ExtentServer_def)
  from extents_balanced[OF _ _ _ f b, of 5 "\<lambda>_. 0" "\<lparr> rs_db = [], rs_faults = [] \<rparr>"]
  obtain s ids st' mgr' where "allocate_rgs (\<lambda>_. 0) \<lparr> rs_db = [], rs_faults = [] \<rparr> mgr demo_es_map 5 = Some (s, ids, st', mgr')" "length ids = 5"
    "\<forall>(i, g)\<in>set demo_groups. \<forall>(j, h)\<in>set demo_groups. hd (rg_extent_servers g) = hd (rg_extent_servers h) \<longrightarrow> count_list ids i \<le> count_list ids j + 1"
    by (auto simp: demo_groups_def ReplicationGroup_def)
  then show ?thesis using b by (auto simp: demo_groups_def)
qed

end
