(* ===== verification/Group_Placement.thy ===== *)
theory Group_Placement
  imports Replication_Group
begin

text \<open>
  What the pool manager relies on: the manager of the replication groups of a pool gives
  out only ids of groups that it knows, and never changes the servers of a group
  (\<open>src/src/extentmanager/replication_group.cpp\<close>). The interface is the locale
  \<open>placement\<close>; it is interpreted on \<open>allocate_rgs\<close>.
\<close>

section \<open>Groups and queues\<close>

definition group_servers :: "rg_mgr \<Rightarrow> string \<Rightarrow> int list option" where
  "group_servers mgr i = map_option rg_extent_servers (map_of (rgm_map mgr) i)"

text \<open>The queues hold ids of groups.\<close>

definition queues_known :: "rg_mgr \<Rightarrow> bool" where
  "queues_known mgr \<longleftrightarrow> (\<forall>p\<in>set (rgm_heap mgr). \<exists>e. map_of (rgm_es_rgs mgr) p = Some e \<and> set (esrg_heap e) \<subseteq> dom (map_of (rgm_map mgr)))"

lemma queues_knownD: "queues_known mgr \<Longrightarrow> p \<in> set (rgm_heap mgr) \<Longrightarrow>
    \<exists>e. map_of (rgm_es_rgs mgr) p = Some e \<and> set (esrg_heap e) \<subseteq> dom (map_of (rgm_map mgr))"
  unfolding queues_known_def by blast

lemma dom_group_servers: "dom (group_servers mgr) = dom (map_of (rgm_map mgr))"
  by (auto simp: group_servers_def dom_def)

section \<open>The interface\<close>

locale placement =
  fixes ok :: "'m \<Rightarrow> bool"
    and servers :: "'m \<Rightarrow> string \<Rightarrow> int list option"
    and alloc :: "'c \<Rightarrow> 'm \<Rightarrow> int \<Rightarrow> (status \<times> string list \<times> 'm) option"
  assumes alloc_ok: "ok m \<Longrightarrow> alloc c m n = Some (s, ids, m') \<Longrightarrow> ok m'"
    and alloc_servers: "ok m \<Longrightarrow> alloc c m n = Some (s, ids, m') \<Longrightarrow> servers m' = servers m"
    and alloc_ids: "ok m \<Longrightarrow> alloc c m n = Some (s, ids, m') \<Longrightarrow> set ids \<subseteq> dom (servers m)"
    and alloc_length: "ok m \<Longrightarrow> alloc c m n = Some (s, ids, m') \<Longrightarrow> st_ok s \<Longrightarrow> length ids = nat n"
begin

text \<open>Whatever holds of the servers of every group holds of those of an allocated group.\<close>

lemma alloc_placed:
  assumes "ok m" "alloc c m n = Some (s, ids, m')" "\<forall>i g. servers m i = Some g \<longrightarrow> P g" "i \<in> set ids"
  shows "\<exists>g. servers m' i = Some g \<and> P g"
  using alloc_servers[OF assms(1,2)] alloc_ids[OF assms(1,2)] assms(3,4) by auto

end

section \<open>Allocation keeps the groups\<close>

lemma skip_nearfull_known:
  "skip_nearfull cmp full q tmp = Some (g, q', tmp') \<Longrightarrow> g \<in> set q' \<and> set q' \<union> set tmp' \<subseteq> set q \<union> set tmp"
proof (induction cmp full q tmp rule: skip_nearfull.induct)
  case (1 cmp full q tmp)
  show ?case
  proof (cases q)
    case Nil
    then show ?thesis using 1(2) by (simp add: skip_nearfull.simps)
  next
    case (Cons x xs)
    have q: "insert x (set (heap_pop cmp q)) = set q" by (rule set_repush) (simp add: heap_top_def Cons)
    show ?thesis
    proof (cases "full x = Some True")
      case True
      then have s: "skip_nearfull cmp full (heap_pop cmp q) (tmp @ [x]) = Some (g, q', tmp')"
        using 1(2) Cons by (subst (asm) skip_nearfull.simps) simp
      from 1(1)[OF Cons True _ s] show ?thesis using q by auto
    next
      case False
      then have "g = x \<and> q' = q \<and> tmp' = tmp"
        using 1(2) Cons by (subst (asm) skip_nearfull.simps) (auto split: option.splits bool.splits)
      then show ?thesis using Cons by auto
    qed
  qed
qed

lemma allocate_rg_known:
  assumes k: "queues_known mgr" and a: "allocate_rg mgr em = Some (i, mgr')"
  shows "queues_known mgr' \<and> group_servers mgr' = group_servers mgr \<and> i \<in> dom (group_servers mgr)"
proof -
  let ?m = "rgm_map mgr"
  obtain p where p: "heap_top (rgm_heap mgr) = Some p" using a by (auto simp: allocate_rg_def split: option.splits)
  obtain e where e: "map_of (rgm_es_rgs mgr) p = Some e" "set (esrg_heap e) \<subseteq> dom (map_of ?m)"
    using queues_knownD[OF k heap_top_in[OF p]] by blast
  obtain g q tmp where s: "skip_nearfull (RGCmp ?m) (nearfull ?m em) (esrg_heap e) [] = Some (g, q, tmp)"
    using a p e(1) by (auto simp: allocate_rg_def Let_def split: option.splits)
  note S = skip_nearfull_known[OF s]
  have i: "i = g" using a p e(1) s by (simp add: allocate_rg_def Let_def)
  have g: "g \<in> dom (map_of ?m)" using S e(2) by auto
  let ?m' = "AList.update g ((rg_of ?m g) \<lparr> rg_nr_extents := u64_add (rg_nr_extents (rg_of ?m g)) 1 \<rparr>) ?m"
  let ?q = "fold (heap_push (RGCmp ?m)) tmp q"
  let ?q' = "heap_push (RGCmp ?m') g (heap_pop (RGCmp ?m') ?q)"
  let ?er = "smap_insert p (e \<lparr> esrg_heap := ?q', esrg_nr_extents := u64_add (esrg_nr_extents e) 1 \<rparr>) (rgm_es_rgs mgr)"
  let ?h = "heap_push (EsRgCmp ?er) p (heap_pop (EsRgCmp ?er) (rgm_heap mgr))"
  have mgr': "mgr' = \<lparr> rgm_map = ?m', rgm_es_rgs = ?er, rgm_heap = ?h \<rparr>"
    using a p e(1) s i by (simp add: allocate_rg_def Let_def)
  have d: "dom (map_of ?m') = dom (map_of ?m)" using g by auto
  have "?q \<noteq> []" using S by (metis empty_iff list.set(1) set_fold_push UnCI)
  then obtain x where "heap_top ?q = Some x" using heap_top_ex by blast
  then have "set (heap_pop (RGCmp ?m') ?q) \<subseteq> set ?q" using set_repush by fastforce
  moreover have "set ?q \<subseteq> dom (map_of ?m)" using S e(2) by auto
  ultimately have q': "set ?q' \<subseteq> dom (map_of ?m)" unfolding set_heap_push using g by blast
  have h: "set ?h = set (rgm_heap mgr)" using set_repush[OF p] by simp
  have "queues_known mgr'" unfolding queues_known_def mgr' rg_mgr.select_convs
  proof
    fix c assume "c \<in> set ?h"
    then have c: "c \<in> set (rgm_heap mgr)" unfolding h .
    show "\<exists>e. map_of ?er c = Some e \<and> set (esrg_heap e) \<subseteq> dom (map_of ?m')"
    proof (cases "c = p")
      case True
      then show ?thesis using q' unfolding d by simp
    next
      case False
      then show ?thesis using queues_knownD[OF k c] unfolding d by simp
    qed
  qed
  moreover have "group_servers mgr' = group_servers mgr"
    using g unfolding mgr' group_servers_def by (auto simp: fun_eq_iff rg_of_def)
  ultimately show ?thesis using g i by (simp add: dom_group_servers)
qed

lemma allocate_loop_known:
  assumes "queues_known mgr" "allocate_loop n mgr em acc = Some (ok, ids, mgr')"
  shows "queues_known mgr' \<and> group_servers mgr' = group_servers mgr \<and> (\<exists>new. ids = acc @ new \<and> set new \<subseteq> dom (group_servers mgr) \<and> (ok \<longrightarrow> length new = n))"
  using assms
proof (induction n arbitrary: mgr acc)
  case (Suc n)
  obtain i mgr1 where 1: "allocate_rg mgr em = Some (i, mgr1)" using Suc.prems(2) by (auto split: option.splits)
  note A = allocate_rg_known[OF Suc.prems(1) 1]
  show ?case
  proof (cases "i = []")
    case True
    then show ?thesis using Suc.prems(2) 1 A by auto
  next
    case False
    then have l: "allocate_loop n mgr1 em (acc @ [i]) = Some (ok, ids, mgr')" using Suc.prems(2) 1 by simp
    from Suc.IH[OF _ l] A obtain new where new: "queues_known mgr'" "group_servers mgr' = group_servers mgr1" "ids = (acc @ [i]) @ new"
        "set new \<subseteq> dom (group_servers mgr1)" "ok \<longrightarrow> length new = n" by blast
    then show ?thesis using A by (intro conjI exI[of _ "i # new"]) auto
  qed
qed simp

text \<open>\<open>allocate_rgs\<close> as the pool manager sees it: the store passes through.\<close>

definition allocates :: "(string \<Rightarrow> 32 word) \<times> rocks_store \<times> es_map \<Rightarrow> rg_mgr \<Rightarrow> int \<Rightarrow> (status \<times> string list \<times> rg_mgr) option" where
  "allocates = (\<lambda>(crc, st, em) mgr n. map_option (\<lambda>(s, ids, st, mgr). (s, ids, mgr)) (allocate_rgs crc st mgr em n))"

lemma allocatesE:
  assumes "allocates (crc, st, em) mgr n = Some (s, ids, mgr')"
  obtains k where "allocate_loop (nat n) mgr em [] = Some (k, ids, mgr')" "st_ok s \<longrightarrow> k"
  using assms by (auto simp: allocates_def allocate_rgs_def split: option.splits prod.splits if_splits)

lemma allocates_known:
  assumes "queues_known mgr" "allocates c mgr n = Some (s, ids, mgr')"
  shows "queues_known mgr'" "group_servers mgr' = group_servers mgr" "set ids \<subseteq> dom (group_servers mgr)" "st_ok s \<Longrightarrow> length ids = nat n"
proof -
  obtain crc st em where c: "c = (crc, st, em)" by (cases c)
  obtain k where k: "allocate_loop (nat n) mgr em [] = Some (k, ids, mgr')" "st_ok s \<longrightarrow> k"
    using allocatesE[OF assms(2)[unfolded c]] by blast
  note K = allocate_loop_known[OF assms(1) k(1)]
  show "queues_known mgr'" "group_servers mgr' = group_servers mgr" using K by blast+
  show "set ids \<subseteq> dom (group_servers mgr)" using K by (metis append_Nil)
  show "length ids = nat n" if "st_ok s" using K k(2) that by (metis append_Nil)
qed

interpretation rg_placement: placement queues_known group_servers allocates
  by unfold_locales (fact allocates_known)+

lemma allocate_rgs_placed:
  assumes "queues_known mgr" "allocate_rgs crc st mgr em n = Some (s, ids, st', mgr')"
  shows "queues_known mgr'" "group_servers mgr' = group_servers mgr" "set ids \<subseteq> dom (group_servers mgr)" "st_ok s \<Longrightarrow> length ids = nat n"
proof -
  have a: "allocates (crc, st, em) mgr n = Some (s, ids, mgr')" using assms(2) by (simp add: allocates_def)
  show "queues_known mgr'" "group_servers mgr' = group_servers mgr" "set ids \<subseteq> dom (group_servers mgr)" "st_ok s \<Longrightarrow> length ids = nat n"
    using rg_placement.alloc_ok[OF assms(1) a] rg_placement.alloc_servers[OF assms(1) a]
      rg_placement.alloc_ids[OF assms(1) a] rg_placement.alloc_length[OF assms(1) a] by simp_all
qed

section \<open>Initialisation\<close>

lemma build_heap_known:
  assumes d: "distinct (map fst m)" and b: "build_heap (RgManager \<lparr> rgm_map := m \<rparr>) = Some mgr"
  shows "queues_known mgr" "rgm_map mgr = m"
proof -
  obtain ers heap where l: "build_loop m m ([], []) = Some (ers, heap)" "mgr = \<lparr> rgm_map = m, rgm_es_rgs = ers, rgm_heap = heap \<rparr>"
    using b by (auto simp: build_heap_def RgManager_def)
  have "built [] [] []" by (auto simp: built_def)
  from build_loop_built[OF this l(1)] d have B: "dom (map_of ers) = set heap"
      "\<And>p e. map_of ers p = Some e \<Longrightarrow> set (esrg_heap e) = {i. \<exists>g. (i, g) \<in> set m \<and> hd (rg_extent_servers g) = p}"
    unfolding built_def by auto
  show "queues_known mgr" unfolding queues_known_def l(2) rg_mgr.select_convs
  proof
    fix p assume "p \<in> set heap"
    then obtain e where e: "map_of ers p = Some e" using B(1) by blast
    have "set (esrg_heap e) \<subseteq> dom (map_of m)" unfolding B(2)[OF e] dom_map_of_conv_image_fst by force
    then show "\<exists>e. map_of ers p = Some e \<and> set (esrg_heap e) \<subseteq> dom (map_of m)" using e by blast
  qed
  show "rgm_map mgr = m" using l(2) by simp
qed

text \<open>A group of \<open>n\<close> servers of the table in different failure domains.\<close>

definition spread :: "failure_domain \<Rightarrow> nat \<Rightarrow> es_map \<Rightarrow> int list \<Rightarrow> bool" where
  "spread fd n em g \<longleftrightarrow> length g = n \<and> set g \<subseteq> es_ids em \<and> distinct (map (es_domain fd em) g)"

lemma allocater_init_status: "allocater_init fd x em ess = Some (s, a, em') \<Longrightarrow> st_ok s \<Longrightarrow> s = Status_OK"
  by (cases fd) (auto simp: allocater_init_def by_rack_init_def by_host_init_def by_es_init_def Let_def split: option.splits if_splits prod.splits)

lemma rg_init_placed:
  assumes sh: "\<And>m. mset (shuffle m) = mset m" and i: "rg_init crc now x per shuffle st RgManager em p rc fd (map fst em) = Some (s, st', mgr, em')"
    and "st_ok s" "em \<noteq> []" "1 \<le> rc" "0 < per"
  shows "queues_known mgr" "same_places em em'" "\<forall>j g. group_servers mgr j = Some g \<longrightarrow> spread fd (nat rc) em g"
proof -
  obtain t a em1 where u: "allocater_init fd x em (map fst em) = Some (t, a, em1)"
    using i by (cases "allocater_init fd x em (map fst em)") (auto simp: rg_init_def)
  have "st_ok t" using i u assms(3) by (cases "st_ok t") (simp_all add: rg_init_def)
  then have t: "allocater_init fd x em (map fst em) = Some (Status_OK, a, em1)" using u allocater_init_status[OF u] by simp
  have ess: "set (map fst em) = es_ids em" "map fst em \<noteq> []" using assms(4) by (auto simp: es_ids_def)
  have "0 < card (es_domain fd em ` es_ids em)" using ess(2) by (auto simp: card_gt_0_iff es_ids_def)
  then have rc: "nat rc \<le> card (es_domain fd em ` es_ids em)"
    using rg_init_stuck[OF sh t assms(4) _ _ assms(6), of rc crc now st p] i assms(5) by (cases "1 < rc") (auto simp: not_le intro: ccontr)
  have ok: "build_heap (RgManager \<lparr> rgm_map := rgm_map mgr \<rparr>) = Some mgr \<and> same_places em em' \<and> alloc.groups_ok em fd (nat rc) (rgm_map mgr) \<and>
      rg_frame (rgm_map mgr) = shuffle (new_groups now p (per * length (map fst em)) [])"
    using rg_init_ok[OF sh t ess assms(5) rc, of crc now per st p] i assms(3) by auto
  then show "same_places em em'" by blast
  have d: "distinct (map fst (rgm_map mgr))"
    using conjunct2[OF conjunct2[OF conjunct2[OF ok]]] new_groups_shuffled(2)[OF sh] unfolding fst_rg_frame[of "rgm_map mgr", symmetric] by simp
  show "queues_known mgr" by (rule build_heap_known(1)[OF d]) (use ok in blast)
  show "\<forall>j g. group_servers mgr j = Some g \<longrightarrow> spread fd (nat rc) em g"
  proof (intro allI impI)
    fix j g assume "group_servers mgr j = Some g"
    then obtain r where r: "(j, r) \<in> set (rgm_map mgr)" "g = rg_extent_servers r" by (auto simp: group_servers_def dest: map_of_SomeD)
    then have "alloc.group_ok em fd (nat rc) g" using ok unfolding alloc.groups_ok_def by blast
    then show "spread fd (nat rc) em g" unfolding alloc.group_ok_def spread_def .
  qed
qed

section \<open>The table of servers stays ordered\<close>

abbreviation es_sorted :: "es_map \<Rightarrow> bool" where
  "es_sorted em \<equiv> sorted_wrt (<) (map fst em)"

lemma es_sorted_steps:
  assumes "es_sorted em"
  shows "es_sorted (es_incr_primary i em)" "es_sorted (es_incr_secondary i em)" "es_sorted (set_weight x r i em)"
  using assms by (simp_all add: es_incr_primary_def es_incr_secondary_def set_weight_def Let_def smap_insert_sorted)

lemma by_host_take_sorted:
  assumes "by_host_take incr es_incr a em n = Some (i, a', em')" "\<And>i. es_sorted (es_incr i em)"
  shows "es_sorted em'"
  using assms by (auto simp: by_host_take_def Let_def split: option.splits)

lemma by_rack_take_sorted:
  assumes "by_rack_take incr es_incr a em n = Some (i, a', em')" "\<And>i. es_sorted (es_incr i em)"
  shows "es_sorted em'"
  using assms by (auto simp: by_rack_take_def Let_def split: option.splits)

lemma select_primary_sorted: "select_primary (a, em) = Some (i, a', em') \<Longrightarrow> es_sorted em \<Longrightarrow> es_sorted em'"
  by (cases a) (auto simp: by_rack_primary_def by_host_primary_def by_es_primary_def Let_def es_sorted_steps
      split: option.splits elim!: by_host_take_sorted by_rack_take_sorted)

lemma select_secondary_sorted: "select_secondary (a, em) ess = Some (i, a', em') \<Longrightarrow> es_sorted em \<Longrightarrow> es_sorted em'"
  by (cases a) (auto simp: by_rack_secondary_def by_host_secondary_def by_es_secondary_def Let_def es_sorted_steps
      split: option.splits elim!: by_host_take_sorted by_rack_take_sorted)

lemma extend_groups_sorted:
  assumes "extend_groups sel s m = Some (m', s')" "es_sorted (snd s)"
    and "\<And>s g i s'. sel s g = Some (i, s') \<Longrightarrow> es_sorted (snd s) \<Longrightarrow> es_sorted (snd s')"
  shows "es_sorted (snd s')"
  using assms(1,2)
proof (induction m arbitrary: s m')
  case (Cons r m)
  obtain i g where r: "r = (i, g)" by (cases r)
  obtain e s1 where 1: "sel s (rg_extent_servers g) = Some (e, s1)" using Cons.prems(1) r by (auto split: option.splits)
  then obtain m1 where "extend_groups sel s1 m = Some (m1, s')" using Cons.prems(1) r by auto
  from Cons.IH[OF this assms(3)[OF 1 Cons.prems(2)]] show ?case .
qed simp

lemma extend_rounds_sorted:
  assumes "extend_rounds sel n s m = Some (m', s')" "es_sorted (snd s)"
    and "\<And>s g i s'. sel s g = Some (i, s') \<Longrightarrow> es_sorted (snd s) \<Longrightarrow> es_sorted (snd s')"
  shows "es_sorted (snd s')"
  using assms(1,2)
proof (induction n arbitrary: s m)
  case (Suc n)
  then obtain m1 s1 where 1: "extend_groups sel s m = Some (m1, s1)" "extend_rounds sel n s1 m1 = Some (m', s')"
    by (auto split: option.splits)
  from Suc.IH[OF 1(2) extend_groups_sorted[OF 1(1) Suc.prems(2) assms(3)]] show ?case .
qed simp

lemma fold_step_sorted:
  assumes "\<And>i c. es_sorted (snd c) \<Longrightarrow> es_sorted (snd (f i c))" "es_sorted (snd c)"
  shows "es_sorted (snd (fold f ess c))"
  using assms(2) by (induction ess arbitrary: c) (simp_all add: assms(1))

lemma folds_sorted:
  assumes "es_sorted em"
  shows "fold (by_host_step x r) ess (b, em) = (b', em') \<Longrightarrow> es_sorted em'"
    "fold (by_rack_step x r) ess (c, em) = (c', em') \<Longrightarrow> es_sorted em'"
    "fold (\<lambda>i (heap, em). let em = set_weight x r i em in (heap_push (EsCmp em) i heap, em)) ess (q, em) = (q', em') \<Longrightarrow> es_sorted em'"
proof -
  have 1: "es_sorted (snd (by_host_step x r i c))" if "es_sorted (snd c)" for i c
    using that by (auto simp: by_host_step_def Let_def es_sorted_steps split_beta)
  have 2: "es_sorted (snd (by_rack_step x r i c))" if "es_sorted (snd c)" for i c
    using that by (auto simp: by_rack_step_def Let_def es_sorted_steps split_beta)
  have 3: "es_sorted (snd ((\<lambda>(heap, em). let em = set_weight x r i em in (heap_push (EsCmp em) i heap, em)) c))" if "es_sorted (snd c)" for i c
    using that by (auto simp: Let_def es_sorted_steps split_beta)
  show "fold (by_host_step x r) ess (b, em) = (b', em') \<Longrightarrow> es_sorted em'"
    using fold_step_sorted[where f = "by_host_step x r" and c = "(b, em)" and ess = ess, OF 1] assms by simp
  show "fold (by_rack_step x r) ess (c, em) = (c', em') \<Longrightarrow> es_sorted em'"
    using fold_step_sorted[where f = "by_rack_step x r" and c = "(c, em)" and ess = ess, OF 2] assms by simp
  show "fold (\<lambda>i (heap, em). let em = set_weight x r i em in (heap_push (EsCmp em) i heap, em)) ess (q, em) = (q', em') \<Longrightarrow> es_sorted em'"
    using fold_step_sorted[where f = "\<lambda>i (heap, em). let em = set_weight x r i em in (heap_push (EsCmp em) i heap, em)" and c = "(q, em)" and ess = ess, OF 3] assms by simp
qed

lemma allocater_init_sorted:
  assumes "allocater_init fd x em ess = Some (s, a, em')" "es_sorted em"
  shows "es_sorted em'"
  using assms by (cases fd) (auto simp: allocater_init_def by_rack_init_def by_host_init_def by_es_init_def Let_def
      split: option.splits if_splits prod.splits elim: folds_sorted)

lemma rg_init_sorted:
  assumes i: "rg_init crc now x per sh st mgr em p rc fd ess = Some (s, st', mgr', em')" and em: "es_sorted em"
  shows "es_sorted em'"
proof -
  obtain t a em1 where a: "allocater_init fd x em ess = Some (t, a, em1)" using i by (auto simp: rg_init_def split: option.splits)
  note A = allocater_init_sorted[OF a em]
  show ?thesis
  proof (cases "st_ok t")
    case False
    then show ?thesis using i a A by (simp add: rg_init_def)
  next
    case True
    let ?m = "sh (new_groups now p (per * length ess) (rgm_map mgr))"
    obtain m1 s1 where 1: "extend_groups (\<lambda>s _. select_primary s) (a, em1) ?m = Some (m1, s1)"
      using i a True by (auto simp: rg_init_def split: option.splits)
    have S1: "es_sorted (snd s1)" by (rule extend_groups_sorted[OF 1]) (use A select_primary_sorted in \<open>auto split: prod.splits\<close>)
    obtain m2 b em2 where 2: "extend_rounds select_secondary (nat (rc - 1)) s1 m1 = Some (m2, b, em2)"
      using i a True 1 by (auto simp: rg_init_def split: option.splits)
    have S2: "es_sorted em2" using extend_rounds_sorted[OF 2 S1] select_secondary_sorted by fastforce
    have "em' = em2" using i a True 1 2 by (auto simp: rg_init_def Let_def split: prod.splits if_splits option.splits)
    then show ?thesis using S2 by simp
  qed
qed

end
