(* ===== verification/Blob_Manager.thy ===== *)
theory Blob_Manager
  imports Pb_Types
begin

text \<open>
  Blobs and the blob manager of one pool (\<open>src/src/extentmanager/blob.{h,cpp}\<close>). The
  manager keeps a table of blobs in memory and a copy of each in the store, under a key
  made of the pool and the blob. Operations take the table and the store and return the
  new ones. The time string that a blob records and the extent size of the configuration
  are arguments.
\<close>

section \<open>Blobs\<close>

record blob =
  b_id :: string
  b_name :: string
  b_size :: nat
  b_type :: blob_type
  b_desc :: string
  b_status :: blob_status
  b_pool_id :: string
  b_user_id :: string
  b_instance_id :: string
  b_create_time :: string
  b_update_time :: string

type_synonym blob_map = "(string \<times> blob) list"

definition blobsize_valid :: "nat \<Rightarrow> nat \<Rightarrow> bool" where
  "blobsize_valid extent_size sz \<longleftrightarrow> sz > 0 \<and> sz \<le> kMaxBlobSize \<and> sz mod extent_size = 0"

definition Blob :: "string \<Rightarrow> string \<Rightarrow> string \<Rightarrow> nat \<Rightarrow> blob_type \<Rightarrow> string \<Rightarrow> string \<Rightarrow> string \<Rightarrow> string \<Rightarrow> blob" where
  "Blob now bid name sz type desc pool_id user_id instance_id =
     \<lparr> b_id = bid, b_name = name, b_size = sz, b_type = type, b_desc = desc, b_status = kBlobStatusCreated,
       b_pool_id = pool_id, b_user_id = user_id, b_instance_id = instance_id,
       b_create_time = now, b_update_time = now \<rparr>"

definition ToPbBlob :: "blob \<Rightarrow> pb_blob" where
  "ToPbBlob b =
     \<lparr> pbb_id = b_id b, pbb_name = b_name b, pbb_size = b_size b, pbb_type = toPbBlobType (b_type b), pbb_desc = b_desc b,
       pbb_status = toPbBlobStatus (b_status b), pbb_pool_id = b_pool_id b, pbb_user_id = b_user_id b,
       pbb_instance_id = b_instance_id b, pbb_create_date = b_create_time b, pbb_update_date = b_update_time b \<rparr>"

definition blob_prefix :: "string \<Rightarrow> string" where
  "blob_prefix pool_id = kBlobKvPrefix @ ''_'' @ pool_id"

definition blob_key :: "string \<Rightarrow> string \<Rightarrow> string" where
  "blob_key pool_id bid = blob_prefix pool_id @ ''_'' @ bid"

definition blob_kv_key :: "blob \<Rightarrow> string" where
  "blob_kv_key b = blob_key (b_pool_id b) (b_id b)"

definition put_blob :: "blob \<Rightarrow> string" where
  "put_blob b = put_u32 0 @ put_str (b_id b) @ put_str (b_name b) @ put_u64 (b_size b) @ put_enum blob_type_codes (b_type b) @
     put_str (b_desc b) @ put_enum blob_status_codes (b_status b) @ put_str (b_pool_id b) @ put_str (b_user_id b) @
     put_str (b_instance_id b) @ put_str (b_create_time b) @ put_str (b_update_time b)"

definition get_blob :: "string \<Rightarrow> (blob \<times> string) option" where
  "get_blob =
     get_then get_u32 (\<lambda>version. get_then get_str (\<lambda>bid. get_then get_str (\<lambda>name. get_then get_u64 (\<lambda>sz.
     get_then (get_enum blob_type_codes) (\<lambda>type. get_then get_str (\<lambda>desc.
     get_then (get_enum blob_status_codes) (\<lambda>status. get_then get_str (\<lambda>pool_id. get_then get_str (\<lambda>user_id.
     get_then get_str (\<lambda>instance_id. get_then get_str (\<lambda>create_time. get_then get_str (\<lambda>update_time r.
       Some (\<lparr> b_id = bid, b_name = name, b_size = sz, b_type = type, b_desc = desc, b_status = status,
               b_pool_id = pool_id, b_user_id = user_id, b_instance_id = instance_id,
               b_create_time = create_time, b_update_time = update_time \<rparr>, r)))))))))))))"

section \<open>Operations of \<open>BlobManager\<close>\<close>

definition persist_blob :: "(string \<Rightarrow> 32 word) \<Rightarrow> rocks_store \<Rightarrow> blob \<Rightarrow> rocks_status \<times> rocks_store" where
  "persist_blob crc st b = RocksStore_Put st (blob_kv_key b) (Serializer_Encode crc put_blob b)"

definition create_blob :: "(string \<Rightarrow> 32 word) \<Rightarrow> string \<Rightarrow> rocks_store \<Rightarrow> blob_map \<Rightarrow> string \<Rightarrow> string \<Rightarrow> nat \<Rightarrow> blob_type
    \<Rightarrow> string \<Rightarrow> string \<Rightarrow> string \<Rightarrow> string \<Rightarrow> status \<times> rocks_store \<times> blob_map" where
  "create_blob crc now st m bid name sz type desc pool_id user_id instance_id =
     (let b = Blob now bid name sz type desc pool_id user_id instance_id;
          (s, st) = persist_blob crc st b
      in if \<not> rs_ok s then (Status CYPRE_EM_STORE_ERROR ''persist blob meta to store failed'', st, m)
         else (Status_OK, st, AList.update (b_id b) b m))"

definition soft_delete_blob :: "(string \<Rightarrow> 32 word) \<Rightarrow> rocks_store \<Rightarrow> blob_map \<Rightarrow> string \<Rightarrow> string
    \<Rightarrow> status \<times> rocks_store \<times> blob_map" where
  "soft_delete_blob crc st m user_id blob_id =
     (case map_of m blob_id of
        None \<Rightarrow> (Status CYPRE_EM_BLOB_NOT_FOUND ''not find blob'', st, m)
      | Some b \<Rightarrow>
          if b_status b = kBlobStatusDeleted then (Status CYPRE_EM_BLOB_NOT_FOUND ''not find blob'', st, m)
          else if b_user_id b \<noteq> user_id then (Status CYPRE_ER_NO_PERMISSION ''userid not correct'', st, m)
          else let b = b \<lparr> b_status := kBlobStatusDeleted \<rparr>;
                   m = AList.update blob_id b m;
                   (s, st) = persist_blob crc st b
               in if \<not> rs_ok s then (Status CYPRE_EM_STORE_ERROR ''delete blob meta from store failed'', st, m)
                  else (Status_OK, st, m))"

definition rename_blob :: "(string \<Rightarrow> 32 word) \<Rightarrow> string \<Rightarrow> rocks_store \<Rightarrow> blob_map \<Rightarrow> string \<Rightarrow> string \<Rightarrow> string
    \<Rightarrow> status \<times> rocks_store \<times> blob_map" where
  "rename_blob crc now st m user_id blob_id new_name =
     (case map_of m blob_id of
        None \<Rightarrow> (Status CYPRE_EM_BLOB_NOT_FOUND ''not found blob'', st, m)
      | Some b \<Rightarrow>
          if b_status b = kBlobStatusDeleted then (Status CYPRE_EM_BLOB_NOT_FOUND ''not found blob'', st, m)
          else if b_user_id b \<noteq> user_id then (Status CYPRE_ER_NO_PERMISSION ''userid not correct'', st, m)
          else let old_name = b_name b; old_time = b_update_time b;
                   b = b \<lparr> b_name := new_name, b_update_time := now \<rparr>;
                   (s, st) = persist_blob crc st b
               in if \<not> rs_ok s
                  then (Status CYPRE_EM_STORE_ERROR ''persist blob meta to store failed'', st,
                        AList.update blob_id (b \<lparr> b_name := old_name, b_update_time := old_time \<rparr>) m)
                  else (Status_OK, st, AList.update blob_id b m))"

text \<open>\<open>resize_blob\<close> also returns the old size.\<close>

definition resize_blob :: "nat \<Rightarrow> (string \<Rightarrow> 32 word) \<Rightarrow> string \<Rightarrow> rocks_store \<Rightarrow> blob_map \<Rightarrow> string \<Rightarrow> string \<Rightarrow> nat
    \<Rightarrow> status \<times> nat option \<times> rocks_store \<times> blob_map" where
  "resize_blob extent_size crc now st m user_id blob_id new_size =
     (case map_of m blob_id of
        None \<Rightarrow> (Status CYPRE_EM_BLOB_NOT_FOUND ''not find blob'', None, st, m)
      | Some b \<Rightarrow>
          if b_status b = kBlobStatusDeleted then (Status CYPRE_EM_BLOB_NOT_FOUND ''not find blob'', None, st, m)
          else if b_user_id b \<noteq> user_id then (Status CYPRE_ER_NO_PERMISSION ''userid not correct'', None, st, m)
          else let sz = b_size b in
            if \<not> blobsize_valid extent_size new_size \<or> new_size \<le> sz
            then (Status CYPRE_ER_INVALID_ARGUMENT ''new size invalid or smaller than old size'', None, st, m)
            else let old_time = b_update_time b;
                     b = b \<lparr> b_size := new_size, b_update_time := now \<rparr>;
                     (s, st) = persist_blob crc st b
                 in if \<not> rs_ok s
                    then (Status CYPRE_EM_STORE_ERROR ''persist blob meta to store failed'', Some sz, st,
                          AList.update blob_id (b \<lparr> b_size := sz, b_update_time := old_time \<rparr>) m)
                    else (Status_OK, Some sz, st, AList.update blob_id b m))"

definition blobs_recovery_from_store :: "(string \<Rightarrow> 32 word) \<Rightarrow> rocks_store \<Rightarrow> blob_map \<Rightarrow> string \<Rightarrow> (bool \<times> blob_map) option" where
  "blobs_recovery_from_store crc st m pool_id =
     recover_values AList.update (Serializer_Decode crc get_blob) b_id (map snd (RocksStore_ScanPrefix st (blob_prefix pool_id))) m"

definition query_blob :: "blob_map \<Rightarrow> string \<Rightarrow> bool \<Rightarrow> status \<times> pb_blob option" where
  "query_blob m blob_id all =
     (case map_of m blob_id of
        None \<Rightarrow> (Status CYPRE_EM_BLOB_NOT_FOUND ''not find blob'', None)
      | Some b \<Rightarrow>
          if \<not> all \<and> b_status b = kBlobStatusDeleted then (Status CYPRE_EM_BLOB_NOT_FOUND ''not find blob'', None)
          else (Status_OK, Some (ToPbBlob b)))"

definition list_user_blobs :: "blob_map \<Rightarrow> string \<Rightarrow> pb_blob list" where
  "list_user_blobs m user_id =
     map (\<lambda>(_, b). ToPbBlob b) (filter (\<lambda>(_, b). b_user_id b = user_id \<and> b_status b \<noteq> kBlobStatusDeleted) m)"

definition list_user_blob_ids :: "blob_map \<Rightarrow> string \<Rightarrow> string list" where
  "list_user_blob_ids m user_id = map fst (filter (\<lambda>(_, b). b_user_id b = user_id) m)"

definition list_blob_ids :: "blob_map \<Rightarrow> bool \<Rightarrow> string list" where
  "list_blob_ids m deleted = map fst (filter (\<lambda>(_, b). (deleted \<and> b_status b = kBlobStatusDeleted) \<or> \<not> deleted) m)"

definition delete_blob :: "rocks_store \<Rightarrow> blob_map \<Rightarrow> string \<Rightarrow> status \<times> rocks_store \<times> blob_map" where
  "delete_blob st m blob_id =
     (case map_of m blob_id of
        None \<Rightarrow> (Status CYPRE_EM_BLOB_NOT_FOUND ''not found blob'', st, m)
      | Some b \<Rightarrow>
          let (s, st) = RocksStore_Delete st (blob_kv_key b) in
          if \<not> rs_ok s then (Status CYPRE_EM_DELETE_ERROR ''Delete blob meta from store failed'', st, m)
          else (Status_OK, st, AList.delete blob_id m))"

definition blobid_exist :: "blob_map \<Rightarrow> string \<Rightarrow> bool" where
  "blobid_exist m blob_id \<longleftrightarrow> map_of m blob_id \<noteq> None"

definition blob_valid :: "blob_map \<Rightarrow> string \<Rightarrow> bool" where
  "blob_valid m blob_id = (case map_of m blob_id of None \<Rightarrow> False | Some b \<Rightarrow> b_status b \<noteq> kBlobStatusDeleted)"

section \<open>What holds of a manager\<close>

definition blob_fits :: "blob \<Rightarrow> bool" where
  "blob_fits b \<longleftrightarrow> b_size b < 2 ^ 64 \<and>
     (\<forall>s\<in>{b_id b, b_name b, b_desc b, b_pool_id b, b_user_id b, b_instance_id b, b_create_time b, b_update_time b}. length s < 2 ^ 24)"

definition pool_blob :: "string \<Rightarrow> blob \<Rightarrow> bool" where
  "pool_blob pool_id b \<longleftrightarrow> blob_fits b \<and> b_pool_id b = pool_id"

text \<open>Table and store agree, every blob is filed under its own id and belongs to the pool.\<close>

definition blobs_inv :: "(string \<Rightarrow> 32 word) \<Rightarrow> string \<Rightarrow> rocks_store \<Rightarrow> blob_map \<Rightarrow> bool" where
  "blobs_inv crc pool_id st m \<longleftrightarrow> distinct (map fst m) \<and>
     table_inv kv_wf kv_lookup put_blob (pool_blob pool_id) (blob_prefix pool_id) (blob_key pool_id) b_id crc st (map_of m)"

text \<open>The calls that change a manager, and runs of them. Creation gets an unused id.\<close>

datatype blob_op =
    Create string string string nat blob_type string string string
  | Soft_delete string string
  | Rename string string string string
  | Resize string string string nat
  | Erase string

fun blob_exec :: "nat \<Rightarrow> (string \<Rightarrow> 32 word) \<Rightarrow> string \<Rightarrow> blob_op \<Rightarrow> rocks_store \<times> blob_map \<Rightarrow> status \<times> rocks_store \<times> blob_map" where
  "blob_exec es crc p (Create now i name sz type desc user inst) (st, m) = create_blob crc now st m i name sz type desc p user inst"
| "blob_exec es crc p (Soft_delete user i) (st, m) = soft_delete_blob crc st m user i"
| "blob_exec es crc p (Rename now user i name) (st, m) = rename_blob crc now st m user i name"
| "blob_exec es crc p (Resize now user i sz) (st, m) =
     (case resize_blob es crc now st m user i sz of (s, _, st, m) \<Rightarrow> (s, st, m))"
| "blob_exec es crc p (Erase i) (st, m) = delete_blob st m i"

fun blob_run :: "nat \<Rightarrow> (string \<Rightarrow> 32 word) \<Rightarrow> string \<Rightarrow> blob_op list \<Rightarrow> rocks_store \<times> blob_map \<Rightarrow> status list \<times> rocks_store \<times> blob_map" where
  "blob_run es crc p [] c = ([], c)"
| "blob_run es crc p (op # ops) c =
     (case blob_exec es crc p op c of (s, c) \<Rightarrow> (case blob_run es crc p ops c of (ss, c) \<Rightarrow> (s # ss, c)))"

text \<open>Requests whose strings fit into a message.\<close>

fun op_fits :: "string \<Rightarrow> blob_op \<Rightarrow> bool" where
  "op_fits p (Create now i name sz type desc user inst) \<longleftrightarrow> pool_blob p (Blob now i name sz type desc p user inst)"
| "op_fits p (Rename now user i name) \<longleftrightarrow> length now < 2 ^ 24 \<and> length name < 2 ^ 24"
| "op_fits p (Resize now user i sz) \<longleftrightarrow> length now < 2 ^ 24 \<and> sz < 2 ^ 64"
| "op_fits p _ \<longleftrightarrow> True"

text \<open>A soft deletion that the store did not take.\<close>

fun lost_delete :: "blob_op \<Rightarrow> status \<Rightarrow> bool" where
  "lost_delete (Soft_delete user i) s \<longleftrightarrow> st_code s = CYPRE_EM_STORE_ERROR"
| "lost_delete op s \<longleftrightarrow> False"

text \<open>A run that the examples use.\<close>

definition demo_ops :: "blob_op list" where
  "demo_ops = [Create ''t0'' ''b1'' ''disk'' 4096 kBlobTypeGeneral ''d'' ''u1'' ''i'', Rename ''t1'' ''u2'' ''b1'' ''x'',
     Rename ''t2'' ''u1'' ''b1'' ''y'', Soft_delete ''u1'' ''b1'']"

definition demo_blob :: blob where
  "demo_blob = Blob ''t0'' ''b1'' ''disk'' 4096 kBlobTypeGeneral ''d'' ''pool-a'' ''u1'' ''i''"

definition demo_store :: rocks_store where
  "demo_store = \<lparr> rs_db = [], rs_faults = [False, True] \<rparr>"

section \<open>The blob table\<close>

interpretation blobs: meta_table kv_wf kv_lookup RocksStore_Put RocksStore_Delete RocksStore_ScanPrefix
  put_blob get_blob "pool_blob pool_id" "blob_prefix pool_id" "blob_key pool_id" b_id for pool_id
  by unfold_locales (auto simp: blob_key_def put_blob_def get_blob_def pool_blob_def blob_fits_def)

lemma blobs_inv_blob: "blobs_inv crc p st m \<Longrightarrow> map_of m i = Some b \<Longrightarrow> b_id b = i \<and> pool_blob p b"
  by (auto simp: blobs_inv_def dest: table_invD(3,4) simp del: map_of_eq_Some_iff)

text \<open>A write of one blob, and a deletion.\<close>

lemma persist_blob_inv:
  assumes "blobs_inv crc p st m" "persist_blob crc st b = (s, st')" "pool_blob p b"
  shows "blobs_inv crc p st' (if rs_ok s then AList.update (b_id b) b m else m)"
proof -
  have "RocksStore_Put st (blob_key p (b_id b)) (Serializer_Encode crc put_blob b) = (s, st')"
    using assms(2,3) by (simp add: persist_blob_def blob_kv_key_def pool_blob_def)
  from blobs.inv_put[OF _ assms(3) this, of "map_of m"] show ?thesis
    using assms(1) by (cases "rs_ok s") (simp_all add: blobs_inv_def distinct_update)
qed

lemma delete_blob_inv:
  assumes inv: "blobs_inv crc p st m" and d: "delete_blob st m i = (s, st', m')"
  shows "blobs_inv crc p st' m'" "map_of m' = (if st_ok s then (map_of m)(i := None) else map_of m)"
proof -
  have "blobs_inv crc p st' m' \<and> map_of m' = (if st_ok s then (map_of m)(i := None) else map_of m)"
  proof (cases "map_of m i")
    case None
    then show ?thesis using d inv by (auto simp: delete_blob_def)
  next
    case (Some b)
    then have k: "blob_kv_key b = blob_key p i" using blobs_inv_blob[OF inv] by (simp add: blob_kv_key_def pool_blob_def)
    obtain r st1 where del: "RocksStore_Delete st (blob_key p i) = (r, st1)" by fastforce
    note t = blobs.inv_del[OF _ del, of crc "map_of m"]
    show ?thesis using d del k Some inv t
      by (cases "rs_ok r") (auto simp: delete_blob_def blobs_inv_def distinct_delete Let_def)
  qed
  then show "blobs_inv crc p st' m'" "map_of m' = (if st_ok s then (map_of m)(i := None) else map_of m)" by simp_all
qed

text \<open>The operations on one existing blob change its record, or nothing.\<close>

lemma soft_delete_blob_cases:
  obtains (refused) s where "soft_delete_blob crc st m user i = (s, st, m)" "\<not> st_ok s" "st_code s \<noteq> CYPRE_EM_STORE_ERROR"
  | (run) b r st' where "map_of m i = Some b" "b_status b \<noteq> kBlobStatusDeleted" "b_user_id b = user"
      "persist_blob crc st (b \<lparr> b_status := kBlobStatusDeleted \<rparr>) = (r, st')"
      "soft_delete_blob crc st m user i =
         (if rs_ok r then Status_OK else Status CYPRE_EM_STORE_ERROR ''delete blob meta from store failed'', st',
          AList.update i (b \<lparr> b_status := kBlobStatusDeleted \<rparr>) m)"
proof (cases "map_of m i")
  case None
  then show thesis using refused by (simp add: soft_delete_blob_def)
next
  case (Some b)
  obtain r st' where p: "persist_blob crc st (b \<lparr> b_status := kBlobStatusDeleted \<rparr>) = (r, st')" by fastforce
  show thesis
  proof (cases "b_status b = kBlobStatusDeleted \<or> b_user_id b \<noteq> user")
    case True
    then have "\<exists>s. soft_delete_blob crc st m user i = (s, st, m) \<and> \<not> st_ok s \<and> st_code s \<noteq> CYPRE_EM_STORE_ERROR"
      using Some by (auto simp: soft_delete_blob_def)
    then show thesis by (elim exE conjE) (rule refused)
  next
    case False
    then show thesis using run[OF Some _ _ p] Some p by (simp add: soft_delete_blob_def Let_def)
  qed
qed

lemma rename_blob_cases:
  obtains (refused) s where "rename_blob crc now st m user i name = (s, st, m)" "\<not> st_ok s"
  | (run) b r st' where "map_of m i = Some b" "b_status b \<noteq> kBlobStatusDeleted" "b_user_id b = user"
      "persist_blob crc st (b \<lparr> b_name := name, b_update_time := now \<rparr>) = (r, st')"
      "rename_blob crc now st m user i name =
         (if rs_ok r then (Status_OK, st', AList.update i (b \<lparr> b_name := name, b_update_time := now \<rparr>) m)
          else (Status CYPRE_EM_STORE_ERROR ''persist blob meta to store failed'', st', m))"
proof (cases "map_of m i")
  case None
  then show thesis using refused by (simp add: rename_blob_def)
next
  case (Some b)
  obtain r st' where p: "persist_blob crc st (b \<lparr> b_name := name, b_update_time := now \<rparr>) = (r, st')" by fastforce
  show thesis
  proof (cases "b_status b = kBlobStatusDeleted \<or> b_user_id b \<noteq> user")
    case True
    then have "\<exists>s. rename_blob crc now st m user i name = (s, st, m) \<and> \<not> st_ok s"
      using Some by (auto simp: rename_blob_def)
    then show thesis by (elim exE conjE) (rule refused)
  next
    case False
    then show thesis using run[OF Some _ _ p] Some p by (simp add: rename_blob_def Let_def update_same)
  qed
qed

lemma resize_blob_cases:
  obtains (refused) s where "resize_blob es crc now st m user i sz = (s, None, st, m)" "\<not> st_ok s"
  | (run) b r st' where "map_of m i = Some b" "b_status b \<noteq> kBlobStatusDeleted" "b_user_id b = user"
      "blobsize_valid es sz" "b_size b < sz"
      "persist_blob crc st (b \<lparr> b_size := sz, b_update_time := now \<rparr>) = (r, st')"
      "resize_blob es crc now st m user i sz =
         (if rs_ok r then (Status_OK, Some (b_size b), st', AList.update i (b \<lparr> b_size := sz, b_update_time := now \<rparr>) m)
          else (Status CYPRE_EM_STORE_ERROR ''persist blob meta to store failed'', Some (b_size b), st', m))"
proof (cases "map_of m i")
  case None
  then show thesis using refused by (simp add: resize_blob_def)
next
  case (Some b)
  obtain r st' where p: "persist_blob crc st (b \<lparr> b_size := sz, b_update_time := now \<rparr>) = (r, st')" by fastforce
  show thesis
  proof (cases "b_status b = kBlobStatusDeleted \<or> b_user_id b \<noteq> user \<or> \<not> blobsize_valid es sz \<or> sz \<le> b_size b")
    case True
    then have "\<exists>s. resize_blob es crc now st m user i sz = (s, None, st, m) \<and> \<not> st_ok s"
      using Some by (auto simp: resize_blob_def Let_def)
    then show thesis by (elim exE conjE) (rule refused)
  next
    case False
    then show thesis using run[OF Some _ _ _ _ p] Some p by (simp add: resize_blob_def Let_def update_same)
  qed
qed

text \<open>Every call keeps table and store together, unless it is a soft deletion that the store
  does not take.\<close>

lemma pool_blob_update:
  "pool_blob p b \<Longrightarrow> pool_blob p (b \<lparr> b_status := x \<rparr>)"
  "pool_blob p b \<Longrightarrow> length name < 2 ^ 24 \<Longrightarrow> length now < 2 ^ 24 \<Longrightarrow> pool_blob p (b \<lparr> b_name := name, b_update_time := now \<rparr>)"
  "pool_blob p b \<Longrightarrow> sz < 2 ^ 64 \<Longrightarrow> length now < 2 ^ 24 \<Longrightarrow> pool_blob p (b \<lparr> b_size := sz, b_update_time := now \<rparr>)"
  by (auto simp: pool_blob_def blob_fits_def)

lemma blob_exec_inv:
  assumes inv: "blobs_inv crc p st m" and op: "blob_exec es crc p op (st, m) = (s, st', m')"
    and fits: "op_fits p op" and kept: "\<not> lost_delete op s"
  shows "blobs_inv crc p st' m'"
proof (cases op)
  case (Create now i name sz type desc user inst)
  let ?b = "Blob now i name sz type desc p user inst"
  obtain r st1 where w: "persist_blob crc st ?b = (r, st1)" by fastforce
  from persist_blob_inv[OF inv w] show ?thesis
    using Create op fits w by (cases "rs_ok r") (auto simp: create_blob_def Let_def)
next
  case (Soft_delete user i)
  show ?thesis
  proof (cases rule: soft_delete_blob_cases[of crc st m user i])
    case (run b r st1)
    from persist_blob_inv[OF inv run(4)] show ?thesis
      using Soft_delete op kept run blobs_inv_blob[OF inv run(1)] by (cases "rs_ok r") (auto simp: pool_blob_update)
  qed (use Soft_delete op inv in simp)
next
  case (Rename now user i name)
  show ?thesis
  proof (cases rule: rename_blob_cases[of crc now st m user i name])
    case (run b r st1)
    from persist_blob_inv[OF inv run(4)] show ?thesis
      using Rename op fits run blobs_inv_blob[OF inv run(1)] by (cases "rs_ok r") (auto simp: pool_blob_update)
  qed (use Rename op inv in simp)
next
  case (Resize now user i sz)
  show ?thesis
  proof (cases rule: resize_blob_cases[of es crc now st m user i sz])
    case (run b r st1)
    from persist_blob_inv[OF inv run(6)] show ?thesis
      using Resize op fits run blobs_inv_blob[OF inv run(1)] by (cases "rs_ok r") (auto simp: pool_blob_update)
  qed (use Resize op inv in simp)
next
  case (Erase i)
  then show ?thesis using op delete_blob_inv(1)[OF inv, of i] by simp
qed

lemma blob_run_inv:
  assumes "blobs_inv crc p st m" "blob_run es crc p ops (st, m) = (ss, st', m')"
    and "\<forall>op\<in>set ops. op_fits p op" "\<not> list_ex2 lost_delete ops ss"
  shows "blobs_inv crc p st' m'"
  using assms
proof (induction ops arbitrary: st m ss)
  case (Cons op ops)
  obtain s st1 m1 where e: "blob_exec es crc p op (st, m) = (s, st1, m1)" by (cases "blob_exec es crc p op (st, m)") auto
  obtain ss1 c where r: "blob_run es crc p ops (st1, m1) = (ss1, c)" by (cases "blob_run es crc p ops (st1, m1)")
  then have *: "ss = s # ss1" "blob_run es crc p ops (st1, m1) = (ss1, st', m')" using Cons.prems(2) e by simp_all
  have "blobs_inv crc p st1 m1" by (rule blob_exec_inv[OF Cons.prems(1) e]) (use Cons.prems * in auto)
  then show ?case by (rule Cons.IH[OF _ *(2)]) (use Cons.prems * in auto)
qed simp

lemma blobs_recovered:
  assumes "blobs_inv crc p st m"
  shows "\<exists>t. blobs_recovery_from_store crc st [] p = Some (True, t) \<and> map_of t = map_of m"
  using blobs.recover_table[of p crc st "map_of m" map_of AList.update "[]"] assms
  by (simp add: blobs_inv_def blobs_recovery_from_store_def)

section \<open>Properties of the blob manager\<close>

text \<open>C15: After any sequence of creations, renamings, resizings, soft deletions and removals
  that starts with an empty pool, whatever writes the store refuses, a restarted manager
  recovers exactly the blobs that the running one knows; except that a soft deletion that
  the store refused must not be among them.\<close>

theorem blob_restart_recovers:
  assumes "blobs_inv crc p st []" "blob_run es crc p ops (st, []) = (ss, st', m)"
    and "\<forall>op\<in>set ops. op_fits p op" "\<not> list_ex2 lost_delete ops ss"
  shows "\<exists>t. blobs_recovery_from_store crc st' [] p = Some (True, t) \<and> map_of t = map_of m"
  by (rule blobs_recovered[OF blob_run_inv[OF assms]])

theorem blob_restart_recovers_witness:
  "\<exists>ss st m t. blob_run 4096 (\<lambda>_. 0) ''pool-a'' demo_ops (demo_store, []) = (ss, st, m) \<and>
     blobs_recovery_from_store (\<lambda>_. 0) st [] ''pool-a'' = Some (True, t) \<and> map_of t = map_of m \<and> m \<noteq> []"
proof -
  have inv: "blobs_inv (\<lambda>_. 0) ''pool-a'' demo_store []"
    by (simp add: blobs_inv_def table_inv_def mirrors_def demo_store_def kv_wf_def kv_lookup_def)
  have fits: "\<forall>op\<in>set demo_ops. op_fits ''pool-a'' op"
    by (simp add: demo_ops_def pool_blob_def blob_fits_def Blob_def)
  obtain ss st m where r: "blob_run 4096 (\<lambda>_. 0) ''pool-a'' demo_ops (demo_store, []) = (ss, st, m)" "m \<noteq> []"
      "\<not> list_ex2 lost_delete demo_ops ss"
    by (simp add: demo_ops_def demo_store_def create_blob_def rename_blob_def soft_delete_blob_def Blob_def
        persist_blob_def RocksStore_Put_def kv_write_def rs_ok_def Let_def)
  from blob_restart_recovers[OF inv r(1) fits r(3)] show ?thesis using r(1,2) by blast
qed

text \<open>C28: A call changes an existing blob only in these ways: its owner deletes, renames or
  enlarges it while it is not deleted, to a valid size; it is removed; or a blob is created
  under the same id.\<close>

theorem blob_changes_authorized:
  assumes "blob_exec es crc p op (st, m) = (s, st', m')" "map_of m i = Some b" "map_of m' i \<noteq> Some b"
  shows "b_status b \<noteq> kBlobStatusDeleted \<and>
      (op = Soft_delete (b_user_id b) i \<and> map_of m' i = Some (b \<lparr> b_status := kBlobStatusDeleted \<rparr>) \<or>
       (\<exists>now name. op = Rename now (b_user_id b) i name \<and> map_of m' i = Some (b \<lparr> b_name := name, b_update_time := now \<rparr>)) \<or>
       (\<exists>now sz. op = Resize now (b_user_id b) i sz \<and> b_size b < sz \<and> sz \<le> kMaxBlobSize \<and> sz mod es = 0 \<and>
          map_of m' i = Some (b \<lparr> b_size := sz, b_update_time := now \<rparr>))) \<or>
    op = Erase i \<and> map_of m' i = None \<or>
    (\<exists>now name sz type desc user inst. op = Create now i name sz type desc user inst)"
proof (cases op)
  case (Create now j name sz type desc user inst)
  then show ?thesis using assms by (auto simp: create_blob_def Blob_def Let_def split: prod.splits if_splits)
next
  case (Soft_delete user j)
  show ?thesis
    by (cases rule: soft_delete_blob_cases[of crc st m user j]) (use assms Soft_delete in \<open>auto split: if_splits\<close>)
next
  case (Rename now user j name)
  show ?thesis
    by (cases rule: rename_blob_cases[of crc now st m user j name]) (use assms Rename in \<open>auto split: if_splits\<close>)
next
  case (Resize now user j sz)
  show ?thesis
    by (cases rule: resize_blob_cases[of es crc now st m user j sz])
      (use assms Resize in \<open>auto simp: blobsize_valid_def split: if_splits\<close>)
next
  case (Erase j)
  then show ?thesis using assms by (auto simp: delete_blob_def Let_def split: option.splits prod.splits if_splits)
qed

theorem blob_changes_authorized_witness:
  "\<exists>s st m. blob_exec 4096 (\<lambda>_. 0) ''pool-a'' (Resize ''t1'' ''u1'' ''b1'' 8192) (demo_store, [(''b1'', demo_blob)]) = (s, st, m) \<and>
     map_of m ''b1'' = Some (demo_blob \<lparr> b_size := 8192, b_update_time := ''t1'' \<rparr>)"
proof -
  obtain s st m where r: "blob_exec 4096 (\<lambda>_. 0) ''pool-a'' (Resize ''t1'' ''u1'' ''b1'' 8192) (demo_store, [(''b1'', demo_blob)]) = (s, st, m)"
      "map_of m ''b1'' \<noteq> Some demo_blob"
    by (simp add: demo_blob_def demo_store_def resize_blob_def blobsize_valid_def kMaxBlobSize_def Blob_def
        persist_blob_def RocksStore_Put_def kv_write_def rs_ok_def Let_def)
  from blob_changes_authorized[OF r(1) _ r(2)] show ?thesis using r(1) by auto
qed

text \<open>A soft deletion that the store refuses is answered with an error, but the running
  manager treats the blob as deleted and refuses to delete it again, while a restarted one
  brings it back.\<close>

theorem failed_delete_returns:
  assumes "blobs_inv crc p st m" "map_of m i = Some b" "b_status b \<noteq> kBlobStatusDeleted" "rs_faults st = True # fs"
  shows "\<exists>s st' m' t. soft_delete_blob crc st m (b_user_id b) i = (s, st', m') \<and> st_code s = CYPRE_EM_STORE_ERROR \<and>
    \<not> blob_valid m' i \<and> soft_delete_blob crc st' m' (b_user_id b) i = (Status CYPRE_EM_BLOB_NOT_FOUND ''not find blob'', st', m') \<and>
    blobs_recovery_from_store crc st' [] p = Some (True, t) \<and> map_of t i = Some b"
proof -
  let ?b = "b \<lparr> b_status := kBlobStatusDeleted \<rparr>"
  obtain r st' where w: "persist_blob crc st ?b = (r, st')" by fastforce
  then have "\<not> rs_ok r" using assms(4) by (auto simp: persist_blob_def RocksStore_Put_def kv_write_def rs_ok_def)
  then have inv: "blobs_inv crc p st' m"
    using persist_blob_inv[OF assms(1) w] blobs_inv_blob[OF assms(1,2)] by (simp add: pool_blob_update)
  then obtain t where "blobs_recovery_from_store crc st' [] p = Some (True, t)" "map_of t = map_of m"
    using blobs_recovered by blast
  then show ?thesis using assms(2,3) w \<open>\<not> rs_ok r\<close>
    by (intro exI[of _ "Status CYPRE_EM_STORE_ERROR ''delete blob meta from store failed''"] exI[of _ st']
        exI[of _ "AList.update i ?b m"] exI[of _ t]) (simp add: soft_delete_blob_def blob_valid_def Let_def)
qed

theorem failed_delete_returns_witness:
  "\<exists>st s st' m' t. soft_delete_blob (\<lambda>_. 0) st [(''b1'', demo_blob)] ''u1'' ''b1'' = (s, st', m') \<and> \<not> blob_valid m' ''b1'' \<and>
     blobs_recovery_from_store (\<lambda>_. 0) st' [] ''pool-a'' = Some (True, t) \<and> map_of t ''b1'' = Some demo_blob"
proof -
  have inv: "blobs_inv (\<lambda>_. 0) ''pool-a'' demo_store []"
    by (simp add: blobs_inv_def table_inv_def mirrors_def demo_store_def kv_wf_def kv_lookup_def)
  obtain s st where w: "persist_blob (\<lambda>_. 0) demo_store demo_blob = (s, st)" "rs_ok s" "rs_faults st = [True]"
    by (simp add: demo_store_def persist_blob_def RocksStore_Put_def kv_write_def rs_ok_def)
  have "pool_blob ''pool-a'' demo_blob" by (simp add: pool_blob_def blob_fits_def demo_blob_def Blob_def)
  from persist_blob_inv[OF inv w(1) this] w(2) have i: "blobs_inv (\<lambda>_. 0) ''pool-a'' st [(''b1'', demo_blob)]"
    by (simp add: demo_blob_def Blob_def)
  have u: "b_user_id demo_blob = ''u1''" "b_status demo_blob \<noteq> kBlobStatusDeleted" by (simp_all add: demo_blob_def Blob_def)
  have m: "map_of [(''b1'', demo_blob)] ''b1'' = Some demo_blob" by simp
  from failed_delete_returns[OF i m u(2) w(3), unfolded u(1)] show ?thesis
    by (elim exE conjE) (intro exI conjI, assumption+)
qed

end
