(* ===== verification/Router_Manager.thy ===== *)
theory Router_Manager
  imports Pb_Types Utils
begin

text \<open>
  The router manager of the extent manager
  (\<open>src/src/extentmanager/extent_router.{h,cpp}\<close>, \<open>src/src/common/extent_id_generator.h\<close>):
  which replication group holds an extent. The routers are in the store; a cache in memory,
  split into \<open>2 ^ router_inst_shift\<close> maps by the hash of the extent id, is filled by queries.
  \<open>None\<close> is an access outside the vector of replication groups.
\<close>

section \<open>Extent ids\<close>

definition GenerateExtentID :: "string \<Rightarrow> nat \<Rightarrow> string" where
  "GenerateExtentID blob_id extent_index = blob_id @ ''.'' @ dec_digits extent_index"

definition GetBlobId :: "string \<Rightarrow> string" where
  "GetBlobId extent_id = takeWhile (\<lambda>c. c \<noteq> CHR ''.'') extent_id"

section \<open>Routers\<close>

record em_router =
  er_extent_id :: string
  er_pool_id :: string
  er_rg_id :: string
  er_blob_id :: string
  er_create_time :: string
  er_update_time :: string

definition EmRouter :: "string \<Rightarrow> string \<Rightarrow> string \<Rightarrow> string \<Rightarrow> string \<Rightarrow> em_router" where
  "EmRouter now extent_id pool_id rg_id blob_id =
     \<lparr> er_extent_id = extent_id, er_pool_id = pool_id, er_rg_id = rg_id, er_blob_id = blob_id,
       er_create_time = now, er_update_time = now \<rparr>"

definition router_key :: "string \<Rightarrow> string" where
  "router_key extent_id = kERKvPrefix @ ''_'' @ extent_id"

definition router_kv_key :: "em_router \<Rightarrow> string" where
  "router_kv_key er = router_key (er_extent_id er)"

definition put_router :: "em_router \<Rightarrow> string" where
  "put_router er = put_u32 0 @ put_str (er_extent_id er) @ put_str (er_pool_id er) @ put_str (er_rg_id er) @
     put_str (er_blob_id er) @ put_str (er_create_time er) @ put_str (er_update_time er)"

definition get_router :: "string \<Rightarrow> (em_router \<times> string) option" where
  "get_router =
     get_then get_u32 (\<lambda>version. get_then get_str (\<lambda>extent_id. get_then get_str (\<lambda>pool_id. get_then get_str (\<lambda>rg_id.
     get_then get_str (\<lambda>blob_id. get_then get_str (\<lambda>create_time. get_then get_str (\<lambda>update_time r.
       Some (\<lparr> er_extent_id = extent_id, er_pool_id = pool_id, er_rg_id = rg_id, er_blob_id = blob_id,
               er_create_time = create_time, er_update_time = update_time \<rparr>, r))))))))"

section \<open>The cache\<close>

record router_mgr =
  rm_shift :: nat
  rm_maps :: "(string \<times> em_router) list list"

definition RouterManager :: "nat \<Rightarrow> router_mgr" where
  "RouterManager shift = \<lparr> rm_shift = shift, rm_maps = replicate (2 ^ shift) [] \<rparr>"

definition remain :: "router_mgr \<Rightarrow> string \<Rightarrow> nat" where
  "remain rm extent_id = unat (mur_mur_hash extent_id) mod 2 ^ rm_shift rm"

definition look_in_cache :: "router_mgr \<Rightarrow> string \<Rightarrow> status \<times> (string \<times> string) option" where
  "look_in_cache rm extent_id =
     (case map_of (rm_maps rm ! remain rm extent_id) extent_id of
        Some er \<Rightarrow> (Status_OK, Some (er_pool_id er, er_rg_id er))
      | None \<Rightarrow> (Status CYPRE_EM_ROUTER_NOT_FOUND [], None))"

definition put_in_cache :: "router_mgr \<Rightarrow> string \<Rightarrow> em_router \<Rightarrow> router_mgr" where
  "put_in_cache rm extent_id er =
     (let i = remain rm extent_id; m = rm_maps rm ! i in
      if map_of m extent_id \<noteq> None then rm
      else rm \<lparr> rm_maps := (rm_maps rm)[i := AList.update extent_id er m] \<rparr>)"

definition delete_in_cache :: "router_mgr \<Rightarrow> string \<Rightarrow> router_mgr" where
  "delete_in_cache rm extent_id =
     (let i = remain rm extent_id; m = rm_maps rm ! i in
      if map_of m extent_id = None then rm
      else rm \<lparr> rm_maps := (rm_maps rm)[i := AList.delete extent_id m] \<rparr>)"

section \<open>Operations of \<open>RouterManager\<close>\<close>

text \<open>The first loop of \<open>create_router\<close>: routers of the extents \<open>i \<dots> end\<close>, by key.\<close>

function new_routers :: "(string \<Rightarrow> 32 word) \<Rightarrow> string \<Rightarrow> string \<Rightarrow> string \<Rightarrow> int \<Rightarrow> int \<Rightarrow> string list
    \<Rightarrow> (string \<times> string) list \<Rightarrow> (string \<times> string) list option" where
  "new_routers crc now pool_id blob_id i end rg_ids m =
     (if i > end then Some m
      else case rg_ids of
          [] \<Rightarrow> None
        | rg_id # rg_ids \<Rightarrow>
            let er = EmRouter now (GenerateExtentID blob_id (nat i)) pool_id rg_id blob_id in
            new_routers crc now pool_id blob_id (i + 1) end rg_ids
              (smap_insert (router_kv_key er) (Serializer_Encode crc put_router er) m))"
  by pat_completeness auto
termination by (relation "measure (\<lambda>(_, _, _, _, i, end, _, _). nat (end + 1 - i))") auto

declare new_routers.simps [simp del]

definition create_router :: "(string \<Rightarrow> 32 word) \<Rightarrow> string \<Rightarrow> rocks_store \<Rightarrow> string \<Rightarrow> string \<Rightarrow> int \<Rightarrow> int \<Rightarrow> string list
    \<Rightarrow> (status \<times> rocks_store) option" where
  "create_router crc now st pool_id blob_id begin end rg_ids =
     map_option (put_batches 100 (Status CYPRE_EM_STORE_ERROR ''persist extent router meta failed'') st []) (new_routers crc now pool_id blob_id begin end rg_ids [])"

definition delete_router :: "rocks_store \<Rightarrow> router_mgr \<Rightarrow> string \<Rightarrow> status \<times> rocks_store \<times> router_mgr" where
  "delete_router st rm extent_id =
     (let (s, st) = RocksStore_Delete st (router_key extent_id) in
      if \<not> rs_ok s then (Status CYPRE_EM_DELETE_ERROR ''delete extent router meta failed'', st, rm)
      else (Status_OK, st, delete_in_cache rm extent_id))"

text \<open>The answer carries the pool and the replication group. \<open>None\<close>: the archive reader throws.\<close>

definition query_router :: "(string \<Rightarrow> 32 word) \<Rightarrow> rocks_store \<Rightarrow> router_mgr \<Rightarrow> string
    \<Rightarrow> (status \<times> (string \<times> string) option \<times> router_mgr) option" where
  "query_router crc st rm extent_id =
     (let (ret, found) = look_in_cache rm extent_id in
      if st_ok ret then Some (ret, found, rm)
      else let (s, value) = RocksStore_Get st (router_key extent_id) in
        if \<not> rs_ok s then
          (if rs_IsNotFound s then Some (Status CYPRE_EM_ROUTER_NOT_FOUND ''Extent router not found.'', None, rm)
           else Some (Status CYPRE_EM_LOAD_ERROR ''Get extent router failed.'', None, rm))
        else (case Serializer_Decode crc get_router value of
            Decode_throw \<Rightarrow> None
          | Decode_ok er \<Rightarrow> Some (Status_OK, Some (er_pool_id er, er_rg_id er), put_in_cache rm extent_id er)
          | Decode_false \<Rightarrow> Some (Status CYPRE_EM_DECODE_ERROR ''Decode extent router meta failed'', None, rm)))"

section \<open>What the manager promises\<close>

text \<open>A map from extents to routers: the store holds it, and the cache a part of it.\<close>

definition router_fits :: "em_router \<Rightarrow> bool" where
  "router_fits er \<longleftrightarrow> (\<forall>s\<in>{er_extent_id er, er_pool_id er, er_rg_id er, er_blob_id er, er_create_time er, er_update_time er}.
     length s < 2 ^ 24)"

definition cache_inv :: "router_mgr \<Rightarrow> (string \<rightharpoonup> em_router) \<Rightarrow> bool" where
  "cache_inv rm m \<longleftrightarrow> length (rm_maps rm) = 2 ^ rm_shift rm \<and>
     (\<forall>i er. map_of (rm_maps rm ! remain rm i) i = Some er \<longrightarrow> m i = Some er)"

definition routers_inv :: "(string \<Rightarrow> 32 word) \<Rightarrow> rocks_store \<Rightarrow> (string \<rightharpoonup> em_router) \<Rightarrow> bool" where
  "routers_inv crc st m \<longleftrightarrow> table_inv kv_wf kv_lookup put_router router_fits kERKvPrefix router_key er_extent_id crc st m"

text \<open>The routers that \<open>create_router\<close> enters.\<close>

definition routers_of :: "string \<Rightarrow> string \<Rightarrow> string \<Rightarrow> nat \<Rightarrow> string list \<Rightarrow> em_router list" where
  "routers_of now pool_id blob_id begin rg_ids =
     map (\<lambda>(i, rg). EmRouter now (GenerateExtentID blob_id i) pool_id rg blob_id) (zip [begin..<begin + length rg_ids] rg_ids)"

definition router_map :: "em_router list \<Rightarrow> (string \<rightharpoonup> em_router)" where
  "router_map ers = map_of (map (\<lambda>er. (er_extent_id er, er)) ers)"

section \<open>Extent ids are unambiguous\<close>

lemma GenerateExtentID_inject [simp]: "GenerateExtentID b i = GenerateExtentID b j \<longleftrightarrow> i = j"
  by (simp add: GenerateExtentID_def)

lemma GetBlobId_Generate: "CHR ''.'' \<notin> set b \<Longrightarrow> GetBlobId (GenerateExtentID b i) = b"
  by (induction b) (auto simp: GetBlobId_def GenerateExtentID_def)

section \<open>The table of routers\<close>

interpretation routers: meta_table kv_wf kv_lookup RocksStore_Put RocksStore_Delete RocksStore_ScanPrefix
  put_router get_router router_fits kERKvPrefix router_key er_extent_id
  by unfold_locales (auto simp: router_key_def put_router_def get_router_def router_fits_def)

lemma router_key_inject [simp]: "router_key i = router_key j \<longleftrightarrow> i = j"
  by (simp add: router_key_def)

text \<open>The routers of a call are filed under different extents.\<close>

lemma routers_of_ids: "map er_extent_id (routers_of now p b k rgs) = map (GenerateExtentID b) [k..<k + length rgs]"
  by (auto simp: routers_of_def EmRouter_def zip_map_fst_snd intro: nth_equalityI)

lemma routers_of_Cons: "routers_of now p b k (rg # rgs) = EmRouter now (GenerateExtentID b k) p rg b # routers_of now p b (Suc k) rgs"
proof -
  have "[k..<k + length (rg # rgs)] = k # [Suc k..<Suc k + length rgs]" using upt_conv_Cons[of k "k + Suc (length rgs)"] by (simp del: upt_Suc)
  then show ?thesis by (simp add: routers_of_def)
qed

lemma distinct_routers_of: "distinct (map er_extent_id (routers_of now p b k rgs))"
  unfolding routers_of_ids by (simp add: distinct_map inj_on_def)

lemma new_routers_eq:
  "new_routers crc now p b (int k) (int k + int n - 1) rgs m =
     (if n \<le> length rgs
      then Some (fold (\<lambda>er. smap_insert (router_kv_key er) (Serializer_Encode crc put_router er)) (routers_of now p b k (take n rgs)) m)
      else None)"
proof (induction n arbitrary: k rgs m)
  case 0
  then show ?case by (subst new_routers.simps) (simp add: routers_of_def)
next
  case (Suc n)
  show ?case
  proof (cases rgs)
    case Nil
    then show ?thesis by (subst new_routers.simps) simp
  next
    case (Cons rg rgs')
    have "new_routers crc now p b (int (Suc k)) (int (Suc k) + int n - 1) rgs' m' =
        new_routers crc now p b (int k + 1) (int k + int (Suc n) - 1) rgs' m'" for m'
      by (simp add: algebra_simps)
    note step = Suc[of "Suc k" rgs', unfolded this]
    show ?thesis unfolding Cons
      by (subst new_routers.simps) (simp add: Let_def step routers_of_Cons del: of_nat_Suc)
  qed
qed

text \<open>Entering routers into the store.\<close>

lemma routers_entered:
  assumes inv: "routers_inv crc st m" and wf: "kv_wf st'" and l: "kv_lookup st' = kv_lookup st ++ map_of L"
    and L: "distinct (map fst L)" "set L \<subseteq> (\<lambda>er. (router_kv_key er, Serializer_Encode crc put_router er)) ` set ers"
    and ers: "distinct (map er_extent_id ers)" "\<forall>er\<in>set ers. router_fits er"
  shows "routers_inv crc st' (m ++ router_map (filter (\<lambda>er. router_kv_key er \<in> fst ` set L) ers))"
proof -
  let ?enc = "Serializer_Encode crc put_router"
  let ?E = "filter (\<lambda>er. router_kv_key er \<in> fst ` set L) ers"
  have rm: "router_map ?E i = Some er \<longleftrightarrow> er \<in> set ?E \<and> er_extent_id er = i" for i er
    unfolding router_map_def using ers(1) by (subst map_of_eq_Some_iff) (auto simp: distinct_map o_def inj_on_def)
  have key: "map_of L (router_key i) = map_option ?enc (router_map ?E i)" for i
  proof (cases "router_map ?E i")
    case None
    have "router_key i \<notin> fst ` set L"
    proof
      assume "router_key i \<in> fst ` set L"
      then obtain v where v: "(router_key i, v) \<in> set L" by auto
      then obtain er where "er \<in> set ers" "router_kv_key er = router_key i" using L(2) by auto
      then have "router_map ?E i = Some er" unfolding rm using v by (force simp: router_kv_key_def)
      then show False using None by simp
    qed
    then show ?thesis using None by (simp add: map_of_eq_None_iff)
  next
    case (Some er)
    then obtain v where v: "(router_kv_key er, v) \<in> set L" "er \<in> set ers" "er_extent_id er = i" unfolding rm by auto
    then obtain er' where "er' \<in> set ers" "router_kv_key er' = router_kv_key er" "v = ?enc er'" using L(2) by auto
    then have "er' = er" using v(2) ers(1) by (auto simp: router_kv_key_def distinct_map dest: inj_onD)
    then have "map_of L (router_key i) = Some (?enc er)" using v L(1) \<open>v = ?enc er'\<close> by (simp add: router_kv_key_def)
    then show ?thesis using Some by simp
  qed
  have "mirrors (kv_lookup st') kERKvPrefix router_key ?enc (m ++ router_map ?E)"
    unfolding mirrors_def
  proof (intro conjI allI impI)
    have m: "mirrors (kv_lookup st) kERKvPrefix router_key ?enc m" by (rule table_invD(2)[OF inv[unfolded routers_inv_def]])
    have m1: "kv_lookup st (router_key i) = map_option ?enc (m i)" for i using m by (simp add: mirrors_def)
    show "kv_lookup st' (router_key i) = map_option ?enc ((m ++ router_map ?E) i)" for i
      unfolding l map_add_def key m1 by (simp split: option.split)
    show "\<exists>i. k = router_key i" if "prefix kERKvPrefix k" "kv_lookup st' k \<noteq> None" for k
    proof (cases "map_of L k")
      case None
      then show ?thesis using m that by (auto simp: l mirrors_def map_add_def)
    next
      case (Some v)
      then have "(k, v) \<in> set L" by (rule map_of_SomeD)
      then show ?thesis using L(2) by (auto simp: router_kv_key_def)
    qed
  qed
  moreover have "er_extent_id er = i \<and> router_fits er" if "(m ++ router_map ?E) i = Some er" for i er
    using that ers(2) inv unfolding map_add_Some_iff rm routers_inv_def table_inv_def by auto
  ultimately show ?thesis using wf unfolding routers_inv_def table_inv_def by blast
qed

lemma create_router_spec:
  assumes inv: "routers_inv crc st m" and n: "n \<le> length rgs"
    and fits: "\<forall>er\<in>set (routers_of now p b k (take n rgs)). router_fits er"
  shows "\<exists>s st' ers. create_router crc now st p b (int k) (int k + int n - 1) rgs = Some (s, st') \<and>
    set ers \<subseteq> set (routers_of now p b k (take n rgs)) \<and> routers_inv crc st' (m ++ router_map ers) \<and>
    (st_ok s \<longrightarrow> ers = routers_of now p b k (take n rgs))"
proof -
  let ?ers = "routers_of now p b k (take n rgs)"
  let ?f = "\<lambda>er. (router_kv_key er, Serializer_Encode crc put_router er)"
  let ?kvs = "fold (\<lambda>er. smap_insert (router_kv_key er) (Serializer_Encode crc put_router er)) ?ers []"
  have s: "sorted_wrt (<) (map fst ?kvs)" "map_of ?kvs = map_of (rev (map ?f ?ers))"
    using fold_smap_insert[of "[]" router_kv_key "Serializer_Encode crc put_router" ?ers] by simp_all
  have d: "distinct (map fst ?kvs)" "distinct (map fst (rev (map ?f ?ers)))"
    using sorted_map_distinct[OF s(1)] distinct_routers_of[of now p b k "take n rgs"]
    by (simp_all add: rev_map[symmetric] distinct_map o_def router_kv_key_def inj_on_def)
  have kvs: "set ?kvs = ?f ` set ?ers" using s(2) by (simp add: map_of_inject_set[OF d])
  let ?err = "Status CYPRE_EM_STORE_ERROR ''persist extent router meta failed''"
  obtain s st' where w: "put_batches 100 ?err st [] ?kvs = (s, st')" by fastforce
  have wf: "kv_wf st" by (rule table_invD(1)[OF inv[unfolded routers_inv_def]])
  from put_batches_spec[OF wf _ w] d(1) obtain j where
    j: "kv_wf st'" "kv_lookup st' = kv_lookup st ++ map_of (take j ?kvs)" "st_ok s \<longrightarrow> length ?kvs \<le> j" by (auto simp: st_ok_def)
  let ?E = "filter (\<lambda>er. router_kv_key er \<in> fst ` set (take j ?kvs)) ?ers"
  have "routers_inv crc st' (m ++ router_map ?E)"
    by (rule routers_entered[OF inv j(1,2) _ _ distinct_routers_of fits])
      (use d(1) kvs in \<open>auto simp: take_map[symmetric] dest: in_set_takeD\<close>)
  moreover have "?E = ?ers" if "st_ok s"
    using that j(3) kvs by (auto simp: image_image intro!: filter_True)
  ultimately show ?thesis using w n
    by (intro exI[of _ s] exI[of _ st'] exI[of _ ?E]) (auto simp: create_router_def new_routers_eq)
qed

section \<open>The cache agrees with the store\<close>

lemma nth_cache: "length (rm_maps rm) = 2 ^ rm_shift rm \<Longrightarrow>
    (rm_maps rm)[remain rm i := x] ! j = (if remain rm i = j then x else rm_maps rm ! j)"
  by (simp add: nth_list_update remain_def)

lemma remain_maps [simp]: "remain (rm \<lparr> rm_maps := x \<rparr>) i = remain rm i"
  by (simp add: remain_def)

lemma put_in_cache_inv: "cache_inv rm m \<Longrightarrow> m i = Some er \<Longrightarrow> cache_inv (put_in_cache rm i er) m"
  by (auto simp: cache_inv_def put_in_cache_def Let_def nth_cache split: if_splits)

lemma delete_in_cache_inv: "cache_inv rm m \<Longrightarrow> cache_inv (delete_in_cache rm i) (m(i := None))"
  by (auto simp: cache_inv_def delete_in_cache_def Let_def nth_cache split: if_splits)

lemma cache_inv_add:
  assumes "cache_inv rm m" "\<forall>er\<in>set ers. m (er_extent_id er) = None"
  shows "cache_inv rm (m ++ router_map ers)"
proof -
  have "router_map ers i = None" if "m i = Some er" for i er
    using that assms(2) by (auto simp: router_map_def map_of_eq_None_iff)
  then show ?thesis using assms(1) by (auto simp: cache_inv_def map_add_Some_iff)
qed

lemma query_router_spec:
  assumes inv: "routers_inv crc st m" and c: "cache_inv rm m"
  shows "\<exists>rm'. query_router crc st rm i =
      Some (case m i of None \<Rightarrow> (Status CYPRE_EM_ROUTER_NOT_FOUND ''Extent router not found.'', None, rm')
            | Some er \<Rightarrow> (Status_OK, Some (er_pool_id er, er_rg_id er), rm')) \<and> cache_inv rm' m"
proof (cases "map_of (rm_maps rm ! remain rm i) i")
  case (Some er)
  then have "m i = Some er" using c by (simp add: cache_inv_def)
  then show ?thesis using Some c by (intro exI[of _ rm]) (simp add: query_router_def look_in_cache_def st_ok_def)
next
  case None
  note T = inv[unfolded routers_inv_def]
  have g: "kv_lookup st (router_key i) = map_option (Serializer_Encode crc put_router) (m i)"
    using table_invD(2)[OF T] by (simp add: mirrors_def)
  show ?thesis
  proof (cases "m i")
    case None' [simp]: None
    then show ?thesis using None g c
      by (intro exI[of _ rm]) (simp add: query_router_def look_in_cache_def st_ok_def RocksStore_Get_def rs_ok_def rs_IsNotFound_def)
  next
    case (Some er)
    from table_invD(4)[OF T Some] have "router_fits er" .
    then have "Serializer_Decode crc get_router (Serializer_Encode crc put_router er) = Decode_ok er"
      by (intro routers.decode_encode routers.short)
    then show ?thesis using None g c Some put_in_cache_inv[OF c Some]
      by (intro exI[of _ "put_in_cache rm i er"])
        (simp add: query_router_def look_in_cache_def st_ok_def RocksStore_Get_def rs_ok_def)
  qed
qed

lemma delete_router_spec:
  assumes inv: "routers_inv crc st m" and c: "cache_inv rm m" and d: "delete_router st rm i = (s, st', rm')"
  shows "routers_inv crc st' (if st_ok s then m(i := None) else m) \<and> cache_inv rm' (if st_ok s then m(i := None) else m)"
proof -
  obtain r st1 where del: "RocksStore_Delete st (router_key i) = (r, st1)" by fastforce
  from routers.inv_del[OF inv[unfolded routers_inv_def] del] delete_in_cache_inv[OF c, of i] show ?thesis
    using d del c by (cases "rs_ok r") (auto simp: delete_router_def routers_inv_def st_ok_def)
qed

section \<open>The routing interface\<close>

locale routing =
  fixes inv :: "'s \<Rightarrow> (string \<rightharpoonup> em_router) \<Rightarrow> bool"
    and query :: "'s \<Rightarrow> string \<Rightarrow> (status \<times> (string \<times> string) option \<times> 's) option"
    and remove :: "'s \<Rightarrow> string \<Rightarrow> status \<times> 's"
    and enter :: "string \<Rightarrow> 's \<Rightarrow> string \<Rightarrow> string \<Rightarrow> nat \<Rightarrow> string list \<Rightarrow> (status \<times> 's) option"
  assumes query_law: "inv s m \<Longrightarrow> \<exists>s'. query s i =
      Some (case m i of None \<Rightarrow> (Status CYPRE_EM_ROUTER_NOT_FOUND ''Extent router not found.'', None, s')
            | Some er \<Rightarrow> (Status_OK, Some (er_pool_id er, er_rg_id er), s')) \<and> inv s' m"
    and remove_law: "inv s m \<Longrightarrow> remove s i = (r, s') \<Longrightarrow> inv s' (if st_ok r then m(i := None) else m)"
    and enter_law: "inv s m \<Longrightarrow> \<forall>er\<in>set (routers_of now p b k rgs). router_fits er \<and> m (er_extent_id er) = None \<Longrightarrow>
      \<exists>r s' ers. enter now s p b k rgs = Some (r, s') \<and> set ers \<subseteq> set (routers_of now p b k rgs) \<and>
        inv s' (m ++ router_map ers) \<and> (st_ok r \<longrightarrow> ers = routers_of now p b k rgs)"
begin

text \<open>Each extent that was entered is found in its replication group.\<close>

lemma query_entered:
  assumes "inv s m" "\<forall>er\<in>set (routers_of now p b k rgs). router_fits er \<and> m (er_extent_id er) = None"
    and "enter now s p b k rgs = Some (r, s')" "st_ok r" "j < length rgs"
  shows "\<exists>s''. query s' (GenerateExtentID b (k + j)) = Some (Status_OK, Some (p, rgs ! j), s'')"
proof -
  let ?er = "EmRouter now (GenerateExtentID b (k + j)) p (rgs ! j) b"
  have i: "inv s' (m ++ router_map (routers_of now p b k rgs))" using enter_law[OF assms(1,2)] assms(3,4) by auto
  have "?er \<in> set (routers_of now p b k rgs)"
    using assms(5) unfolding routers_of_def set_map set_zip by (force intro!: image_eqI[of _ _ "(k + j, rgs ! j)"])
  then have "router_map (routers_of now p b k rgs) (er_extent_id ?er) = Some ?er"
    unfolding router_map_def using distinct_routers_of[of now p b k rgs]
    by (subst map_of_eq_Some_iff) (auto simp: distinct_map o_def inj_on_def)
  then have "(m ++ router_map (routers_of now p b k rgs)) (GenerateExtentID b (k + j)) = Some ?er"
    by (simp add: EmRouter_def)
  with query_law[OF i, of "GenerateExtentID b (k + j)"] show ?thesis by (auto simp: EmRouter_def)
qed

lemma query_removed:
  assumes "inv s m" "remove s i = (r, s')" "st_ok r"
  shows "\<exists>s''. query s' i = Some (Status CYPRE_EM_ROUTER_NOT_FOUND ''Extent router not found.'', None, s'')"
  using query_law[OF remove_law[OF assms(1,2)], of i] assms(3) by auto

end

definition routing_inv :: "(string \<Rightarrow> 32 word) \<Rightarrow> rocks_store \<times> router_mgr \<Rightarrow> (string \<rightharpoonup> em_router) \<Rightarrow> bool" where
  "routing_inv crc = (\<lambda>(st, rm) m. routers_inv crc st m \<and> cache_inv rm m)"

definition routing_query :: "(string \<Rightarrow> 32 word) \<Rightarrow> rocks_store \<times> router_mgr \<Rightarrow> string
    \<Rightarrow> (status \<times> (string \<times> string) option \<times> rocks_store \<times> router_mgr) option" where
  "routing_query crc = (\<lambda>(st, rm) i. map_option (\<lambda>(s, f, rm). (s, f, st, rm)) (query_router crc st rm i))"

definition routing_enter :: "(string \<Rightarrow> 32 word) \<Rightarrow> string \<Rightarrow> rocks_store \<times> router_mgr \<Rightarrow> string \<Rightarrow> string \<Rightarrow> nat \<Rightarrow> string list
    \<Rightarrow> (status \<times> rocks_store \<times> router_mgr) option" where
  "routing_enter crc now = (\<lambda>(st, rm) p b k rgs.
     map_option (\<lambda>(s, st). (s, st, rm)) (create_router crc now st p b (int k) (int k + int (length rgs) - 1) rgs))"

interpretation em_routing: routing "routing_inv crc" "routing_query crc" "\<lambda>(st, rm). delete_router st rm" "routing_enter crc" for crc
proof unfold_locales
  fix s :: "rocks_store \<times> router_mgr" and m i
  assume "routing_inv crc s m"
  then have "routers_inv crc (fst s) m" "cache_inv (snd s) m" by (auto simp: routing_inv_def split_beta)
  from query_router_spec[OF this, of i] show "\<exists>s'. routing_query crc s i =
      Some (case m i of None \<Rightarrow> (Status CYPRE_EM_ROUTER_NOT_FOUND ''Extent router not found.'', None, s')
            | Some er \<Rightarrow> (Status_OK, Some (er_pool_id er, er_rg_id er), s')) \<and> routing_inv crc s' m"
    using \<open>routers_inv crc (fst s) m\<close>
    by (elim exE conjE, intro exI[of _ "(fst s, _)"]) (auto simp: routing_query_def routing_inv_def split_beta split: option.splits)
next
  fix s s' :: "rocks_store \<times> router_mgr" and m i r
  assume "routing_inv crc s m" "(case s of (st, rm) \<Rightarrow> delete_router st rm) i = (r, s')"
  then show "routing_inv crc s' (if st_ok r then m(i := None) else m)"
    using delete_router_spec[of crc "fst s" m "snd s" i r "fst s'" "snd s'"] by (auto simp: routing_inv_def split_beta)
next
  fix s :: "rocks_store \<times> router_mgr" and m now p b k rgs
  assume i: "routing_inv crc s m" and f: "\<forall>er\<in>set (routers_of now p b k rgs). router_fits er \<and> m (er_extent_id er) = None"
  then have c: "routers_inv crc (fst s) m" "cache_inv (snd s) m" by (auto simp: routing_inv_def split_beta)
  from create_router_spec[OF c(1), of "length rgs" rgs now p b k] f obtain r st' ers where
    *: "create_router crc now (fst s) p b (int k) (int k + int (length rgs) - 1) rgs = Some (r, st')"
      "set ers \<subseteq> set (routers_of now p b k rgs)" "routers_inv crc st' (m ++ router_map ers)"
      "st_ok r \<longrightarrow> ers = routers_of now p b k rgs" by auto
  have "cache_inv (snd s) (m ++ router_map ers)" by (rule cache_inv_add[OF c(2)]) (use f *(2) in auto)
  then show "\<exists>r s' ers. routing_enter crc now s p b k rgs = Some (r, s') \<and> set ers \<subseteq> set (routers_of now p b k rgs) \<and>
      routing_inv crc s' (m ++ router_map ers) \<and> (st_ok r \<longrightarrow> ers = routers_of now p b k rgs)"
    using * by (intro exI[of _ r] exI[of _ "(st', snd s)"] exI[of _ ers]) (auto simp: routing_enter_def routing_inv_def split_beta)
qed

section \<open>Properties of the router manager\<close>

text \<open>C17: Store and cache together behave as one map from extents to routers, whatever is
  cached and whichever writes fail: a query returns the router of the map; a deletion
  removes it from the map, or fails and changes nothing; the creation of the routers of a
  range of new extents always returns, and enters all of them, or some of them with an
  error.\<close>

theorem routers_refine_map:
  assumes "routers_inv crc st m" "cache_inv rm m" "delete_router st rm i = (s, st1, rm1)" "n \<le> length rgs"
    and "\<forall>er\<in>set (routers_of now p b k (take n rgs)). router_fits er \<and> m (er_extent_id er) = None"
  shows "(\<exists>rm'. cache_inv rm' m \<and> query_router crc st rm i =
      Some (case m i of None \<Rightarrow> (Status CYPRE_EM_ROUTER_NOT_FOUND ''Extent router not found.'', None, rm')
            | Some er \<Rightarrow> (Status_OK, Some (er_pool_id er, er_rg_id er), rm'))) \<and>
    (let m1 = if st_ok s then m(i := None) else m in routers_inv crc st1 m1 \<and> cache_inv rm1 m1) \<and>
    (\<exists>s2 st2 ers. create_router crc now st p b (int k) (int k + int n - 1) rgs = Some (s2, st2) \<and>
      set ers \<subseteq> set (routers_of now p b k (take n rgs)) \<and> (st_ok s2 \<longrightarrow> ers = routers_of now p b k (take n rgs)) \<and>
      routers_inv crc st2 (m ++ router_map ers) \<and> cache_inv rm (m ++ router_map ers))"
proof (intro conjI)
  show "\<exists>rm'. cache_inv rm' m \<and> query_router crc st rm i =
      Some (case m i of None \<Rightarrow> (Status CYPRE_EM_ROUTER_NOT_FOUND ''Extent router not found.'', None, rm')
            | Some er \<Rightarrow> (Status_OK, Some (er_pool_id er, er_rg_id er), rm'))"
    using query_router_spec[OF assms(1,2), of i] by (elim exE conjE) (intro exI conjI, assumption+)
  show "let m1 = if st_ok s then m(i := None) else m in routers_inv crc st1 m1 \<and> cache_inv rm1 m1"
    using delete_router_spec[OF assms(1-3)] by (simp add: Let_def)
  obtain s2 st2 ers where *: "create_router crc now st p b (int k) (int k + int n - 1) rgs = Some (s2, st2)"
      "set ers \<subseteq> set (routers_of now p b k (take n rgs))" "routers_inv crc st2 (m ++ router_map ers)"
      "st_ok s2 \<longrightarrow> ers = routers_of now p b k (take n rgs)"
    using create_router_spec[OF assms(1,4)] assms(5) by blast
  moreover have "cache_inv rm (m ++ router_map ers)" by (rule cache_inv_add[OF assms(2)]) (use assms(5) *(2) in auto)
  ultimately show "\<exists>s2 st2 ers. create_router crc now st p b (int k) (int k + int n - 1) rgs = Some (s2, st2) \<and>
      set ers \<subseteq> set (routers_of now p b k (take n rgs)) \<and> (st_ok s2 \<longrightarrow> ers = routers_of now p b k (take n rgs)) \<and>
      routers_inv crc st2 (m ++ router_map ers) \<and> cache_inv rm (m ++ router_map ers)" by blast
qed

theorem routers_refine_map_witness:
  "\<exists>s st ers. create_router (\<lambda>_. 0) ''t'' \<lparr> rs_db = [], rs_faults = [] \<rparr> ''pool-a'' ''bb-1'' 1 2 [''rg-1'', ''rg-2''] = Some (s, st) \<and>
     set ers \<subseteq> set (routers_of ''t'' ''pool-a'' ''bb-1'' 1 [''rg-1'', ''rg-2'']) \<and> routers_inv (\<lambda>_. 0) st (router_map ers) \<and>
     cache_inv (RouterManager 3) (router_map ers)"
proof -
  let ?st = "\<lparr> rs_db = [], rs_faults = [] \<rparr>"
  have i: "routers_inv (\<lambda>_. 0) ?st Map.empty"
    by (simp add: routers_inv_def table_inv_def mirrors_def kv_wf_def kv_lookup_def)
  have c: "cache_inv (RouterManager 3) Map.empty" by (simp add: cache_inv_def RouterManager_def remain_def)
  obtain s st rm where d: "delete_router ?st (RouterManager 3) ''bb-1.1'' = (s, st, rm)"
    by (cases "delete_router ?st (RouterManager 3) ''bb-1.1''") auto
  have f: "\<forall>er\<in>set (routers_of ''t'' ''pool-a'' ''bb-1'' 1 (take 2 [''rg-1'', ''rg-2''])). router_fits er \<and> Map.empty (er_extent_id er) = None"
    by (simp add: routers_of_def router_fits_def EmRouter_def GenerateExtentID_def dec_digits.simps)
  from routers_refine_map[OF i c d _ f] show ?thesis by auto
qed

end
