(* ===== verification/Pool_Manager.thy ===== *)
theory Pool_Manager
  imports Group_Placement Blob_Manager Router_Manager "HOL-Library.Log_Nat"
begin

text \<open>
  Pools and their manager (\<open>src/src/extentmanager/pool.{h,cpp}\<close>). A pool has its own
  managers of blobs, extent servers and replication groups; the pool manager keeps the
  pools in a \<open>std::map\<close>, all of them over one store, and passes the calls of the services
  on to the managers of a pool. A call takes the store and the table of pools and returns
  the new ones. The time string, the extent size, the number of groups per server and the
  iteration order of \<open>std::unordered_map\<close> are arguments. \<open>None\<close>: an access through \<open>end()\<close>,
  an uncaught exception, or what the managers of a pool leave undefined.
\<close>

section \<open>Pools\<close>

record pool =
  p_id :: string
  p_name :: string
  p_type :: pool_type
  p_failure_domain :: failure_domain
  p_status :: pool_status
  p_replica_num :: nat
  p_rg_num :: nat
  p_es_num :: nat
  p_extent_size :: nat
  p_router_version :: nat
  p_create_time :: string
  p_update_time :: string
  p_rg_mgr :: rg_mgr
  p_blob_mgr :: blob_map
  p_es_mgr :: es_map

type_synonym pool_map = "(string \<times> pool) list"

definition replica_count_valid :: "int \<Rightarrow> bool" where
  "replica_count_valid replica_count \<longleftrightarrow> replica_count > 0 \<and> replica_count \<le> int kMaxReplicaCount"

definition Pool :: "string \<Rightarrow> nat \<Rightarrow> string \<Rightarrow> string \<Rightarrow> pool_type \<Rightarrow> failure_domain \<Rightarrow> nat \<Rightarrow> nat \<Rightarrow> nat \<Rightarrow> pool" where
  "Pool now rg_per_es pid name type pfd replica_num es_num extent_size =
     \<lparr> p_id = pid, p_name = name, p_type = type, p_failure_domain = pfd, p_status = kPoolStatusCreated,
       p_replica_num = replica_num, p_rg_num = es_num * rg_per_es mod 2 ^ 32, p_es_num = es_num, p_extent_size = extent_size,
       p_router_version = 0, p_create_time = now, p_update_time = now,
       p_rg_mgr = RgManager, p_blob_mgr = [], p_es_mgr = [] \<rparr>"

definition ToPbPool :: "pool \<Rightarrow> pb_pool" where
  "ToPbPool p =
     \<lparr> pbp_id = p_id p, pbp_name = p_name p, pbp_type = ToPbPoolType (p_type p), pbp_status = ToPbPoolStatus (p_status p),
       pbp_replica_count = to_int32 (int (p_replica_num p)), pbp_rg_count = to_int32 (int (p_rg_num p)),
       pbp_es_count = to_int32 (int (p_es_num p)), pbp_failure_domain = ToPbFailureDomain (p_failure_domain p),
       pbp_create_date = p_create_time p, pbp_update_date = p_update_time p, pbp_capacity = total_capacity (p_es_mgr p),
       pbp_size = total_used (p_es_mgr p), pbp_extent_size = p_extent_size p mod 2 ^ 32,
       pbp_num_extents = total_nr_extents (p_rg_mgr p) \<rparr>"

definition pool_key :: "string \<Rightarrow> string" where
  "pool_key pid = kPoolKvPrefix @ ''_'' @ pid"

definition pool_kv_key :: "pool \<Rightarrow> string" where
  "pool_kv_key p = pool_key (p_id p)"

text \<open>The class version of a pool is 1; older records have no router version.\<close>

definition put_pool :: "pool \<Rightarrow> string" where
  "put_pool p = put_u32 1 @ put_str (p_id p) @ put_str (p_name p) @ put_enum pool_type_codes (p_type p) @
     put_enum failure_domain_codes (p_failure_domain p) @ put_enum pool_status_codes (p_status p) @
     put_u32 (p_replica_num p) @ put_u32 (p_rg_num p) @ put_u32 (p_es_num p) @ put_u64 (p_extent_size p) @
     put_str (p_create_time p) @ put_str (p_update_time p) @ put_u32 (p_router_version p)"

definition get_pool_record :: "string \<Rightarrow> (pool \<times> string) option" where
  "get_pool_record =
     get_then get_u32 (\<lambda>version. get_then get_str (\<lambda>pid. get_then get_str (\<lambda>name. get_then (get_enum pool_type_codes) (\<lambda>type.
     get_then (get_enum failure_domain_codes) (\<lambda>fd. get_then (get_enum pool_status_codes) (\<lambda>status.
     get_then get_u32 (\<lambda>replica_num. get_then get_u32 (\<lambda>rg_num. get_then get_u32 (\<lambda>es_num. get_then get_u64 (\<lambda>extent_size.
     get_then get_str (\<lambda>create_time. get_then get_str (\<lambda>update_time.
     get_then (if version > 0 then get_u32 else (\<lambda>r. Some (0, r))) (\<lambda>router_version r.
       Some (\<lparr> p_id = pid, p_name = name, p_type = type, p_failure_domain = fd, p_status = status,
               p_replica_num = replica_num, p_rg_num = rg_num, p_es_num = es_num, p_extent_size = extent_size,
               p_router_version = router_version, p_create_time = create_time, p_update_time = update_time,
               p_rg_mgr = RgManager, p_blob_mgr = [], p_es_mgr = [] \<rparr>, r))))))))))))))"

section \<open>Pool api\<close>

definition persist_pool :: "(string \<Rightarrow> 32 word) \<Rightarrow> rocks_store \<Rightarrow> pool \<Rightarrow> rocks_status \<times> rocks_store" where
  "persist_pool crc st p = RocksStore_Put st (pool_kv_key p) (Serializer_Encode crc put_pool p)"

definition init_pool :: "(string \<Rightarrow> 32 word) \<Rightarrow> string \<Rightarrow> nat \<Rightarrow> nat \<Rightarrow> (rg_map \<Rightarrow> rg_map) \<Rightarrow> rocks_store \<Rightarrow> pool_map \<Rightarrow> string
    \<Rightarrow> (status \<times> rocks_store \<times> pool_map) option" where
  "init_pool crc now extent_size rg_per_es shuffle st pm pool_id =
     (case map_of pm pool_id of
        None \<Rightarrow> Some (Status CYPRE_EM_POOL_NOT_FOUND ''not found pool'', st, pm)
      | Some p \<Rightarrow>
          if p_status p \<noteq> kPoolStatusCreated then Some (Status CYPRE_EM_POOL_ALREADY_INIT ''pool already created'', st, pm)
          else if p_es_num p \<noteq> length (p_es_mgr p) then Some (Status CYPRE_EM_POOL_NOT_READY ''pool not ready'', st, pm)
          else case rg_init crc now extent_size rg_per_es shuffle st (p_rg_mgr p) (p_es_mgr p) (p_id p)
                      (to_int32 (int (p_replica_num p))) (p_failure_domain p) (map fst (p_es_mgr p)) of
              None \<Rightarrow> None
            | Some (s, st, mgr, em) \<Rightarrow>
                let p = p \<lparr> p_rg_mgr := mgr, p_es_mgr := em \<rparr> in
                if \<not> st_ok s then Some (s, st, smap_insert pool_id p pm)
                else let p = p \<lparr> p_status := kPoolStatusEnabled \<rparr>;
                         pm = smap_insert pool_id p pm;
                         (k, st) = persist_pool crc st p
                     in if \<not> rs_ok k then Some (Status CYPRE_EM_STORE_ERROR ''failed to store pool meta'', st, pm)
                        else Some (Status_OK, st, pm))"

definition pool_valid :: "pool_map \<Rightarrow> string \<Rightarrow> bool" where
  "pool_valid pm pool_id = (case map_of pm pool_id of None \<Rightarrow> False | Some p \<Rightarrow> p_status p \<noteq> kPoolStatusDisabled)"

definition pool_ids :: "string list" where
  "pool_ids = map (\<lambda>index. kPoolIdPrefix @ [char_of index]) [97..<123 :: nat]"

definition allocate_poolid :: "pool_map \<Rightarrow> string" where
  "allocate_poolid pm = (case find (\<lambda>pid. map_of pm pid = None) pool_ids of None \<Rightarrow> [] | Some pid \<Rightarrow> pid)"

definition create_pool :: "(string \<Rightarrow> 32 word) \<Rightarrow> string \<Rightarrow> nat \<Rightarrow> nat \<Rightarrow> rocks_store \<Rightarrow> pool_map \<Rightarrow> string \<Rightarrow> pool_type
    \<Rightarrow> failure_domain \<Rightarrow> nat \<Rightarrow> nat \<Rightarrow> status \<times> string option \<times> rocks_store \<times> pool_map" where
  "create_pool crc now extent_size rg_per_es st pm name type pfd replica_num es_num =
     (if list_ex (\<lambda>(_, p). p_name p = name) pm then (Status CYPRE_EM_POOL_DUPLICATED ''duplicated pool name'', None, st, pm)
      else let pid = allocate_poolid pm in
        if pid = [] then (Status CYPRE_EM_POOL_ALLOCATE_FAIL ''allocate pool id failed'', None, st, pm)
        else let p = Pool now rg_per_es pid name type pfd replica_num es_num extent_size;
                 (k, st) = persist_pool crc st p
             in if \<not> rs_ok k then (Status CYPRE_EM_STORE_ERROR ''failed to store pool meta'', None, st, pm)
                else (Status_OK, Some pid, st, smap_insert (p_id p) p pm))"

definition update_pool :: "(string \<Rightarrow> 32 word) \<Rightarrow> rocks_store \<Rightarrow> pool_map \<Rightarrow> string \<Rightarrow> string \<Rightarrow> pool_type \<Rightarrow> failure_domain
    \<Rightarrow> nat \<Rightarrow> nat \<Rightarrow> status \<times> rocks_store \<times> pool_map" where
  "update_pool crc st pm pool_id name type fd replica_num es_num =
     (if list_ex (\<lambda>(_, p). p_id p \<noteq> pool_id \<and> p_name p = name) pm
      then (Status CYPRE_EM_POOL_DUPLICATED ''duplicated pool name'', st, pm)
      else case map_of pm pool_id of
          None \<Rightarrow> (Status CYPRE_EM_POOL_NOT_FOUND ''pool not found'', st, pm)
        | Some p \<Rightarrow>
            if p_status p = kPoolStatusDisabled then (Status CYPRE_EM_POOL_NOT_FOUND ''pool not found'', st, pm)
            else let p = p \<lparr> p_name := (if name = [] then p_name p else name),
                             p_type := (if type = kPoolTypeUnknown then p_type p else type),
                             p_failure_domain := (if fd = kFailureDomainUnknown then p_failure_domain p else fd),
                             p_replica_num := (if replica_num = 0 then p_replica_num p else replica_num),
                             p_es_num := (if es_num = 0 then p_es_num p else es_num) \<rparr>;
                     pm = smap_insert pool_id p pm;
                     (k, st) = persist_pool crc st p
                 in if \<not> rs_ok k then (Status CYPRE_EM_STORE_ERROR ''failed to store pool meta'', st, pm)
                    else (Status_OK, st, pm))"

definition query_pool :: "pool_map \<Rightarrow> string \<Rightarrow> status \<times> pb_pool option" where
  "query_pool pm pool_id =
     (if \<not> pool_valid pm pool_id then (Status CYPRE_EM_POOL_NOT_FOUND ''not found pool'', None)
      else (Status_OK, Some (ToPbPool (the (map_of pm pool_id)))))"

text \<open>The version -1 of an unknown pool is returned as \<open>uint32_t\<close>.\<close>

definition get_router_version :: "pool_map \<Rightarrow> string \<Rightarrow> nat" where
  "get_router_version pm pool_id =
     (if \<not> pool_valid pm pool_id then 2 ^ 32 - 1 else p_router_version (the (map_of pm pool_id)))"

definition soft_delete_pool :: "(string \<Rightarrow> 32 word) \<Rightarrow> rocks_store \<Rightarrow> pool_map \<Rightarrow> string \<Rightarrow> status \<times> rocks_store \<times> pool_map" where
  "soft_delete_pool crc st pm pool_id =
     (if \<not> pool_valid pm pool_id then (Status CYPRE_EM_POOL_NOT_FOUND ''not found pool'', st, pm)
      else let p = the (map_of pm pool_id) \<lparr> p_status := kPoolStatusDisabled \<rparr>;
               pm = smap_insert pool_id p pm;
               (k, st) = persist_pool crc st p
           in if \<not> rs_ok k then (Status CYPRE_EM_STORE_ERROR ''failed to delete pool meta'', st, pm)
              else (Status_OK, st, pm))"

definition delete_pool :: "rocks_store \<Rightarrow> pool_map \<Rightarrow> string \<Rightarrow> status \<times> rocks_store \<times> pool_map" where
  "delete_pool st pm pool_id =
     (case map_of pm pool_id of
        None \<Rightarrow> (Status CYPRE_EM_POOL_NOT_FOUND ''not found pool'', st, pm)
      | Some p \<Rightarrow>
          let (k, st) = RocksStore_Delete st (pool_kv_key p) in
          if \<not> rs_ok k then (Status CYPRE_EM_DELETE_ERROR ''failed to delete pool meta'', st, pm)
          else (Status_OK, st, AList.delete pool_id pm))"

text \<open>The second loop of \<open>recovery_from_store\<close>. What \<open>RgManager::recovery_from_store\<close> returns
  is not looked at.\<close>

fun recover_managers :: "(string \<Rightarrow> 32 word) \<Rightarrow> (rg_map \<Rightarrow> rg_map) \<Rightarrow> rocks_store \<Rightarrow> pool_map \<Rightarrow> pool_map
    \<Rightarrow> (bool \<times> pool_map) option" where
  "recover_managers crc shuffle st [] pm = Some (True, pm)"
| "recover_managers crc shuffle st ((pid, p) # ps) pm =
     (case es_recovery_from_store crc st (p_es_mgr p) pid of
        None \<Rightarrow> None
      | Some (ok, em) \<Rightarrow>
          let p = p \<lparr> p_es_mgr := em \<rparr> in
          if \<not> ok then Some (False, smap_insert pid p pm)
          else case rg_recovery_from_store crc shuffle st (p_rg_mgr p) pid of
              None \<Rightarrow> None
            | Some (_, mgr) \<Rightarrow>
                let p = p \<lparr> p_rg_mgr := mgr \<rparr> in
                case blobs_recovery_from_store crc st (p_blob_mgr p) pid of
                  None \<Rightarrow> None
                | Some (ok, bm) \<Rightarrow>
                    let pm = smap_insert pid (p \<lparr> p_blob_mgr := bm \<rparr>) pm in
                    if \<not> ok then Some (False, pm) else recover_managers crc shuffle st ps pm)"

definition pools_recovery_from_store :: "(string \<Rightarrow> 32 word) \<Rightarrow> (rg_map \<Rightarrow> rg_map) \<Rightarrow> rocks_store \<Rightarrow> pool_map \<Rightarrow> (bool \<times> pool_map) option" where
  "pools_recovery_from_store crc shuffle st pm =
     (case recover_values smap_insert (Serializer_Decode crc get_pool_record) p_id
             (map snd (RocksStore_ScanPrefix st kPoolKvPrefix)) pm of
        None \<Rightarrow> None
      | Some (False, pm) \<Rightarrow> Some (False, pm)
      | Some (True, pm) \<Rightarrow> recover_managers crc shuffle st pm pm)"

text \<open>The choice of a pool compares ratios of type \<open>double\<close>: a value is rounded to 53
  significant bits, to the even neighbour in the middle. The numbers here have no more than
  64 bits, so neither overflow nor loss of precision near zero occurs.\<close>

definition round_half_even :: "rat \<Rightarrow> int" where
  "round_half_even x =
     (let f = \<lfloor>x\<rfloor>; r = x - of_int f in
      if r < 1 / 2 then f else if r > 1 / 2 then f + 1 else if even f then f else f + 1)"

definition binary_exponent :: "rat \<Rightarrow> int" where
  "binary_exponent q =
     (let (n, d) = quotient_of q; e = int (floorlog 2 (nat n)) - int (floorlog 2 (nat d)) in
      if q < 2 powi e then e - 1 else e)"

definition to_double :: "rat \<Rightarrow> rat" where
  "to_double q = (if q \<le> 0 then 0 else let s = 2 powi (52 - binary_exponent q) in of_int (round_half_even (q * s)) / s)"

text \<open>A division by zero gives no number or infinity, neither of which is below \<open>min\<close>.\<close>

definition used_ratio :: "pool \<Rightarrow> rat option" where
  "used_ratio p =
     (if total_capacity (p_es_mgr p) = 0 then None
      else Some (to_double (to_double (of_nat (total_used (p_es_mgr p))) / to_double (of_nat (total_capacity (p_es_mgr p))))))"

fun get_pool_loop :: "pool_type \<Rightarrow> pool_map \<Rightarrow> rat \<Rightarrow> string \<Rightarrow> string" where
  "get_pool_loop type [] m pool_id = pool_id"
| "get_pool_loop type ((_, p) # ps) m pool_id =
     (if p_type p = type \<and> p_status p = kPoolStatusEnabled then
        (case used_ratio p of
           None \<Rightarrow> get_pool_loop type ps m pool_id
         | Some ratio \<Rightarrow> if ratio < m then get_pool_loop type ps ratio (p_id p) else get_pool_loop type ps m pool_id)
      else get_pool_loop type ps m pool_id)"

definition get_pool :: "pool_map \<Rightarrow> pool_type \<Rightarrow> string" where
  "get_pool pm type = get_pool_loop type pm 1 []"

definition allocate_pool :: "pool_map \<Rightarrow> blob_type \<Rightarrow> string" where
  "allocate_pool pm type =
     (case type of
        kBlobTypeGeneral \<Rightarrow> get_pool pm kPoolTypeHDD
      | kBlobTypeSuperior \<Rightarrow> get_pool pm kPoolTypeSSD
      | kBlobTypeExcellent \<Rightarrow> get_pool pm kPoolTypeNVMeSSD
      | _ \<Rightarrow> get_pool pm kPoolTypeHDD)"

definition list_pools :: "pool_map \<Rightarrow> pb_pool list" where
  "list_pools pm = map (\<lambda>(_, p). ToPbPool p) (filter (\<lambda>(_, p). p_status p = kPoolStatusEnabled) pm)"

definition list_pool_ids :: "pool_map \<Rightarrow> string list" where
  "list_pool_ids pm = map fst (filter (\<lambda>(_, p). p_status p = kPoolStatusEnabled) pm)"

definition list_deleted_pools :: "pool_map \<Rightarrow> string list" where
  "list_deleted_pools pm = map fst (filter (\<lambda>(_, p). p_status p = kPoolStatusDisabled) pm)"

section \<open>Blob api\<close>

definition pm_blobid_exist :: "pool_map \<Rightarrow> string \<Rightarrow> bool" where
  "pm_blobid_exist pm blob_id = list_ex (\<lambda>(_, p). blobid_exist (p_blob_mgr p) blob_id) pm"

text \<open>The loop of \<open>allocate_blobid\<close> on the identifiers that are generated; \<open>None\<close>: these were
  not enough.\<close>

fun allocate_blobid :: "pool_map \<Rightarrow> string list \<Rightarrow> string option" where
  "allocate_blobid pm [] = None"
| "allocate_blobid pm (uuid # uuids) =
     (let blob_id = kBlobIdPrefix @ uuid in
      if \<not> pm_blobid_exist pm blob_id then Some blob_id else allocate_blobid pm uuids)"

text \<open>\<open>create_blob\<close> returns the new id and the groups of the extents.\<close>

definition pm_create_blob :: "(string \<Rightarrow> 32 word) \<Rightarrow> string \<Rightarrow> string list \<Rightarrow> nat \<Rightarrow> rocks_store \<Rightarrow> pool_map \<Rightarrow> string \<Rightarrow> string
    \<Rightarrow> nat \<Rightarrow> blob_type \<Rightarrow> string \<Rightarrow> string \<Rightarrow> string \<Rightarrow> (status \<times> string \<times> string list \<times> rocks_store \<times> pool_map) option" where
  "pm_create_blob crc now uuids extent_size st pm pool_id blob_name sz type desc user_id instance_id =
     (case allocate_blobid pm uuids of
        None \<Rightarrow> None
      | Some blob_id \<Rightarrow>
          (case map_of pm pool_id of
             None \<Rightarrow> Some (Status CYPRE_EM_POOL_NOT_FOUND ''not find pool'', blob_id, [], st, pm)
           | Some p \<Rightarrow>
               if p_status p \<noteq> kPoolStatusEnabled then Some (Status CYPRE_EM_POOL_NOT_FOUND ''not find pool'', blob_id, [], st, pm)
               else (case create_blob crc now st (p_blob_mgr p) blob_id blob_name sz type desc pool_id user_id instance_id of
                   (s, st, bm) \<Rightarrow>
                     let p = p \<lparr> p_blob_mgr := bm \<rparr>; pm = smap_insert pool_id p pm in
                     if \<not> st_ok s then Some (s, blob_id, [], st, pm)
                     else (case allocate_rgs crc st (p_rg_mgr p) (p_es_mgr p) (to_int32 (int (sz div extent_size))) of
                         None \<Rightarrow> None
                       | Some (s, rg_ids, st, mgr) \<Rightarrow>
                           Some (s, blob_id, rg_ids, st, smap_insert pool_id (p \<lparr> p_rg_mgr := mgr \<rparr>) pm)))))"

text \<open>The loops over the pools act on the first one that has the blob.\<close>

definition pool_of_blob :: "pool_map \<Rightarrow> string \<Rightarrow> (string \<times> pool) option" where
  "pool_of_blob pm blob_id = find (\<lambda>(_, p). blob_valid (p_blob_mgr p) blob_id) pm"

definition pm_resize_blob :: "(string \<Rightarrow> 32 word) \<Rightarrow> string \<Rightarrow> nat \<Rightarrow> rocks_store \<Rightarrow> pool_map \<Rightarrow> string \<Rightarrow> string \<Rightarrow> nat
    \<Rightarrow> (status \<times> string \<times> nat option \<times> string list \<times> rocks_store \<times> pool_map) option" where
  "pm_resize_blob crc now extent_size st pm user_id blob_id new_size =
     (case pool_of_blob pm blob_id of
        None \<Rightarrow> Some (Status CYPRE_EM_BLOB_NOT_FOUND ''not find blob'', [], None, [], st, pm)
      | Some (pid, p) \<Rightarrow>
          (case resize_blob extent_size crc now st (p_blob_mgr p) user_id blob_id new_size of
             (s, old_size, st, bm) \<Rightarrow>
               let p = p \<lparr> p_blob_mgr := bm \<rparr>; pm = smap_insert pid p pm in
               if \<not> st_ok s then Some (s, [], old_size, [], st, pm)
               else (case allocate_rgs crc st (p_rg_mgr p) (p_es_mgr p)
                         (to_int32 (int (u64_sub new_size (the old_size) div extent_size))) of
                   None \<Rightarrow> None
                 | Some (s, rg_ids, st, mgr) \<Rightarrow>
                     Some (s, pid, old_size, rg_ids, st, smap_insert pid (p \<lparr> p_rg_mgr := mgr \<rparr>) pm))))"

definition pm_soft_delete_blob :: "(string \<Rightarrow> 32 word) \<Rightarrow> rocks_store \<Rightarrow> pool_map \<Rightarrow> string \<Rightarrow> string \<Rightarrow> status \<times> rocks_store \<times> pool_map" where
  "pm_soft_delete_blob crc st pm user_id blob_id =
     (case pool_of_blob pm blob_id of
        None \<Rightarrow> (Status CYPRE_EM_BLOB_NOT_FOUND ''not find blob'', st, pm)
      | Some (pid, p) \<Rightarrow>
          (case soft_delete_blob crc st (p_blob_mgr p) user_id blob_id of
             (s, st, bm) \<Rightarrow> (s, st, smap_insert pid (p \<lparr> p_blob_mgr := bm \<rparr>) pm)))"

definition pm_delete_blob :: "rocks_store \<Rightarrow> pool_map \<Rightarrow> string \<Rightarrow> string \<Rightarrow> status \<times> rocks_store \<times> pool_map" where
  "pm_delete_blob st pm pool_id blob_id =
     (case map_of pm pool_id of
        None \<Rightarrow> (Status CYPRE_EM_POOL_NOT_FOUND ''not find pool'', st, pm)
      | Some p \<Rightarrow>
          (case delete_blob st (p_blob_mgr p) blob_id of
             (s, st, bm) \<Rightarrow> (s, st, smap_insert pool_id (p \<lparr> p_blob_mgr := bm \<rparr>) pm)))"

definition pm_rename_blob :: "(string \<Rightarrow> 32 word) \<Rightarrow> string \<Rightarrow> rocks_store \<Rightarrow> pool_map \<Rightarrow> string \<Rightarrow> string \<Rightarrow> string
    \<Rightarrow> status \<times> rocks_store \<times> pool_map" where
  "pm_rename_blob crc now st pm user_id blob_id new_name =
     (case pool_of_blob pm blob_id of
        None \<Rightarrow> (Status CYPRE_EM_BLOB_NOT_FOUND ''not find blob'', st, pm)
      | Some (pid, p) \<Rightarrow>
          (case rename_blob crc now st (p_blob_mgr p) user_id blob_id new_name of
             (s, st, bm) \<Rightarrow> (s, st, smap_insert pid (p \<lparr> p_blob_mgr := bm \<rparr>) pm)))"

definition pm_query_blob :: "pool_map \<Rightarrow> string \<Rightarrow> bool \<Rightarrow> status \<times> pb_blob option" where
  "pm_query_blob pm blob_id all =
     (case find (\<lambda>(_, p). blobid_exist (p_blob_mgr p) blob_id) pm of
        None \<Rightarrow> (Status CYPRE_EM_BLOB_NOT_FOUND ''not find blob'', None)
      | Some (_, p) \<Rightarrow> query_blob (p_blob_mgr p) blob_id all)"

definition pm_list_user_blobs :: "pool_map \<Rightarrow> string \<Rightarrow> pb_blob list" where
  "pm_list_user_blobs pm user_id =
     concat (map (\<lambda>(_, p). list_user_blobs (p_blob_mgr p) user_id) (filter (\<lambda>(_, p). p_status p \<noteq> kPoolStatusDisabled) pm))"

definition pm_list_user_blob_ids :: "pool_map \<Rightarrow> string \<Rightarrow> string \<Rightarrow> status \<times> string list" where
  "pm_list_user_blob_ids pm pool_id user_id =
     (if \<not> pool_valid pm pool_id then (Status CYPRE_EM_POOL_NOT_FOUND ''not found pool'', [])
      else (Status_OK, list_user_blob_ids (p_blob_mgr (the (map_of pm pool_id))) user_id))"

definition pm_list_blob_ids :: "pool_map \<Rightarrow> string \<Rightarrow> bool \<Rightarrow> status \<times> string list" where
  "pm_list_blob_ids pm pool_id deleted =
     (case map_of pm pool_id of
        None \<Rightarrow> (Status CYPRE_EM_POOL_NOT_FOUND ''not find pool'', [])
      | Some p \<Rightarrow> (Status_OK, list_blob_ids (p_blob_mgr p) deleted))"

definition pm_blob_valid :: "pool_map \<Rightarrow> string \<Rightarrow> string \<Rightarrow> bool" where
  "pm_blob_valid pm pool_id blob_id =
     (case map_of pm pool_id of None \<Rightarrow> False | Some p \<Rightarrow> blob_valid (p_blob_mgr p) blob_id)"

section \<open>Extent server api\<close>

definition pm_es_exist :: "pool_map \<Rightarrow> string \<Rightarrow> int \<Rightarrow> bool" where
  "pm_es_exist pm pool_id eid \<longleftrightarrow> pool_valid pm pool_id \<and> es_exist (p_es_mgr (the (map_of pm pool_id))) eid"

definition pm_query_es :: "pool_map \<Rightarrow> string \<Rightarrow> int \<Rightarrow> status \<times> pb_extent_server option" where
  "pm_query_es pm pool_id eid =
     (if \<not> pool_valid pm pool_id then (Status CYPRE_EM_POOL_NOT_FOUND ''not found pool'', None)
      else query_es (p_es_mgr (the (map_of pm pool_id))) eid)"

definition pm_delete_es :: "rocks_store \<Rightarrow> pool_map \<Rightarrow> string \<Rightarrow> int \<Rightarrow> status \<times> rocks_store \<times> pool_map" where
  "pm_delete_es st pm pool_id eid =
     (case map_of pm pool_id of
        None \<Rightarrow> (Status CYPRE_EM_POOL_NOT_FOUND ''not found pool'', st, pm)
      | Some p \<Rightarrow>
          if p_status p \<noteq> kPoolStatusCreated then (Status CYPRE_EM_POOL_NOT_FOUND ''not found pool'', st, pm)
          else (case delete_es st (p_es_mgr p) eid of
              (s, st, em) \<Rightarrow> (s, st, smap_insert pool_id (p \<lparr> p_es_mgr := em \<rparr>) pm)))"

definition pm_delete_all_es :: "rocks_store \<Rightarrow> pool_map \<Rightarrow> string \<Rightarrow> status \<times> rocks_store \<times> pool_map" where
  "pm_delete_all_es st pm pool_id =
     (case map_of pm pool_id of
        None \<Rightarrow> (Status CYPRE_EM_POOL_NOT_FOUND ''not found pool'', st, pm)
      | Some p \<Rightarrow> (case delete_all_es st (p_es_mgr p) of (s, st, em) \<Rightarrow> (s, st, smap_insert pool_id (p \<lparr> p_es_mgr := em \<rparr>) pm)))"

definition pm_update_es :: "(string \<Rightarrow> 32 word) \<Rightarrow> rocks_store \<Rightarrow> pool_map \<Rightarrow> string \<Rightarrow> int \<Rightarrow> string \<Rightarrow> string \<Rightarrow> int \<Rightarrow> string \<Rightarrow> int \<Rightarrow> nat
    \<Rightarrow> status \<times> rocks_store \<times> pool_map" where
  "pm_update_es crc st pm pool_id eid name public_ip public_port private_ip private_port sz =
     (if \<not> pool_valid pm pool_id then (Status CYPRE_EM_POOL_NOT_FOUND ''not found pool'', st, pm)
      else let p = the (map_of pm pool_id) in
        case update_es crc st (p_es_mgr p) eid name public_ip public_port private_ip private_port sz of
          (s, st, em) \<Rightarrow> (s, st, smap_insert pool_id (p \<lparr> p_es_mgr := em \<rparr>) pm))"

definition pm_list_es :: "pool_map \<Rightarrow> string \<Rightarrow> status \<times> pb_extent_server list" where
  "pm_list_es pm pool_id =
     (if \<not> pool_valid pm pool_id then (Status CYPRE_EM_POOL_NOT_FOUND ''not found pool'', [])
      else (Status_OK, list_es (p_es_mgr (the (map_of pm pool_id)))))"

definition pm_create_es :: "(string \<Rightarrow> 32 word) \<Rightarrow> string \<Rightarrow> rocks_store \<Rightarrow> pool_map \<Rightarrow> int \<Rightarrow> string \<Rightarrow> string \<Rightarrow> int \<Rightarrow> string \<Rightarrow> int
    \<Rightarrow> nat \<Rightarrow> nat \<Rightarrow> string \<Rightarrow> string \<Rightarrow> string \<Rightarrow> status \<times> rocks_store \<times> pool_map" where
  "pm_create_es crc now st pm eid name public_ip public_port private_ip private_port sz capacity pool_id host rack =
     (case map_of pm pool_id of
        None \<Rightarrow> (Status CYPRE_EM_POOL_NOT_FOUND ''not found pool or pool busy'', st, pm)
      | Some p \<Rightarrow>
          if p_status p \<noteq> kPoolStatusCreated then (Status CYPRE_EM_POOL_NOT_FOUND ''not found pool or pool busy'', st, pm)
          else (case create_es crc now st (p_es_mgr p) eid name public_ip public_port private_ip private_port sz capacity pool_id host rack of
              (s, st, em) \<Rightarrow> (s, st, smap_insert pool_id (p \<lparr> p_es_mgr := em \<rparr>) pm)))"

definition pm_query_es_router :: "pool_map \<Rightarrow> string \<Rightarrow> int list \<Rightarrow> pb_extent_router \<Rightarrow> (status \<times> pb_extent_router) option" where
  "pm_query_es_router pm pool_id es_group router =
     (case map_of pm pool_id of
        None \<Rightarrow> Some (Status CYPRE_EM_POOL_NOT_FOUND ''not found pool'', router)
      | Some p \<Rightarrow>
          if p_status p \<noteq> kPoolStatusEnabled then Some (Status CYPRE_EM_POOL_NOT_FOUND ''not found pool'', router)
          else map_option (\<lambda>r. (Status_OK, r)) (query_es_router (p_es_mgr p) es_group router))"

section \<open>Replication group api\<close>

definition pm_query_rg :: "nat \<Rightarrow> pool_map \<Rightarrow> string \<Rightarrow> string \<Rightarrow> status \<times> pb_replica_group option" where
  "pm_query_rg extent_size pm pool_id gid =
     (case map_of pm pool_id of
        None \<Rightarrow> (Status CYPRE_EM_POOL_NOT_FOUND ''not found pool'', None)
      | Some p \<Rightarrow>
          if p_status p \<noteq> kPoolStatusEnabled then (Status CYPRE_EM_POOL_NOT_FOUND ''not found pool'', None)
          else query_rg extent_size (p_rg_mgr p) gid)"

definition pm_list_rg :: "nat \<Rightarrow> pool_map \<Rightarrow> string \<Rightarrow> status \<times> pb_replica_group list" where
  "pm_list_rg extent_size pm pool_id =
     (case map_of pm pool_id of
        None \<Rightarrow> (Status CYPRE_EM_POOL_NOT_FOUND ''not found pool'', [])
      | Some p \<Rightarrow>
          if p_status p \<noteq> kPoolStatusEnabled then (Status CYPRE_EM_POOL_NOT_FOUND ''not found pool'', [])
          else (Status_OK, list_rg extent_size (p_rg_mgr p)))"

definition pm_delete_all_rg :: "rocks_store \<Rightarrow> pool_map \<Rightarrow> string \<Rightarrow> (status \<times> rocks_store \<times> pool_map) option" where
  "pm_delete_all_rg st pm pool_id =
     map_option (\<lambda>p. case delete_all_rg st (p_rg_mgr p) of (s, st, mgr) \<Rightarrow> (s, st, smap_insert pool_id (p \<lparr> p_rg_mgr := mgr \<rparr>) pm))
       (map_of pm pool_id)"

definition pm_query_es_group :: "pool_map \<Rightarrow> string \<Rightarrow> string \<Rightarrow> int list option" where
  "pm_query_es_group pm pool_id gid =
     (case map_of pm pool_id of None \<Rightarrow> None | Some p \<Rightarrow> query_es_group (p_rg_mgr p) gid)"

section \<open>What holds of the pools\<close>

text \<open>Servers are in the table in the order of their ids. The queues of the groups are empty
  until the pool is initialised; after that the queues hold known groups, and the servers
  of a group are known and in different failure domains.\<close>

definition pool_wf :: "pool \<Rightarrow> bool" where
  "pool_wf p \<longleftrightarrow> sorted_wrt (<) (map fst (p_es_mgr p)) \<and> 1 \<le> p_replica_num p \<and> p_replica_num p \<le> kMaxReplicaCount \<and> 1 \<le> p_es_num p \<and>
     (p_status p = kPoolStatusEnabled \<longrightarrow> queues_known (p_rg_mgr p) \<and>
        (\<exists>fd n. 1 \<le> n \<and> (\<forall>i g. group_servers (p_rg_mgr p) i = Some g \<longrightarrow> spread fd n (p_es_mgr p) g)))"

definition pools_wf :: "pool_map \<Rightarrow> bool" where
  "pools_wf pm \<longleftrightarrow> sorted_wrt (<) (map fst pm) \<and> fst ` set pm \<subseteq> set pool_ids \<and>
     (\<forall>i p. map_of pm i = Some p \<longrightarrow> p_id p = i \<and> pool_wf p) \<and>
     (\<forall>i j p q. map_of pm i = Some p \<longrightarrow> map_of pm j = Some q \<longrightarrow> p_name p = p_name q \<longrightarrow> i = j)"

text \<open>The calls that change the pools. \<open>Purge\<close> stands for the calls of \<open>delete_all_es\<close> and
  \<open>delete_all_rg\<close> that the garbage collector makes for a deleted pool.\<close>

datatype pool_op =
    Create_pool string string pool_type failure_domain nat nat
  | Init_pool string string
  | Update_pool string string pool_type failure_domain nat nat
  | Soft_delete_pool string
  | Delete_pool string
  | Purge string
  | New_blob string "string list" string string nat blob_type string string string
  | Resize_in_pool string string string nat
  | Soft_delete_in_pool string string
  | Erase_in_pool string string
  | Rename_in_pool string string string string
  | New_es string int string string int string int nat nat string string string
  | Report_es string int string string int string int nat
  | Drop_es string int

fun pool_exec :: "(string \<Rightarrow> 32 word) \<Rightarrow> nat \<Rightarrow> nat \<Rightarrow> (rg_map \<Rightarrow> rg_map) \<Rightarrow> pool_op \<Rightarrow> rocks_store \<times> pool_map
    \<Rightarrow> (status \<times> rocks_store \<times> pool_map) option" where
  "pool_exec crc x per sh (Create_pool now name type fd rn en) (st, pm) =
     (case create_pool crc now x per st pm name type fd rn en of (s, _, st, pm) \<Rightarrow> Some (s, st, pm))"
| "pool_exec crc x per sh (Init_pool now i) (st, pm) = init_pool crc now x per sh st pm i"
| "pool_exec crc x per sh (Update_pool i name type fd rn en) (st, pm) = Some (update_pool crc st pm i name type fd rn en)"
| "pool_exec crc x per sh (Soft_delete_pool i) (st, pm) = Some (soft_delete_pool crc st pm i)"
| "pool_exec crc x per sh (Delete_pool i) (st, pm) = Some (delete_pool st pm i)"
| "pool_exec crc x per sh (Purge i) (st, pm) = (case pm_delete_all_es st pm i of (s, st, pm) \<Rightarrow> pm_delete_all_rg st pm i)"
| "pool_exec crc x per sh (New_blob now uuids i name sz type desc user inst) (st, pm) =
     map_option (\<lambda>(s, _, _, st, pm). (s, st, pm)) (pm_create_blob crc now uuids x st pm i name sz type desc user inst)"
| "pool_exec crc x per sh (Resize_in_pool now user b sz) (st, pm) =
     map_option (\<lambda>(s, _, _, _, st, pm). (s, st, pm)) (pm_resize_blob crc now x st pm user b sz)"
| "pool_exec crc x per sh (Soft_delete_in_pool user b) (st, pm) = Some (pm_soft_delete_blob crc st pm user b)"
| "pool_exec crc x per sh (Erase_in_pool i b) (st, pm) = Some (pm_delete_blob st pm i b)"
| "pool_exec crc x per sh (Rename_in_pool now user b name) (st, pm) = Some (pm_rename_blob crc now st pm user b name)"
| "pool_exec crc x per sh (New_es now e name pip pport vip vport sz capacity i host rack) (st, pm) =
     Some (pm_create_es crc now st pm e name pip pport vip vport sz capacity i host rack)"
| "pool_exec crc x per sh (Report_es i e name pip pport vip vport sz) (st, pm) =
     Some (pm_update_es crc st pm i e name pip pport vip vport sz)"
| "pool_exec crc x per sh (Drop_es i e) (st, pm) = Some (pm_delete_es st pm i e)"

text \<open>What the callers see to: the services check the numbers of a pool, the collector purges
  deleted pools only. An initialisation that failed is not tried again.\<close>

fun pool_op_ok :: "pool_map \<Rightarrow> pool_op \<Rightarrow> bool" where
  "pool_op_ok pm (Create_pool now name type fd rn en) \<longleftrightarrow> replica_count_valid (int rn) \<and> 1 \<le> en"
| "pool_op_ok pm (Update_pool i name type fd rn en) \<longleftrightarrow> rn = 0 \<or> replica_count_valid (int rn)"
| "pool_op_ok pm (Init_pool now i) \<longleftrightarrow> (\<forall>p. map_of pm i = Some p \<longrightarrow> p_status p = kPoolStatusCreated \<longrightarrow> p_rg_mgr p = RgManager)"
| "pool_op_ok pm (Purge i) \<longleftrightarrow> (\<forall>p. map_of pm i = Some p \<longrightarrow> p_status p = kPoolStatusDisabled)"
| "pool_op_ok pm _ \<longleftrightarrow> True"

inductive pools_reach :: "(string \<Rightarrow> 32 word) \<Rightarrow> nat \<Rightarrow> nat \<Rightarrow> (rg_map \<Rightarrow> rg_map) \<Rightarrow> rocks_store \<Rightarrow> pool_map \<Rightarrow> bool"
  for crc x per sh where
  start: "pools_reach crc x per sh st []"
| step: "pools_reach crc x per sh st pm \<Longrightarrow> pool_op_ok pm op \<Longrightarrow> pool_exec crc x per sh op (st, pm) = Some (s, st', pm') \<Longrightarrow>
    pools_reach crc x per sh st' pm'"

section \<open>Lemmas on single pools\<close>

lemma pools_wfD:
  assumes "pools_wf pm"
  shows "sorted_wrt (<) (map fst pm)" "fst ` set pm \<subseteq> set pool_ids" "map_of pm i = Some p \<Longrightarrow> p_id p = i \<and> pool_wf p"
    "map_of pm i = Some p \<Longrightarrow> map_of pm j = Some q \<Longrightarrow> p_name p = p_name q \<Longrightarrow> i = j"
  using assms unfolding pools_wf_def by blast+

lemma pools_wf_insert:
  assumes "pools_wf pm" "i \<in> set pool_ids" "p_id p = i" "pool_wf p" "\<And>j q. map_of pm j = Some q \<Longrightarrow> p_name q = p_name p \<Longrightarrow> j = i"
  shows "pools_wf (smap_insert i p pm)"
  using assms pools_wfD[OF assms(1)] unfolding pools_wf_def
  by (auto simp: smap_insert_sorted smap_insert_keys split: if_splits)

lemma pool_known: "pools_wf pm \<Longrightarrow> map_of pm i = Some p \<Longrightarrow> i \<in> set pool_ids"
  using pools_wfD(2)[of pm] by (force dest: map_of_SomeD)

text \<open>Replacing a pool by one with the same id and name.\<close>

lemma pools_wf_replace:
  assumes "pools_wf pm" "map_of pm i = Some p" "p_id p' = p_id p" "p_name p' = p_name p" "pool_wf p'"
  shows "pools_wf (smap_insert i p' pm)"
  by (rule pools_wf_insert[OF assms(1) pool_known[OF assms(1,2)]])
    (use pools_wfD(3,4)[OF assms(1)] assms(2-5) in auto)

lemma pools_wf_delete: "pools_wf pm \<Longrightarrow> pools_wf (AList.delete i pm)"
proof -
  have "fst ` set (AList.delete i pm) \<subseteq> fst ` set pm" by (metis AList.delete_keys list.set_map set_removeAll Diff_subset)
  then show "pools_wf pm \<Longrightarrow> pools_wf (AList.delete i pm)"
    unfolding pools_wf_def by (auto simp: sorted_delete split: if_splits simp del: map_of_eq_Some_iff)
qed

lemma pool_wf_parts [simp]:
  "pool_wf (p \<lparr> p_blob_mgr := bm \<rparr>) = pool_wf p"
  "pool_wf p \<Longrightarrow> s \<noteq> kPoolStatusEnabled \<Longrightarrow> pool_wf (p \<lparr> p_status := s \<rparr>)"
  by (auto simp: pool_wf_def)

lemma pool_wf_allocate:
  assumes w: "pool_wf p" and a: "allocate_rgs crc st (p_rg_mgr p) em n = Some (s, ids, st', mgr)"
  shows "pool_wf (p \<lparr> p_rg_mgr := mgr \<rparr>)"
proof (cases "p_status p = kPoolStatusEnabled")
  case True
  then have k: "queues_known (p_rg_mgr p)" using w by (simp add: pool_wf_def)
  show ?thesis using w allocate_rgs_placed(1,2)[OF k a] by (simp add: pool_wf_def)
next
  case False
  then show ?thesis using w by (simp add: pool_wf_def)
qed

text \<open>The place of the servers decides whether a group is spread.\<close>

lemma spread_same:
  assumes "\<And>i. map_option (\<lambda>e. (es_host e, es_rack e)) (map_of em' i) = map_option (\<lambda>e. (es_host e, es_rack e)) (map_of em i)"
  shows "spread fd n em' g = spread fd n em g"
proof -
  have in_ids: "i \<in> es_ids m \<longleftrightarrow> map_of m i \<noteq> None" for i and m :: es_map
    unfolding es_ids_def map_of_eq_None_iff by simp
  have ids: "es_ids em' = es_ids em"
  proof (rule set_eqI)
    show "i \<in> es_ids em' \<longleftrightarrow> i \<in> es_ids em" for i
      using assms[of i] unfolding in_ids by (cases "map_of em' i"; cases "map_of em i") simp_all
  qed
  have "es_domain fd em' i = es_domain fd em i" if i: "i \<in> es_ids em" for i
  proof -
    obtain e where e: "map_of em i = Some e" using i unfolding in_ids by blast
    then obtain e' where "map_of em' i = Some e'" "es_host e' = es_host e" "es_rack e' = es_rack e" using assms[of i] by auto
    then show ?thesis using e by (cases fd) (simp_all add: es_domain_def es_of_def)
  qed
  then have "map (es_domain fd em') g = map (es_domain fd em) g" if "set g \<subseteq> es_ids em" using that by auto
  then show ?thesis unfolding spread_def ids by (cases "set g \<subseteq> es_ids em") (simp_all del: map_eq_conv)
qed

lemma same_places_spread: "same_places em em' \<Longrightarrow> spread fd n em' g = spread fd n em g"
proof (rule spread_same)
  fix i assume "same_places em em'"
  then have "map_option es_stored (map_of em' i) = map_option es_stored (map_of em i)" by (simp add: same_places_def)
  then have "map_option (\<lambda>e. (es_host e, es_rack e)) (map_option es_stored (map_of em' i)) =
      map_option (\<lambda>e. (es_host e, es_rack e)) (map_option es_stored (map_of em i))" by simp
  then show "map_option (\<lambda>e. (es_host e, es_rack e)) (map_of em' i) = map_option (\<lambda>e. (es_host e, es_rack e)) (map_of em i)"
    by (simp add: option.map_comp o_def es_stored_def)
qed

lemma pool_wf_es:
  assumes "pool_wf p" "sorted_wrt (<) (map fst em)"
    and "p_status p = kPoolStatusEnabled \<Longrightarrow>
      (\<And>i. map_option (\<lambda>e. (es_host e, es_rack e)) (map_of em i) = map_option (\<lambda>e. (es_host e, es_rack e)) (map_of (p_es_mgr p) i))"
  shows "pool_wf (p \<lparr> p_es_mgr := em \<rparr>)"
proof (cases "p_status p = kPoolStatusEnabled")
  case True
  have "spread fd n em g = spread fd n (p_es_mgr p) g" for fd n g by (rule spread_same) (rule assms(3)[OF True])
  then show ?thesis using assms(1,2) unfolding pool_wf_def by simp
next
  case False
  then show ?thesis using assms(1,2) unfolding pool_wf_def by simp
qed

section \<open>Every call keeps the pools well formed\<close>

lemma allocate_poolid_new:
  assumes "allocate_poolid pm = i" "i \<noteq> []"
  shows "i \<in> set pool_ids" "map_of pm i = None"
  using assms by (auto simp: allocate_poolid_def find_Some_iff split: option.splits)

lemma create_pool_wf:
  assumes w: "pools_wf pm" and ok: "pool_op_ok pm (Create_pool now name type fd rn en)"
    and c: "create_pool crc now x per st pm name type fd rn en = (s, i, st', pm')"
  shows "pools_wf pm'"
proof (cases "pm' = pm")
  case False
  let ?i = "allocate_poolid pm"
  let ?p = "Pool now per ?i name type fd rn en x"
  have c': "?i \<noteq> []" "\<not> list_ex (\<lambda>(_, p). p_name p = name) pm" "pm' = smap_insert ?i ?p pm"
    using c False by (auto simp: create_pool_def Let_def Pool_def split: if_splits prod.splits)
  have "p_name q \<noteq> name" if "map_of pm j = Some q" for j q
    using c'(2) map_of_SomeD[OF that] by (auto simp: list_ex_iff)
  then show ?thesis unfolding c'(3) using ok
    by (intro pools_wf_insert[OF w allocate_poolid_new(1)[OF refl c'(1)]])
      (auto simp: Pool_def pool_wf_def replica_count_valid_def)
qed (simp add: w)

lemma init_pool_wf:
  assumes sh: "\<And>m. mset (sh m) = mset m" "0 < per" and w: "pools_wf pm" and ok: "pool_op_ok pm (Init_pool now i)"
    and c: "init_pool crc now x per sh st pm i = Some (s, st', pm')"
  shows "pools_wf pm'"
proof (cases "pm' = pm")
  case False
  obtain p where p: "map_of pm i = Some p" "p_status p = kPoolStatusCreated" "p_es_num p = length (p_es_mgr p)"
    using c False by (auto simp: init_pool_def split: option.splits if_splits)
  note P = pools_wfD(3)[OF w p(1)]
  have rg: "p_rg_mgr p = RgManager" using ok p by simp
  have n: "p_replica_num p \<le> 3" "1 \<le> p_replica_num p" "p_es_mgr p \<noteq> []" using P p(3) by (auto simp: pool_wf_def kMaxReplicaCount_def)
  have rc: "to_int32 (int (p_replica_num p)) = int (p_replica_num p)" using n by (simp add: to_int32_def)
  let ?r = "rg_init crc now x per sh st RgManager (p_es_mgr p) (p_id p) (int (p_replica_num p)) (p_failure_domain p) (map fst (p_es_mgr p))"
  obtain s1 st1 mgr em where r: "?r = Some (s1, st1, mgr, em)" using c p rg rc by (cases ?r) (auto simp: init_pool_def)
  let ?p = "p \<lparr> p_rg_mgr := mgr, p_es_mgr := em \<rparr>"
  have em: "sorted_wrt (<) (map fst em)" using P rg_init_sorted[OF r] by (simp add: pool_wf_def)
  show ?thesis
  proof (cases "st_ok s1")
    case False
    then have "pm' = smap_insert i ?p pm" using c p rg rc r by (simp add: init_pool_def)
    moreover have "pool_wf ?p" using P p(2) em by (simp add: pool_wf_def)
    ultimately show ?thesis using pools_wf_replace[OF w p(1), of ?p] by simp
  next
    case True
    let ?q = "?p \<lparr> p_status := kPoolStatusEnabled \<rparr>"
    have pm': "pm' = smap_insert i ?q pm" using c p rg rc r True by (auto simp: init_pool_def Let_def split: if_splits prod.splits)
    note I = rg_init_placed[OF sh(1) r True n(3) _ sh(2)]
    have "queues_known mgr" "\<exists>fd n. 1 \<le> n \<and> (\<forall>j g. group_servers mgr j = Some g \<longrightarrow> spread fd n em g)"
      using I n(2) same_places_spread[OF I(2)] by (auto intro!: exI[of _ "p_failure_domain p"] exI[of _ "p_replica_num p"])
    then have "pool_wf ?q" using P em by (simp add: pool_wf_def)
    then show ?thesis using pools_wf_replace[OF w p(1), of ?q] pm' by simp
  qed
qed (simp add: w)

lemma update_pool_wf:
  assumes w: "pools_wf pm" and ok: "pool_op_ok pm (Update_pool i name type fd rn en)"
    and c: "update_pool crc st pm i name type fd rn en = (s, st', pm')"
  shows "pools_wf pm'"
proof (cases "pm' = pm")
  case False
  obtain p where p: "map_of pm i = Some p" "\<not> list_ex (\<lambda>(_, p). p_id p \<noteq> i \<and> p_name p = name) pm"
    using c False by (auto simp: update_pool_def split: option.splits if_splits)
  define q where "q = p \<lparr> p_name := (if name = [] then p_name p else name), p_type := (if type = kPoolTypeUnknown then p_type p else type),
    p_failure_domain := (if fd = kFailureDomainUnknown then p_failure_domain p else fd),
    p_replica_num := (if rn = 0 then p_replica_num p else rn), p_es_num := (if en = 0 then p_es_num p else en) \<rparr>"
  have pm': "pm' = smap_insert i q pm" using c False p by (auto simp: update_pool_def Let_def q_def split: if_splits prod.splits)
  have q: "p_id q = i" "pool_wf q" using pools_wfD(3)[OF w p(1)] ok
    by (auto simp: q_def pool_wf_def replica_count_valid_def kMaxReplicaCount_def)
  show ?thesis unfolding pm'
  proof (rule pools_wf_insert[OF w pool_known[OF w p(1)] q])
    fix j r assume r: "map_of pm j = Some r" "p_name r = p_name q"
    have "p_id r = j" using pools_wfD(3)[OF w r(1)] by blast
    moreover have "p_id r = i \<or> p_name r \<noteq> name" using p(2) map_of_SomeD[OF r(1)] by (auto simp: list_ex_iff)
    moreover have "p_name q = p_name p \<or> p_name q = name" by (simp add: q_def)
    ultimately show "j = i" using r pools_wfD(4)[OF w r(1) p(1)] by metis
  qed
qed (simp add: w)

lemma soft_delete_pool_wf:
  assumes w: "pools_wf pm" and c: "soft_delete_pool crc st pm i = (s, st', pm')"
  shows "pools_wf pm'"
proof (cases "pm' = pm")
  case False
  then obtain p where p: "map_of pm i = Some p" using c by (auto simp: soft_delete_pool_def pool_valid_def split: option.splits if_splits)
  have "pm' = smap_insert i (p \<lparr> p_status := kPoolStatusDisabled \<rparr>) pm"
    using c False p by (auto simp: soft_delete_pool_def Let_def split: if_splits prod.splits)
  then show ?thesis using pools_wf_replace[OF w p, of "p \<lparr> p_status := kPoolStatusDisabled \<rparr>"] pools_wfD(3)[OF w p] by simp
qed (simp add: w)

lemma delete_pool_wf: "pools_wf pm \<Longrightarrow> delete_pool st pm i = (s, st', pm') \<Longrightarrow> pools_wf pm'"
  by (auto simp: delete_pool_def pools_wf_delete split: option.splits if_splits prod.splits)

text \<open>The calls that change one manager of a pool.\<close>

lemma blob_change_wf: "pools_wf pm \<Longrightarrow> map_of pm i = Some p \<Longrightarrow> pools_wf (smap_insert i (p \<lparr> p_blob_mgr := bm \<rparr>) pm)"
  by (rule pools_wf_replace) (simp_all add: pools_wfD(3))

lemma es_change_wf:
  assumes "pools_wf pm" "map_of pm i = Some p" "es_sorted em"
    and "p_status p = kPoolStatusEnabled \<Longrightarrow>
      (\<And>i. map_option (\<lambda>e. (es_host e, es_rack e)) (map_of em i) = map_option (\<lambda>e. (es_host e, es_rack e)) (map_of (p_es_mgr p) i))"
  shows "pools_wf (smap_insert i (p \<lparr> p_es_mgr := em \<rparr>) pm)"
  by (rule pools_wf_replace[OF assms(1,2) _ _ pool_wf_es]) (use pools_wfD(3)[OF assms(1,2)] assms(3,4) in auto)

lemma pool_of_blobD: "pool_of_blob pm b = Some (i, p) \<Longrightarrow> pools_wf pm \<Longrightarrow> map_of pm i = Some p"
  using sorted_map_distinct[OF pools_wfD(1), of pm] nth_mem by (fastforce simp: pool_of_blob_def find_Some_iff)

lemma pm_create_blob_wf:
  assumes w: "pools_wf pm" and c: "pm_create_blob crc now uuids x st pm i name sz type desc user inst = Some (s, b, ids, st', pm')"
  shows "pools_wf pm'"
proof (cases "pm' = pm")
  case False
  obtain p where p: "map_of pm i = Some p" "p_status p = kPoolStatusEnabled"
    using c False by (auto simp: pm_create_blob_def split: option.splits if_splits)
  obtain bid where bid: "allocate_blobid pm uuids = Some bid" using c by (auto simp: pm_create_blob_def split: option.splits)
  obtain s1 st1 bm where b: "create_blob crc now st (p_blob_mgr p) bid name sz type desc i user inst = (s1, st1, bm)" by (cases "create_blob crc now st (p_blob_mgr p) bid name sz type desc i user inst")
  let ?p = "p \<lparr> p_blob_mgr := bm \<rparr>"
  have w1: "pools_wf (smap_insert i ?p pm)" by (rule blob_change_wf[OF w p(1)])
  show ?thesis
  proof (cases "st_ok s1")
    case False
    then show ?thesis using c p bid b w1 by (simp add: pm_create_blob_def)
  next
    case True
    then obtain ids mgr where a: "allocate_rgs crc st1 (p_rg_mgr p) (p_es_mgr p) (to_int32 (int (sz div x))) = Some (s, ids, st', mgr)"
        "pm' = smap_insert i (?p \<lparr> p_rg_mgr := mgr \<rparr>) (smap_insert i ?p pm)"
      using c p bid b by (auto simp: pm_create_blob_def Let_def split: option.splits)
    have "pool_wf (?p \<lparr> p_rg_mgr := mgr \<rparr>)" by (rule pool_wf_allocate) (use a(1) p pools_wfD(3)[OF w p(1)] in simp_all)
    then show ?thesis unfolding a(2) by (intro pools_wf_replace[OF w1, where p = ?p]) simp_all
  qed
qed (simp add: w)

lemma pm_resize_blob_wf:
  assumes w: "pools_wf pm" and c: "pm_resize_blob crc now x st pm user b sz = Some (s, i, old, ids, st', pm')"
  shows "pools_wf pm'"
proof (cases "pool_of_blob pm b")
  case None
  then show ?thesis using c w by (simp add: pm_resize_blob_def)
next
  case (Some ip)
  obtain i p where ip: "ip = (i, p)" by (cases ip)
  note p = pool_of_blobD[OF Some[unfolded ip] w]
  obtain s1 old1 st1 bm where r: "resize_blob x crc now st (p_blob_mgr p) user b sz = (s1, old1, st1, bm)" by (metis prod.exhaust)
  let ?p = "p \<lparr> p_blob_mgr := bm \<rparr>"
  have w1: "pools_wf (smap_insert i ?p pm)" by (rule blob_change_wf[OF w p])
  show ?thesis
  proof (cases "st_ok s1")
    case False
    then show ?thesis using c Some ip r w1 by (simp add: pm_resize_blob_def)
  next
    case True
    then obtain n mgr where a: "allocate_rgs crc st1 (p_rg_mgr p) (p_es_mgr p) n = Some (s, ids, st', mgr)"
        "pm' = smap_insert i (?p \<lparr> p_rg_mgr := mgr \<rparr>) (smap_insert i ?p pm)"
      using c Some ip r by (auto simp: pm_resize_blob_def Let_def split: option.splits)
    have "pool_wf (?p \<lparr> p_rg_mgr := mgr \<rparr>)"
      by (rule pool_wf_allocate) (use a(1) pools_wfD(3)[OF w p] in simp_all)
    then show ?thesis unfolding a(2) by (intro pools_wf_replace[OF w1, where p = ?p]) simp_all
  qed
qed

lemma blob_calls_wf:
  assumes w: "pools_wf pm"
  shows "pm_soft_delete_blob crc st pm user b = (s, st', pm') \<Longrightarrow> pools_wf pm'"
    "pm_delete_blob st pm i b = (s, st', pm') \<Longrightarrow> pools_wf pm'"
    "pm_rename_blob crc now st pm user b name = (s, st', pm') \<Longrightarrow> pools_wf pm'"
  using w blob_change_wf[OF w] pool_of_blobD[OF _ w]
  by (auto simp: pm_soft_delete_blob_def pm_delete_blob_def pm_rename_blob_def split: option.splits prod.splits)

lemma update_es_places:
  assumes "update_es crc st em e name pip pport vip vport sz = (s, st', em')"
  shows "map_option (\<lambda>e. (es_host e, es_rack e)) (map_of em' i) = map_option (\<lambda>e. (es_host e, es_rack e)) (map_of em i)"
    "es_sorted em \<Longrightarrow> es_sorted em'"
  using assms by (auto simp: update_es_def Let_def smap_insert_sorted split: option.splits if_splits prod.splits)

lemma es_calls_wf:
  assumes w: "pools_wf pm"
  shows "pm_create_es crc now st pm e name pip pport vip vport sz cap i host rack = (s, st', pm') \<Longrightarrow> pools_wf pm'"
    "pm_update_es crc st pm i e name pip pport vip vport sz = (s, st', pm') \<Longrightarrow> pools_wf pm'"
    "pm_delete_es st pm i e = (s, st', pm') \<Longrightarrow> pools_wf pm'"
proof -
  have P: "es_sorted (p_es_mgr p)" if "map_of pm i = Some p" for p using pools_wfD(3)[OF w that] by (simp add: pool_wf_def)
  show "pools_wf pm'" if c: "pm_create_es crc now st pm e name pip pport vip vport sz cap i host rack = (s, st', pm')"
  proof (cases "pm' = pm")
    case False
    then obtain p em where p: "map_of pm i = Some p" "p_status p = kPoolStatusCreated" "pm' = smap_insert i (p \<lparr> p_es_mgr := em \<rparr>) pm"
        "create_es crc now st (p_es_mgr p) e name pip pport vip vport sz cap i host rack = (s, st', em)"
      using c by (auto simp: pm_create_es_def split: option.splits if_splits prod.splits)
    have "es_sorted em" using p(4) P[OF p(1)] by (auto simp: create_es_def Let_def smap_insert_sorted split: if_splits prod.splits)
    then show ?thesis unfolding p(3) by (rule es_change_wf[OF w p(1)]) (simp add: p(2))
  qed (simp add: w)
  show "pools_wf pm'" if c: "pm_update_es crc st pm i e name pip pport vip vport sz = (s, st', pm')"
  proof (cases "pm' = pm")
    case False
    then obtain p em where p: "map_of pm i = Some p" "pm' = smap_insert i (p \<lparr> p_es_mgr := em \<rparr>) pm"
        "update_es crc st (p_es_mgr p) e name pip pport vip vport sz = (s, st', em)"
      using c by (auto simp: pm_update_es_def pool_valid_def Let_def split: option.splits if_splits prod.splits)
    show ?thesis unfolding p(2) by (rule es_change_wf[OF w p(1)]) (use update_es_places[OF p(3)] P[OF p(1)] in auto)
  qed (simp add: w)
  show "pools_wf pm'" if c: "pm_delete_es st pm i e = (s, st', pm')"
  proof (cases "pm' = pm")
    case False
    then obtain p em where p: "map_of pm i = Some p" "p_status p = kPoolStatusCreated" "pm' = smap_insert i (p \<lparr> p_es_mgr := em \<rparr>) pm"
        "delete_es st (p_es_mgr p) e = (s, st', em)"
      using c by (auto simp: pm_delete_es_def split: option.splits if_splits prod.splits)
    have "es_sorted em" using p(4) P[OF p(1)] by (auto simp: delete_es_def sorted_delete split: option.splits if_splits prod.splits)
    then show ?thesis unfolding p(3) by (rule es_change_wf[OF w p(1)]) (simp add: p(2))
  qed (simp add: w)
qed

lemma purge_wf:
  assumes w: "pools_wf pm" and ok: "pool_op_ok pm (Purge i)" and c: "pool_exec crc x per sh (Purge i) (st, pm) = Some (s, st', pm')"
  shows "pools_wf pm'"
proof (cases "map_of pm i")
  case None
  then show ?thesis using c by (auto simp: pm_delete_all_es_def pm_delete_all_rg_def)
next
  case (Some p)
  let ?p = "p \<lparr> p_es_mgr := [] \<rparr>"
  have d: "p_status p = kPoolStatusDisabled" using ok Some by simp
  have w1: "pools_wf (smap_insert i ?p pm)" by (rule es_change_wf[OF w Some]) (simp_all add: d)
  have "pm' = smap_insert i (?p \<lparr> p_rg_mgr := \<lparr> rgm_map = [], rgm_es_rgs = [], rgm_heap = [] \<rparr> \<rparr>) (smap_insert i ?p pm)"
    using c Some by (auto simp: pm_delete_all_es_def pm_delete_all_rg_def delete_all_es_def delete_all_rg_def)
  moreover have "pool_wf (?p \<lparr> p_rg_mgr := \<lparr> rgm_map = [], rgm_es_rgs = [], rgm_heap = [] \<rparr> \<rparr>)"
    using pools_wfD(3)[OF w Some] d by (simp add: pool_wf_def)
  ultimately show ?thesis using pools_wf_replace[OF w1, where p = ?p] by simp
qed

lemma pool_exec_wf:
  assumes sh: "\<And>m. mset (sh m) = mset m" "0 < per" and w: "pools_wf pm" "pool_op_ok pm op"
    and c: "pool_exec crc x per sh op (st, pm) = Some (s, st', pm')"
  shows "pools_wf pm'"
proof (cases op)
  case Create_pool
  then show ?thesis using c w create_pool_wf[OF w(1)] by (auto split: prod.splits)
next
  case Init_pool
  then show ?thesis using c w init_pool_wf[OF sh w(1)] by simp
next
  case Update_pool
  then show ?thesis using c w update_pool_wf[OF w(1)] by simp
next
  case Soft_delete_pool
  then show ?thesis using c soft_delete_pool_wf[OF w(1)] by simp
next
  case Delete_pool
  then show ?thesis using c delete_pool_wf[OF w(1)] by simp
next
  case Purge
  then show ?thesis using c w purge_wf[OF w(1)] by blast
next
  case New_blob
  then show ?thesis using c pm_create_blob_wf[OF w(1)] by auto
next
  case Resize_in_pool
  then show ?thesis using c pm_resize_blob_wf[OF w(1)] by auto
qed (use c blob_calls_wf[OF w(1)] es_calls_wf[OF w(1)] in auto)

section \<open>Reachable tables of pools\<close>



end
