(* ===== verification/User_Manager.thy ===== *)
theory User_Manager
  imports Pb_Types
begin

text \<open>
  Users and the user manager (\<open>src/src/extentmanager/user.{h,cpp}\<close>): a table of users in
  memory and a copy of each in the store. The pools of a user are only kept in memory until
  the record is written for another reason, so the store holds the users up to their
  pools. The random identifiers that \<open>UUID::Generate\<close> returns are an argument.
\<close>

section \<open>Users\<close>

record user =
  u_id :: string
  u_name :: string
  u_email :: string
  u_comments :: string
  u_status :: user_status
  u_pool_ids :: "string list"
  u_set_id :: int
  u_create_time :: string
  u_update_time :: string

type_synonym user_map = "(string \<times> user) list"

definition User :: "string \<Rightarrow> string \<Rightarrow> string \<Rightarrow> string \<Rightarrow> string \<Rightarrow> int \<Rightarrow> user" where
  "User now uid name email comments set_id =
     \<lparr> u_id = uid, u_name = name, u_email = email, u_comments = comments, u_status = kUserStatusCreated,
       u_pool_ids = [], u_set_id = set_id, u_create_time = now, u_update_time = now \<rparr>"

definition get_poolid :: "user \<Rightarrow> string" where
  "get_poolid u = concat (map (\<lambda>v. v @ '', '') (u_pool_ids u))"

definition ToPbUser :: "user \<Rightarrow> pb_user" where
  "ToPbUser u =
     \<lparr> pbu_id = u_id u, pbu_name = u_name u, pbu_email = u_email u, pbu_comments = u_comments u,
       pbu_status = ToPbUserStatus (u_status u), pbu_pool_id = get_poolid u, pbu_set_id = u_set_id u,
       pbu_create_date = u_create_time u, pbu_update_date = u_update_time u \<rparr>"

definition user_key :: "string \<Rightarrow> string" where
  "user_key uid = kUserKvPrefix @ ''_'' @ uid"

definition user_kv_key :: "user \<Rightarrow> string" where
  "user_kv_key u = user_key (u_id u)"

definition put_user :: "user \<Rightarrow> string" where
  "put_user u = put_u32 0 @ put_str (u_id u) @ put_str (u_name u) @ put_str (u_email u) @ put_str (u_comments u) @
     put_enum user_status_codes (u_status u) @ put_list put_str (u_pool_ids u) @ put_i32 (u_set_id u) @
     put_str (u_create_time u) @ put_str (u_update_time u)"

definition get_user :: "string \<Rightarrow> (user \<times> string) option" where
  "get_user =
     get_then get_u32 (\<lambda>version. get_then get_str (\<lambda>uid. get_then get_str (\<lambda>name. get_then get_str (\<lambda>email.
     get_then get_str (\<lambda>comments. get_then (get_enum user_status_codes) (\<lambda>status.
     get_then (get_list get_str) (\<lambda>pool_ids. get_then get_i32 (\<lambda>set_id.
     get_then get_str (\<lambda>create_time. get_then get_str (\<lambda>update_time r.
       Some (\<lparr> u_id = uid, u_name = name, u_email = email, u_comments = comments, u_status = status,
               u_pool_ids = pool_ids, u_set_id = set_id, u_create_time = create_time,
               u_update_time = update_time \<rparr>, r)))))))))))"

section \<open>Operations of \<open>UserManager\<close>\<close>

text \<open>The loop of \<open>gen_userid\<close> on the identifiers that are generated; \<open>None\<close>: these were
  not enough.\<close>

fun gen_userid :: "user_map \<Rightarrow> string list \<Rightarrow> string option" where
  "gen_userid m [] = None"
| "gen_userid m (uuid # uuids) =
     (let user_id = kUserIdPrefix @ uuid in
      if map_of m user_id = None then Some user_id else gen_userid m uuids)"

definition username_exist :: "user_map \<Rightarrow> string \<Rightarrow> bool" where
  "username_exist m user_name = list_ex (\<lambda>(_, u). u_status u = kUserStatusCreated \<and> u_name u = user_name) m"

definition persist_user :: "(string \<Rightarrow> 32 word) \<Rightarrow> rocks_store \<Rightarrow> user \<Rightarrow> rocks_status \<times> rocks_store" where
  "persist_user crc st u = RocksStore_Put st (user_kv_key u) (Serializer_Encode crc put_user u)"

definition create_user :: "(string \<Rightarrow> 32 word) \<Rightarrow> string \<Rightarrow> string list \<Rightarrow> rocks_store \<Rightarrow> user_map \<Rightarrow> string \<Rightarrow> string
    \<Rightarrow> string \<Rightarrow> int \<Rightarrow> (status \<times> string option \<times> rocks_store \<times> user_map) option" where
  "create_user crc now uuids st m name email comments set_id =
     (if username_exist m name then Some (Status CYPRE_EM_USER_DUPLICATED ''duplicated user name'', None, st, m)
      else case gen_userid m uuids of
          None \<Rightarrow> None
        | Some uid \<Rightarrow>
            let u = User now uid name email comments set_id;
                (s, st) = persist_user crc st u
            in if \<not> rs_ok s then Some (Status CYPRE_EM_STORE_ERROR ''persist user meta failed'', None, st, m)
               else Some (Status_OK, Some (u_id u), st, AList.update (u_id u) u m))"

definition update_user :: "(string \<Rightarrow> 32 word) \<Rightarrow> string \<Rightarrow> rocks_store \<Rightarrow> user_map \<Rightarrow> string \<Rightarrow> string \<Rightarrow> string
    \<Rightarrow> string \<Rightarrow> status \<times> rocks_store \<times> user_map" where
  "update_user crc now st m user_id new_name new_email new_comments =
     (case map_of m user_id of
        None \<Rightarrow> (Status CYPRE_EM_USER_NOT_FOUND ''not found user'', st, m)
      | Some u \<Rightarrow>
          if u_status u = kUserStatusDeleted then (Status CYPRE_EM_USER_NOT_FOUND ''not found user'', st, m)
          else if username_exist m new_name then (Status CYPRE_EM_USER_DUPLICATED ''duplicated user name'', st, m)
          else let u' = u \<lparr> u_name := (if new_name = [] then u_name u else new_name),
                            u_email := (if new_email = [] then u_email u else new_email),
                            u_comments := (if new_comments = [] then u_comments u else new_comments),
                            u_update_time := now \<rparr>;
                   (s, st) = persist_user crc st u'
               in if \<not> rs_ok s
                  then (Status CYPRE_EM_STORE_ERROR ''persist user meta failed'', st,
                        AList.update user_id (u' \<lparr> u_name := u_name u, u_email := u_email u,
                          u_comments := u_comments u, u_update_time := u_update_time u \<rparr>) m)
                  else (Status_OK, st, AList.update user_id u' m))"

definition soft_delete_user :: "(string \<Rightarrow> 32 word) \<Rightarrow> rocks_store \<Rightarrow> user_map \<Rightarrow> string \<Rightarrow> status \<times> rocks_store \<times> user_map" where
  "soft_delete_user crc st m user_id =
     (case map_of m user_id of
        None \<Rightarrow> (Status CYPRE_EM_USER_NOT_FOUND ''not found user'', st, m)
      | Some u \<Rightarrow>
          let u = u \<lparr> u_status := kUserStatusDeleted \<rparr>;
              m = AList.update user_id u m;
              (s, st) = persist_user crc st u
          in if \<not> rs_ok s then (Status CYPRE_EM_STORE_ERROR ''delete user meta from store failed'', st, m)
             else (Status_OK, st, m))"

definition delete_user :: "rocks_store \<Rightarrow> user_map \<Rightarrow> string \<Rightarrow> status \<times> rocks_store \<times> user_map" where
  "delete_user st m user_id =
     (case map_of m user_id of
        None \<Rightarrow> (Status CYPRE_EM_USER_NOT_FOUND ''not found user'', st, m)
      | Some u \<Rightarrow>
          let (s, st) = RocksStore_Delete st (user_kv_key u) in
          if \<not> rs_ok s then (Status CYPRE_EM_DELETE_ERROR ''delete user meta from store failed'', st, m)
          else (Status_OK, st, AList.delete user_id m))"

definition user_add_pool :: "user_map \<Rightarrow> string \<Rightarrow> string \<Rightarrow> status \<times> user_map" where
  "user_add_pool m user_id pool_id =
     (case map_of m user_id of
        None \<Rightarrow> (Status CYPRE_EM_USER_NOT_FOUND ''not found user'', m)
      | Some u \<Rightarrow>
          if u_status u = kUserStatusDeleted then (Status CYPRE_EM_USER_NOT_FOUND ''not found user'', m)
          else if pool_id \<in> set (u_pool_ids u) then (Status_OK, m)
          else (Status_OK, AList.update user_id (u \<lparr> u_pool_ids := u_pool_ids u @ [pool_id] \<rparr>) m))"

definition user_list_pools :: "user_map \<Rightarrow> string \<Rightarrow> status \<times> string list" where
  "user_list_pools m user_id =
     (case map_of m user_id of
        None \<Rightarrow> (Status CYPRE_EM_USER_NOT_FOUND ''not found user'', [])
      | Some u \<Rightarrow> (Status_OK, u_pool_ids u))"

definition query_user :: "user_map \<Rightarrow> string \<Rightarrow> status \<times> pb_user option" where
  "query_user m user_id =
     (case map_of m user_id of
        None \<Rightarrow> (Status CYPRE_EM_USER_NOT_FOUND ''not found user'', None)
      | Some u \<Rightarrow>
          if u_status u = kUserStatusDeleted then (Status CYPRE_EM_USER_NOT_FOUND ''not found user'', None)
          else (Status_OK, Some (ToPbUser u)))"

definition list_users :: "user_map \<Rightarrow> pb_user list" where
  "list_users m = map (\<lambda>(_, u). ToPbUser u) (filter (\<lambda>(_, u). u_status u = kUserStatusCreated) m)"

definition list_deleted_users :: "user_map \<Rightarrow> string list" where
  "list_deleted_users m = map fst (filter (\<lambda>(_, u). u_status u = kUserStatusDeleted) m)"

definition user_exist :: "user_map \<Rightarrow> string \<Rightarrow> bool" where
  "user_exist m user_id = (case map_of m user_id of None \<Rightarrow> False | Some u \<Rightarrow> u_status u \<noteq> kUserStatusDeleted)"

definition users_recovery_from_store :: "(string \<Rightarrow> 32 word) \<Rightarrow> rocks_store \<Rightarrow> user_map \<Rightarrow> (bool \<times> user_map) option" where
  "users_recovery_from_store crc st m =
     recover_values AList.update (Serializer_Decode crc get_user) u_id (map snd (RocksStore_ScanPrefix st kUserKvPrefix)) m"

section \<open>What holds of a manager\<close>

text \<open>The pools that can exist: \<open>allocate_poolid\<close> of the pool manager numbers them by letters.\<close>

definition known_pools :: "string list" where
  "known_pools = map (\<lambda>i. kPoolIdPrefix @ [char_of (97 + i)]) [0..<26]"

definition user_fits :: "user \<Rightarrow> bool" where
  "user_fits u \<longleftrightarrow> - (2 ^ 31) \<le> u_set_id u \<and> u_set_id u < 2 ^ 31 \<and>
     distinct (u_pool_ids u) \<and> set (u_pool_ids u) \<subseteq> set known_pools \<and>
     (\<forall>s\<in>{u_id u, u_name u, u_email u, u_comments u, u_create_time u, u_update_time u}. length s < 2 ^ 24)"

definition user_active :: "user \<Rightarrow> bool" where
  "user_active u \<longleftrightarrow> u_status u = kUserStatusCreated"

definition no_pools :: "user \<Rightarrow> user" where
  "no_pools u = u \<lparr> u_pool_ids := [] \<rparr>"

text \<open>A user is created or deleted, and no two users that are not deleted have the same name.\<close>

definition names_unique :: "(string \<rightharpoonup> user) \<Rightarrow> bool" where
  "names_unique m \<longleftrightarrow> (\<forall>i u. m i = Some u \<longrightarrow> u_status u \<noteq> kUserStatusUnknown) \<and>
     (\<forall>i j u v. m i = Some u \<longrightarrow> m j = Some v \<longrightarrow> user_active u \<longrightarrow> user_active v \<longrightarrow> u_name u = u_name v \<longrightarrow> i = j)"

text \<open>The store holds the users \<open>sm\<close>, which differ from those in memory at most in their pools.\<close>

definition users_inv :: "(string \<Rightarrow> 32 word) \<Rightarrow> rocks_store \<Rightarrow> (string \<rightharpoonup> user) \<Rightarrow> user_map \<Rightarrow> bool" where
  "users_inv crc st sm m \<longleftrightarrow>
     table_inv kv_wf kv_lookup put_user user_fits kUserKvPrefix user_key u_id crc st sm \<and>
     (\<forall>i. map_option no_pools (sm i) = map_option no_pools (map_of m i)) \<and>
     (\<forall>i u. map_of m i = Some u \<longrightarrow> u_id u = i \<and> user_fits u)"

text \<open>The calls that change a manager, and runs of them.\<close>

datatype user_op =
    Create_user string "string list" string string string int
  | Update_user string string string string string
  | Soft_delete_user string
  | Delete_user string
  | Add_pool string string

fun user_exec :: "(string \<Rightarrow> 32 word) \<Rightarrow> user_op \<Rightarrow> rocks_store \<times> user_map \<Rightarrow> (status \<times> rocks_store \<times> user_map) option" where
  "user_exec crc (Create_user now uuids name email comments set_id) (st, m) =
     map_option (\<lambda>(s, _, st, m). (s, st, m)) (create_user crc now uuids st m name email comments set_id)"
| "user_exec crc (Update_user now uid name email comments) (st, m) = Some (update_user crc now st m uid name email comments)"
| "user_exec crc (Soft_delete_user uid) (st, m) = Some (soft_delete_user crc st m uid)"
| "user_exec crc (Delete_user uid) (st, m) = Some (delete_user st m uid)"
| "user_exec crc (Add_pool uid pool_id) (st, m) = Some (case user_add_pool m uid pool_id of (s, m) \<Rightarrow> (s, st, m))"

fun user_run :: "(string \<Rightarrow> 32 word) \<Rightarrow> user_op list \<Rightarrow> rocks_store \<times> user_map \<Rightarrow> (status list \<times> rocks_store \<times> user_map) option" where
  "user_run crc [] c = Some ([], c)"
| "user_run crc (op # ops) c =
     (case user_exec crc op c of None \<Rightarrow> None
      | Some (s, c) \<Rightarrow> map_option (\<lambda>(ss, c). (s # ss, c)) (user_run crc ops c))"

fun user_op_fits :: "user_op \<Rightarrow> bool" where
  "user_op_fits (Create_user now uuids name email comments set_id) \<longleftrightarrow>
     (\<forall>uuid\<in>set uuids. user_fits (User now (kUserIdPrefix @ uuid) name email comments set_id))"
| "user_op_fits (Update_user now uid name email comments) \<longleftrightarrow> (\<forall>s\<in>{now, name, email, comments}. length s < 2 ^ 24)"
| "user_op_fits (Add_pool uid pool_id) \<longleftrightarrow> pool_id \<in> set known_pools"
| "user_op_fits _ \<longleftrightarrow> True"

fun lost_user_delete :: "user_op \<Rightarrow> status \<Rightarrow> bool" where
  "lost_user_delete (Soft_delete_user uid) s \<longleftrightarrow> st_code s = CYPRE_EM_STORE_ERROR"
| "lost_user_delete op s \<longleftrightarrow> False"

text \<open>A run that the examples use.\<close>

definition demo_user_ops :: "user_op list" where
  "demo_user_ops = [Create_user ''t0'' [''1''] ''ann'' ''a@x'' [] 1, Create_user ''t1'' [''1'', ''2''] ''bob'' [] [] 1,
     Update_user ''t2'' ''user-2'' ''ann'' [] []]"

definition demo_user :: user where
  "demo_user = User ''t0'' ''user-1'' ''ann'' ''a@x'' [] 1"

definition empty_store :: rocks_store where
  "empty_store = \<lparr> rs_db = [], rs_faults = [] \<rparr>"

section \<open>The user table\<close>

lemma known_pools_short: "p \<in> set known_pools \<Longrightarrow> length p = 6"
  by (auto simp: known_pools_def kPoolIdPrefix_def)

lemma user_pools_few: "user_fits u \<Longrightarrow> length (u_pool_ids u) \<le> 26"
proof -
  assume "user_fits u"
  then have "card (set (u_pool_ids u)) \<le> card (set known_pools)" "distinct (u_pool_ids u)"
    by (auto simp: user_fits_def intro: card_mono)
  moreover have "card (set known_pools) \<le> 26" using card_length[of known_pools] by (simp add: known_pools_def)
  ultimately show ?thesis by (simp add: distinct_card)
qed

lemma length_put_list: "\<forall>x\<in>set xs. length (p x) \<le> k \<Longrightarrow> length (put_list p xs) \<le> 8 + k * length xs"
  by (induction xs) auto

lemma length_put_user:
  assumes "user_fits u"
  shows "length (put_user u) < 2 ^ 31"
proof -
  have "length (put_list put_str (u_pool_ids u)) \<le> 8 + 14 * length (u_pool_ids u)"
    by (rule length_put_list) (use assms known_pools_short in \<open>fastforce simp: user_fits_def\<close>)
  also have "\<dots> \<le> 8 + 14 * 26" using user_pools_few[OF assms] by simp
  finally show ?thesis using assms by (simp add: put_user_def user_fits_def)
qed

lemma get_put_user:
  assumes "user_fits u"
  shows "get_user (put_user u @ r) = Some (u, r)"
proof -
  have "get_list get_str (put_list put_str (u_pool_ids u) @ r) = Some (u_pool_ids u, r)" for r
    by (rule get_list_put) (use assms user_pools_few[OF assms] known_pools_short in \<open>fastforce simp: user_fits_def\<close>)+
  then have "get_then (get_list get_str) k (put_list put_str (u_pool_ids u) @ r) = k (u_pool_ids u) r"
    for k :: "string list \<Rightarrow> string \<Rightarrow> (user \<times> string) option" and r
    by (simp add: get_then_def)
  then show ?thesis using assms by (simp add: get_user_def put_user_def user_fits_def)
qed

interpretation users: meta_table kv_wf kv_lookup RocksStore_Put RocksStore_Delete RocksStore_ScanPrefix
  put_user get_user user_fits kUserKvPrefix user_key u_id
  by unfold_locales (auto simp: user_key_def get_put_user length_put_user[simplified])

lemma no_pools_simps [simp]:
  "u_id (no_pools u) = u_id u" "u_pool_ids (no_pools u) = []" "no_pools (u \<lparr> u_pool_ids := x \<rparr>) = no_pools u"
  by (simp_all add: no_pools_def)

text \<open>A write of one user, and a deletion.\<close>

lemma persist_user_inv:
  assumes inv: "users_inv crc st sm m" and w: "persist_user crc st u = (s, st')" and f: "user_fits u"
  shows "if rs_ok s then users_inv crc st' (sm(u_id u \<mapsto> u)) (AList.update (u_id u) u m) else users_inv crc st' sm m"
proof -
  have "RocksStore_Put st (user_key (u_id u)) (Serializer_Encode crc put_user u) = (s, st')"
    using w by (simp add: persist_user_def user_kv_key_def)
  from users.inv_put[OF _ f this, of sm] show ?thesis using inv f by (cases "rs_ok s") (simp_all add: users_inv_def)
qed

lemma delete_user_inv:
  assumes inv: "users_inv crc st sm m" and d: "delete_user st m i = (s, st', m')"
  shows "\<exists>sm'. users_inv crc st' sm' m'"
proof (cases "map_of m i")
  case None
  then show ?thesis using d inv by (auto simp: delete_user_def)
next
  case (Some u)
  then have k: "user_kv_key u = user_key i" using inv by (simp add: user_kv_key_def users_inv_def)
  obtain r st1 where del: "RocksStore_Delete st (user_key i) = (r, st1)" by fastforce
  from users.inv_del[OF _ del, of crc sm] inv
  have "users_inv crc st1 (if rs_ok r then sm(i := None) else sm) (if rs_ok r then AList.delete i m else m)"
    by (simp add: users_inv_def)
  then show ?thesis using d del k Some by (auto simp: delete_user_def Let_def split: if_splits)
qed

lemma gen_userid_fresh: "gen_userid m uuids = Some i \<Longrightarrow> map_of m i = None \<and> (\<exists>uuid\<in>set uuids. i = kUserIdPrefix @ uuid)"
  by (induction m uuids rule: gen_userid.induct) (auto simp: Let_def split: if_splits)

lemma username_exist_iff:
  assumes "distinct (map fst m)"
  shows "username_exist m name \<longleftrightarrow> (\<exists>i u. map_of m i = Some u \<and> user_active u \<and> u_name u = name)"
  using assms by (auto simp: username_exist_def list_ex_iff user_active_def)

text \<open>What a call does to the table.\<close>

lemma user_exec_table:
  assumes "user_exec crc op (st, m) = Some (s, st', m')"
  shows "m' = m \<or>
    (\<exists>now uuids name email comments set_id i. op = Create_user now uuids name email comments set_id \<and>
       \<not> username_exist m name \<and> m' = AList.update i (User now i name email comments set_id) m) \<or>
    (\<exists>now i name email comments u. op = Update_user now i name email comments \<and> map_of m i = Some u \<and>
       \<not> username_exist m name \<and> m' = AList.update i (u \<lparr> u_name := (if name = [] then u_name u else name),
         u_email := (if email = [] then u_email u else email),
         u_comments := (if comments = [] then u_comments u else comments), u_update_time := now \<rparr>) m) \<or>
    (\<exists>i u. map_of m i = Some u \<and> m' = AList.update i (u \<lparr> u_status := kUserStatusDeleted \<rparr>) m) \<or>
    (\<exists>i u p. map_of m i = Some u \<and> m' = AList.update i (u \<lparr> u_pool_ids := p \<rparr>) m) \<or>
    (\<exists>i. m' = AList.delete i m)"
proof (cases op)
  case (Create_user now uuids name email comments set_id)
  then show ?thesis using assms
    by (auto simp: create_user_def Let_def User_def split: if_splits option.splits prod.splits)
next
  case (Update_user now i name email comments)
  show ?thesis
  proof (cases "map_of m i")
    case (Some u)
    have "AList.update i u m = m" using Some by (rule update_same)
    then show ?thesis using assms Update_user Some
      by (simp add: update_user_def Let_def split: if_splits prod.splits)
  qed (use assms Update_user in \<open>simp add: update_user_def\<close>)
next
  case (Soft_delete_user i)
  then show ?thesis using assms by (auto simp: soft_delete_user_def Let_def split: if_splits option.splits prod.splits)
next
  case (Delete_user i)
  then show ?thesis using assms by (auto simp: delete_user_def Let_def split: if_splits option.splits prod.splits)
next
  case (Add_pool i p)
  then show ?thesis using assms by (auto simp: user_add_pool_def Let_def split: if_splits option.splits prod.splits)
qed

lemma user_exec_distinct:
  "user_exec crc op (st, m) = Some (s, st', m') \<Longrightarrow> distinct (map fst m) \<Longrightarrow> distinct (map fst m')"
  by (drule user_exec_table) (auto simp: distinct_update distinct_delete)

lemma names_unique_update:
  assumes "names_unique m" "u_status u \<noteq> kUserStatusUnknown"
    and "user_active u \<Longrightarrow> (\<forall>j v. m j = Some v \<longrightarrow> user_active v \<longrightarrow> u_name v = u_name u \<longrightarrow> j = i)"
  shows "names_unique (m(i \<mapsto> u))"
  using assms unfolding names_unique_def by (auto split: if_splits)

lemma names_unique_same:
  assumes "names_unique m" "m i = Some v" "u_status u \<noteq> kUserStatusUnknown" "user_active u \<Longrightarrow> user_active v \<and> u_name u = u_name v"
  shows "names_unique (m(i \<mapsto> u))"
  by (rule names_unique_update[OF assms(1,3)]) (use assms in \<open>auto simp: names_unique_def\<close>)

lemma user_exec_names:
  assumes e: "user_exec crc op (st, m) = Some (s, st', m')" and d: "distinct (map fst m)" and u: "names_unique (map_of m)"
  shows "names_unique (map_of m')"
proof -
  note x = username_exist_iff[OF d]
  have st: "u_status u \<noteq> kUserStatusUnknown" if "map_of m i = Some u" for i u
    using u that by (auto simp: names_unique_def simp del: map_of_eq_Some_iff)
  show ?thesis using user_exec_table[OF e]
  proof (elim disjE exE conjE)
    fix now name email comments set_id i
    assume *: "\<not> username_exist m name" "m' = AList.update i (User now i name email comments set_id) m"
    have "names_unique ((map_of m)(i \<mapsto> User now i name email comments set_id))"
      by (rule names_unique_update[OF u]) (use *(1) x[of name] in \<open>auto simp: User_def simp del: map_of_eq_Some_iff\<close>)
    then show ?thesis using * by simp
  next
    fix now i name email comments and v :: user
    let ?v = "v \<lparr> u_name := (if name = [] then u_name v else name), u_email := (if email = [] then u_email v else email),
      u_comments := (if comments = [] then u_comments v else comments), u_update_time := now \<rparr>"
    assume *: "map_of m i = Some v" "\<not> username_exist m name" "m' = AList.update i ?v m"
    have "names_unique ((map_of m)(i \<mapsto> ?v))"
    proof (cases "name = []")
      case True
      then show ?thesis by (intro names_unique_same[OF u *(1)]) (use st[OF *(1)] in \<open>auto simp: user_active_def\<close>)
    next
      case False
      then show ?thesis
        by (intro names_unique_update[OF u]) (use *(1,2) x[of name] st in \<open>auto simp: user_active_def simp del: map_of_eq_Some_iff\<close>)
    qed
    then show ?thesis using * by simp
  next
    fix i and v :: user assume *: "map_of m i = Some v" "m' = AList.update i (v \<lparr> u_status := kUserStatusDeleted \<rparr>) m"
    have "names_unique ((map_of m)(i \<mapsto> v \<lparr> u_status := kUserStatusDeleted \<rparr>))"
      by (rule names_unique_same[OF u *(1)]) (auto simp: user_active_def)
    then show ?thesis using * by simp
  next
    fix i p and v :: user assume *: "map_of m i = Some v" "m' = AList.update i (v \<lparr> u_pool_ids := p \<rparr>) m"
    have "names_unique ((map_of m)(i \<mapsto> v \<lparr> u_pool_ids := p \<rparr>))"
      by (rule names_unique_same[OF u *(1)]) (use st[OF *(1)] in \<open>auto simp: user_active_def\<close>)
    then show ?thesis using * by simp
  next
    fix i assume "m' = AList.delete i m"
    then show ?thesis using u by (auto simp: names_unique_def)
  qed (use u in simp)
qed

lemma user_run_names:
  assumes "user_run crc ops (st, m) = Some (ss, st', m')" "distinct (map fst m)" "names_unique (map_of m)"
  shows "distinct (map fst m') \<and> names_unique (map_of m')"
  using assms
proof (induction ops arbitrary: st m ss)
  case (Cons op ops)
  then obtain s st1 m1 ss1 where *: "user_exec crc op (st, m) = Some (s, st1, m1)" "user_run crc ops (st1, m1) = Some (ss1, st', m')"
    by (auto split: option.splits)
  show ?case by (rule Cons.IH[OF *(2)]) (use user_exec_distinct[OF *(1)] user_exec_names[OF *(1)] Cons.prems in auto)
qed simp

text \<open>Every call keeps the store with the table, up to pools, unless it is a soft deletion that
  the store does not take.\<close>

lemma known_pool_add: "user_fits u \<Longrightarrow> p \<in> set known_pools \<Longrightarrow> p \<notin> set (u_pool_ids u) \<Longrightarrow>
    user_fits (u \<lparr> u_pool_ids := u_pool_ids u @ [p] \<rparr>)"
  by (simp add: user_fits_def)

lemma user_exec_inv:
  assumes inv: "users_inv crc st sm m" and e: "user_exec crc op (st, m) = Some (s, st', m')"
    and fits: "user_op_fits op" and kept: "\<not> lost_user_delete op s"
  shows "\<exists>sm'. users_inv crc st' sm' m'"
proof (cases op)
  case (Create_user now uuids name email comments set_id)
  show ?thesis
  proof (cases "username_exist m name")
    case False
    then obtain i where i: "gen_userid m uuids = Some i" using e Create_user by (auto simp: create_user_def split: option.splits)
    let ?u = "User now i name email comments set_id"
    obtain r st1 where w: "persist_user crc st ?u = (r, st1)" by fastforce
    have "user_fits ?u" using fits gen_userid_fresh[OF i] Create_user by auto
    from persist_user_inv[OF inv w this] show ?thesis using e Create_user False i w
      by (cases "rs_ok r") (auto simp: create_user_def Let_def)
  qed (use e inv Create_user in \<open>auto simp: create_user_def\<close>)
next
  case (Update_user now i name email comments)
  show ?thesis
  proof (cases "map_of m i")
    case (Some u)
    let ?u = "u \<lparr> u_name := (if name = [] then u_name u else name), u_email := (if email = [] then u_email u else email),
      u_comments := (if comments = [] then u_comments u else comments), u_update_time := now \<rparr>"
    obtain r st1 where w: "persist_user crc st ?u = (r, st1)" by fastforce
    have u: "u_id u = i" "user_fits u" using inv Some by (auto simp: users_inv_def simp del: map_of_eq_Some_iff)
    then have "user_fits ?u" using fits Update_user by (auto simp: user_fits_def)
    from persist_user_inv[OF inv w this] show ?thesis using e inv Update_user Some w u update_same[OF Some]
      by (cases "rs_ok r") (auto simp: update_user_def Let_def split: if_splits)
  qed (use e inv Update_user in \<open>auto simp: update_user_def\<close>)
next
  case (Soft_delete_user i)
  show ?thesis
  proof (cases "map_of m i")
    case (Some u)
    let ?u = "u \<lparr> u_status := kUserStatusDeleted \<rparr>"
    obtain r st1 where w: "persist_user crc st ?u = (r, st1)" by fastforce
    have u: "u_id u = i" "user_fits ?u" using inv Some by (auto simp: users_inv_def user_fits_def simp del: map_of_eq_Some_iff)
    from persist_user_inv[OF inv w this(2)] show ?thesis using e kept Soft_delete_user Some w u
      by (cases "rs_ok r") (auto simp: soft_delete_user_def Let_def)
  qed (use e inv Soft_delete_user in \<open>auto simp: soft_delete_user_def\<close>)
next
  case (Delete_user i)
  then show ?thesis using delete_user_inv[OF inv, of i] e by auto
next
  case (Add_pool i p)
  then have "st' = st" "m' = m \<or> (\<exists>u. map_of m i = Some u \<and> p \<notin> set (u_pool_ids u) \<and>
      m' = AList.update i (u \<lparr> u_pool_ids := u_pool_ids u @ [p] \<rparr>) m)"
    using e by (auto simp: user_add_pool_def split: option.splits if_splits)
  then show ?thesis using inv fits Add_pool unfolding users_inv_def
    by (intro exI[of _ sm]) (auto simp: known_pool_add simp del: map_of_eq_Some_iff split: if_splits)
qed

lemma user_run_inv:
  assumes "users_inv crc st sm m" "user_run crc ops (st, m) = Some (ss, st', m')"
    and "\<forall>op\<in>set ops. user_op_fits op" "\<not> list_ex2 lost_user_delete ops ss"
  shows "\<exists>sm'. users_inv crc st' sm' m'"
  using assms
proof (induction ops arbitrary: st sm m ss)
  case (Cons op ops)
  then obtain s st1 m1 ss1 where *: "user_exec crc op (st, m) = Some (s, st1, m1)" "user_run crc ops (st1, m1) = Some (ss1, st', m')"
      "ss = s # ss1" by (auto split: option.splits)
  obtain sm1 where "users_inv crc st1 sm1 m1" using user_exec_inv[OF Cons.prems(1) *(1)] Cons.prems * by auto
  then show ?case by (rule Cons.IH[OF _ *(2)]) (use Cons.prems * in auto)
qed auto

lemma users_recovered:
  assumes "users_inv crc st sm m"
  shows "\<exists>t. users_recovery_from_store crc st [] = Some (True, t) \<and> map_of t = sm"
  using users.recover_table[of crc st sm map_of AList.update "[]"] assms
  by (simp add: users_inv_def users_recovery_from_store_def)

section \<open>Properties of the user manager\<close>


lemma persist_user_empty: "rs_faults st = [] \<Longrightarrow> \<exists>st'. persist_user crc st u = (RocksOk, st') \<and> rs_faults st' = []"
  by (simp add: persist_user_def RocksStore_Put_def kv_write_def)




text \<open>A pool that is added to a user is not written to the store: after a restart the
  user has the pools of its stored record, without the new one.\<close>

theorem user_pool_lost:
  assumes "users_inv crc st sm m" "sm i = Some u" "p \<notin> set (u_pool_ids u)" "user_add_pool m i p = (Status_OK, m')"
  shows "p \<in> set (snd (user_list_pools m' i)) \<and>
    (\<exists>t. users_recovery_from_store crc st [] = Some (True, t) \<and> user_exist t i \<and> p \<notin> set (snd (user_list_pools t i)))"
proof
  obtain v where v: "map_of m i = Some v" "no_pools u = no_pools v"
    using assms(1,2) unfolding users_inv_def by (metis map_option_eq_Some option.simps(9))
  from arg_cong[OF v(2), of u_status] have st: "u_status v = u_status u" by (simp add: no_pools_def)
  show "p \<in> set (snd (user_list_pools m' i))"
    using assms(4) v(1) by (auto simp: user_add_pool_def user_list_pools_def split: if_splits)
  obtain t where "users_recovery_from_store crc st [] = Some (True, t)" "map_of t = sm" using users_recovered[OF assms(1)] by blast
  moreover have "u_status u \<noteq> kUserStatusDeleted" using assms(4) v(1) st by (auto simp: user_add_pool_def split: if_splits)
  ultimately show "\<exists>t. users_recovery_from_store crc st [] = Some (True, t) \<and> user_exist t i \<and> p \<notin> set (snd (user_list_pools t i))"
    using assms(2,3) by (auto simp: user_exist_def user_list_pools_def)
qed

theorem user_pool_lost_witness:
  "\<exists>st m t. user_add_pool [(''user-1'', demo_user)] ''user-1'' ''pool-a'' = (Status_OK, m) \<and>
     ''pool-a'' \<in> set (snd (user_list_pools m ''user-1'')) \<and>
     users_recovery_from_store (\<lambda>_. 0) st [] = Some (True, t) \<and> user_exist t ''user-1'' \<and> ''pool-a'' \<notin> set (snd (user_list_pools t ''user-1''))"
proof -
  have inv: "users_inv (\<lambda>_. 0) empty_store Map.empty []"
    by (simp add: users_inv_def table_inv_def mirrors_def empty_store_def kv_wf_def kv_lookup_def)
  obtain s st where w: "persist_user (\<lambda>_. 0) empty_store demo_user = (s, st)" "rs_ok s"
    by (simp add: empty_store_def persist_user_def RocksStore_Put_def kv_write_def rs_ok_def)
  have f: "user_fits demo_user" by (simp add: user_fits_def demo_user_def User_def)
  have i: "users_inv (\<lambda>_. 0) st [''user-1'' \<mapsto> demo_user] [(''user-1'', demo_user)]"
    using persist_user_inv[OF inv w(1) f] w(2) by (simp add: demo_user_def User_def)
  obtain m where a: "user_add_pool [(''user-1'', demo_user)] ''user-1'' ''pool-a'' = (Status_OK, m)"
    by (simp add: user_add_pool_def demo_user_def User_def)
  have p: "''pool-a'' \<notin> set (u_pool_ids demo_user)" by (simp add: demo_user_def User_def)
  show ?thesis using user_pool_lost[OF i _ p a] a by auto
qed

end
