(* ===== verification/Em_Services.thy ===== *)
theory Em_Services
  imports Pool_Manager User_Manager
begin

text \<open>
  The services of the extent manager (\<open>src/src/extentmanager/\<close>: \<open>resource_service.cpp\<close>,
  \<open>cluster_service.cpp\<close>, \<open>heartbeat_service.cpp\<close>, \<open>router_service.cpp\<close>) over the managers of
  users, pools and routers, which share one store, and the recovery of \<open>extent_manager.cpp\<close>.
  A call takes the fields of its request and the state of the process and returns the
  status and the fields of its response with the new state. An unset string of a request
  is empty.
\<close>

section \<open>The process\<close>

record em_conf =
  cf_extent_size :: nat
  cf_max_block_size :: nat
  cf_rg_per_es :: nat
  cf_set_id :: int

record em_state =
  em_store :: rocks_store
  em_users :: user_map
  em_pools :: pool_map
  em_routers :: router_mgr

abbreviation with_users :: "em_state \<Rightarrow> status \<times> rocks_store \<times> user_map \<Rightarrow> status \<times> em_state" where
  "with_users em r \<equiv> (case r of (s, st, us) \<Rightarrow> (s, em \<lparr> em_store := st, em_users := us \<rparr>))"

abbreviation with_pools :: "em_state \<Rightarrow> status \<times> rocks_store \<times> pool_map \<Rightarrow> status \<times> em_state" where
  "with_pools em r \<equiv> (case r of (s, st, pm) \<Rightarrow> (s, em \<lparr> em_store := st, em_pools := pm \<rparr>))"

section \<open>Users\<close>

definition CreateUser :: "em_conf \<Rightarrow> (string \<Rightarrow> 32 word) \<Rightarrow> string \<Rightarrow> string list \<Rightarrow> em_state \<Rightarrow> string \<Rightarrow> string \<Rightarrow> string
    \<Rightarrow> (status \<times> string option \<times> em_state) option" where
  "CreateUser cf crc now uuids em user_name email comments =
     (if user_name = [] \<or> email = [] then Some (Status CYPRE_ER_INVALID_ARGUMENT ''username or email empty'', None, em)
      else map_option (\<lambda>(s, user_id, st, us). (s, if st_ok s then user_id else None, em \<lparr> em_store := st, em_users := us \<rparr>))
             (create_user crc now uuids (em_store em) (em_users em) user_name email comments (cf_set_id cf)))"

definition DeleteUser :: "(string \<Rightarrow> 32 word) \<Rightarrow> em_state \<Rightarrow> string \<Rightarrow> status \<times> em_state" where
  "DeleteUser crc em user_id =
     (if user_id = [] then (Status CYPRE_ER_INVALID_ARGUMENT ''userid empty'', em)
      else with_users em (soft_delete_user crc (em_store em) (em_users em) user_id))"

definition UpdateUser :: "(string \<Rightarrow> 32 word) \<Rightarrow> string \<Rightarrow> em_state \<Rightarrow> string \<Rightarrow> string \<Rightarrow> string \<Rightarrow> string \<Rightarrow> status \<times> em_state" where
  "UpdateUser crc now em user_id new_name new_email new_comments =
     (if user_id = [] \<or> (new_name = [] \<and> new_email = [] \<and> new_comments = [])
      then (Status CYPRE_ER_INVALID_ARGUMENT ''userid or new information empty'', em)
      else with_users em (update_user crc now (em_store em) (em_users em) user_id new_name new_email new_comments))"

definition QueryUser :: "em_state \<Rightarrow> string \<Rightarrow> status \<times> pb_user option" where
  "QueryUser em user_id =
     (if user_id = [] then (Status CYPRE_ER_INVALID_ARGUMENT ''userid empty'', None) else query_user (em_users em) user_id)"

definition ListUsers :: "em_state \<Rightarrow> status \<times> pb_user list" where
  "ListUsers em = (Status_OK, list_users (em_users em))"

section \<open>Blobs\<close>

definition CreateBlob :: "em_conf \<Rightarrow> (string \<Rightarrow> 32 word) \<Rightarrow> string \<Rightarrow> string list \<Rightarrow> em_state \<Rightarrow> string \<Rightarrow> string \<Rightarrow> nat
    \<Rightarrow> pb_blob_type \<Rightarrow> string \<Rightarrow> string \<Rightarrow> string \<Rightarrow> (status \<times> string option \<times> em_state) option" where
  "CreateBlob cf crc now uuids em user_id blob_name blob_size type instance_id blob_desc pool_id =
     (if user_id = [] \<or> blob_name = [] \<or> instance_id = [] \<or> \<not> blobsize_valid (cf_extent_size cf) blob_size \<or> \<not> blobtype_valid type
      then Some (Status CYPRE_ER_INVALID_ARGUMENT ''argument invalid'', None, em)
      else if \<not> user_exist (em_users em) user_id then Some (Status CYPRE_EM_USER_NOT_FOUND ''User not exist'', None, em)
      else let blob_type = FromPbBlobType type;
               pool_id = (if pool_id = [] then allocate_pool (em_pools em) blob_type else pool_id) in
        if pool_id = [] then Some (Status CYPRE_ER_INVALID_ARGUMENT ''can't find valid pool'', None, em)
        else case pm_create_blob crc now uuids (cf_extent_size cf) (em_store em) (em_pools em) pool_id blob_name blob_size
                    blob_type blob_desc user_id instance_id of
            None \<Rightarrow> None
          | Some (s, blob_id, rg_ids, st, pm) \<Rightarrow>
              let em = em \<lparr> em_store := st, em_pools := pm \<rparr> in
              if \<not> st_ok s then Some (s, None, em)
              else let em = em \<lparr> em_users := snd (user_add_pool (em_users em) user_id pool_id) \<rparr> in
                case create_router crc now (em_store em) pool_id blob_id 1
                       (to_int32 (int (blob_size div cf_extent_size cf))) rg_ids of
                  None \<Rightarrow> None
                | Some (s, st) \<Rightarrow> Some (s, if st_ok s then Some blob_id else None, em \<lparr> em_store := st \<rparr>))"

definition ResizeBlob :: "em_conf \<Rightarrow> (string \<Rightarrow> 32 word) \<Rightarrow> string \<Rightarrow> em_state \<Rightarrow> string \<Rightarrow> string \<Rightarrow> nat \<Rightarrow> (status \<times> em_state) option" where
  "ResizeBlob cf crc now em user_id blob_id new_size =
     (if user_id = [] \<or> blob_id = [] \<or> \<not> blobsize_valid (cf_extent_size cf) new_size
      then Some (Status CYPRE_ER_INVALID_ARGUMENT ''usreid or or blobid or blobsize invalid'', em)
      else if \<not> user_exist (em_users em) user_id then Some (Status CYPRE_EM_USER_NOT_FOUND ''not found user'', em)
      else case pm_resize_blob crc now (cf_extent_size cf) (em_store em) (em_pools em) user_id blob_id new_size of
          None \<Rightarrow> None
        | Some (s, pool_id, old_size, rg_ids, st, pm) \<Rightarrow>
            let em = em \<lparr> em_store := st, em_pools := pm \<rparr> in
            if \<not> st_ok s then Some (s, em)
            else (case create_router crc now st pool_id blob_id
                        (to_int32 (int (the old_size div cf_extent_size cf)) + 1)
                        (to_int32 (int (new_size div cf_extent_size cf))) rg_ids of
                None \<Rightarrow> None
              | Some (s, st) \<Rightarrow> Some (s, em \<lparr> em_store := st \<rparr>)))"

definition DeleteBlob :: "(string \<Rightarrow> 32 word) \<Rightarrow> em_state \<Rightarrow> string \<Rightarrow> string \<Rightarrow> status \<times> em_state" where
  "DeleteBlob crc em user_id blob_id =
     (if user_id = [] \<or> blob_id = [] then (Status CYPRE_ER_INVALID_ARGUMENT ''userid or blobid empty'', em)
      else if \<not> user_exist (em_users em) user_id then (Status CYPRE_EM_USER_NOT_FOUND ''user not found'', em)
      else with_pools em (pm_soft_delete_blob crc (em_store em) (em_pools em) user_id blob_id))"

definition RenameBlob :: "(string \<Rightarrow> 32 word) \<Rightarrow> string \<Rightarrow> em_state \<Rightarrow> string \<Rightarrow> string \<Rightarrow> string \<Rightarrow> status \<times> em_state" where
  "RenameBlob crc now em user_id blob_id new_name =
     (if user_id = [] \<or> blob_id = [] \<or> new_name = []
      then (Status CYPRE_ER_INVALID_ARGUMENT ''userid or blobid or newname empty'', em)
      else if \<not> user_exist (em_users em) user_id then (Status CYPRE_EM_USER_NOT_FOUND ''user not found'', em)
      else with_pools em (pm_rename_blob crc now (em_store em) (em_pools em) user_id blob_id new_name))"

text \<open>The answer has the blob, the extent size and the largest block size.\<close>

definition QueryBlob :: "em_conf \<Rightarrow> em_state \<Rightarrow> string \<Rightarrow> status \<times> (pb_blob \<times> nat \<times> nat) option" where
  "QueryBlob cf em blob_id =
     (if blob_id = [] then (Status CYPRE_ER_INVALID_ARGUMENT ''blob_id empty'', None)
      else case pm_query_blob (em_pools em) blob_id False of
        (s, blob) \<Rightarrow>
          if \<not> st_ok s then (s, None)
          else (s, map_option (\<lambda>b. (b, cf_extent_size cf, cf_max_block_size cf)) blob))"

definition ListBlobs :: "em_state \<Rightarrow> string \<Rightarrow> status \<times> pb_blob list" where
  "ListBlobs em user_id =
     (if user_id = [] then (Status CYPRE_ER_INVALID_ARGUMENT ''userid empty'', [])
      else if \<not> user_exist (em_users em) user_id then (Status CYPRE_EM_USER_NOT_FOUND ''user not found'', [])
      else (Status_OK, pm_list_user_blobs (em_pools em) user_id))"

section \<open>Pools\<close>

definition CreatePool :: "em_conf \<Rightarrow> (string \<Rightarrow> 32 word) \<Rightarrow> string \<Rightarrow> em_state \<Rightarrow> string \<Rightarrow> pb_pool_type \<Rightarrow> int \<Rightarrow> int \<Rightarrow> pb_failure_domain
    \<Rightarrow> status \<times> string option \<times> em_state" where
  "CreatePool cf crc now em name type replica_count es_count fd =
     (if name = [] \<or> \<not> pool_type_valid type \<or> \<not> failure_domain_valid fd \<or> es_count < 1 \<or> \<not> replica_count_valid replica_count \<or>
         replica_count > es_count
      then (Status CYPRE_ER_INVALID_ARGUMENT ''argument invalid'', None, em)
      else case create_pool crc now (cf_extent_size cf) (cf_rg_per_es cf) (em_store em) (em_pools em) name (FromPbPoolType type)
                  (FromPbFailureDomain fd) (nat replica_count) (nat es_count) of
          (s, pool_id, st, pm) \<Rightarrow> (s, pool_id, em \<lparr> em_store := st, em_pools := pm \<rparr>))"

text \<open>The optional fields of an update; a field that is given has to be valid.\<close>

definition UpdatePool :: "(string \<Rightarrow> 32 word) \<Rightarrow> em_state \<Rightarrow> string \<Rightarrow> string option \<Rightarrow> pb_pool_type option \<Rightarrow> int option
    \<Rightarrow> int option \<Rightarrow> pb_failure_domain option \<Rightarrow> status \<times> em_state" where
  "UpdatePool crc em pool_id name type replica_count es_count fd =
     (if pool_id = [] \<or> \<not> pred_option pool_type_valid type \<or> \<not> pred_option replica_count_valid replica_count \<or>
         \<not> pred_option (\<lambda>n. n > 0) es_count \<or> \<not> pred_option failure_domain_valid fd
      then (Status CYPRE_ER_INVALID_ARGUMENT ''argument invalid'', em)
      else with_pools em (update_pool crc (em_store em) (em_pools em) pool_id
             (case name of None \<Rightarrow> [] | Some n \<Rightarrow> n)
             (case type of None \<Rightarrow> kPoolTypeUnknown | Some t \<Rightarrow> FromPbPoolType t)
             (case fd of None \<Rightarrow> kFailureDomainUnknown | Some d \<Rightarrow> FromPbFailureDomain d)
             (case replica_count of None \<Rightarrow> 0 | Some n \<Rightarrow> nat n) (case es_count of None \<Rightarrow> 0 | Some n \<Rightarrow> nat n)))"

definition DeletePool :: "(string \<Rightarrow> 32 word) \<Rightarrow> em_state \<Rightarrow> string \<Rightarrow> status \<times> em_state" where
  "DeletePool crc em pool_id =
     (if pool_id = [] then (Status CYPRE_ER_INVALID_ARGUMENT ''pool id empty'', em)
      else with_pools em (soft_delete_pool crc (em_store em) (em_pools em) pool_id))"

definition InitPool :: "em_conf \<Rightarrow> (string \<Rightarrow> 32 word) \<Rightarrow> string \<Rightarrow> (rg_map \<Rightarrow> rg_map) \<Rightarrow> em_state \<Rightarrow> string \<Rightarrow> (status \<times> em_state) option" where
  "InitPool cf crc now shuffle em pool_id =
     (if pool_id = [] then Some (Status CYPRE_ER_INVALID_ARGUMENT ''poolid empty'', em)
      else map_option (with_pools em)
             (init_pool crc now (cf_extent_size cf) (cf_rg_per_es cf) shuffle (em_store em) (em_pools em) pool_id))"

definition QueryPool :: "em_state \<Rightarrow> string \<Rightarrow> status \<times> pb_pool option" where
  "QueryPool em pool_id =
     (if pool_id = [] then (Status CYPRE_ER_INVALID_ARGUMENT ''pool id empty'', None) else query_pool (em_pools em) pool_id)"

definition ListPools :: "em_state \<Rightarrow> status \<times> pb_pool list" where
  "ListPools em = (Status_OK, list_pools (em_pools em))"

section \<open>Extent servers and replication groups\<close>

text \<open>The calls that list objects set the code of the status only.\<close>

definition QueryExtentServer :: "em_state \<Rightarrow> string \<Rightarrow> int \<Rightarrow> status \<times> pb_extent_server option" where
  "QueryExtentServer em pool_id eid =
     (if pool_id = [] then (Status CYPRE_ER_INVALID_ARGUMENT ''pool_id empty'', None) else pm_query_es (em_pools em) pool_id eid)"

definition DeleteExtentServer :: "em_state \<Rightarrow> string \<Rightarrow> int \<Rightarrow> status \<times> em_state" where
  "DeleteExtentServer em pool_id eid =
     (if pool_id = [] then (Status CYPRE_ER_INVALID_ARGUMENT ''pool_id empty'', em)
      else with_pools em (pm_delete_es (em_store em) (em_pools em) pool_id eid))"

definition ListExtentServers :: "em_state \<Rightarrow> string \<Rightarrow> status \<times> pb_extent_server list" where
  "ListExtentServers em pool_id =
     (if pool_id = [] then (Status CYPRE_ER_INVALID_ARGUMENT ''pool_id empty'', [])
      else if \<not> pool_valid (em_pools em) pool_id then (Status CYPRE_EM_POOL_NOT_FOUND ''pool not found'', [])
      else case pm_list_es (em_pools em) pool_id of (s, ess) \<Rightarrow> (Status (st_code s) [], ess))"

definition QueryReplicationGroup :: "em_conf \<Rightarrow> em_state \<Rightarrow> string \<Rightarrow> string \<Rightarrow> status \<times> pb_replica_group option" where
  "QueryReplicationGroup cf em pool_id gid =
     (if pool_id = [] \<or> gid = [] then (Status CYPRE_ER_INVALID_ARGUMENT ''pool_id or rg_id empty'', None)
      else pm_query_rg (cf_extent_size cf) (em_pools em) pool_id gid)"

definition ListReplicationGroups :: "em_conf \<Rightarrow> em_state \<Rightarrow> string \<Rightarrow> status \<times> pb_replica_group list" where
  "ListReplicationGroups cf em pool_id =
     (if pool_id = [] then (Status CYPRE_ER_INVALID_ARGUMENT ''pool_id empty'', [])
      else case pm_list_rg (cf_extent_size cf) (em_pools em) pool_id of (s, rgs) \<Rightarrow> (Status (st_code s) [], rgs))"

text \<open>The heartbeat of an extent server: the answer has the extent size and the version of the
  routers, which is assigned to an \<open>int\<close> and then to a \<open>uint64\<close>.\<close>

definition ReportHeartbeat :: "em_conf \<Rightarrow> (string \<Rightarrow> 32 word) \<Rightarrow> string \<Rightarrow> em_state \<Rightarrow> pb_extent_server
    \<Rightarrow> status \<times> (nat \<times> nat) option \<times> em_state" where
  "ReportHeartbeat cf crc now em es =
     (if pbs_name es = [] \<or> pbs_pool_id es = [] then (Status CYPRE_ER_INVALID_ARGUMENT ''es name or pool id empty'', None, em)
      else if \<not> pool_valid (em_pools em) (pbs_pool_id es) then (Status CYPRE_EM_POOL_NOT_FOUND ''not found pool'', None, em)
      else let ep = pbs_endpoint es;
               (s, em) = with_pools em
                 (if \<not> pm_es_exist (em_pools em) (pbs_pool_id es) (pbs_id es)
                  then pm_create_es crc now (em_store em) (em_pools em) (pbs_id es) (pbs_name es) (pbe_public_ip ep) (pbe_public_port ep)
                         (pbe_private_ip ep) (pbe_private_port ep) (pbs_size es) (pbs_capacity es) (pbs_pool_id es) (pbs_host es) (pbs_rack es)
                  else pm_update_es crc (em_store em) (em_pools em) (pbs_pool_id es) (pbs_id es) (pbs_name es) (pbe_public_ip ep)
                         (pbe_public_port ep) (pbe_private_ip ep) (pbe_private_port ep) (pbs_size es))
           in if \<not> st_ok s then (s, None, em)
              else (Status_OK, Some (cf_extent_size cf,
                      nat (to_int32 (int (get_router_version (em_pools em) (pbs_pool_id es))) mod 2 ^ 64)), em))"

section \<open>Routers\<close>

text \<open>The answer has the version and the router. The status of \<open>query_es_router\<close> is not looked at.\<close>

definition RouterService_QueryRouter :: "(string \<Rightarrow> 32 word) \<Rightarrow> em_state \<Rightarrow> string \<Rightarrow> (status \<times> (nat \<times> pb_extent_router) option \<times> em_state) option" where
  "RouterService_QueryRouter crc em extent_id =
     (if extent_id = [] then Some (Status CYPRE_ER_INVALID_ARGUMENT ''extentid empty'', None, em)
      else case query_router crc (em_store em) (em_routers em) extent_id of
          None \<Rightarrow> None
        | Some (s, found, rm) \<Rightarrow>
            let em = em \<lparr> em_routers := rm \<rparr> in
            if \<not> st_ok s then Some (s, None, em)
            else let (pool_id, rg_id) = the found; blob_id = GetBlobId extent_id in
              if \<not> pool_valid (em_pools em) pool_id \<or> \<not> pm_blob_valid (em_pools em) pool_id blob_id
              then Some (Status CYPRE_EM_BLOB_NOT_FOUND ''extent router not found'', None, em)
              else (case pm_query_es_group (em_pools em) pool_id rg_id of
                  None \<Rightarrow> None
                | Some es_group \<Rightarrow>
                    map_option (\<lambda>(_, router). (Status_OK, Some (get_router_version (em_pools em) pool_id, router), em))
                      (pm_query_es_router (em_pools em) pool_id es_group
                         \<lparr> pbx_extent_id = extent_id, pbx_rg_id = rg_id, pbx_primary = None, pbx_secondaries = [] \<rparr>)))"

section \<open>Recovery\<close>

text \<open>\<open>ExtentManager::DoRecovery\<close> on managers that are new. Routers are read when they are
  asked for.\<close>

definition DoRecovery :: "(string \<Rightarrow> 32 word) \<Rightarrow> (rg_map \<Rightarrow> rg_map) \<Rightarrow> em_state \<Rightarrow> (int \<times> em_state) option" where
  "DoRecovery crc shuffle em =
     (case pools_recovery_from_store crc shuffle (em_store em) (em_pools em) of
        None \<Rightarrow> None
      | Some (ok, pm) \<Rightarrow>
          let em = em \<lparr> em_pools := pm \<rparr> in
          if \<not> ok then Some (- 1, em)
          else (case users_recovery_from_store crc (em_store em) (em_users em) of
              None \<Rightarrow> None
            | Some (ok, us) \<Rightarrow> Some (if ok then 0 else - 1, em \<lparr> em_users := us \<rparr>)))"

end
