(* ===== verification/Blob_Lifecycle.thy ===== *)
theory Blob_Lifecycle
  imports Em_Services
begin

text \<open>
  From the creation of a blob to the routers of its extents: lemmas that follow a call of
  \<open>CreateBlob\<close> or \<open>ResizeBlob\<close> through the managers. The table of routers survives what the
  other managers write, since their keys have other prefixes; the groups of a pool come
  through the interface \<open>placement\<close>, the routers through the interface \<open>routing\<close>.
\<close>

section \<open>Writes of other managers\<close>

text \<open>A store that differs in no key of the routers.\<close>

definition keeps_routers :: "rocks_store \<Rightarrow> rocks_store \<Rightarrow> bool" where
  "keeps_routers st st' \<longleftrightarrow> (kv_wf st \<longrightarrow> kv_wf st' \<and> (\<forall>k. prefix kERKvPrefix k \<longrightarrow> kv_lookup st' k = kv_lookup st k))"

lemma keeps_routers_trans: "keeps_routers st st' \<Longrightarrow> keeps_routers st' st'' \<Longrightarrow> keeps_routers st st''"
  by (simp add: keeps_routers_def)

lemma keeps_routers_inv:
  assumes "routers_inv crc st m" "keeps_routers st st'"
  shows "routers_inv crc st' m"
proof -
  note I = assms(1)[unfolded routers_inv_def]
  have "prefix kERKvPrefix (router_key i)" for i by (rule routers.key_prefix)
  moreover have "kv_wf st'" "\<And>k. prefix kERKvPrefix k \<Longrightarrow> kv_lookup st' k = kv_lookup st k"
    using assms(2) table_invD(1)[OF I] by (auto simp: keeps_routers_def)
  ultimately show ?thesis using I unfolding routers_inv_def table_inv_def mirrors_def by simp
qed

lemma other_keys [simp]:
  "\<not> prefix kERKvPrefix (blob_kv_key b)" "\<not> prefix kERKvPrefix (rg_kv_key g)"
  by (simp_all add: kERKvPrefix_def kBlobKvPrefix_def kRGKvPrefix_def blob_kv_key_def blob_key_def blob_prefix_def rg_kv_key_def rg_key_def rg_prefix_def)

lemma keeps_routers_put:
  assumes "RocksStore_Put st k v = (s, st')" "\<not> prefix kERKvPrefix k"
  shows "keeps_routers st st'"
  using rocks.put_law[OF _ assms(1)] assms(2) by (auto simp: keeps_routers_def)

lemma create_blob_keeps: "create_blob crc now st bm b name sz type desc p user inst = (s, st', bm') \<Longrightarrow> keeps_routers st st'"
  by (auto simp: create_blob_def persist_blob_def Let_def split: prod.splits if_splits elim!: keeps_routers_put)

lemma resize_blob_keeps: "resize_blob x crc now st bm user b sz = (s, old, st', bm') \<Longrightarrow> keeps_routers st st'"
  by (auto simp: resize_blob_def persist_blob_def Let_def keeps_routers_def split: prod.splits if_splits option.splits
      dest!: keeps_routers_put[unfolded keeps_routers_def])

lemma allocate_rgs_keeps:
  assumes "allocate_rgs crc st mgr em n = Some (s, ids, st', mgr')"
  shows "keeps_routers st st'"
proof (cases "st' = st")
  case False
  let ?kvs = "changed_kvs crc (rgm_map mgr') (remdups ids)"
  have w: "put_batches 100 (Status CYPRE_EM_STORE_ERROR ''persist replication meta failed'') st [] ?kvs = (s, st')"
    using assms False by (auto simp: allocate_rgs_def split: option.splits if_splits prod.splits)
  have f: "sorted_wrt (<) (map fst ?kvs)" "map_of ?kvs = map_of (rev (map (\<lambda>i. (rg_kv_key (rg_of (rgm_map mgr') i), Serializer_Encode crc put_rg (rg_of (rgm_map mgr') i))) (remdups ids)))"
    using fold_smap_insert[of "[]" "\<lambda>i. rg_kv_key (rg_of (rgm_map mgr') i)" "\<lambda>i. Serializer_Encode crc put_rg (rg_of (rgm_map mgr') i)" "remdups ids"]
    by (simp_all add: changed_kvs_def Let_def)
  have other: "\<not> prefix kERKvPrefix k" if "k \<in> fst ` set ?kvs" for k
  proof -
    have "map_of ?kvs k \<noteq> None" using that by (simp add: map_of_eq_None_iff)
    then show ?thesis unfolding f(2) by (auto simp: map_of_eq_None_iff)
  qed
  show ?thesis unfolding keeps_routers_def
  proof (intro impI)
    assume "kv_wf st"
    from put_batches_spec[OF this _ w] sorted_map_distinct[OF f(1)] obtain j where
      j: "kv_wf st'" "kv_lookup st' = kv_lookup st ++ map_of (take j ?kvs)" by auto
    have "map_of (take j ?kvs) k = None" if "prefix kERKvPrefix k" for k
      using other[of k] that by (auto simp: map_of_eq_None_iff dest: in_set_takeD)
    then show "kv_wf st' \<and> (\<forall>k. prefix kERKvPrefix k \<longrightarrow> kv_lookup st' k = kv_lookup st k)"
      using j by (simp add: map_add_def)
  qed
qed (simp add: keeps_routers_def)

section \<open>The pool after a blob was created\<close>

lemma pm_create_blobE:
  assumes "pm_create_blob crc now uuids x st pm i name sz type desc user inst = Some (s, b, ids, st', pm')" "st_ok s"
  obtains p st0 mgr where "map_of pm i = Some p" "p_status p = kPoolStatusEnabled" "allocate_blobid pm uuids = Some b"
    "keeps_routers st st0" "allocate_rgs crc st0 (p_rg_mgr p) (p_es_mgr p) (to_int32 (int (sz div x))) = Some (s, ids, st', mgr)"
    "pm' = smap_insert i (p \<lparr> p_blob_mgr := AList.update b (Blob now b name sz type desc i user inst) (p_blob_mgr p), p_rg_mgr := mgr \<rparr>)
       (smap_insert i (p \<lparr> p_blob_mgr := AList.update b (Blob now b name sz type desc i user inst) (p_blob_mgr p) \<rparr>) pm)"
proof -
  have b: "allocate_blobid pm uuids = Some b" using assms(1)
    by (auto simp: pm_create_blob_def Let_def split: option.splits if_splits prod.splits)
  obtain p where p: "map_of pm i = Some p" "p_status p = kPoolStatusEnabled"
    using assms b by (auto simp: pm_create_blob_def st_ok_def split: option.splits if_splits)
  obtain s0 st0 bm where c: "create_blob crc now st (p_blob_mgr p) b name sz type desc i user inst = (s0, st0, bm)"
    by (cases "create_blob crc now st (p_blob_mgr p) b name sz type desc i user inst")
  have s0: "st_ok s0" using assms b p c by (auto simp: pm_create_blob_def Let_def split: if_splits)
  have bm: "bm = AList.update b (Blob now b name sz type desc i user inst) (p_blob_mgr p)"
    using c s0 by (auto simp: create_blob_def Let_def Blob_def split: prod.splits if_splits)
  obtain mgr where a: "allocate_rgs crc st0 (p_rg_mgr p) (p_es_mgr p) (to_int32 (int (sz div x))) = Some (s, ids, st', mgr)"
      "pm' = smap_insert i (p \<lparr> p_blob_mgr := bm, p_rg_mgr := mgr \<rparr>) (smap_insert i (p \<lparr> p_blob_mgr := bm \<rparr>) pm)"
    using assms(1) b p c s0 by (auto simp: pm_create_blob_def Let_def split: option.splits)
  from that[OF p b create_blob_keeps[OF c] a(1) a(2)[unfolded bm]] show thesis .
qed

lemma to_int32_nat: "n < 2 ^ 31 \<Longrightarrow> to_int32 (int n) = int n"
  by (simp add: to_int32_def)

lemma allocate_blobid_prefix: "allocate_blobid pm uuids = Some b \<Longrightarrow> \<exists>u\<in>set uuids. b = kBlobIdPrefix @ u"
  by (induction pm uuids rule: allocate_blobid.induct) (auto simp: Let_def split: if_splits)

section \<open>Asking for the router of an extent\<close>

lemma es_instances_known: "set g \<subseteq> es_ids em \<Longrightarrow> es_instances em g = Some (map (\<lambda>i. ToPbEsInstance (es_of em i)) g)"
proof (induction g)
  case (Cons i g)
  then obtain e where "map_of em i = Some e" by (auto simp: es_ids_def map_of_eq_None_iff dest: weak_map_of_SomeI)
  then show ?case using Cons by (simp add: es_of_def)
qed simp

text \<open>The answer for an extent whose router names a known group of an enabled pool.\<close>

lemma QueryRouter_answer:
  assumes q: "query_router crc (em_store em) (em_routers em) ext = Some (Status_OK, Some (i, gid), rm)" and "ext \<noteq> []"
    and p: "map_of (em_pools em) i = Some p" "p_status p = kPoolStatusEnabled" "blob_valid (p_blob_mgr p) (GetBlobId ext)"
    and g: "group_servers (p_rg_mgr p) gid = Some (a # as)" "set (a # as) \<subseteq> es_ids (p_es_mgr p)"
  shows "RouterService_QueryRouter crc em ext = Some (Status_OK, Some (p_router_version p,
      \<lparr> pbx_extent_id = ext, pbx_rg_id = gid, pbx_primary = Some (ToPbEsInstance (es_of (p_es_mgr p) a)),
        pbx_secondaries = map (\<lambda>i. ToPbEsInstance (es_of (p_es_mgr p) i)) as \<rparr>), em \<lparr> em_routers := rm \<rparr>)"
proof -
  have "query_es_group (p_rg_mgr p) gid = Some (a # as)" using g(1) by (simp add: query_es_group_def group_servers_def)
  then show ?thesis using q assms(2) p es_instances_known[OF g(2)]
    by (simp add: RouterService_QueryRouter_def pool_valid_def pm_blob_valid_def pm_query_es_group_def pm_query_es_router_def query_es_router_def get_router_version_def)
qed

section \<open>A created blob\<close>

lemma dec_digits_length: "n < 10 ^ k \<Longrightarrow> 0 < k \<Longrightarrow> length (dec_digits n) \<le> k"
proof (induction n arbitrary: k rule: dec_digits.induct)
  case (1 n)
  show ?case
  proof (cases "n < 10")
    case False
    then have "k \<noteq> 1" using 1(2) by auto
    then obtain j where j: "k = Suc j" "0 < j" using 1(3) by (cases k) auto
    have "length (dec_digits (n div 10)) \<le> j" using 1(1)[OF False, of j] 1(2) j by auto
    then show ?thesis using False j by (subst dec_digits.simps) simp
  qed (use 1(3) in \<open>subst dec_digits.simps, simp\<close>)
qed

lemma pool_id_length: "i \<in> set pool_ids \<Longrightarrow> length i = 6"
  by (auto simp: pool_ids_def kPoolIdPrefix_def)

text \<open>What \<open>CreateBlob\<close> did when it returned an id.\<close>

lemma CreateBlobE:
  assumes "CreateBlob cf crc now uuids em user name sz type inst desc pool = Some (s, Some b, em')"
  obtains i p st0 mgr ids st1 s1 where "map_of (em_pools em) i = Some p" "p_status p = kPoolStatusEnabled"
    "allocate_blobid (em_pools em) uuids = Some b" "keeps_routers (em_store em) st0"
    "allocate_rgs crc st0 (p_rg_mgr p) (p_es_mgr p) (to_int32 (int (sz div cf_extent_size cf))) = Some (s1, ids, st1, mgr)" "st_ok s1"
    "create_router crc now st1 i b 1 (to_int32 (int (sz div cf_extent_size cf))) ids = Some (s, em_store em')" "st_ok s"
    "em_routers em' = em_routers em"
    "em_pools em' = (let q = p \<lparr> p_blob_mgr := AList.update b (Blob now b name sz (FromPbBlobType type) desc i user inst) (p_blob_mgr p) \<rparr>
       in smap_insert i (q \<lparr> p_rg_mgr := mgr \<rparr>) (smap_insert i q (em_pools em)))"
proof -
  let ?i = "if pool = [] then allocate_pool (em_pools em) (FromPbBlobType type) else pool"
  let ?c = "pm_create_blob crc now uuids (cf_extent_size cf) (em_store em) (em_pools em) ?i name sz (FromPbBlobType type) desc user inst"
  obtain s1 b1 ids st1 pm where c: "?c = Some (s1, b1, ids, st1, pm)" "st_ok s1"
    using assms by (auto simp: CreateBlob_def Let_def split: if_splits option.splits)
  then have r: "b1 = b" "em_pools em' = pm" "em_routers em' = em_routers em" "st_ok s"
      "create_router crc now st1 ?i b 1 (to_int32 (int (sz div cf_extent_size cf))) ids = Some (s, em_store em')"
    using assms by (auto simp: CreateBlob_def Let_def split: if_splits option.splits)
  from pm_create_blobE[OF c] obtain p st0 mgr where
    p: "map_of (em_pools em) ?i = Some p" "p_status p = kPoolStatusEnabled" "allocate_blobid (em_pools em) uuids = Some b1" "keeps_routers (em_store em) st0"
      "allocate_rgs crc st0 (p_rg_mgr p) (p_es_mgr p) (to_int32 (int (sz div cf_extent_size cf))) = Some (s1, ids, st1, mgr)"
      "pm = smap_insert ?i (p \<lparr> p_blob_mgr := AList.update b1 (Blob now b1 name sz (FromPbBlobType type) desc ?i user inst) (p_blob_mgr p), p_rg_mgr := mgr \<rparr>)
       (smap_insert ?i (p \<lparr> p_blob_mgr := AList.update b1 (Blob now b1 name sz (FromPbBlobType type) desc ?i user inst) (p_blob_mgr p) \<rparr>) (em_pools em))" .
  from that[OF p(1,2) p(3)[unfolded r(1)] p(4,5) c(2) r(5,4,3)] p(6) r(1,2) show thesis by (simp add: Let_def)
qed

text \<open>Ids that a generator of unique ids may return.\<close>

definition uuids_fresh :: "(string \<rightharpoonup> em_router) \<Rightarrow> string list \<Rightarrow> bool" where
  "uuids_fresh m uuids \<longleftrightarrow> (\<forall>u\<in>set uuids. CHR ''.'' \<notin> set u \<and> length u < 100 \<and> (\<forall>i. m (GenerateExtentID (kBlobIdPrefix @ u) i) = None))"

definition group_ids_short :: "pool_map \<Rightarrow> bool" where
  "group_ids_short pm \<longleftrightarrow> (\<forall>i p. map_of pm i = Some p \<longrightarrow> (\<forall>g\<in>dom (group_servers (p_rg_mgr p)). length g < 100))"

lemma new_routers_fit:
  assumes u: "uuids_fresh m uuids" "b = kBlobIdPrefix @ u" "u \<in> set uuids" and "length ids < 2 ^ 31" "length now < 100" "length p < 100"
    "\<forall>g\<in>set ids. length g < 100"
  shows "\<forall>er\<in>set (routers_of now p b 1 ids). router_fits er \<and> m (er_extent_id er) = None"
proof
  fix er assume "er \<in> set (routers_of now p b 1 ids)"
  then obtain i g where z: "(i, g) \<in> set (zip [1..<1 + length ids] ids)" and er: "er = EmRouter now (GenerateExtentID b i) p g b"
    by (auto simp: routers_of_def)
  have i: "i < Suc (length ids)" "g \<in> set ids" using set_zip_leftD[OF z] set_zip_rightD[OF z] by (simp_all del: upt_Suc)
  have "length (dec_digits i) \<le> 10" by (rule dec_digits_length) (use i(1) assms(4) in simp_all)
  moreover have "length b < 104" using u by (auto simp: uuids_fresh_def kBlobIdPrefix_def)
  ultimately show "router_fits er \<and> m (er_extent_id er) = None"
    using i er assms u(1,3) by (auto simp: router_fits_def EmRouter_def GenerateExtentID_def uuids_fresh_def)
qed

lemma created_blob_answers:
  assumes w: "pools_wf (em_pools em)" and inv: "routers_inv crc (em_store em) m" "cache_inv (em_routers em) m"
    and c: "CreateBlob cf crc now uuids em user name sz type inst desc pool = Some (s, Some b, em')"
    and x: "sz div cf_extent_size cf < 2 ^ 31" and f: "uuids_fresh m uuids" "group_ids_short (em_pools em)" "length now < 100"
    and i: "1 \<le> i" "i \<le> sz div cf_extent_size cf"
  shows "\<exists>em'' v r fd n p a as. RouterService_QueryRouter crc em' (GenerateExtentID b i) = Some (Status_OK, Some (v, r), em'') \<and>
    pbx_extent_id r = GenerateExtentID b i \<and> (\<exists>pid. map_of (em_pools em') pid = Some p) \<and>
    group_servers (p_rg_mgr p) (pbx_rg_id r) = Some (a # as) \<and> spread fd n (p_es_mgr p) (a # as) \<and>
    pbx_primary r = Some (ToPbEsInstance (es_of (p_es_mgr p) a)) \<and>
    pbx_secondaries r = map (\<lambda>e. ToPbEsInstance (es_of (p_es_mgr p) e)) as"
proof -
  let ?n = "sz div cf_extent_size cf"
  from CreateBlobE[OF c] obtain pid p st0 mgr ids st1 s1 where
    p: "map_of (em_pools em) pid = Some p" "p_status p = kPoolStatusEnabled" and b: "allocate_blobid (em_pools em) uuids = Some b"
    and k: "keeps_routers (em_store em) st0" and a: "allocate_rgs crc st0 (p_rg_mgr p) (p_es_mgr p) (to_int32 (int ?n)) = Some (s1, ids, st1, mgr)" "st_ok s1"
    and e: "create_router crc now st1 pid b 1 (to_int32 (int ?n)) ids = Some (s, em_store em')" "st_ok s"
    and rm: "em_routers em' = em_routers em" and pm: "em_pools em' = (let q = p \<lparr> p_blob_mgr := AList.update b (Blob now b name sz (FromPbBlobType type) desc pid user inst) (p_blob_mgr p) \<rparr>
       in smap_insert pid (q \<lparr> p_rg_mgr := mgr \<rparr>) (smap_insert pid q (em_pools em)))" .
  from pools_wfD(3)[OF w p(1)] p(2) obtain fd n where P: "queues_known (p_rg_mgr p)" "1 \<le> n"
      "\<And>j g. group_servers (p_rg_mgr p) j = Some g \<Longrightarrow> spread fd n (p_es_mgr p) g"
    by (auto simp: pool_wf_def)
  note A = allocate_rgs_placed[OF P(1) a(1)]
  have n: "length ids = ?n" using A(4)[OF a(2)] to_int32_nat[OF x] by simp
  obtain u where u: "u \<in> set uuids" "b = kBlobIdPrefix @ u" using allocate_blobid_prefix[OF b] by blast
  have dot: "CHR ''.'' \<notin> set b" using f(1) u by (auto simp: uuids_fresh_def kBlobIdPrefix_def)
  have fits: "\<forall>er\<in>set (routers_of now pid b 1 ids). router_fits er \<and> m (er_extent_id er) = None"
    by (rule new_routers_fit[OF f(1) u(2,1)])
      (use n x f(2,3) A(3) p(1) pool_id_length[OF pool_known[OF w p(1)]] in \<open>auto simp: group_ids_short_def subset_iff\<close>)
  have r1: "routing_inv crc (st1, em_routers em) m"
    using inv(2) keeps_routers_inv[OF inv(1) keeps_routers_trans[OF k allocate_rgs_keeps[OF a(1)]]] by (simp add: routing_inv_def)
  have en: "routing_enter crc now (st1, em_routers em) pid b 1 ids = Some (s, em_store em', em_routers em)"
    using e(1) n to_int32_nat[OF x] by (simp add: routing_enter_def)
  have j: "i - 1 < length ids" "1 + (i - 1) = i" using i n by simp_all
  from em_routing.query_entered[OF r1 fits en e(2) j(1), unfolded j(2)] obtain rm' where
    q: "query_router crc (em_store em') (em_routers em') (GenerateExtentID b i) = Some (Status_OK, Some (pid, ids ! (i - 1)), rm')"
    by (auto simp: routing_query_def rm)
  let ?p = "p \<lparr> p_blob_mgr := AList.update b (Blob now b name sz (FromPbBlobType type) desc pid user inst) (p_blob_mgr p), p_rg_mgr := mgr \<rparr>"
  have p': "map_of (em_pools em') pid = Some ?p"
    unfolding pm Let_def by simp
  obtain g where g: "group_servers mgr (ids ! (i - 1)) = Some g" using A(2,3) j(1) by (force simp: subset_iff)
  then have sp: "spread fd n (p_es_mgr p) g" using P(3) A(2) by simp
  then obtain h t where ht: "g = h # t" using P(2) by (cases g) (auto simp: spread_def)
  have "RouterService_QueryRouter crc em' (GenerateExtentID b i) = Some (Status_OK, Some (p_router_version ?p,
      \<lparr> pbx_extent_id = GenerateExtentID b i, pbx_rg_id = ids ! (i - 1), pbx_primary = Some (ToPbEsInstance (es_of (p_es_mgr ?p) h)),
        pbx_secondaries = map (\<lambda>i. ToPbEsInstance (es_of (p_es_mgr ?p) i)) t \<rparr>), em' \<lparr> em_routers := rm' \<rparr>)"
  proof (rule QueryRouter_answer[OF q _ p'])
    show "GenerateExtentID b i \<noteq> []" by (simp add: GenerateExtentID_def)
    show "blob_valid (p_blob_mgr ?p) (GetBlobId (GenerateExtentID b i))"
      unfolding GetBlobId_Generate[OF dot] by (simp add: blob_valid_def Blob_def)
  qed (use p(2) g ht sp in \<open>simp_all add: spread_def\<close>)
  then show ?thesis using p' g ht sp
    by (intro exI[of _ "em' \<lparr> em_routers := rm' \<rparr>"] exI[of _ "p_router_version ?p"] exI conjI) (assumption | rule refl | simp)+
qed

section \<open>A small process\<close>

text \<open>A process with one pool of two servers on two hosts and one replication group.\<close>

definition demo_pool :: pool where
  "demo_pool = (Pool ''t'' 1 ''pool-a'' ''ssd'' kPoolTypeSSD kFailureDomainHost 2 2 10) \<lparr> p_status := kPoolStatusEnabled,
     p_es_mgr := demo_es_map,
     p_rg_mgr := \<lparr> rgm_map = [(''g1'', ReplicationGroup ''t'' ''g1'' ''pool-a'' \<lparr> rg_extent_servers := [1, 2] \<rparr>)],
       rgm_es_rgs = [(1, \<lparr> esrg_weight = 1, esrg_nr_extents = 0, esrg_heap = [''g1''] \<rparr>)], rgm_heap = [1] \<rparr> \<rparr>"

definition demo_em :: em_state where
  "demo_em = \<lparr> em_store = \<lparr> rs_db = [], rs_faults = [] \<rparr>,
     em_users = [(''u'', \<lparr> u_id = ''u'', u_name = ''n'', u_email = ''e'', u_comments = [], u_status = kUserStatusCreated, u_pool_ids = [],
        u_set_id = 1, u_create_time = ''t'', u_update_time = ''t'' \<rparr>)],
     em_pools = [(''pool-a'', demo_pool)], em_routers = RouterManager 1 \<rparr>"

definition demo_conf :: em_conf where
  "demo_conf = \<lparr> cf_extent_size = 10, cf_max_block_size = 4, cf_rg_per_es = 1, cf_set_id = 1 \<rparr>"

lemma demo_pools_wf: "pools_wf (em_pools demo_em)"
proof -
  have "''pool-a'' \<in> set pool_ids" by code_simp
  moreover have "queues_known (p_rg_mgr demo_pool)" by (simp add: queues_known_def demo_pool_def)
  moreover have "spread kFailureDomainHost 2 (p_es_mgr demo_pool) [1, 2]"
    by (simp add: spread_def demo_pool_def demo_es_map_def es_ids_def es_domain_def es_of_def ExtentServer_def)
  ultimately show ?thesis
    by (auto simp: pools_wf_def demo_em_def pool_wf_def demo_pool_def Pool_def demo_es_map_def group_servers_def kMaxReplicaCount_def ReplicationGroup_def
      split: if_splits intro!: exI[of _ kFailureDomainHost] exI[of _ 2])
qed


lemma put_batches_healthy: "rs_faults st = [] \<Longrightarrow> fst (put_batches n err st kvs m) = Status_OK \<and> rs_faults (snd (put_batches n err st kvs m)) = []"
proof (induction n err st kvs m rule: put_batches.induct)
  case (1 n err st kvs)
  then show ?case by (simp add: RocksStore_MultiPut_def kv_write_def rs_ok_def)
next
  case (2 n err st kvs kv m)
  then show ?case by (simp add: RocksStore_MultiPut_def kv_write_def rs_ok_def Let_def)
qed

lemma demo_pool_allocate: "\<exists>mgr. allocate_loop 1 (p_rg_mgr demo_pool) (p_es_mgr demo_pool) [] = Some (True, [''g1''], mgr)"
proof -
  have n: "nearfull (rgm_map (p_rg_mgr demo_pool)) (p_es_mgr demo_pool) ''g1'' = Some False"
    by (simp add: demo_pool_def nearfull_def demo_es_map_def ExtentServer_def)
  then have "skip_nearfull cmp (nearfull (rgm_map (p_rg_mgr demo_pool)) (p_es_mgr demo_pool)) [''g1''] [] = Some (''g1'', [''g1''], [])" for cmp
    by (subst skip_nearfull.simps) simp
  then show ?thesis by (simp add: allocate_rg_def heap_top_def Let_def demo_pool_def)
qed


lemma demo_create:
  "\<exists>em'. CreateBlob demo_conf (\<lambda>_. 0) ''t'' [''x''] demo_em ''u'' ''b'' 10 BLOB_TYPE_GENERAL ''i'' [] ''pool-a'' = Some (Status_OK, Some ''bb-x'', em')"
proof -
  let ?st = "em_store demo_em"
  have b: "p_blob_mgr demo_pool = []" "p_status demo_pool = kPoolStatusEnabled" by (simp_all add: demo_pool_def Pool_def)
  have e: "blobsize_valid 10 10" by (simp add: blobsize_valid_def kMaxBlobSize_def)
  have u: "user_exist (em_users demo_em) ''u''" "em_pools demo_em = [(''pool-a'', demo_pool)]" by (simp_all add: user_exist_def demo_em_def)
  obtain st1 bm where c: "create_blob (\<lambda>_. 0) ''t'' ?st [] ''bb-x'' ''b'' 10 (FromPbBlobType BLOB_TYPE_GENERAL) [] ''pool-a'' ''u'' ''i'' = (Status_OK, st1, bm)"
      "rs_faults st1 = []"
    by (simp add: create_blob_def persist_blob_def RocksStore_Put_def kv_write_def rs_ok_def Let_def demo_em_def)
  have n: "to_int32 1 = 1" by (simp add: to_int32_def)
  from put_batches_healthy[OF c(2)] demo_pool_allocate obtain st2 mgr where
    a: "allocate_rgs (\<lambda>_. 0) st1 (p_rg_mgr demo_pool) (p_es_mgr demo_pool) 1 = Some (Status_OK, [''g1''], st2, mgr)" "rs_faults st2 = []"
    by (auto simp: allocate_rgs_def split_beta prod_eq_iff)
  from put_batches_healthy[OF a(2)] new_routers_eq[of "\<lambda>_. 0" "''t''" "''pool-a''" "''bb-x''" 1 1 "[''g1'']" "[]"] obtain st3 where
    r: "create_router (\<lambda>_. 0) ''t'' st2 ''pool-a'' ''bb-x'' 1 1 [''g1''] = Some (Status_OK, st3)"
    by (auto simp: create_router_def prod_eq_iff)
  have "pm_create_blob (\<lambda>_. 0) ''t'' [''x''] 10 ?st (em_pools demo_em) ''pool-a'' ''b'' 10 (FromPbBlobType BLOB_TYPE_GENERAL) [] ''u'' ''i'' =
      Some (Status_OK, ''bb-x'', [''g1''], st2, smap_insert ''pool-a'' (demo_pool \<lparr> p_blob_mgr := bm, p_rg_mgr := mgr \<rparr>)
        (smap_insert ''pool-a'' (demo_pool \<lparr> p_blob_mgr := bm \<rparr>) (em_pools demo_em)))"
    using c(1) a(1) b n by (simp add: pm_create_blob_def u pm_blobid_exist_def kBlobIdPrefix_def Let_def blobid_exist_def st_ok_def)
  then show ?thesis using e u r n by (simp add: CreateBlob_def demo_conf_def blobtype_valid_def Let_def st_ok_def)
qed

end
