(* ===== verification/Gc_Manager.thy ===== *)
theory Gc_Manager
  imports Blob_Lifecycle
begin

text \<open>
  The garbage collector of the extent manager (\<open>src/src/extentmanager/gc_manager.{h,cpp}\<close>) and
  the connections it keeps (\<open>src/src/common/connection_pool.h\<close>): it removes deleted pools,
  the blobs of deleted users and deleted blobs, from the extent servers, from the routers
  and from the table of blobs. The clock, the channels and the answers of the extent servers
  are inputs that may differ at every use. \<open>None\<close> is undefined behaviour, or a loop that
  does not end.
\<close>

section \<open>The outside\<close>

datatype gc_request =
    DeleteRequest string nat nat
  | ReclaimExtentRequest string

text \<open>The hour of the \<open>n\<close>-th use of the clock, whether the channel to an address could be
  initialised, and the answer to a request: \<open>None\<close> when the call failed, otherwise the code
  of the response.\<close>

record gc_world =
  gw_hour :: "nat \<Rightarrow> int"
  gw_channel :: "nat \<Rightarrow> string \<Rightarrow> bool"
  gw_reply :: "nat \<Rightarrow> string \<Rightarrow> gc_request \<Rightarrow> int option"
  gw_begin :: int
  gw_end :: int

record gc_state =
  gs_em :: em_state
  gs_conns :: "string list"
  gs_gcing :: bool
  gs_tick :: nat
  gs_sent :: "(string \<times> gc_request) list"

section \<open>Connections\<close>

definition get_connection_id :: "string \<Rightarrow> int \<Rightarrow> string" where
  "get_connection_id ip port = ip @ '':'' @ dec_int port"

text \<open>A connection is known by its id.\<close>

definition GetConnection :: "gc_world \<Rightarrow> gc_state \<Rightarrow> string \<Rightarrow> int \<Rightarrow> string option \<times> gc_state" where
  "GetConnection w gs ip port =
     (let conn_id = get_connection_id ip port in
      if conn_id \<in> set (gs_conns gs) then (Some conn_id, gs)
      else let ok = gw_channel w (gs_tick gs) conn_id; gs = gs \<lparr> gs_tick := gs_tick gs + 1 \<rparr> in
        if \<not> ok then (None, gs) else (Some conn_id, gs \<lparr> gs_conns := conn_id # gs_conns gs \<rparr>))"

fun get_conns_loop :: "gc_world \<Rightarrow> gc_state \<Rightarrow> (string \<times> int) list \<Rightarrow> string list option \<times> gc_state" where
  "get_conns_loop w gs [] = (Some [], gs)"
| "get_conns_loop w gs ((ip, port) # addrs) =
     (case GetConnection w gs ip port of
        (None, gs) \<Rightarrow> (None, gs)
      | (Some c, gs) \<Rightarrow> (case get_conns_loop w gs addrs of (cs, gs) \<Rightarrow> (map_option (Cons c) cs, gs)))"

text \<open>The addresses of a router. An unset primary reads as the empty instance.\<close>

definition router_addrs :: "pb_extent_router \<Rightarrow> (string \<times> int) list" where
  "router_addrs router =
     (case pbx_primary router of None \<Rightarrow> ([], 0) | Some i \<Rightarrow> (pbi_public_ip i, pbi_public_port i)) #
     map (\<lambda>i. (pbi_public_ip i, pbi_public_port i)) (pbx_secondaries router)"

definition getConns :: "gc_world \<Rightarrow> gc_state \<Rightarrow> pb_extent_router \<Rightarrow> string list option \<times> gc_state" where
  "getConns w gs router = get_conns_loop w gs (router_addrs router)"

section \<open>Requests to the extent servers\<close>

text \<open>A request goes to all replicas before the first answer is looked at.\<close>

fun send_all :: "gc_world \<Rightarrow> gc_state \<Rightarrow> gc_request \<Rightarrow> string list \<Rightarrow> int option list \<times> gc_state" where
  "send_all w gs req [] = ([], gs)"
| "send_all w gs req (c # cs) =
     (let r = gw_reply w (gs_tick gs) c req;
          gs = gs \<lparr> gs_tick := gs_tick gs + 1, gs_sent := gs_sent gs @ [(c, req)] \<rparr>
      in case send_all w gs req cs of (rs, gs) \<Rightarrow> (r # rs, gs))"

fun join_all :: "int option list \<Rightarrow> status" where
  "join_all [] = Status_OK"
| "join_all (None # rs) = Status CYPRE_EM_BRPC_SEND_FAIL []"
| "join_all (Some c # rs) = (if c \<noteq> 0 then Status c [] else join_all rs)"

definition call_replicas :: "gc_world \<Rightarrow> gc_state \<Rightarrow> gc_request \<Rightarrow> pb_extent_router \<Rightarrow> status \<times> gc_state" where
  "call_replicas w gs req router =
     (case getConns w gs router of
        (None, gs) \<Rightarrow> (Status CYPRE_EM_GET_CONN_ERROR ''couldn't get connections'', gs)
      | (Some conns, gs) \<Rightarrow> (case send_all w gs req conns of (rs, gs) \<Rightarrow> (join_all rs, gs)))"

definition block_size :: nat where "block_size = 4 * 2 ^ 10"

definition deleteOneBlock :: "gc_world \<Rightarrow> gc_state \<Rightarrow> string \<Rightarrow> nat \<Rightarrow> pb_extent_router \<Rightarrow> status \<times> gc_state" where
  "deleteOneBlock w gs extent_id offset router = call_replicas w gs (DeleteRequest extent_id offset block_size) router"

definition reclaimExtent :: "gc_world \<Rightarrow> gc_state \<Rightarrow> string \<Rightarrow> pb_extent_router \<Rightarrow> status \<times> gc_state" where
  "reclaimExtent w gs extent_id router = call_replicas w gs (ReclaimExtentRequest extent_id) router"

text \<open>The result of \<open>query_es_router\<close> is not looked at.\<close>

definition getRouter :: "(string \<Rightarrow> 32 word) \<Rightarrow> gc_state \<Rightarrow> string \<Rightarrow> (status \<times> pb_extent_router option \<times> gc_state) option" where
  "getRouter crc gs extent_id =
     (let em = gs_em gs in
      case query_router crc (em_store em) (em_routers em) extent_id of
        None \<Rightarrow> None
      | Some (s, found, rm) \<Rightarrow>
          let gs = gs \<lparr> gs_em := em \<lparr> em_routers := rm \<rparr> \<rparr> in
          if \<not> st_ok s then Some (s, None, gs)
          else let (pool_id, rg_id) = the found in
            (case pm_query_es_group (em_pools em) pool_id rg_id of
               None \<Rightarrow> None
             | Some es_group \<Rightarrow>
                 map_option (\<lambda>(_, router). (Status_OK, Some router, gs))
                   (pm_query_es_router (em_pools em) pool_id es_group
                      \<lparr> pbx_extent_id = [], pbx_rg_id = [], pbx_primary = None, pbx_secondaries = [] \<rparr>)))"

text \<open>The loop over the blocks of an extent, with \<open>uint64_t\<close> offsets.\<close>

partial_function (option) delete_blocks :: "gc_world \<Rightarrow> nat \<Rightarrow> string \<Rightarrow> pb_extent_router \<Rightarrow> nat \<Rightarrow> gc_state \<Rightarrow> (status \<times> gc_state) option" where
  "delete_blocks w extent_size extent_id router offset gs =
     (if offset < extent_size then
        (let r = deleteOneBlock w gs extent_id offset router in
         if \<not> st_ok (fst r) then Some r
         else delete_blocks w extent_size extent_id router (u64_add offset block_size) (snd r))
      else Some (Status_OK, gs))"

definition deleteRemoteExtent :: "gc_world \<Rightarrow> (string \<Rightarrow> 32 word) \<Rightarrow> nat \<Rightarrow> gc_state \<Rightarrow> string \<Rightarrow> (status \<times> gc_state) option" where
  "deleteRemoteExtent w crc extent_size gs extent_id =
     (case getRouter crc gs extent_id of
        None \<Rightarrow> None
      | Some (s, router, gs) \<Rightarrow>
          if \<not> st_ok s then Some (s, gs)
          else (case delete_blocks w extent_size extent_id (the router) 0 gs of
              None \<Rightarrow> None
            | Some (s, gs) \<Rightarrow> if \<not> st_ok s then Some (s, gs) else Some (reclaimExtent w gs extent_id (the router))))"

section \<open>Blobs\<close>

definition gc_delete_router :: "gc_state \<Rightarrow> string \<Rightarrow> status \<times> gc_state" where
  "gc_delete_router gs extent_id =
     (let em = gs_em gs in
      case delete_router (em_store em) (em_routers em) extent_id of
        (s, st, rm) \<Rightarrow> (s, gs \<lparr> gs_em := em \<lparr> em_store := st, em_routers := rm \<rparr> \<rparr>))"

text \<open>The loop over the extents of a blob. Their number is far below \<open>2 ^ 64\<close>, because a blob
  has at most \<open>kMaxBlobSize\<close> bytes.\<close>

fun delete_extents :: "gc_world \<Rightarrow> (string \<Rightarrow> 32 word) \<Rightarrow> nat \<Rightarrow> bool \<Rightarrow> string \<Rightarrow> nat list \<Rightarrow> gc_state \<Rightarrow> (status \<times> gc_state) option" where
  "delete_extents w crc extent_size remote blob_id [] gs = Some (Status_OK, gs)"
| "delete_extents w crc extent_size remote blob_id (index # is) gs =
     (let eid = GenerateExtentID blob_id index in
      case (if remote then deleteRemoteExtent w crc extent_size gs eid else Some (Status_OK, gs)) of
        None \<Rightarrow> None
      | Some (s, gs) \<Rightarrow>
          if \<not> st_ok s then Some (s, gs)
          else (case gc_delete_router gs eid of
              (s, gs) \<Rightarrow> if \<not> st_ok s then Some (s, gs) else delete_extents w crc extent_size remote blob_id is gs))"

definition deleteOneBlob :: "gc_world \<Rightarrow> (string \<Rightarrow> 32 word) \<Rightarrow> em_conf \<Rightarrow> gc_state \<Rightarrow> string \<Rightarrow> string \<Rightarrow> bool \<Rightarrow> (status \<times> gc_state) option" where
  "deleteOneBlob w crc cf gs pool_id blob_id remote =
     (case pm_query_blob (em_pools (gs_em gs)) blob_id True of
        (s, blob) \<Rightarrow>
          if \<not> st_ok s then Some (s, gs)
          else if cf_extent_size cf = 0 then None
          else let extent_num = pbb_size (the blob) div cf_extent_size cf in
            (case delete_extents w crc (cf_extent_size cf) remote blob_id [1..<extent_num + 1] gs of
               None \<Rightarrow> None
             | Some (s, gs) \<Rightarrow>
                 if \<not> st_ok s then Some (s, gs)
                 else (case pm_delete_blob (em_store (gs_em gs)) (em_pools (gs_em gs)) pool_id blob_id of
                     (s, st, pm) \<Rightarrow> Some (s, gs \<lparr> gs_em := (gs_em gs) \<lparr> em_store := st, em_pools := pm \<rparr> \<rparr>))))"

definition timeValid :: "gc_world \<Rightarrow> gc_state \<Rightarrow> bool \<times> gc_state" where
  "timeValid w gs =
     (let hour = gw_hour w (gs_tick gs) in
      (hour > gw_begin w \<and> hour < gw_end w, gs \<lparr> gs_tick := gs_tick gs + 1 \<rparr>))"

fun deleteBlobs :: "gc_world \<Rightarrow> (string \<Rightarrow> 32 word) \<Rightarrow> em_conf \<Rightarrow> string \<Rightarrow> bool \<Rightarrow> bool \<Rightarrow> string list \<Rightarrow> gc_state \<Rightarrow> (status \<times> gc_state) option" where
  "deleteBlobs w crc cf pool_id remote success [] gs = Some (if success then Status_OK else Status CYPRE_EM_TRY_AGAIN [], gs)"
| "deleteBlobs w crc cf pool_id remote success (blob_id # blobs) gs =
     (case timeValid w gs of
        (valid, gs) \<Rightarrow>
          if \<not> valid then Some (Status CYPRE_EM_EXCEED_TIME_LIMIT [], gs)
          else (case deleteOneBlob w crc cf gs pool_id blob_id remote of
              None \<Rightarrow> None
            | Some (s, gs) \<Rightarrow> deleteBlobs w crc cf pool_id remote (success \<and> st_ok s) blobs gs))"

section \<open>One run\<close>

text \<open>Results of \<open>delete_all_es\<close>, \<open>delete_all_rg\<close> and \<open>delete_pool\<close> are not looked at.\<close>

definition remove_pool :: "gc_state \<Rightarrow> string \<Rightarrow> gc_state option" where
  "remove_pool gs pool_id =
     (let em = gs_em gs in
      case pm_delete_all_es (em_store em) (em_pools em) pool_id of
        (_, st, pm) \<Rightarrow>
          (case pm_delete_all_rg st pm pool_id of
             None \<Rightarrow> None
           | Some (_, st, pm) \<Rightarrow>
               (case delete_pool st pm pool_id of
                  (_, st, pm) \<Rightarrow> Some (gs \<lparr> gs_em := em \<lparr> em_store := st, em_pools := pm \<rparr> \<rparr>))))"

fun delete_pools_loop :: "gc_world \<Rightarrow> (string \<Rightarrow> 32 word) \<Rightarrow> em_conf \<Rightarrow> string list \<Rightarrow> gc_state \<Rightarrow> gc_state option" where
  "delete_pools_loop w crc cf [] gs = Some gs"
| "delete_pools_loop w crc cf (pool_id # pools) gs =
     (case pm_list_blob_ids (em_pools (gs_em gs)) pool_id False of
        (s, blobs) \<Rightarrow>
          if \<not> st_ok s then delete_pools_loop w crc cf pools gs
          else (case deleteBlobs w crc cf pool_id False True blobs gs of
              None \<Rightarrow> None
            | Some (s, gs) \<Rightarrow>
                (case (if st_ok s then remove_pool gs pool_id else Some gs) of
                   None \<Rightarrow> None
                 | Some gs \<Rightarrow> delete_pools_loop w crc cf pools gs)))"

definition deletePools :: "gc_world \<Rightarrow> (string \<Rightarrow> 32 word) \<Rightarrow> em_conf \<Rightarrow> gc_state \<Rightarrow> gc_state option" where
  "deletePools w crc cf gs = delete_pools_loop w crc cf (list_deleted_pools (em_pools (gs_em gs))) gs"

text \<open>The blobs of a deleted user in its pools. \<open>success\<close> is declared outside of the loop over
  the users.\<close>

fun delete_user_pools :: "gc_world \<Rightarrow> (string \<Rightarrow> 32 word) \<Rightarrow> em_conf \<Rightarrow> string \<Rightarrow> bool \<Rightarrow> string list \<Rightarrow> gc_state \<Rightarrow> (bool \<times> gc_state) option" where
  "delete_user_pools w crc cf user_id success [] gs = Some (success, gs)"
| "delete_user_pools w crc cf user_id success (pool_id # pools) gs =
     (case pm_list_user_blob_ids (em_pools (gs_em gs)) pool_id user_id of
        (s, blobs) \<Rightarrow>
          if \<not> st_ok s then delete_user_pools w crc cf user_id False pools gs
          else (case deleteBlobs w crc cf pool_id True True blobs gs of
              None \<Rightarrow> None
            | Some (s, gs) \<Rightarrow> delete_user_pools w crc cf user_id (st_ok s \<and> success) pools gs))"

fun delete_users_loop :: "gc_world \<Rightarrow> (string \<Rightarrow> 32 word) \<Rightarrow> em_conf \<Rightarrow> bool \<Rightarrow> string list \<Rightarrow> gc_state \<Rightarrow> gc_state option" where
  "delete_users_loop w crc cf success [] gs = Some gs"
| "delete_users_loop w crc cf success (user_id # users) gs =
     (case delete_user_pools w crc cf user_id success (snd (user_list_pools (em_users (gs_em gs)) user_id)) gs of
        None \<Rightarrow> None
      | Some (success, gs) \<Rightarrow>
          if \<not> success then delete_users_loop w crc cf success users gs
          else (case delete_user (em_store (gs_em gs)) (em_users (gs_em gs)) user_id of
              (_, st, us) \<Rightarrow>
                delete_users_loop w crc cf success users (gs \<lparr> gs_em := (gs_em gs) \<lparr> em_store := st, em_users := us \<rparr> \<rparr>)))"

definition deleteUserBlobs :: "gc_world \<Rightarrow> (string \<Rightarrow> 32 word) \<Rightarrow> em_conf \<Rightarrow> gc_state \<Rightarrow> gc_state option" where
  "deleteUserBlobs w crc cf gs = delete_users_loop w crc cf True (list_deleted_users (em_users (gs_em gs))) gs"

fun delete_blobs_loop :: "gc_world \<Rightarrow> (string \<Rightarrow> 32 word) \<Rightarrow> em_conf \<Rightarrow> string list \<Rightarrow> gc_state \<Rightarrow> gc_state option" where
  "delete_blobs_loop w crc cf [] gs = Some gs"
| "delete_blobs_loop w crc cf (pool_id # pools) gs =
     (case pm_list_blob_ids (em_pools (gs_em gs)) pool_id True of
        (s, blobs) \<Rightarrow>
          if \<not> st_ok s then delete_blobs_loop w crc cf pools gs
          else (case deleteBlobs w crc cf pool_id True True blobs gs of
              None \<Rightarrow> None
            | Some (_, gs) \<Rightarrow> delete_blobs_loop w crc cf pools gs))"

definition deleteAllBlobs :: "gc_world \<Rightarrow> (string \<Rightarrow> 32 word) \<Rightarrow> em_conf \<Rightarrow> gc_state \<Rightarrow> gc_state option" where
  "deleteAllBlobs w crc cf gs = delete_blobs_loop w crc cf (list_pool_ids (em_pools (gs_em gs))) gs"

definition gc :: "gc_world \<Rightarrow> (string \<Rightarrow> 32 word) \<Rightarrow> em_conf \<Rightarrow> gc_state \<Rightarrow> gc_state option" where
  "gc w crc cf gs =
     (if gs_gcing gs then Some gs
      else case timeValid w gs of
        (valid, gs) \<Rightarrow>
          if \<not> valid then Some gs
          else Option.bind (Option.bind (deletePools w crc cf (gs \<lparr> gs_gcing := True \<rparr>)) (deleteUserBlobs w crc cf))
                 (\<lambda>gs. map_option (\<lambda>gs. gs \<lparr> gs_gcing := False \<rparr>) (deleteAllBlobs w crc cf gs)))"

section \<open>The effect of a call to the replicas\<close>

definition inst_conn :: "pb_es_instance \<Rightarrow> string" where
  "inst_conn i = get_connection_id (pbi_public_ip i) (pbi_public_port i)"

definition router_conns :: "pb_extent_router \<Rightarrow> string list" where
  "router_conns router = map (\<lambda>(ip, port). get_connection_id ip port) (router_addrs router)"

fun req_extent :: "gc_request \<Rightarrow> string" where
  "req_extent (DeleteRequest i _ _) = i"
| "req_extent (ReclaimExtentRequest i) = i"

text \<open>An outside that accepts every connection and every request for an extent.\<close>

definition cooperative :: "gc_world \<Rightarrow> string \<Rightarrow> bool" where
  "cooperative w i \<longleftrightarrow> (\<forall>n c. gw_channel w n c) \<and> (\<forall>n c r. req_extent r = i \<longrightarrow> gw_reply w n c r = Some 0)"

definition granted :: "gc_world \<Rightarrow> gc_request \<Rightarrow> bool" where
  "granted w req \<longleftrightarrow> (\<exists>n c. gw_reply w n c req = Some 0)"

lemma get_conns_loop_spec:
  "get_conns_loop w gs addrs = (cs, gs') \<Longrightarrow> gs_em gs' = gs_em gs \<and> gs_sent gs' = gs_sent gs \<and>
     (\<forall>c. cs = Some c \<longrightarrow> c = map (\<lambda>(ip, port). get_connection_id ip port) addrs) \<and> (cooperative w i \<longrightarrow> cs \<noteq> None)"
proof (induction w gs addrs arbitrary: cs gs' rule: get_conns_loop.induct)
  case (2 w gs ip port addrs)
  obtain c g1 where g: "GetConnection w gs ip port = (c, g1)" by fastforce
  have G: "gs_em g1 = gs_em gs" "gs_sent g1 = gs_sent gs" "cooperative w i \<Longrightarrow> c \<noteq> None" "c = Some d \<Longrightarrow> d = get_connection_id ip port" for d
    using g by (auto simp: GetConnection_def Let_def cooperative_def split: if_splits)
  show ?case
  proof (cases c)
    case None
    then show ?thesis using 2(2) g G by auto
  next
    case (Some d)
    obtain ds g2 where r: "get_conns_loop w g1 addrs = (ds, g2)" by fastforce
    from 2(1)[OF g[symmetric] Some r] 2(2) g r Some G show ?thesis by auto
  qed
qed auto

lemma send_all_spec:
  "send_all w gs req cs = (rs, gs') \<Longrightarrow> gs_em gs' = gs_em gs \<and> gs_sent gs' = gs_sent gs @ map (\<lambda>c. (c, req)) cs \<and>
     length rs = length cs \<and> (\<forall>r\<in>set rs. \<exists>n c. r = gw_reply w n c req) \<and> (cooperative w (req_extent req) \<longrightarrow> rs = map (\<lambda>_. Some 0) cs)"
proof (induction w gs req cs arbitrary: rs gs' rule: send_all.induct)
  case (2 w gs req c cs)
  let ?g = "gs \<lparr> gs_tick := gs_tick gs + 1, gs_sent := gs_sent gs @ [(c, req)] \<rparr>"
  obtain ss g2 where r: "send_all w ?g req cs = (ss, g2)" by fastforce
  have rs: "rs = gw_reply w (gs_tick gs) c req # ss" "gs' = g2" using 2(2) r by (simp_all add: Let_def)
  note IH = 2(1)[OF refl refl r]
  have "\<forall>r\<in>set rs. \<exists>n c. r = gw_reply w n c req" unfolding rs using IH by (metis set_ConsD)
  then show ?case using IH by (simp add: rs cooperative_def)
qed auto

lemma join_all_zero: "join_all (map (\<lambda>_. Some 0) cs) = Status_OK"
  by (induction cs) simp_all

lemma join_all_ok: "st_ok (join_all rs) \<Longrightarrow> r \<in> set rs \<Longrightarrow> r = Some 0"
  by (induction rs rule: join_all.induct) (auto simp: st_ok_def split: if_splits)

lemma call_replicas_spec:
  assumes "call_replicas w gs req router = (s, gs')"
  shows "gs_em gs' = gs_em gs" "set (gs_sent gs) \<subseteq> set (gs_sent gs')" "cooperative w (req_extent req) \<Longrightarrow> st_ok s"
    "st_ok s \<Longrightarrow> c \<in> set (router_conns router) \<Longrightarrow> (c, req) \<in> set (gs_sent gs')" "st_ok s \<Longrightarrow> granted w req"
proof -
  obtain cs g1 where g: "getConns w gs router = (cs, g1)" by fastforce
  note G = get_conns_loop_spec[OF g[unfolded getConns_def], of "req_extent req"]
  obtain rs g2 where r: "send_all w g1 req (the cs) = (rs, g2)" by fastforce
  note R = send_all_spec[OF r]
  have "gs_em gs' = gs_em gs \<and> set (gs_sent gs) \<subseteq> set (gs_sent gs') \<and> (cooperative w (req_extent req) \<longrightarrow> st_ok s) \<and>
      (st_ok s \<longrightarrow> c \<in> set (router_conns router) \<longrightarrow> (c, req) \<in> set (gs_sent gs')) \<and> (st_ok s \<longrightarrow> granted w req)"
  proof (cases cs)
    case None
    then show ?thesis using assms g G by (auto simp: call_replicas_def st_ok_def)
  next
    case (Some d)
    then have d: "d = router_conns router" "s = join_all rs" "gs' = g2"
      using assms g r G by (simp_all add: call_replicas_def router_conns_def)
    have "cooperative w (req_extent req) \<longrightarrow> rs = map (\<lambda>_. Some 0) d" using R Some by simp
    moreover have "gs_em g1 = gs_em gs" "gs_sent g1 = gs_sent gs" using G by simp_all
    moreover have "gs_em g2 = gs_em g1" "gs_sent g2 = gs_sent g1 @ map (\<lambda>c. (c, req)) (router_conns router)" using R Some d(1) by simp_all
    moreover have "granted w req" if "st_ok (join_all rs)"
    proof -
      obtain r where r: "r \<in> set rs" using R d(1) Some by (cases rs) (auto simp: router_conns_def router_addrs_def)
      with R join_all_ok[OF that r] show ?thesis unfolding granted_def by metis
    qed
    ultimately show ?thesis unfolding d(2,3) by (auto simp: join_all_zero)
  qed
  then show "gs_em gs' = gs_em gs" "set (gs_sent gs) \<subseteq> set (gs_sent gs')" "cooperative w (req_extent req) \<Longrightarrow> st_ok s"
    "st_ok s \<Longrightarrow> c \<in> set (router_conns router) \<Longrightarrow> (c, req) \<in> set (gs_sent gs')" "st_ok s \<Longrightarrow> granted w req" by blast+
qed

text \<open>The loop over the blocks ends when the extent leaves room for one more block below
  \<open>2 ^ 64\<close>.\<close>

lemma delete_blocks_spec:
  assumes "x + block_size \<le> 2 ^ 64"
  shows "\<exists>s gs'. delete_blocks w x eid router offset gs = Some (s, gs') \<and> gs_em gs' = gs_em gs \<and>
    set (gs_sent gs) \<subseteq> set (gs_sent gs') \<and> (cooperative w eid \<longrightarrow> st_ok s) \<and>
    (st_ok s \<longrightarrow> offset < x \<longrightarrow> granted w (DeleteRequest eid offset block_size)) \<and>
    (st_ok s \<longrightarrow> (\<forall>k. \<forall>c\<in>set (router_conns router). offset + k * block_size < x \<longrightarrow>
       (c, DeleteRequest eid (offset + k * block_size) block_size) \<in> set (gs_sent gs')))"
proof (induction "x - offset" arbitrary: offset gs rule: less_induct)
  case less
  show ?case
  proof (cases "offset < x")
    case True
    obtain s1 g1 where b: "deleteOneBlock w gs eid offset router = (s1, g1)" by fastforce
    note B = call_replicas_spec[OF b[unfolded deleteOneBlock_def]]
    show ?thesis
    proof (cases "st_ok s1")
      case False
      then show ?thesis using True b B(1-3) by (subst delete_blocks.simps) (auto simp: Let_def)
    next
      case ok: True
      have o: "u64_add offset block_size = offset + block_size" using True assms by (simp add: u64_add_def)
      have lt: "x - (offset + block_size) < x - offset" using True by (simp add: block_size_def)
      from less[OF lt, of g1] obtain s gs' where r: "delete_blocks w x eid router (offset + block_size) g1 = Some (s, gs')"
          "gs_em gs' = gs_em g1" "set (gs_sent g1) \<subseteq> set (gs_sent gs')" "cooperative w eid \<longrightarrow> st_ok s"
          "st_ok s \<Longrightarrow> c \<in> set (router_conns router) \<Longrightarrow> offset + block_size + k * block_size < x \<Longrightarrow>
            (c, DeleteRequest eid (offset + block_size + k * block_size) block_size) \<in> set (gs_sent gs')" for k c by blast
      have "(c, DeleteRequest eid (offset + k * block_size) block_size) \<in> set (gs_sent gs')"
        if "st_ok s" "c \<in> set (router_conns router)" "offset + k * block_size < x" for k c
        using that r(3) r(5)[of c "k - 1"] B(4)[OF ok, of c] by (cases k) (auto simp: add.assoc)
      then show ?thesis using True ok b o r(1-4) B(1,2) B(5)[OF ok] by (subst delete_blocks.simps) (auto simp: Let_def)
    qed
  next
    case False
    then show ?thesis by (subst delete_blocks.simps) (auto simp: st_ok_def)
  qed
qed

section \<open>Removing one extent\<close>

definition gc_inv :: "(string \<Rightarrow> 32 word) \<Rightarrow> gc_state \<Rightarrow> (string \<rightharpoonup> em_router) \<Rightarrow> bool" where
  "gc_inv crc gs m \<longleftrightarrow> routers_inv crc (em_store (gs_em gs)) m \<and> cache_inv (em_routers (gs_em gs)) m"

text \<open>The servers of a router in an enabled pool.\<close>

definition servers_of :: "pool_map \<Rightarrow> em_router \<Rightarrow> pb_es_instance list option" where
  "servers_of pm er =
     (case map_of pm (er_pool_id er) of
        None \<Rightarrow> None
      | Some p \<Rightarrow> if p_status p \<noteq> kPoolStatusEnabled then None
                  else Option.bind (group_servers (p_rg_mgr p) (er_rg_id er)) (es_instances (p_es_mgr p)))"

definition routers_known :: "pool_map \<Rightarrow> (string \<rightharpoonup> em_router) \<Rightarrow> bool" where
  "routers_known pm m \<longleftrightarrow> (\<forall>i er. m i = Some er \<longrightarrow> (\<exists>is. servers_of pm er = Some is \<and> is \<noteq> []))"

lemma getRouter_spec:
  assumes inv: "gc_inv crc gs m" and k: "routers_known (em_pools (gs_em gs)) m"
  shows "\<exists>s r rm. getRouter crc gs i = Some (s, r, gs \<lparr> gs_em := (gs_em gs) \<lparr> em_routers := rm \<rparr> \<rparr>) \<and> cache_inv rm m \<and>
    (case m i of None \<Rightarrow> s = Status CYPRE_EM_ROUTER_NOT_FOUND ''Extent router not found.''
     | Some er \<Rightarrow> s = Status_OK \<and> (\<exists>is router. servers_of (em_pools (gs_em gs)) er = Some is \<and> r = Some router \<and> router_conns router = map inst_conn is))"
proof -
  from query_router_spec[of crc "em_store (gs_em gs)" m "em_routers (gs_em gs)" i] inv obtain rm where
    q: "query_router crc (em_store (gs_em gs)) (em_routers (gs_em gs)) i =
      Some (case m i of None \<Rightarrow> (Status CYPRE_EM_ROUTER_NOT_FOUND ''Extent router not found.'', None, rm)
            | Some er \<Rightarrow> (Status_OK, Some (er_pool_id er, er_rg_id er), rm))" "cache_inv rm m" by (auto simp: gc_inv_def)
  show ?thesis
  proof (cases "m i")
    case None
    then show ?thesis using q by (auto simp: getRouter_def st_ok_def)
  next
    case (Some er)
    then obtain "is" where s: "servers_of (em_pools (gs_em gs)) er = Some is" "is \<noteq> []" using k by (auto simp: routers_known_def)
    then obtain p g where p: "map_of (em_pools (gs_em gs)) (er_pool_id er) = Some p" "p_status p = kPoolStatusEnabled"
        "group_servers (p_rg_mgr p) (er_rg_id er) = Some g" "es_instances (p_es_mgr p) g = Some is"
      by (auto simp: servers_of_def bind_eq_Some_conv split: option.splits if_splits)
    then have "pm_query_es_group (em_pools (gs_em gs)) (er_pool_id er) (er_rg_id er) = Some g"
      by (simp add: pm_query_es_group_def query_es_group_def group_servers_def)
    moreover obtain i0 js where "is = i0 # js" using s(2) by (cases "is") auto
    ultimately show ?thesis using q Some s p
      by (auto simp: getRouter_def pm_query_es_router_def query_es_router_def router_conns_def router_addrs_def inst_conn_def)
  qed
qed

lemma deleteRemoteExtent_spec:
  assumes x: "x + block_size \<le> 2 ^ 64" and inv: "gc_inv crc gs m" and k: "routers_known (em_pools (gs_em gs)) m"
  shows "\<exists>s gs' rm. deleteRemoteExtent w crc x gs i = Some (s, gs') \<and> gs_em gs' = (gs_em gs) \<lparr> em_routers := rm \<rparr> \<and> cache_inv rm m \<and>
    set (gs_sent gs) \<subseteq> set (gs_sent gs') \<and> (cooperative w i \<longrightarrow> m i \<noteq> None \<longrightarrow> st_ok s) \<and>
    (st_ok s \<longrightarrow> 0 < x \<longrightarrow> granted w (DeleteRequest i 0 block_size)) \<and>
    (st_ok s \<longrightarrow> granted w (ReclaimExtentRequest i)) \<and>
    (m i = None \<longrightarrow> s = Status CYPRE_EM_ROUTER_NOT_FOUND ''Extent router not found.'' \<and> gs_sent gs' = gs_sent gs) \<and>
    (st_ok s \<longrightarrow> (\<exists>er is. m i = Some er \<and> servers_of (em_pools (gs_em gs)) er = Some is \<and>
      (\<forall>e\<in>set is. (inst_conn e, ReclaimExtentRequest i) \<in> set (gs_sent gs') \<and>
         (\<forall>k. k * block_size < x \<longrightarrow> (inst_conn e, DeleteRequest i (k * block_size) block_size) \<in> set (gs_sent gs')))))"
proof -
  from getRouter_spec[OF inv k, of i] obtain s0 r rm where
    g: "getRouter crc gs i = Some (s0, r, gs \<lparr> gs_em := (gs_em gs) \<lparr> em_routers := rm \<rparr> \<rparr>)" "cache_inv rm m"
      "case m i of None \<Rightarrow> s0 = Status CYPRE_EM_ROUTER_NOT_FOUND ''Extent router not found.''
       | Some er \<Rightarrow> s0 = Status_OK \<and> (\<exists>is router. servers_of (em_pools (gs_em gs)) er = Some is \<and> r = Some router \<and> router_conns router = map inst_conn is)"
    by blast
  let ?g = "gs \<lparr> gs_em := (gs_em gs) \<lparr> em_routers := rm \<rparr> \<rparr>"
  show ?thesis
  proof (cases "m i")
    case None
    then show ?thesis using g by (intro exI[of _ s0] exI[of _ ?g] exI[of _ rm]) (simp add: deleteRemoteExtent_def st_ok_def)
  next
    case (Some er)
    then obtain "is" router where r: "s0 = Status_OK" "servers_of (em_pools (gs_em gs)) er = Some is" "r = Some router" "router_conns router = map inst_conn is"
      using g(3) by auto
    from delete_blocks_spec[OF x, of w i router 0 ?g] obtain s1 g1 where
      d: "delete_blocks w x i router 0 ?g = Some (s1, g1)" "gs_em g1 = gs_em ?g" "set (gs_sent gs) \<subseteq> set (gs_sent g1)" "cooperative w i \<longrightarrow> st_ok s1" "st_ok s1 \<longrightarrow> 0 < x \<longrightarrow> granted w (DeleteRequest i 0 block_size)"
        "\<And>k c. st_ok s1 \<Longrightarrow> c \<in> set (router_conns router) \<Longrightarrow> k * block_size < x \<Longrightarrow> (c, DeleteRequest i (k * block_size) block_size) \<in> set (gs_sent g1)"
      by auto
    obtain s2 g2 where c: "reclaimExtent w g1 i router = (s2, g2)" by fastforce
    note C = call_replicas_spec[OF c[unfolded reclaimExtent_def]]
    show ?thesis
    proof (cases "st_ok s1")
      case False
      then show ?thesis using g(1,2) r d(1-4) Some
        by (intro exI[of _ s1] exI[of _ g1] exI[of _ rm]) (simp add: deleteRemoteExtent_def)
    next
      case True
      have "(inst_conn e, ReclaimExtentRequest i) \<in> set (gs_sent g2) \<and>
          (\<forall>k. k * block_size < x \<longrightarrow> (inst_conn e, DeleteRequest i (k * block_size) block_size) \<in> set (gs_sent g2))"
        if "st_ok s2" "e \<in> set is" for e
        using that C(2) C(4)[of "inst_conn e"] d(6)[OF True, of "inst_conn e"] unfolding r(4) by auto
      then show ?thesis using g(1,2) r d(1-3,5) c C(1-3,5) Some True
        by (intro exI[of _ s2] exI[of _ g2] exI[of _ rm]) (auto simp: deleteRemoteExtent_def)
    qed
  qed
qed


section \<open>Removing one blob\<close>

text \<open>Every server of the router of an extent was asked to clear each of its blocks and to give
  the extent back, and some server granted this.\<close>

definition served :: "gc_world \<Rightarrow> pool_map \<Rightarrow> nat \<Rightarrow> gc_state \<Rightarrow> string \<Rightarrow> em_router \<Rightarrow> bool" where
  "served w pm x gs i er \<longleftrightarrow> (0 < x \<longrightarrow> granted w (DeleteRequest i 0 block_size)) \<and> granted w (ReclaimExtentRequest i) \<and> (\<exists>is. servers_of pm er = Some is \<and>
     (\<forall>e\<in>set is. (inst_conn e, ReclaimExtentRequest i) \<in> set (gs_sent gs) \<and>
        (\<forall>k. k * block_size < x \<longrightarrow> (inst_conn e, DeleteRequest i (k * block_size) block_size) \<in> set (gs_sent gs))))"

lemma served_mono: "served w pm x gs i er \<Longrightarrow> set (gs_sent gs) \<subseteq> set (gs_sent gs') \<Longrightarrow> served w pm x gs' i er"
  unfolding served_def by blast

lemma gc_delete_router_spec:
  assumes inv: "gc_inv crc gs m" and d: "gc_delete_router gs i = (s, gs')"
  shows "gc_inv crc gs' (if st_ok s then m(i := None) else m)" "em_pools (gs_em gs') = em_pools (gs_em gs)" "gs_sent gs' = gs_sent gs"
    "rs_faults (em_store (gs_em gs)) = [] \<Longrightarrow> st_ok s \<and> rs_faults (em_store (gs_em gs')) = []"
proof -
  let ?em = "gs_em gs"
  obtain s1 st1 rm1 where r: "delete_router (em_store ?em) (em_routers ?em) i = (s1, st1, rm1)" by (cases "delete_router (em_store ?em) (em_routers ?em) i")
  have g: "s = s1" "gs' = gs \<lparr> gs_em := ?em \<lparr> em_store := st1, em_routers := rm1 \<rparr> \<rparr>" using d r by (simp_all add: gc_delete_router_def)
  show "gc_inv crc gs' (if st_ok s then m(i := None) else m)"
    using delete_router_spec[OF _ _ r, of crc m] inv unfolding gc_inv_def g by simp
  show "rs_faults (em_store ?em) = [] \<Longrightarrow> st_ok s \<and> rs_faults (em_store (gs_em gs')) = []"
    using r unfolding g by (auto simp: delete_router_def RocksStore_Delete_def kv_write_def rs_ok_def st_ok_def)
qed (use d in \<open>auto simp: gc_delete_router_def Let_def split: prod.splits\<close>)

lemma routers_known_sub: "routers_known pm m \<Longrightarrow> (\<And>i er. m' i = Some er \<Longrightarrow> m i = Some er) \<Longrightarrow> routers_known pm m'"
  unfolding routers_known_def by blast

lemma delete_extents_spec:
  assumes x: "x + block_size \<le> 2 ^ 64" and "distinct is" "gc_inv crc gs m" "routers_known (em_pools (gs_em gs)) m"
  shows "\<exists>s gs' m'. delete_extents w crc x remote b is gs = Some (s, gs') \<and> gc_inv crc gs' m' \<and>
    em_pools (gs_em gs') = em_pools (gs_em gs) \<and> set (gs_sent gs) \<subseteq> set (gs_sent gs') \<and>
    (\<forall>j. m' j = m j \<or> (m' j = None \<and> j \<in> GenerateExtentID b ` set is)) \<and>
    (st_ok s \<longrightarrow> (\<forall>i\<in>set is. m' (GenerateExtentID b i) = None \<and>
       (remote \<longrightarrow> (\<exists>er. m (GenerateExtentID b i) = Some er \<and> served w (em_pools (gs_em gs)) x gs' (GenerateExtentID b i) er)))) \<and>
    (rs_faults (em_store (gs_em gs)) = [] \<longrightarrow> rs_faults (em_store (gs_em gs')) = [] \<and>
       ((\<forall>i\<in>set is. cooperative w (GenerateExtentID b i) \<and> m (GenerateExtentID b i) \<noteq> None) \<longrightarrow> st_ok s))"
  using assms(2-)
proof (induction "is" arbitrary: gs m)
  case Nil
  then show ?case by (intro exI[of _ Status_OK] exI[of _ gs] exI[of _ m]) simp
next
  case (Cons i "is")
  let ?e = "GenerateExtentID b i"
  let ?em = "gs_em gs"
  let ?r = "if remote then deleteRemoteExtent w crc x gs ?e else Some (Status_OK, gs)"
  obtain s1 g1 rm where r: "?r = Some (s1, g1)" "gs_em g1 = ?em \<lparr> em_routers := rm \<rparr>" "cache_inv rm m" "set (gs_sent gs) \<subseteq> set (gs_sent g1)"
      "cooperative w ?e \<Longrightarrow> m ?e \<noteq> None \<Longrightarrow> st_ok s1"
      "st_ok s1 \<Longrightarrow> remote \<Longrightarrow> \<exists>er. m ?e = Some er \<and> served w (em_pools ?em) x g1 ?e er"
  proof (cases remote)
    case True
    from deleteRemoteExtent_spec[OF x Cons.prems(2,3), of w ?e] obtain s1 g1 rm where
      "deleteRemoteExtent w crc x gs ?e = Some (s1, g1)" "gs_em g1 = ?em \<lparr> em_routers := rm \<rparr>" "cache_inv rm m" "set (gs_sent gs) \<subseteq> set (gs_sent g1)"
      "cooperative w ?e \<longrightarrow> m ?e \<noteq> None \<longrightarrow> st_ok s1" "st_ok s1 \<longrightarrow> (\<exists>er. m ?e = Some er \<and> served w (em_pools ?em) x g1 ?e er)"
      unfolding served_def by blast
    from that[of s1 g1 rm] this show thesis using True by simp
  next
    case False
    then show thesis using that[of Status_OK gs "em_routers ?em"] Cons.prems(2) by (simp add: gc_inv_def)
  qed
  have inv1: "gc_inv crc g1 m" using Cons.prems(2) r(2,3) by (simp add: gc_inv_def)
  obtain s2 g2 where d: "gc_delete_router g1 ?e = (s2, g2)" by fastforce
  note D = gc_delete_router_spec[OF inv1 d]
  consider "\<not> st_ok s1" | "st_ok s1" "\<not> st_ok s2" | "st_ok s1" "st_ok s2" by blast
  then show ?case
  proof cases
    case 1
    then show ?thesis using r inv1 by (intro exI[of _ s1] exI[of _ g1] exI[of _ m]) auto
  next
    case 2
    then show ?thesis using r d D by (intro exI[of _ s2] exI[of _ g2] exI[of _ m]) auto
  next
    case 3
    let ?m = "m(?e := None)"
    have k: "routers_known (em_pools (gs_em g2)) ?m"
      by (rule routers_known_sub[of _ m]) (use Cons.prems(3) r(2) D(2) in \<open>auto split: if_splits\<close>)
    have "distinct is" "gc_inv crc g2 ?m" using Cons.prems(1) D(1) 3 by simp_all
    from Cons.IH[OF this k] obtain s gs' m' where
      h: "delete_extents w crc x remote b is g2 = Some (s, gs')" "gc_inv crc gs' m'" "em_pools (gs_em gs') = em_pools (gs_em g2)"
        "set (gs_sent g2) \<subseteq> set (gs_sent gs')" "\<forall>j. m' j = ?m j \<or> (m' j = None \<and> j \<in> GenerateExtentID b ` set is)"
        "st_ok s \<longrightarrow> (\<forall>i\<in>set is. m' (GenerateExtentID b i) = None \<and>
           (remote \<longrightarrow> (\<exists>er. ?m (GenerateExtentID b i) = Some er \<and> served w (em_pools (gs_em g2)) x gs' (GenerateExtentID b i) er)))"
        "rs_faults (em_store (gs_em g2)) = [] \<longrightarrow> rs_faults (em_store (gs_em gs')) = [] \<and>
           ((\<forall>i\<in>set is. cooperative w (GenerateExtentID b i) \<and> ?m (GenerateExtentID b i) \<noteq> None) \<longrightarrow> st_ok s)" by blast
    have pm: "em_pools (gs_em g2) = em_pools ?em" using r(2) D(2) by simp
    have sent: "set (gs_sent g1) \<subseteq> set (gs_sent gs')" using D(3) h(4) by simp
    have new: "?m (GenerateExtentID b j) = m (GenerateExtentID b j)" if "j \<in> set is" for j using that Cons.prems(1) by auto
    have gone: "m' ?e = None" using spec[OF h(5), of ?e] by auto
    show ?thesis
    proof (intro exI[of _ s] exI[of _ gs'] exI[of _ m'] conjI)
      show "delete_extents w crc x remote b (i # is) gs = Some (s, gs')" using r(1) d 3 h(1) by (simp add: Let_def)
      show "\<forall>j. m' j = m j \<or> (m' j = None \<and> j \<in> GenerateExtentID b ` set (i # is))" using h(5) by (auto split: if_splits)
      show "st_ok s \<longrightarrow> (\<forall>i\<in>set (i # is). m' (GenerateExtentID b i) = None \<and>
         (remote \<longrightarrow> (\<exists>er. m (GenerateExtentID b i) = Some er \<and> served w (em_pools ?em) x gs' (GenerateExtentID b i) er)))"
        using h(6) gone r(6)[OF 3(1)] served_mono[OF _ sent] new pm by auto
      show "rs_faults (em_store ?em) = [] \<longrightarrow> rs_faults (em_store (gs_em gs')) = [] \<and>
         ((\<forall>i\<in>set (i # is). cooperative w (GenerateExtentID b i) \<and> m (GenerateExtentID b i) \<noteq> None) \<longrightarrow> st_ok s)"
        using h(7) r(2) D(4) new by auto
    qed (use h(2,3) pm sent r(4) in auto)
  qed
qed


text \<open>A blob that is in one pool only.\<close>

definition blob_in :: "pool_map \<Rightarrow> string \<Rightarrow> string \<Rightarrow> blob \<Rightarrow> bool" where
  "blob_in pm pid bid b \<longleftrightarrow> (\<exists>p. map_of pm pid = Some p \<and> map_of (p_blob_mgr p) bid = Some b) \<and>
     (\<forall>j q. map_of pm j = Some q \<longrightarrow> blobid_exist (p_blob_mgr q) bid \<longrightarrow> j = pid)"

lemma blob_in_query:
  assumes "distinct (map fst pm)" "blob_in pm pid bid b"
  shows "pm_query_blob pm bid True = (Status_OK, Some (ToPbBlob b))"
proof -
  obtain p where p: "map_of pm pid = Some p" "map_of (p_blob_mgr p) bid = Some b" using assms(2) by (auto simp: blob_in_def)
  let ?P = "\<lambda>(_, p). blobid_exist (p_blob_mgr p) bid"
  have "find ?P pm = Some (pid, p)"
  proof (cases "find ?P pm")
    case None
    then show ?thesis using map_of_SomeD[OF p(1)] p(2) by (auto simp: find_None_iff blobid_exist_def)
  next
    case (Some r)
    obtain j q where jq: "r = (j, q)" by fastforce
    then have "(j, q) \<in> set pm" "blobid_exist (p_blob_mgr q) bid" using Some by (auto simp: find_Some_iff in_set_conv_nth)
    then have q: "map_of pm j = Some q" using assms(1) by simp
    then have "j = pid" using assms(2) \<open>blobid_exist (p_blob_mgr q) bid\<close> unfolding blob_in_def by blast
    then show ?thesis using Some jq p(1) q by simp
  qed
  then show ?thesis using p(2) by (simp add: pm_query_blob_def query_blob_def)
qed

lemma keeps_routers_del: "RocksStore_Delete st k = (s, st') \<Longrightarrow> \<not> prefix kERKvPrefix k \<Longrightarrow> keeps_routers st st'"
  using rocks.del_law[of st k s st'] by (auto simp: keeps_routers_def)

lemma deleteOneBlob_spec:
  assumes inv: "gc_inv crc gs m" and k: "routers_known (em_pools (gs_em gs)) m" and d: "distinct (map fst (em_pools (gs_em gs)))"
    and b: "blob_in (em_pools (gs_em gs)) pid bid b" and x: "0 < cf_extent_size cf" "cf_extent_size cf + block_size \<le> 2 ^ 64"
  defines "n \<equiv> b_size b div cf_extent_size cf"
  shows "\<exists>s gs' m' p'. deleteOneBlob w crc cf gs pid bid remote = Some (s, gs') \<and> gc_inv crc gs' m' \<and>
    (\<forall>j. m' j = m j \<or> (m' j = None \<and> (\<exists>i. 1 \<le> i \<and> i \<le> n \<and> j = GenerateExtentID bid i))) \<and>
    map_of (em_pools (gs_em gs')) pid = Some p' \<and>
    (st_ok s \<longrightarrow> \<not> blobid_exist (p_blob_mgr p') bid \<and> kv_lookup (em_store (gs_em gs')) (blob_kv_key b) = None \<and>
       (\<forall>i. 1 \<le> i \<longrightarrow> i \<le> n \<longrightarrow> m' (GenerateExtentID bid i) = None \<and>
         (remote \<longrightarrow> (\<exists>er. m (GenerateExtentID bid i) = Some er \<and>
            served w (em_pools (gs_em gs)) (cf_extent_size cf) gs' (GenerateExtentID bid i) er)))) \<and>
    (rs_faults (em_store (gs_em gs)) = [] \<longrightarrow>
      (\<forall>i. 1 \<le> i \<longrightarrow> i \<le> n \<longrightarrow> cooperative w (GenerateExtentID bid i) \<and> m (GenerateExtentID bid i) \<noteq> None) \<longrightarrow> st_ok s) \<and>
    (\<not> st_ok s \<longrightarrow> map_of (p_blob_mgr p') bid = Some b) \<and>
    (st_ok s \<longrightarrow> rs_faults (em_store (gs_em gs)) = [] \<longrightarrow> rs_faults (em_store (gs_em gs')) = []) \<and>
    (st_ok s \<longrightarrow> map_of (em_pools (gs_em gs)) pid = Some q \<longrightarrow>
       em_pools (gs_em gs') = smap_insert pid (q \<lparr> p_blob_mgr := AList.delete bid (p_blob_mgr q) \<rparr>) (em_pools (gs_em gs)))"
proof -
  let ?x = "cf_extent_size cf"
  let ?is = "[1..<n + 1]"
  have q: "pm_query_blob (em_pools (gs_em gs)) bid True = (Status_OK, Some (ToPbBlob b))" by (rule blob_in_query[OF d b])
  obtain p where p: "map_of (em_pools (gs_em gs)) pid = Some p" "map_of (p_blob_mgr p) bid = Some b" using b by (auto simp: blob_in_def)
  have set_is: "set ?is = {i. 1 \<le> i \<and> i \<le> n}" by auto
  from delete_extents_spec[OF x(2) distinct_upt inv k, of w remote bid 1 "n + 1"] obtain s1 g1 m1 where
    e: "delete_extents w crc ?x remote bid ?is gs = Some (s1, g1)" "gc_inv crc g1 m1" "em_pools (gs_em g1) = em_pools (gs_em gs)"
    and m1: "\<forall>j. m1 j = m j \<or> (m1 j = None \<and> j \<in> GenerateExtentID bid ` set ?is)"
    and ok: "st_ok s1 \<longrightarrow> (\<forall>i\<in>set ?is. m1 (GenerateExtentID bid i) = None \<and>
         (remote \<longrightarrow> (\<exists>er. m (GenerateExtentID bid i) = Some er \<and> served w (em_pools (gs_em gs)) ?x g1 (GenerateExtentID bid i) er)))"
    and co: "rs_faults (em_store (gs_em gs)) = [] \<longrightarrow> rs_faults (em_store (gs_em g1)) = [] \<and>
         ((\<forall>i\<in>set ?is. cooperative w (GenerateExtentID bid i) \<and> m (GenerateExtentID bid i) \<noteq> None) \<longrightarrow> st_ok s1)"
    by blast
  have e4: "\<forall>j. m1 j = m j \<or> (m1 j = None \<and> (\<exists>i. 1 \<le> i \<and> i \<le> n \<and> j = GenerateExtentID bid i))" using m1 unfolding set_is by blast
  have e5: "\<forall>i. 1 \<le> i \<longrightarrow> i \<le> n \<longrightarrow> m1 (GenerateExtentID bid i) = None \<and>
      (remote \<longrightarrow> (\<exists>er. m (GenerateExtentID bid i) = Some er \<and> served w (em_pools (gs_em gs)) ?x g1 (GenerateExtentID bid i) er))"
    if "st_ok s1" using ok that unfolding set_is by blast
  have e6: "st_ok s1 \<and> rs_faults (em_store (gs_em g1)) = []"
    if "rs_faults (em_store (gs_em gs)) = []" "\<forall>i. 1 \<le> i \<longrightarrow> i \<le> n \<longrightarrow> cooperative w (GenerateExtentID bid i) \<and> m (GenerateExtentID bid i) \<noteq> None"
    using co that unfolding set_is by blast
  have e7: "rs_faults (em_store (gs_em g1)) = []" if "rs_faults (em_store (gs_em gs)) = []" using co that by blast
  obtain k2 st2 where del: "RocksStore_Delete (em_store (gs_em g1)) (blob_kv_key b) = (k2, st2)" by fastforce
  have inv2: "routers_inv crc st2 m1" by (rule keeps_routers_inv[OF _ keeps_routers_del[OF del]]) (use e(2) in \<open>simp_all add: gc_inv_def\<close>)
  let ?p = "if rs_ok k2 then p \<lparr> p_blob_mgr := AList.delete bid (p_blob_mgr p) \<rparr> else p \<lparr> p_blob_mgr := p_blob_mgr p \<rparr>"
  let ?s = "if rs_ok k2 then Status_OK else Status CYPRE_EM_DELETE_ERROR ''Delete blob meta from store failed''"
  let ?g = "g1 \<lparr> gs_em := (gs_em g1) \<lparr> em_store := st2, em_pools := smap_insert pid ?p (em_pools (gs_em g1)) \<rparr> \<rparr>"
  have pm: "pm_delete_blob (em_store (gs_em g1)) (em_pools (gs_em g1)) pid bid = (?s, st2, smap_insert pid ?p (em_pools (gs_em g1)))"
    using p del e(3) by (simp add: pm_delete_blob_def delete_blob_def)
  have sz: "pbb_size (ToPbBlob b) div ?x = n" by (simp add: ToPbBlob_def n_def)
  show ?thesis
  proof (cases "st_ok s1")
    case False
    then have "deleteOneBlob w crc cf gs pid bid remote = Some (s1, g1)" using q e(1) x(1) sz by (simp add: deleteOneBlob_def Let_def del: upt_Suc)
    then show ?thesis
    proof (intro exI[of _ s1] exI[of _ g1] exI[of _ m1] exI[of _ p] conjI)
      show "rs_faults (em_store (gs_em gs)) = [] \<longrightarrow>
          (\<forall>i. 1 \<le> i \<longrightarrow> i \<le> n \<longrightarrow> cooperative w (GenerateExtentID bid i) \<and> m (GenerateExtentID bid i) \<noteq> None) \<longrightarrow> st_ok s1"
        using e6 by blast
    qed (use e(2,3) e4 p False in simp_all)
  next
    case True
    have wf: "kv_wf (em_store (gs_em g1))" using e(2) unfolding gc_inv_def routers_inv_def by (blast dest: table_invD(1))
    have gone: "rs_ok k2 \<Longrightarrow> kv_lookup st2 (blob_kv_key b) = None" using rocks.del_law[OF wf del] by simp
    have f: "rs_faults (em_store (gs_em g1)) = [] \<Longrightarrow> rs_ok k2" using del by (auto simp: RocksStore_Delete_def kv_write_def rs_ok_def)
    have sv: "served w pm y ?g i er = served w pm y g1 i er" for pm y i er by (simp add: served_def)
    have "deleteOneBlob w crc cf gs pid bid remote = Some (?s, ?g)" using q e(1) x(1) sz True pm by (simp add: deleteOneBlob_def Let_def del: upt_Suc)
    moreover have "gc_inv crc ?g m1" using inv2 e(2) by (simp add: gc_inv_def)
    ultimately show ?thesis
    proof (intro exI[of _ ?s] exI[of _ ?g] exI[of _ m1] exI[of _ ?p] conjI)
      show "rs_faults (em_store (gs_em gs)) = [] \<longrightarrow>
          (\<forall>i. 1 \<le> i \<longrightarrow> i \<le> n \<longrightarrow> cooperative w (GenerateExtentID bid i) \<and> m (GenerateExtentID bid i) \<noteq> None) \<longrightarrow> st_ok ?s"
      proof (intro impI)
        assume "rs_faults (em_store (gs_em gs)) = []" "\<forall>i. 1 \<le> i \<longrightarrow> i \<le> n \<longrightarrow> cooperative w (GenerateExtentID bid i) \<and> m (GenerateExtentID bid i) \<noteq> None"
        from f e6[OF this] show "st_ok ?s" by simp
      qed
      show "st_ok ?s \<longrightarrow> \<not> blobid_exist (p_blob_mgr ?p) bid \<and> kv_lookup (em_store (gs_em ?g)) (blob_kv_key b) = None \<and>
         (\<forall>i. 1 \<le> i \<longrightarrow> i \<le> n \<longrightarrow> m1 (GenerateExtentID bid i) = None \<and>
           (remote \<longrightarrow> (\<exists>er. m (GenerateExtentID bid i) = Some er \<and> served w (em_pools (gs_em gs)) ?x ?g (GenerateExtentID bid i) er)))"
        using gone e5[OF True] sv by (simp add: st_ok_def blobid_exist_def)
      show "st_ok ?s \<longrightarrow> rs_faults (em_store (gs_em gs)) = [] \<longrightarrow> rs_faults (em_store (gs_em ?g)) = []"
        using e7 del by (auto simp: RocksStore_Delete_def kv_write_def)
      show "st_ok ?s \<longrightarrow> map_of (em_pools (gs_em gs)) pid = Some q \<longrightarrow>
          em_pools (gs_em ?g) = smap_insert pid (q \<lparr> p_blob_mgr := AList.delete bid (p_blob_mgr q) \<rparr>) (em_pools (gs_em gs))"
        using p(1) e(3) by (simp add: st_ok_def)
    qed (use e4 p in \<open>simp_all add: st_ok_def\<close>)
  qed
qed


section \<open>A run that failed half way\<close>

lemma stuck_once:
  assumes inv: "gc_inv crc gs m" and k: "routers_known (em_pools (gs_em gs)) m" and d: "distinct (map fst (em_pools (gs_em gs)))"
    and b: "blob_in (em_pools (gs_em gs)) pid bid b" and x: "0 < cf_extent_size cf" "cf_extent_size cf + block_size \<le> 2 ^ 64"
    and n: "cf_extent_size cf \<le> b_size b" and gone: "m (GenerateExtentID bid 1) = None"
  shows "\<exists>gs'. deleteOneBlob w crc cf gs pid bid True = Some (Status CYPRE_EM_ROUTER_NOT_FOUND ''Extent router not found.'', gs') \<and>
    gc_inv crc gs' m \<and> em_pools (gs_em gs') = em_pools (gs_em gs) \<and> gs_sent gs' = gs_sent gs"
proof -
  let ?n = "pbb_size (ToPbBlob b) div cf_extent_size cf"
  have "1 \<le> ?n" using n x(1) by (simp add: ToPbBlob_def Suc_le_eq div_greater_zero_iff)
  then have l: "[Suc 0..<Suc ?n] = 1 # [2..<?n + 1]" by (simp add: upt_conv_Cons numeral_2_eq_2 numeral_3_eq_3 del: upt_Suc)
  from deleteRemoteExtent_spec[OF x(2) inv k, of w "GenerateExtentID bid 1"] gone obtain gs' rm where
    r: "deleteRemoteExtent w crc (cf_extent_size cf) gs (GenerateExtentID bid 1) = Some (Status CYPRE_EM_ROUTER_NOT_FOUND ''Extent router not found.'', gs')"
      "gs_em gs' = (gs_em gs) \<lparr> em_routers := rm \<rparr>" "cache_inv rm m" "gs_sent gs' = gs_sent gs" by auto
  have "deleteOneBlob w crc cf gs pid bid True = Some (Status CYPRE_EM_ROUTER_NOT_FOUND ''Extent router not found.'', gs')"
    using r(1) blob_in_query[OF d b] x(1) unfolding deleteOneBlob_def by (simp add: Let_def l st_ok_def del: upt_Suc)
  then show ?thesis using r inv by (intro exI[of _ gs']) (simp add: gc_inv_def)
qed

text \<open>A run in which the first extent is removed and the second is refused.\<close>

lemma second_refused:
  assumes inv: "gc_inv crc gs m" and k: "routers_known (em_pools (gs_em gs)) m" and d: "distinct (map fst (em_pools (gs_em gs)))"
    and b: "blob_in (em_pools (gs_em gs)) pid bid b" and x: "0 < cf_extent_size cf" "cf_extent_size cf + block_size \<le> 2 ^ 64"
    and n: "2 * cf_extent_size cf \<le> b_size b" and f: "rs_faults (em_store (gs_em gs)) = []" and "m (GenerateExtentID bid 1) \<noteq> None"
    and w: "cooperative w (GenerateExtentID bid 1)" "\<not> granted w (ReclaimExtentRequest (GenerateExtentID bid 2))"
  obtains s gs' where "deleteOneBlob w crc cf gs pid bid True = Some (s, gs')" "\<not> st_ok s"
    "gc_inv crc gs' (m(GenerateExtentID bid 1 := None))" "em_pools (gs_em gs') = em_pools (gs_em gs)"
proof -
  let ?n = "pbb_size (ToPbBlob b) div cf_extent_size cf"
  let ?e = "GenerateExtentID bid"
  let ?m = "m(?e 1 := None)"
  have "2 * cf_extent_size cf div cf_extent_size cf \<le> b_size b div cf_extent_size cf" using n by (rule div_le_mono)
  then have "2 \<le> ?n" using x(1) by (simp add: ToPbBlob_def)
  then have l: "[Suc 0..<Suc ?n] = 1 # 2 # [3..<?n + 1]" by (simp add: upt_conv_Cons numeral_2_eq_2 numeral_3_eq_3 del: upt_Suc)
  from deleteRemoteExtent_spec[OF x(2) inv k, of w "?e 1"] assms(9) w(1) obtain s1 g1 rm1 where
    r1: "deleteRemoteExtent w crc (cf_extent_size cf) gs (?e 1) = Some (s1, g1)" "gs_em g1 = (gs_em gs) \<lparr> em_routers := rm1 \<rparr>" "cache_inv rm1 m" "st_ok s1" by blast
  have inv1: "gc_inv crc g1 m" using inv r1(2,3) by (simp add: gc_inv_def)
  obtain s2 g2 where d2: "gc_delete_router g1 (?e 1) = (s2, g2)" by fastforce
  note D = gc_delete_router_spec[OF inv1 d2]
  have s2: "st_ok s2" using D(4) f r1(2) by simp
  have pm: "em_pools (gs_em g2) = em_pools (gs_em gs)" using D(2) r1(2) by simp
  have inv2: "gc_inv crc g2 ?m" using D(1) s2 by simp
  have k2: "routers_known (em_pools (gs_em g2)) ?m" by (rule routers_known_sub[of _ m]) (use k pm in \<open>auto split: if_splits\<close>)
  from deleteRemoteExtent_spec[OF x(2) inv2 k2, of w "?e 2"] w(2) obtain s3 g3 rm3 where
    r3: "deleteRemoteExtent w crc (cf_extent_size cf) g2 (?e 2) = Some (s3, g3)" "gs_em g3 = (gs_em g2) \<lparr> em_routers := rm3 \<rparr>" "cache_inv rm3 ?m" "\<not> st_ok s3" by blast
  have "deleteOneBlob w crc cf gs pid bid True = Some (s3, g3)"
    using r1(1,4) d2 s2 r3(1,4) blob_in_query[OF d b] x(1) unfolding deleteOneBlob_def
    by (simp add: Let_def l del: upt_Suc)
  moreover have "gc_inv crc g3 ?m" using inv2 r3(2,3) by (simp add: gc_inv_def)
  ultimately show thesis using that r3(2,4) pm by simp
qed

section \<open>A run without faults\<close>

text \<open>What a run relies on: the routers agree with the store, each blob is in one pool, and
  each of its extents has a router.\<close>

definition gc_ready :: "(string \<Rightarrow> 32 word) \<Rightarrow> nat \<Rightarrow> gc_state \<Rightarrow> (string \<rightharpoonup> em_router) \<Rightarrow> bool" where
  "gc_ready crc x gs m \<longleftrightarrow> gc_inv crc gs m \<and> routers_known (em_pools (gs_em gs)) m \<and> sorted_wrt (<) (map fst (em_pools (gs_em gs))) \<and>
     rs_faults (em_store (gs_em gs)) = [] \<and>
     (\<forall>pid p. map_of (em_pools (gs_em gs)) pid = Some p \<longrightarrow> distinct (map fst (p_blob_mgr p)) \<and>
        (\<forall>bid b. map_of (p_blob_mgr p) bid = Some b \<longrightarrow> blob_in (em_pools (gs_em gs)) pid bid b \<and> CHR ''.'' \<notin> set bid \<and>
           (\<forall>i. 1 \<le> i \<longrightarrow> i \<le> b_size b div x \<longrightarrow> m (GenerateExtentID bid i) \<noteq> None)))"

definition gc_world_ok :: "gc_world \<Rightarrow> bool" where
  "gc_world_ok w \<longleftrightarrow> (\<forall>i. cooperative w i) \<and> (\<forall>n. gw_begin w < gw_hour w n \<and> gw_hour w n < gw_end w)"

abbreviation without_blob :: "pool \<Rightarrow> string \<Rightarrow> pool" where
  "without_blob p bid \<equiv> p \<lparr> p_blob_mgr := AList.delete bid (p_blob_mgr p) \<rparr>"

lemma GenerateExtentID_blob: "GenerateExtentID b i = GenerateExtentID c j \<Longrightarrow> CHR ''.'' \<notin> set b \<Longrightarrow> CHR ''.'' \<notin> set c \<Longrightarrow> b = c"
  by (metis GetBlobId_Generate)

lemma blob_in_without:
  assumes "blob_in pm pid' c b" "map_of pm pid = Some p" "pid' = pid \<Longrightarrow> c \<noteq> bid"
  shows "blob_in (smap_insert pid (without_blob p bid) pm) pid' c b"
proof -
  let ?pm = "smap_insert pid (without_blob p bid) pm"
  obtain p0 where p0: "map_of pm pid' = Some p0" "map_of (p_blob_mgr p0) c = Some b" using assms(1) unfolding blob_in_def by blast
  have u: "j = pid'" if "map_of pm j = Some q" "blobid_exist (p_blob_mgr q) c" for j q using assms(1) that unfolding blob_in_def by blast
  have "\<exists>q. map_of ?pm pid' = Some q \<and> map_of (p_blob_mgr q) c = Some b"
  proof (cases "pid' = pid")
    case True
    then show ?thesis using p0 assms(2,3) by simp
  qed (use p0 in simp)
  moreover have "j = pid'" if "map_of ?pm j = Some q" "blobid_exist (p_blob_mgr q) c" for j q
  proof (cases "j = pid")
    case True
    then have "blobid_exist (p_blob_mgr p) c" using that by (auto simp: blobid_exist_def split: if_splits)
    then show ?thesis using u assms(2) True by blast
  qed (use that u in simp)
  ultimately show ?thesis unfolding blob_in_def by blast
qed

lemma routers_known_without:
  assumes "routers_known pm m" "map_of pm pid = Some p" "\<And>i er. m' i = Some er \<Longrightarrow> m i = Some er"
  shows "routers_known (smap_insert pid (without_blob p bid) pm) m'"
proof -
  have "servers_of (smap_insert pid (without_blob p bid) pm) er = servers_of pm er" for er
    using assms(2) by (auto simp: servers_of_def)
  then show ?thesis using assms(1,3) unfolding routers_known_def by (metis (no_types))
qed

lemma gc_ready_step:
  assumes r: "gc_ready crc (cf_extent_size cf) gs m" and x: "0 < cf_extent_size cf" "cf_extent_size cf + block_size \<le> 2 ^ 64"
    and w: "gc_world_ok w" and p: "map_of (em_pools (gs_em gs)) pid = Some p" "map_of (p_blob_mgr p) bid = Some b"
  obtains s gs' m' where "deleteOneBlob w crc cf gs pid bid True = Some (s, gs')" "st_ok s" "gc_ready crc (cf_extent_size cf) gs' m'"
    "em_pools (gs_em gs') = smap_insert pid (without_blob p bid) (em_pools (gs_em gs))"
proof -
  let ?pm = "em_pools (gs_em gs)"
  note D = r[unfolded gc_ready_def]
  have inv: "gc_inv crc gs m" and k: "routers_known ?pm m" and so: "sorted_wrt (<) (map fst ?pm)" and f: "rs_faults (em_store (gs_em gs)) = []" using D by blast+
  have B: "distinct (map fst (p_blob_mgr q))" "map_of (p_blob_mgr q) c = Some a \<Longrightarrow> blob_in ?pm j c a \<and> CHR ''.'' \<notin> set c \<and>
      (\<forall>i. 1 \<le> i \<longrightarrow> i \<le> b_size a div cf_extent_size cf \<longrightarrow> m (GenerateExtentID c i) \<noteq> None)" if "map_of ?pm j = Some q" for j q c a
    using D that by blast+
  note b = B(2)[OF p]
  have bi: "blob_in ?pm pid bid b" and bd: "CHR ''.'' \<notin> set bid" using b by blast+
  have co: "\<forall>i. 1 \<le> i \<longrightarrow> i \<le> b_size b div cf_extent_size cf \<longrightarrow> cooperative w (GenerateExtentID bid i) \<and> m (GenerateExtentID bid i) \<noteq> None"
    using b w unfolding gc_world_ok_def by blast
  from deleteOneBlob_spec[OF inv k sorted_map_distinct[OF so] bi x, of w True p] f co p(1) obtain s gs' m' where
    d: "deleteOneBlob w crc cf gs pid bid True = Some (s, gs')" "gc_inv crc gs' m'" "st_ok s" "rs_faults (em_store (gs_em gs')) = []"
      "em_pools (gs_em gs') = smap_insert pid (without_blob p bid) ?pm"
    and m': "\<forall>j. m' j = m j \<or> (m' j = None \<and> (\<exists>i. 1 \<le> i \<and> i \<le> b_size b div cf_extent_size cf \<and> j = GenerateExtentID bid i))"
    by metis
  have other: "c \<noteq> bid" if "map_of ?pm j = Some q" "map_of (p_blob_mgr q) c = Some a" "j \<noteq> pid" for j q c a
    using that bi by (auto simp: blob_in_def blobid_exist_def)
  have "gc_ready crc (cf_extent_size cf) gs' m'" unfolding gc_ready_def d(5)
  proof (intro conjI allI impI)
    show "routers_known (smap_insert pid (without_blob p bid) ?pm) m'"
      by (rule routers_known_without[OF k p(1)]) (metis m' option.distinct(1))
    show "sorted_wrt (<) (map fst (smap_insert pid (without_blob p bid) ?pm))" by (rule smap_insert_sorted[OF so])
  next
    fix j q assume "map_of (smap_insert pid (without_blob p bid) ?pm) j = Some q"
    then obtain q0 where q0: "map_of ?pm j = Some q0" "q = (if j = pid then without_blob q0 bid else q0)"
      using p(1) by (auto split: if_splits)
    show "distinct (map fst (p_blob_mgr q))" using q0 B(1)[OF q0(1)] by (simp add: distinct_delete)
    fix c a assume "map_of (p_blob_mgr q) c = Some a"
    then have c: "map_of (p_blob_mgr q0) c = Some a" "j = pid \<Longrightarrow> c \<noteq> bid" using q0(2) B(1)[OF q0(1)] by (auto split: if_splits)
    then have ne: "c \<noteq> bid" using other[OF q0(1) c(1)] by blast
    note A = B(2)[OF q0(1) c(1)]
    show "blob_in (smap_insert pid (without_blob p bid) ?pm) j c a" by (rule blob_in_without[OF conjunct1[OF A] p(1) c(2)])
    show "CHR ''.'' \<notin> set c" using A by blast
    show "m' (GenerateExtentID c i) \<noteq> None" if "1 \<le> i" "i \<le> b_size a div cf_extent_size cf" for i
    proof -
      have "GenerateExtentID c i \<noteq> GenerateExtentID bid k" for k using GenerateExtentID_blob[of c i bid k] ne bd A by blast
      then have "m' (GenerateExtentID c i) = m (GenerateExtentID c i)" using spec[OF m', of "GenerateExtentID c i"] by blast
      then show ?thesis using A that by simp
    qed
  qed (rule d)+
  from that[OF d(1,3) this d(5)] show thesis .
qed

text \<open>Pools from which a set of blobs was taken.\<close>

definition collected :: "(string \<times> string) set \<Rightarrow> pool_map \<Rightarrow> pool_map \<Rightarrow> bool" where
  "collected R pm pm' \<longleftrightarrow> (\<forall>j q. map_of pm j = Some q \<longrightarrow> (\<exists>q'. map_of pm' j = Some q' \<and> p_status q' = p_status q \<and>
     (\<forall>c. map_of (p_blob_mgr q') c = (if (j, c) \<in> R then None else map_of (p_blob_mgr q) c))))"

lemma collectedD: "collected R pm pm' \<Longrightarrow> map_of pm j = Some q \<Longrightarrow> (\<exists>q'. map_of pm' j = Some q' \<and> p_status q' = p_status q \<and>
     (\<forall>c. map_of (p_blob_mgr q') c = (if (j, c) \<in> R then None else map_of (p_blob_mgr q) c)))"
  unfolding collected_def by blast

lemma collected_refl: "collected {} pm pm"
  by (simp add: collected_def)

lemma collected_trans:
  assumes "collected R pm pm'" "collected S pm' pm''"
  shows "collected (R \<union> S) pm pm''"
  unfolding collected_def
proof (intro allI impI)
  fix j q assume "map_of pm j = Some q"
  from collectedD[OF assms(1) this] obtain q' where
    1: "map_of pm' j = Some q'" "p_status q' = p_status q" "\<forall>c. map_of (p_blob_mgr q') c = (if (j, c) \<in> R then None else map_of (p_blob_mgr q) c)" by blast
  from collectedD[OF assms(2) 1(1)] obtain q'' where
    2: "map_of pm'' j = Some q''" "p_status q'' = p_status q'" "\<forall>c. map_of (p_blob_mgr q'') c = (if (j, c) \<in> S then None else map_of (p_blob_mgr q') c)" by blast
  show "\<exists>q'. map_of pm'' j = Some q' \<and> p_status q' = p_status q \<and>
      (\<forall>c. map_of (p_blob_mgr q') c = (if (j, c) \<in> R \<union> S then None else map_of (p_blob_mgr q) c))"
    using 1 2 by (intro exI[of _ q'']) simp
qed

lemma collected_one:
  assumes "map_of pm pid = Some p"
  shows "collected {(pid, bid)} pm (smap_insert pid (without_blob p bid) pm)"
  using assms by (auto simp: collected_def)

lemma timeValid_ok: "gc_world_ok w \<Longrightarrow> timeValid w gs = (True, gs \<lparr> gs_tick := gs_tick gs + 1 \<rparr>)"
  by (simp add: timeValid_def gc_world_ok_def Let_def)

lemma gc_ready_frame: "gs_em gs' = gs_em gs \<Longrightarrow> gc_ready crc x gs' m = gc_ready crc x gs m"
  by (simp add: gc_ready_def gc_inv_def)

lemma deleteBlobs_ready:
  assumes x: "0 < cf_extent_size cf" "cf_extent_size cf + block_size \<le> 2 ^ 64" and w: "gc_world_ok w"
    and "gc_ready crc (cf_extent_size cf) gs m" "map_of (em_pools (gs_em gs)) pid = Some p" "\<forall>bid\<in>set bids. map_of (p_blob_mgr p) bid \<noteq> None" "distinct bids"
  shows "\<exists>s gs' m'. deleteBlobs w crc cf pid True success bids gs = Some (s, gs') \<and> gc_ready crc (cf_extent_size cf) gs' m' \<and>
    collected ({pid} \<times> set bids) (em_pools (gs_em gs)) (em_pools (gs_em gs'))"
  using assms(4-)
proof (induction bids arbitrary: gs m p success)
  case Nil
  then show ?case using collected_refl by auto
next
  case (Cons bid bids)
  let ?g = "gs \<lparr> gs_tick := gs_tick gs + 1 \<rparr>"
  obtain b where b: "map_of (p_blob_mgr p) bid = Some b" using Cons.prems(3) by auto
  have g: "gc_ready crc (cf_extent_size cf) ?g m" "map_of (em_pools (gs_em ?g)) pid = Some p" using Cons.prems(1,2) gc_ready_frame[of ?g gs] by simp_all
  obtain s g1 m1 where d: "deleteOneBlob w crc cf ?g pid bid True = Some (s, g1)" "gc_ready crc (cf_extent_size cf) g1 m1"
      "em_pools (gs_em g1) = smap_insert pid (without_blob p bid) (em_pools (gs_em gs))"
    by (rule gc_ready_step[OF g(1) x w g(2) b]) simp
  have p1: "map_of (em_pools (gs_em g1)) pid = Some (without_blob p bid)" unfolding d(3) by simp
  have "\<forall>c\<in>set bids. map_of (p_blob_mgr (without_blob p bid)) c \<noteq> None" using Cons.prems(3,4) by auto
  from Cons.IH[OF d(2) p1 this, of "success \<and> st_ok s"] Cons.prems(4) obtain s' gs' m' where
    r: "deleteBlobs w crc cf pid True (success \<and> st_ok s) bids g1 = Some (s', gs')" "gc_ready crc (cf_extent_size cf) gs' m'"
      "collected ({pid} \<times> set bids) (em_pools (gs_em g1)) (em_pools (gs_em gs'))" by auto
  have "{pid} \<times> set (bid # bids) = {(pid, bid)} \<union> {pid} \<times> set bids" by auto
  with collected_trans[OF collected_one[OF Cons.prems(2), of bid] r(3)[unfolded d(3)]] r(1,2) d(1) show ?case
    by (intro exI[of _ s'] exI[of _ gs'] exI[of _ m']) (simp add: timeValid_ok[OF w])
qed

text \<open>The deleted blobs of some pools.\<close>

definition deleted_in :: "pool_map \<Rightarrow> string list \<Rightarrow> (string \<times> string) set" where
  "deleted_in pm ps = {(j, c). j \<in> set ps \<and> (\<exists>q b. map_of pm j = Some q \<and> map_of (p_blob_mgr q) c = Some b \<and> b_status b = kBlobStatusDeleted)}"

lemma deleted_in_pool: "(j, c) \<in> deleted_in pm ps \<Longrightarrow> j \<in> set ps"
  by (simp add: deleted_in_def)

lemma list_blob_ids_deleted:
  assumes "distinct (map fst m)"
  shows "distinct (list_blob_ids m True)" "c \<in> set (list_blob_ids m True) \<longleftrightarrow> (\<exists>b. map_of m c = Some b \<and> b_status b = kBlobStatusDeleted)"
  using assms by (force simp: list_blob_ids_def distinct_map intro: inj_on_subset)+

lemma delete_blobs_loop_ready:
  assumes x: "0 < cf_extent_size cf" "cf_extent_size cf + block_size \<le> 2 ^ 64" and w: "gc_world_ok w"
    and "gc_ready crc (cf_extent_size cf) gs m" "set ps \<subseteq> fst ` set (em_pools (gs_em gs))" "distinct ps"
  shows "\<exists>gs' m'. delete_blobs_loop w crc cf ps gs = Some gs' \<and> gc_ready crc (cf_extent_size cf) gs' m' \<and>
    collected (deleted_in (em_pools (gs_em gs)) ps) (em_pools (gs_em gs)) (em_pools (gs_em gs'))"
  using assms(4-)
proof (induction ps arbitrary: gs m)
  case Nil
  then show ?case using collected_refl by (auto simp: deleted_in_def)
next
  case (Cons pid ps)
  let ?pm = "em_pools (gs_em gs)"
  have "map_of ?pm pid \<noteq> None" using Cons.prems(2) by (simp add: map_of_eq_None_iff)
  then obtain p where p: "map_of ?pm pid = Some p" by blast
  have di: "distinct (map fst (p_blob_mgr p))" using Cons.prems(1) p unfolding gc_ready_def by blast
  let ?bids = "list_blob_ids (p_blob_mgr p) True"
  have "\<forall>c\<in>set ?bids. map_of (p_blob_mgr p) c \<noteq> None" using list_blob_ids_deleted(2)[OF di] by auto
  from deleteBlobs_ready[OF x w Cons.prems(1) p this list_blob_ids_deleted(1)[OF di], of True] obtain s g1 m1 where
    d: "deleteBlobs w crc cf pid True True ?bids gs = Some (s, g1)" "gc_ready crc (cf_extent_size cf) g1 m1"
      "collected ({pid} \<times> set ?bids) ?pm (em_pools (gs_em g1))" by blast
  have keep: "map_of (em_pools (gs_em g1)) j \<noteq> None" if "map_of ?pm j = Some q" for j q using collectedD[OF d(3) that] by auto
  have "set ps \<subseteq> fst ` set (em_pools (gs_em g1))"
  proof
    fix j assume "j \<in> set ps"
    then have "map_of ?pm j \<noteq> None" using Cons.prems(2) by (auto simp: map_of_eq_None_iff)
    then obtain q where "map_of ?pm j = Some q" by blast
    from keep[OF this] show "j \<in> fst ` set (em_pools (gs_em g1))" by (simp add: map_of_eq_None_iff)
  qed
  from Cons.IH[OF d(2) this] Cons.prems(3) obtain gs' m' where
    r: "delete_blobs_loop w crc cf ps g1 = Some gs'" "gc_ready crc (cf_extent_size cf) gs' m'"
      "collected (deleted_in (em_pools (gs_em g1)) ps) (em_pools (gs_em g1)) (em_pools (gs_em gs'))" by auto
  have rest: "(j, c) \<in> deleted_in (em_pools (gs_em g1)) ps \<longleftrightarrow> (j, c) \<in> deleted_in ?pm ps" if "j \<in> set ps" for j c
  proof -
    have "map_of ?pm j \<noteq> None" "j \<noteq> pid" using that Cons.prems(2,3) by (auto simp: map_of_eq_None_iff)
    then obtain q where q: "map_of ?pm j = Some q" by blast
    from collectedD[OF d(3) q] obtain q' where "map_of (em_pools (gs_em g1)) j = Some q'" "map_of (p_blob_mgr q') c = map_of (p_blob_mgr q) c"
      using \<open>j \<noteq> pid\<close> by auto
    then show ?thesis using q by (simp add: deleted_in_def)
  qed
  have "{pid} \<times> set ?bids \<union> deleted_in (em_pools (gs_em g1)) ps = {pid} \<times> set ?bids \<union> deleted_in ?pm ps"
  proof (rule arg_cong[of _ _ "\<lambda>A. {pid} \<times> set ?bids \<union> A"], rule set_eqI)
    show "a \<in> deleted_in (em_pools (gs_em g1)) ps \<longleftrightarrow> a \<in> deleted_in ?pm ps" for a
      using rest[of "fst a" "snd a"] deleted_in_pool[of "fst a" "snd a"] by auto
  qed
  also have "\<dots> = deleted_in ?pm (pid # ps)"
    using p list_blob_ids_deleted(2)[OF di] by (auto simp: deleted_in_def)
  finally have "{pid} \<times> set ?bids \<union> deleted_in (em_pools (gs_em g1)) ps = deleted_in ?pm (pid # ps)" .
  with collected_trans[OF d(3) r(3)] r(1,2) d(1) p show ?case
    by (intro exI[of _ gs'] exI[of _ m']) (simp add: pm_list_blob_ids_def)
qed

section \<open>A small example\<close>

text \<open>One pool with a deleted blob of two extents.\<close>

definition demo_deleted_blob :: blob where
  "demo_deleted_blob = (Blob ''t'' ''bb-x'' ''b'' 20 kBlobTypeGeneral [] ''pool-a'' ''u'' ''i'') \<lparr> b_status := kBlobStatusDeleted \<rparr>"

definition demo_gc_pool :: pool where
  "demo_gc_pool = demo_pool \<lparr> p_blob_mgr := [(''bb-x'', demo_deleted_blob)] \<rparr>"

definition demo_gc :: "rocks_store \<Rightarrow> gc_state" where
  "demo_gc st = \<lparr> gs_em = \<lparr> em_store = st, em_users = [], em_pools = [(''pool-a'', demo_gc_pool)], em_routers = RouterManager 1 \<rparr>,
     gs_conns = [], gs_gcing = False, gs_tick = 0, gs_sent = [] \<rparr>"

definition demo_world :: "string list \<Rightarrow> gc_world" where
  "demo_world refused = \<lparr> gw_hour = (\<lambda>_. 3), gw_channel = (\<lambda>_ _. True),
     gw_reply = (\<lambda>_ _ r. if req_extent r \<in> set refused then None else Some 0), gw_begin = 2, gw_end = 5 \<rparr>"

lemma demo_gc_ready:
  obtains st m where "gc_ready (\<lambda>_. 0) 10 (demo_gc st) m" "blob_in (em_pools (gs_em (demo_gc st))) ''pool-a'' ''bb-x'' demo_deleted_blob"
    "m (GenerateExtentID ''bb-x'' 1) \<noteq> None"
proof -
  let ?st0 = "\<lparr> rs_db = [], rs_faults = [] \<rparr> :: rocks_store"
  let ?ers = "routers_of ''t'' ''pool-a'' ''bb-x'' 1 [''g1'', ''g1'']"
  have ers: "?ers = [EmRouter ''t'' (GenerateExtentID ''bb-x'' 1) ''pool-a'' ''g1'' ''bb-x'', EmRouter ''t'' (GenerateExtentID ''bb-x'' 2) ''pool-a'' ''g1'' ''bb-x'']"
    by (simp add: routers_of_Cons numeral_2_eq_2) (simp add: routers_of_def)
  have l: "length (dec_digits i) \<le> 1" if "i < 10" for i using dec_digits_length[of i 1] that by simp
  have fits: "\<forall>er\<in>set ?ers. router_fits er"
    unfolding ers using l[of 1] l[of 2] by (simp add: router_fits_def EmRouter_def GenerateExtentID_def)
  have inv0: "routers_inv (\<lambda>_. 0) ?st0 Map.empty"
    by (simp add: routers_inv_def table_inv_def mirrors_def kv_wf_def kv_lookup_def)
  from create_router_spec[OF inv0, of 2 "[''g1'', ''g1'']" "''t''" "''pool-a''" "''bb-x''" 1] fits obtain s st es where
    c: "create_router (\<lambda>_. 0) ''t'' ?st0 ''pool-a'' ''bb-x'' 1 2 [''g1'', ''g1''] = Some (s, st)" "routers_inv (\<lambda>_. 0) st (Map.empty ++ router_map es)"
      "st_ok s \<longrightarrow> es = ?ers" by auto
  have "s = Status_OK" "rs_faults st = []"
    using c(1) put_batches_healthy[of ?st0 100 "Status CYPRE_EM_STORE_ERROR ''persist extent router meta failed''" "[]"]
    by (auto simp: create_router_def prod_eq_iff)
  then have r: "routers_inv (\<lambda>_. 0) st (router_map ?ers)" "rs_faults st = []" using c(2,3) by simp_all
  have m: "router_map ?ers i = Some er \<Longrightarrow> er_pool_id er = ''pool-a'' \<and> er_rg_id er = ''g1''" for i er
    unfolding ers by (auto simp: router_map_def EmRouter_def split: if_splits)
  have m12: "router_map ?ers (GenerateExtentID ''bb-x'' i) \<noteq> None" if "1 \<le> i" "i \<le> 2" for i
    using that unfolding ers by (cases "i = 1") (auto simp: router_map_def EmRouter_def)
  have s2: "\<exists>is. servers_of [(''pool-a'', demo_gc_pool)] er = Some is \<and> is \<noteq> []" if "er_pool_id er = ''pool-a'' \<and> er_rg_id er = ''g1''" for er
    using that by (simp add: servers_of_def demo_gc_pool_def demo_pool_def group_servers_def demo_es_map_def)
  have bi: "blob_in [(''pool-a'', demo_gc_pool)] ''pool-a'' ''bb-x'' demo_deleted_blob" by (simp add: blob_in_def demo_gc_pool_def)
  have k: "routers_known [(''pool-a'', demo_gc_pool)] (router_map ?ers)" unfolding routers_known_def using m s2 by blast
  have p: "p_blob_mgr demo_gc_pool = [(''bb-x'', demo_deleted_blob)]" "b_size demo_deleted_blob = 20" by (simp_all add: demo_gc_pool_def demo_deleted_blob_def Blob_def)
  have "cache_inv (RouterManager 1) (router_map ?ers)" by (simp add: cache_inv_def RouterManager_def remain_def)
  then have "gc_ready (\<lambda>_. 0) 10 (demo_gc st) (router_map ?ers)"
    unfolding gc_ready_def gc_inv_def using r k bi m12 p by (simp add: demo_gc_def)
  from that[OF this] bi m12[of 1] show thesis by (simp add: demo_gc_def)
qed

section \<open>Properties of the garbage collector\<close>



lemma gc_ready_parts:
  assumes "gc_ready crc x gs m"
  shows "gc_inv crc gs m" "routers_known (em_pools (gs_em gs)) m" "distinct (map fst (em_pools (gs_em gs)))" "rs_faults (em_store (gs_em gs)) = []"
  using assms sorted_map_distinct unfolding gc_ready_def by blast+




text \<open>C35: When the removal of a blob is interrupted after its first extent, because an extent
  server refused the second one, the blob is never removed: however often the collector
  tries again, and whatever the extent servers then answer, it finds no router for the
  first extent, sends no request, and the blob stays in its pool.\<close>

theorem interrupted_gc_stuck:
  assumes "gc_inv crc gs m" "routers_known (em_pools (gs_em gs)) m" "distinct (map fst (em_pools (gs_em gs)))"
    and "blob_in (em_pools (gs_em gs)) pid bid b" "0 < cf_extent_size cf" "cf_extent_size cf + block_size \<le> 2 ^ 64"
    and "2 * cf_extent_size cf \<le> b_size b" "rs_faults (em_store (gs_em gs)) = []" "m (GenerateExtentID bid 1) \<noteq> None"
    and "cooperative w (GenerateExtentID bid 1)" "\<not> granted w (ReclaimExtentRequest (GenerateExtentID bid 2))"
  shows "\<exists>s gs1. deleteOneBlob w crc cf gs pid bid True = Some (s, gs1) \<and> \<not> st_ok s \<and>
    (\<forall>gs2. (\<lambda>g g'. \<exists>w' s'. deleteOneBlob w' crc cf g pid bid True = Some (s', g'))\<^sup>*\<^sup>* gs1 gs2 \<longrightarrow>
      blob_in (em_pools (gs_em gs2)) pid bid b \<and> gs_sent gs2 = gs_sent gs1 \<and>
      (\<forall>w'. \<exists>gs3. deleteOneBlob w' crc cf gs2 pid bid True = Some (Status CYPRE_EM_ROUTER_NOT_FOUND ''Extent router not found.'', gs3)))"
proof -
  obtain s gs1 where 1: "deleteOneBlob w crc cf gs pid bid True = Some (s, gs1)" "\<not> st_ok s"
      "gc_inv crc gs1 (m(GenerateExtentID bid 1 := None))" "em_pools (gs_em gs1) = em_pools (gs_em gs)"
    by (rule second_refused[OF assms])
  let ?m = "m(GenerateExtentID bid 1 := None)"
  have k: "routers_known (em_pools (gs_em gs)) ?m" by (rule routers_known_sub[OF assms(2)]) (auto split: if_splits)
  have x: "cf_extent_size cf \<le> b_size b" using assms(7) by simp
  have again: "\<exists>g2. deleteOneBlob w' crc cf g pid bid True = Some (Status CYPRE_EM_ROUTER_NOT_FOUND ''Extent router not found.'', g2) \<and>
      gc_inv crc g2 ?m \<and> em_pools (gs_em g2) = em_pools (gs_em gs) \<and> gs_sent g2 = gs_sent g"
    if "gc_inv crc g ?m" and e: "em_pools (gs_em g) = em_pools (gs_em gs)" for g w'
  proof -
    have "?m (GenerateExtentID bid 1) = None" by simp
    from stuck_once[OF that(1), unfolded e, OF k assms(3-6) x this, of w'] show ?thesis .
  qed
  have later: "gc_inv crc gs2 ?m \<and> em_pools (gs_em gs2) = em_pools (gs_em gs) \<and> gs_sent gs2 = gs_sent gs1"
    if "(\<lambda>g g'. \<exists>w' s'. deleteOneBlob w' crc cf g pid bid True = Some (s', g'))\<^sup>*\<^sup>* gs1 gs2" for gs2
    using that
  proof (induction rule: rtranclp_induct)
    case (step g g')
    then obtain w' s' where d: "deleteOneBlob w' crc cf g pid bid True = Some (s', g')" by blast
    from again[of g w'] step.IH obtain g2 where
      "deleteOneBlob w' crc cf g pid bid True = Some (Status CYPRE_EM_ROUTER_NOT_FOUND ''Extent router not found.'', g2)"
      "gc_inv crc g2 ?m" "em_pools (gs_em g2) = em_pools (gs_em gs)" "gs_sent g2 = gs_sent g" by blast
    then show ?case using d step.IH by (simp add: fun_upd_def)
  qed (use 1 in blast)
  show ?thesis
  proof (rule exI[of _ s], rule exI[of _ gs1], intro conjI 1(1,2) allI impI)
    fix gs2 assume "(\<lambda>g g'. \<exists>w' s'. deleteOneBlob w' crc cf g pid bid True = Some (s', g'))\<^sup>*\<^sup>* gs1 gs2"
    note L = later[OF this]
    from L assms(4) show "blob_in (em_pools (gs_em gs2)) pid bid b" "gs_sent gs2 = gs_sent gs1" by simp_all
    show "\<exists>gs3. deleteOneBlob w' crc cf gs2 pid bid True = Some (Status CYPRE_EM_ROUTER_NOT_FOUND ''Extent router not found.'', gs3)" for w'
      using again[of gs2 w'] L by blast
  qed
qed

theorem interrupted_gc_stuck_witness:
  "\<exists>st s gs1 s2 gs2. deleteOneBlob (demo_world [GenerateExtentID ''bb-x'' 2]) (\<lambda>_. 0) demo_conf (demo_gc st) ''pool-a'' ''bb-x'' True = Some (s, gs1) \<and> \<not> st_ok s \<and>
     deleteOneBlob (demo_world []) (\<lambda>_. 0) demo_conf gs1 ''pool-a'' ''bb-x'' True = Some (s2, gs2) \<and>
     blob_in (em_pools (gs_em gs2)) ''pool-a'' ''bb-x'' demo_deleted_blob"
proof -
  obtain st m where r: "gc_ready (\<lambda>_. 0) 10 (demo_gc st) m" "blob_in (em_pools (gs_em (demo_gc st))) ''pool-a'' ''bb-x'' demo_deleted_blob"
      "m (GenerateExtentID ''bb-x'' 1) \<noteq> None"
    using demo_gc_ready by blast
  have w: "cooperative (demo_world [GenerateExtentID ''bb-x'' 2]) (GenerateExtentID ''bb-x'' 1)"
      "\<not> granted (demo_world [GenerateExtentID ''bb-x'' 2]) (ReclaimExtentRequest (GenerateExtentID ''bb-x'' 2))"
    by (simp_all add: cooperative_def granted_def demo_world_def)
  have x: "0 < cf_extent_size demo_conf" "cf_extent_size demo_conf + block_size \<le> 2 ^ 64" "2 * cf_extent_size demo_conf \<le> b_size demo_deleted_blob"
    by (simp_all add: demo_conf_def block_size_def demo_deleted_blob_def Blob_def)
  let ?R = "\<lambda>g g'. \<exists>w' s'. deleteOneBlob w' (\<lambda>_. 0) demo_conf g ''pool-a'' ''bb-x'' True = Some (s', g')"
  from interrupted_gc_stuck[OF gc_ready_parts(1-3)[OF r(1)] r(2) x gc_ready_parts(4)[OF r(1)] r(3) w] obtain s gs1 where
    d: "deleteOneBlob (demo_world [GenerateExtentID ''bb-x'' 2]) (\<lambda>_. 0) demo_conf (demo_gc st) ''pool-a'' ''bb-x'' True = Some (s, gs1)" "\<not> st_ok s"
    and stay: "\<And>gs2. ?R\<^sup>*\<^sup>* gs1 gs2 \<Longrightarrow> blob_in (em_pools (gs_em gs2)) ''pool-a'' ''bb-x'' demo_deleted_blob"
    and again: "\<And>gs2 w'. ?R\<^sup>*\<^sup>* gs1 gs2 \<Longrightarrow> \<exists>gs3. deleteOneBlob w' (\<lambda>_. 0) demo_conf gs2 ''pool-a'' ''bb-x'' True = Some (Status CYPRE_EM_ROUTER_NOT_FOUND ''Extent router not found.'', gs3)"
    by blast
  from again[OF rtranclp.rtrancl_refl, of "demo_world []"] obtain gs2 where
    d2: "deleteOneBlob (demo_world []) (\<lambda>_. 0) demo_conf gs1 ''pool-a'' ''bb-x'' True = Some (Status CYPRE_EM_ROUTER_NOT_FOUND ''Extent router not found.'', gs2)" ..
  then have "?R\<^sup>*\<^sup>* gs1 gs2" by blast
  from stay[OF this] d d2 show ?thesis by blast
qed

end
