(* ===== verification/Extent_Location.thy ===== *)
theory Extent_Location
  imports Space_Allocator Kv_Store
begin

text \<open>
  The extent locations of an extent server
  (\<open>src/src/extentserver/extent_location.{h,cpp}\<close>): which part of the device holds
  which extent. A location is allocated from \<open>SpaceAlloc\<close> on the first write,
  stored in RocksDB and kept in memory; a reclaimed extent is removed from both and
  its space freed; after a restart the stored locations are loaded and their space is
  marked.

  An operation takes the checksum function and the random start of the allocator as
  arguments. \<open>None\<close> stands for an access out of range or an uncaught exception of the
  archive reader. The operations are sequential here: in the code the per-extent lock orders the
  operations on one extent, and the store and the allocator have locks of their own.
\<close>

section \<open>Data\<close>

definition kExtentLocPrefix :: string where "kExtentLocPrefix = ''extent_loc_''"

record extent_location =
  loc_offset :: nat
  loc_size :: nat
  loc_extent_id :: string

definition loc_key :: "string \<Rightarrow> string" where
  "loc_key extent_id = kExtentLocPrefix @ extent_id"

definition GenerateKey :: "extent_location \<Rightarrow> string" where
  "GenerateKey l = loc_key (loc_extent_id l)"

definition put_location :: "extent_location \<Rightarrow> string" where
  "put_location l = put_u64 (loc_offset l) @ put_u64 (loc_size l) @ put_str (loc_extent_id l)"

definition get_location :: "string \<Rightarrow> (extent_location \<times> string) option" where
  "get_location s =
     (case get_u64 s of
        None \<Rightarrow> None
      | Some (off, s) \<Rightarrow>
          (case get_u64 s of
             None \<Rightarrow> None
           | Some (sz, s) \<Rightarrow>
               (case get_str s of
                  None \<Rightarrow> None
                | Some (eid, s) \<Rightarrow>
                    Some (\<lparr> loc_offset = off, loc_size = sz, loc_extent_id = eid \<rparr>, s))))"

definition location_valid :: "extent_location \<Rightarrow> bool" where
  "location_valid l \<longleftrightarrow> loc_offset l < 2 ^ 64 \<and> loc_size l < 2 ^ 64 \<and> length (loc_extent_id l) < 2 ^ 30"

record location_mgr =
  lm_extent_size :: nat
  lm_rocks :: rocks_store
  lm_space :: space_alloc
  lm_map :: "string \<rightharpoonup> extent_location"

section \<open>Operations of \<open>ExtentLocationMgr\<close>\<close>

text \<open>\<open>unordered_map::insert\<close> keeps an entry that is already there.\<close>

definition addExtent :: "location_mgr \<Rightarrow> extent_location \<Rightarrow> location_mgr" where
  "addExtent m l =
     m \<lparr> lm_map := (case lm_map m (loc_extent_id l) of
                      None \<Rightarrow> (lm_map m)(loc_extent_id l \<mapsto> l)
                    | Some _ \<Rightarrow> lm_map m) \<rparr>"

definition removeExtent :: "location_mgr \<Rightarrow> string \<Rightarrow> location_mgr" where
  "removeExtent m extent_id = m \<lparr> lm_map := (lm_map m)(extent_id := None) \<rparr>"

definition queryExtent :: "location_mgr \<Rightarrow> string \<Rightarrow> extent_location option" where
  "queryExtent m extent_id = lm_map m extent_id"

definition persistExtent ::
    "(string \<Rightarrow> 32 word) \<Rightarrow> location_mgr \<Rightarrow> extent_location \<Rightarrow> status \<times> location_mgr" where
  "persistExtent crc m l =
     (let key = GenerateKey l; val = Serializer_Encode crc put_location l;
          (s, rocks) = RocksStore_Put (lm_rocks m) key val;
          m = m \<lparr> lm_rocks := rocks \<rparr>
      in if \<not> rs_ok s then (Status CYPRE_ES_ROCKSDB_STORE_ERROR ''couldn't store extent'', m)
         else (Status_OK, addExtent m l))"

definition deleteExtent :: "location_mgr \<Rightarrow> extent_location \<Rightarrow> status \<times> location_mgr" where
  "deleteExtent m l =
     (let key = GenerateKey l;
          (s, rocks) = RocksStore_Delete (lm_rocks m) key;
          m = m \<lparr> lm_rocks := rocks \<rparr>
      in if \<not> rs_ok s then (Status CYPRE_ES_ROCKSDB_STORE_ERROR ''couldn't delete extent'', m)
         else (Status_OK, removeExtent m (loc_extent_id l)))"

text \<open>The part of \<open>QueryLocation\<close> that only looks (\<open>alloc_if_not_exists\<close> false): the
  physical offset of the request when the extent has a location.\<close>

definition lookupLocation :: "location_mgr \<Rightarrow> string \<Rightarrow> nat \<Rightarrow> status \<times> nat option" where
  "lookupLocation m extent_id req_offset =
     (case lm_map m extent_id of
        Some l \<Rightarrow> (Status_OK, Some (u64_add (loc_offset l) req_offset))
      | None \<Rightarrow> (Status CYPRE_ES_LOCATION_NOT_FOUND ''extent location not found'', None))"

text \<open>\<open>QueryLocation\<close>: look, and when there is no location look again under the lock of
  the extent, then allocate, store and add one. The second component is the physical
  offset when it was set.\<close>

definition QueryLocation :: "(string \<Rightarrow> 32 word) \<Rightarrow> location_mgr \<Rightarrow> nat \<Rightarrow> string \<Rightarrow> nat \<Rightarrow> bool
    \<Rightarrow> (status \<times> nat option \<times> location_mgr) option" where
  "QueryLocation crc m rnd extent_id req_offset alloc_if_not_exists =
     (let (s, phys) = lookupLocation m extent_id req_offset in
      if st_ok s then Some (s, phys, m)
      else if \<not> alloc_if_not_exists then Some (s, None, m)
      else let (s, phys) = lookupLocation m extent_id req_offset in
        if st_ok s then Some (s, phys, m)
        else (case SpaceAlloc_Allocate (lm_space m) rnd (lm_extent_size m) \<lparr> au_offset = 0, au_size = 0 \<rparr> of
                None \<Rightarrow> None
              | Some (s, aunit, space) \<Rightarrow>
                  let m = m \<lparr> lm_space := space \<rparr> in
                  if \<not> st_ok s then Some (s, None, m)
                  else let l = \<lparr> loc_offset = au_offset aunit, loc_size = au_size aunit,
                                 loc_extent_id = extent_id \<rparr>;
                           (s, m) = persistExtent crc m l
                       in if \<not> st_ok s
                          then (case SpaceAlloc_Free_aunit (lm_space m) aunit of
                                  None \<Rightarrow> None
                                | Some space \<Rightarrow> Some (s, None, m \<lparr> lm_space := space \<rparr>))
                          else Some (Status_OK, Some (u64_add (au_offset aunit) req_offset), m)))"

definition ReclaimExtent :: "location_mgr \<Rightarrow> string \<Rightarrow> (status \<times> location_mgr) option" where
  "ReclaimExtent m extent_id =
     (case queryExtent m extent_id of
        None \<Rightarrow> Some (Status_OK, m)
      | Some _ \<Rightarrow>
          (case queryExtent m extent_id of
             None \<Rightarrow> Some (Status_OK, m)
           | Some l \<Rightarrow>
               let (s, m) = deleteExtent m l in
               if \<not> st_ok s then Some (s, m)
               else (case SpaceAlloc_Free (lm_space m) (loc_offset l) (loc_size l) of
                       None \<Rightarrow> None
                     | Some space \<Rightarrow> Some (Status_OK, m \<lparr> lm_space := space \<rparr>))))"

text \<open>The loop of \<open>LoadExtents\<close> over the entries of the iterator.\<close>

fun load_entries :: "(string \<Rightarrow> 32 word) \<Rightarrow> location_mgr \<Rightarrow> (string \<times> string) list
    \<Rightarrow> (status \<times> location_mgr) option" where
  "load_entries crc m [] = Some (Status_OK, m)"
| "load_entries crc m ((k, v) # es) =
     (case Serializer_Decode crc get_location v of
        Decode_false \<Rightarrow>
          Some (Status CYPRE_ES_DECODE_ERROR ''couldn't load extents from rocks store'', m)
      | Decode_throw \<Rightarrow> None
      | Decode_ok l \<Rightarrow>
          let m = addExtent m l in
          (case SpaceAlloc_Mark (lm_space m) (loc_offset l) (loc_size l) of
             None \<Rightarrow> None
           | Some space \<Rightarrow> load_entries crc (m \<lparr> lm_space := space \<rparr>) es))"

definition LoadExtents :: "(string \<Rightarrow> 32 word) \<Rightarrow> location_mgr \<Rightarrow> (status \<times> location_mgr) option" where
  "LoadExtents crc m = load_entries crc m (RocksStore_ScanPrefix (lm_rocks m) kExtentLocPrefix)"

text \<open>\<open>Init\<close> of a fresh manager: a new space allocator over the device and what
  \<open>Open\<close> gave, an error text or the store.\<close>

definition LocationMgr_Init :: "location_mgr \<Rightarrow> nat \<Rightarrow> string + rocks_store \<Rightarrow> status \<times> location_mgr" where
  "LocationMgr_Init m disk_capacity opened =
     (let (r, sa) = SpaceAlloc_Init \<lparr> sa_disk_capacity = disk_capacity, sa_bitmap_alloc = None \<rparr>;
          m = m \<lparr> lm_space := sa \<rparr>
      in if r \<noteq> 0 then (Status CYPRE_ES_INIT_SPACE_ALLOC_FAIL ''couldn't init space allocator'', m)
         else (case opened of
                 Inl err \<Rightarrow> (Status CYPRE_ES_OPEN_ROCKSDB_ERROR err, m)
               | Inr st \<Rightarrow> (Status_OK, m \<lparr> lm_rocks := st \<rparr>)))"

section \<open>The invariant\<close>

text \<open>The regions of the locations of a table.\<close>

definition loc_table :: "(string \<rightharpoonup> extent_location) \<Rightarrow> string \<rightharpoonup> nat \<times> nat" where
  "loc_table t eid = map_option (\<lambda>l. (loc_offset l, loc_size l)) (t eid)"

definition loc_bytes :: "(string \<rightharpoonup> extent_location) \<Rightarrow> nat set" where
  "loc_bytes t = (\<Union>l\<in>ran t. region (loc_offset l) (loc_size l))"

text \<open>The block-aligned ranges of a device of the given capacity.\<close>

definition dev_fits :: "nat \<Rightarrow> nat \<Rightarrow> nat \<Rightarrow> bool" where
  "dev_fits cap = fits \<lparr> ba_block_size = kAllocateBlockSize, ba_capacity = cap, ba_chunks = [] \<rparr>"

text \<open>Every entry is filed under its own id and can be archived; the store holds exactly the
  table; the locations are disjoint allocated regions and nothing else is allocated.\<close>

definition loc_inv :: "(string \<Rightarrow> 32 word) \<Rightarrow> location_mgr \<Rightarrow> bool" where
  "loc_inv crc m \<longleftrightarrow>
     space_wf (lm_space m) \<and> kv_wf (lm_rocks m) \<and>
     (\<forall>eid l. lm_map m eid = Some l \<longrightarrow> loc_extent_id l = eid \<and> location_valid l) \<and>
     mirrors (kv_lookup (lm_rocks m)) kExtentLocPrefix loc_key (Serializer_Encode crc put_location) (lm_map m) \<and>
     extents_ok (space_fits (lm_space m)) (space_bytes (lm_space m)) (loc_table (lm_map m)) \<and>
     space_bytes (lm_space m) = loc_bytes (lm_map m) \<and>
     space_fits (lm_space m) = dev_fits (sa_disk_capacity (lm_space m))"

text \<open>The states of a manager in service: initialised on an empty store, then queries,
  reclaims, changes of the extent size and restarts in any order, with any allocator
  start, any store failures and any extent ids.\<close>

inductive loc_reach :: "(string \<Rightarrow> 32 word) \<Rightarrow> nat \<Rightarrow> location_mgr \<Rightarrow> bool" for crc cap where
  init: "\<lbrakk>lm_map m0 = Map.empty; lm_extent_size m0 < 2 ^ 64; rs_db st = [];
          LocationMgr_Init m0 cap (Inr st) = (s, m); st_ok s\<rbrakk> \<Longrightarrow> loc_reach crc cap m"
| query: "\<lbrakk>loc_reach crc cap m; length eid < 2 ^ 30;
          QueryLocation crc m rnd eid off al = Some (s, phys, m')\<rbrakk> \<Longrightarrow> loc_reach crc cap m'"
| reclaim: "\<lbrakk>loc_reach crc cap m; ReclaimExtent m eid = Some (s, m')\<rbrakk> \<Longrightarrow> loc_reach crc cap m'"
| set_size: "\<lbrakk>loc_reach crc cap m; n < 2 ^ 64\<rbrakk> \<Longrightarrow> loc_reach crc cap (m \<lparr> lm_extent_size := n \<rparr>)"
| restart: "\<lbrakk>loc_reach crc cap m; lm_map m0 = Map.empty; lm_extent_size m0 < 2 ^ 64;
          LocationMgr_Init m0 cap (Inr (lm_rocks m)) = (s, m1); LoadExtents crc m1 = Some (s', m2)\<rbrakk> \<Longrightarrow>
          loc_reach crc cap m2"

text \<open>A four megabyte device, for the examples.\<close>

definition demo_mgr0 :: location_mgr where
  "demo_mgr0 = \<lparr> lm_extent_size = 2 ^ 20, lm_rocks = \<lparr> rs_db = [], rs_faults = [] \<rparr>,
     lm_space = \<lparr> sa_disk_capacity = 0, sa_bitmap_alloc = None \<rparr>, lm_map = Map.empty \<rparr>"

definition demo_mgr :: location_mgr where
  "demo_mgr = snd (LocationMgr_Init demo_mgr0 (2 ^ 22) (Inr \<lparr> rs_db = [], rs_faults = [] \<rparr>))"

section \<open>The codec and the store of locations\<close>

interpretation loc_codec: codec put_location get_location location_valid
  by unfold_locales (simp add: put_location_def get_location_def location_valid_def)

interpretation locs: kv_table kv_wf kv_lookup RocksStore_Put RocksStore_Delete RocksStore_ScanPrefix
  put_location get_location location_valid kExtentLocPrefix loc_key
  by unfold_locales (auto simp: loc_key_def)

lemma location_archive_short: "location_valid l \<Longrightarrow> length (put_location l) < 2 ^ 31"
  by (simp add: location_valid_def put_location_def put_u64_def put_str_def)

section \<open>Querying\<close>

lemma extents_okD:
  assumes "extents_ok fit b t" "t k = Some (off, sz)"
  shows "fit off sz" "region off sz \<subseteq> b"
  using assms unfolding extents_ok_def by blast+

lemma space_fits_bound:
  assumes "space_wf sa" "space_fits sa off sz"
  shows "off + sz < 2 ^ 64" "0 < sz"
proof -
  obtain a where a: "sa_bitmap_alloc sa = Some a" "alloc_wf a" using assms(1) by (rule space_wfE)
  note w = alloc_wfD[OF a(2)]
  let ?bs = "ba_block_size a"
  have f: "off = off div ?bs * ?bs" "sz = sz div ?bs * ?bs" "0 < sz div ?bs" "off div ?bs + sz div ?bs \<le> NumBlocks a"
    using assms(2) a(1) by (auto simp: space_fits_def fits_def Let_def)
  have "off + sz = (off div ?bs + sz div ?bs) * ?bs"
    using f(1,2) by (metis add_mult_distrib)
  also have "\<dots> \<le> NumBlocks a * ?bs" using f(4) by (rule mult_right_mono) simp
  finally show "off + sz < 2 ^ 64" using w(3) by linarith
  show "0 < sz" using f(2,3) w(1) by (metis nat_0_less_mult_iff)
qed

lemma loc_table_upd [simp]:
  "loc_table (t(eid \<mapsto> l)) = (loc_table t)(eid \<mapsto> (loc_offset l, loc_size l))"
  "loc_table (t(eid := None)) = (loc_table t)(eid := None)"
  by (auto simp: loc_table_def)

lemma loc_bytes_add: "t eid = None \<Longrightarrow> loc_bytes (t(eid \<mapsto> l)) = loc_bytes t \<union> region (loc_offset l) (loc_size l)"
  by (auto simp: loc_bytes_def ran_map_upd)

lemma loc_bytes_iff: "x \<in> loc_bytes t \<longleftrightarrow> (\<exists>eid l. t eid = Some l \<and> x \<in> region (loc_offset l) (loc_size l))"
  by (auto simp: loc_bytes_def ran_def)

lemma loc_bytes_remove:
  assumes "extents_ok fit b (loc_table t)" "t eid = Some l"
  shows "loc_bytes (t(eid := None)) = loc_bytes t - region (loc_offset l) (loc_size l)"
proof -
  have d: "region (loc_offset l') (loc_size l') \<inter> region (loc_offset l) (loc_size l) = {}"
    if "t eid' = Some l'" "eid' \<noteq> eid" for eid' l'
  proof -
    have "loc_table t eid = Some (loc_offset l, loc_size l)" "loc_table t eid' = Some (loc_offset l', loc_size l')"
      using assms(2) that(1) by (simp_all add: loc_table_def)
    then show ?thesis using assms(1) that(2) unfolding extents_ok_def by blast
  qed
  show ?thesis
  proof (rule set_eqI)
    fix x
    show "x \<in> loc_bytes (t(eid := None)) \<longleftrightarrow> x \<in> loc_bytes t - region (loc_offset l) (loc_size l)"
      using d assms(2) unfolding loc_bytes_iff Diff_iff fun_upd_apply
      by (metis disjoint_iff option.distinct(1) option.inject)
  qed
qed

lemma loc_invD:
  assumes "loc_inv crc m"
  shows "space_wf (lm_space m)" "kv_wf (lm_rocks m)"
    "\<And>eid l. lm_map m eid = Some l \<Longrightarrow> loc_extent_id l = eid \<and> location_valid l"
    "mirrors (kv_lookup (lm_rocks m)) kExtentLocPrefix loc_key (Serializer_Encode crc put_location) (lm_map m)"
    "extents_ok (space_fits (lm_space m)) (space_bytes (lm_space m)) (loc_table (lm_map m))"
    "space_bytes (lm_space m) = loc_bytes (lm_map m)"
    "space_fits (lm_space m) = dev_fits (sa_disk_capacity (lm_space m))"
  using assms by (auto simp: loc_inv_def)

lemma disk_capacity_const:
  "SpaceAlloc_Allocate sa rnd want u = Some (st, u', sa') \<Longrightarrow> sa_disk_capacity sa' = sa_disk_capacity sa"
  "SpaceAlloc_Free sa off sz = Some sa' \<Longrightarrow> sa_disk_capacity sa' = sa_disk_capacity sa"
  "SpaceAlloc_Mark sa off sz = Some sa' \<Longrightarrow> sa_disk_capacity sa' = sa_disk_capacity sa"
  by (auto simp: SpaceAlloc_Allocate_def SpaceAlloc_Free_def SpaceAlloc_Mark_def
      split: option.splits if_splits)

text \<open>A fresh location is added.\<close>

lemma loc_inv_add:
  assumes inv: "loc_inv crc m" and alloc: "SpaceAlloc_Allocate (lm_space m) rnd want u = Some (Status_OK, u', sa')"
    and want: "want < 2 ^ 64" and none: "lm_map m eid = None" and len: "length eid < 2 ^ 30"
    and put: "RocksStore_Put (lm_rocks m) (loc_key eid) (Serializer_Encode crc put_location l) = (s, rocks)"
    and l: "l = \<lparr> loc_offset = au_offset u', loc_size = au_size u', loc_extent_id = eid \<rparr>" and ok: "rs_ok s"
  shows "loc_inv crc (m \<lparr> lm_space := sa', lm_rocks := rocks, lm_map := (lm_map m)(eid \<mapsto> l) \<rparr>)"
proof -
  note I = loc_invD[OF inv]
  note A = space.allocate_ok[OF I(1) want alloc]
  have "au_offset u' + au_size u' < 2 ^ 64" using space_fits_bound(1)[OF I(1)] A by simp
  then have v: "location_valid l" using len by (simp add: location_valid_def l)
  have "kv_wf rocks \<and> mirrors (kv_lookup rocks) kExtentLocPrefix loc_key (Serializer_Encode crc put_location) ((lm_map m)(eid \<mapsto> l))"
    using locs.mirrors_put[OF I(2,4) put] ok by simp
  moreover have "extents_ok (space_fits sa') (space_bytes sa') (loc_table ((lm_map m)(eid \<mapsto> l)))"
    using space.table_allocate[OF I(1) want alloc _ I(5), of eid] by (simp add: l)
  moreover have "space_bytes sa' = loc_bytes ((lm_map m)(eid \<mapsto> l))"
    using A I(6) none by (simp add: loc_bytes_add l)
  ultimately show ?thesis using I A v disk_capacity_const(1)[OF alloc] by (auto simp: loc_inv_def l)
qed

text \<open>The store refused the location: the allocated unit is freed again.\<close>

lemma loc_inv_rollback:
  assumes inv: "loc_inv crc m" and alloc: "SpaceAlloc_Allocate (lm_space m) rnd want u = Some (Status_OK, u', sa')"
    and want: "want < 2 ^ 64"
    and put: "RocksStore_Put (lm_rocks m) (loc_key eid) v = (s, rocks)" and fail: "\<not> rs_ok s"
  shows "\<exists>sa''. SpaceAlloc_Free_aunit sa' u' = Some sa'' \<and> loc_inv crc (m \<lparr> lm_space := sa'', lm_rocks := rocks \<rparr>)"
proof -
  note I = loc_invD[OF inv]
  have A: "space_wf sa'" "space_fits sa' = space_fits (lm_space m)"
    "space_fits (lm_space m) (au_offset u') (au_size u')"
    "region (au_offset u') (au_size u') \<inter> space_bytes (lm_space m) = {}"
    "space_bytes sa' = space_bytes (lm_space m) \<union> region (au_offset u') (au_size u')"
    using space.allocate_ok[OF I(1) want alloc] by simp_all
  from space.release_ok[OF A(1), of "au_offset u'" "au_size u'"] obtain sa'' where
    sa'': "SpaceAlloc_Free sa' (au_offset u') (au_size u') = Some sa''" "space_wf sa''" "space_fits sa'' = space_fits sa'"
    "space_bytes sa'' = space_bytes sa' - region (au_offset u') (au_size u')"
    using A by auto
  have bytes: "space_bytes sa'' = space_bytes (lm_space m)" using sa''(4) A(4,5) by auto
  have "kv_wf rocks \<and> kv_lookup rocks = kv_lookup (lm_rocks m)"
    using rocks.put_law[OF I(2) put] fail by simp
  then show ?thesis
    using sa'' bytes A(2) I disk_capacity_const(1)[OF alloc] disk_capacity_const(2)[OF sa''(1)]
    by (auto simp: loc_inv_def SpaceAlloc_Free_aunit_def)
qed

lemma addExtent_new: "lm_map m (loc_extent_id l) = None \<Longrightarrow> addExtent m l = m \<lparr> lm_map := (lm_map m)(loc_extent_id l \<mapsto> l) \<rparr>"
  by (simp add: addExtent_def)

lemma QueryLocation_spec:
  assumes inv: "loc_inv crc m" and want: "lm_extent_size m < 2 ^ 64" and len: "length eid < 2 ^ 30"
  shows "\<exists>s phys m'. QueryLocation crc m rnd eid off al = Some (s, phys, m') \<and> loc_inv crc m' \<and>
     lm_extent_size m' = lm_extent_size m \<and>
     (if st_ok s
      then \<exists>l. lm_map m' = (lm_map m)(eid \<mapsto> l) \<and> phys = Some (u64_add (loc_offset l) off) \<and>
               lm_map m eid \<in> {None, Some l} \<and>
               (lm_map m eid = None \<longrightarrow> al \<and> lm_extent_size m \<le> loc_size l)
      else phys = None \<and> lm_map m' = lm_map m \<and> lm_map m eid = None)"
proof (cases "lm_map m eid")
  case (Some l)
  then have "QueryLocation crc m rnd eid off al = Some (Status_OK, Some (u64_add (loc_offset l) off), m)"
    by (simp add: QueryLocation_def lookupLocation_def)
  moreover have "lm_map m = (lm_map m)(eid \<mapsto> l)" using Some by (simp add: fun_upd_idem)
  ultimately show ?thesis using inv Some by (intro exI conjI) auto
next
  case None
  note I = loc_invD[OF inv]
  show ?thesis
  proof (cases al)
    case False
    then show ?thesis using None inv by (simp add: QueryLocation_def lookupLocation_def)
  next
    case True
    let ?u = "\<lparr> au_offset = 0, au_size = 0 \<rparr>"
    from I(1) want show ?thesis
    proof (cases rule: SpaceAlloc_Allocate_cases[where rnd = rnd and u = ?u])
      case (fail s)
      then have "QueryLocation crc m rnd eid off al = Some (s, None, m)"
        using None True by (simp add: QueryLocation_def lookupLocation_def)
      then show ?thesis using inv None fail(2) by simp
    next
      case (ok aoff sz sa')
      define l where "l = \<lparr> loc_offset = aoff, loc_size = sz, loc_extent_id = eid \<rparr>"
      obtain s rocks where put: "RocksStore_Put (lm_rocks m) (loc_key eid) (Serializer_Encode crc put_location l) = (s, rocks)"
        by fastforce
      have persist: "persistExtent crc (m \<lparr> lm_space := sa' \<rparr>) l =
          (if \<not> rs_ok s then (Status CYPRE_ES_ROCKSDB_STORE_ERROR ''couldn't store extent'', m \<lparr> lm_space := sa', lm_rocks := rocks \<rparr>)
           else (Status_OK, m \<lparr> lm_space := sa', lm_rocks := rocks, lm_map := (lm_map m)(eid \<mapsto> l) \<rparr>))"
        using put None by (simp add: persistExtent_def GenerateKey_def l_def addExtent_def)
      show ?thesis
      proof (cases "rs_ok s")
        case True
        let ?m = "m \<lparr> lm_space := sa', lm_rocks := rocks, lm_map := (lm_map m)(eid \<mapsto> l) \<rparr>"
        have "QueryLocation crc m rnd eid off al = Some (Status_OK, Some (u64_add (loc_offset l) off), ?m)"
          using True \<open>al\<close> None ok(1) persist by (simp add: QueryLocation_def lookupLocation_def Let_def l_def)
        moreover have "loc_inv crc ?m" using loc_inv_add[OF inv ok(1) want None len put _ True] by (simp add: l_def)
        moreover have "lm_extent_size m \<le> loc_size l" using ok(5) by (simp add: l_def)
        ultimately show ?thesis using \<open>al\<close> None by (auto intro!: exI[of _ l])
      next
        case False
        from loc_inv_rollback[OF inv ok(1) want put False] obtain sa'' where
          "SpaceAlloc_Free_aunit sa' \<lparr> au_offset = aoff, au_size = sz \<rparr> = Some sa''"
          "loc_inv crc (m \<lparr> lm_space := sa'', lm_rocks := rocks \<rparr>)" by blast
        moreover have "m \<lparr> lm_space := sa'', lm_rocks := rocks \<rparr> = m \<lparr> lm_rocks := rocks, lm_space := sa'' \<rparr>"
          by simp
        ultimately show ?thesis
          using \<open>al\<close> None ok(1) persist False
          by (simp add: QueryLocation_def lookupLocation_def Let_def l_def)
      qed
    qed
  qed
qed

section \<open>Reclaiming and loading\<close>

lemma ReclaimExtent_spec:
  assumes inv: "loc_inv crc m"
  shows "\<exists>s m'. ReclaimExtent m eid = Some (s, m') \<and> loc_inv crc m' \<and>
     lm_map m' = (if st_ok s then (lm_map m)(eid := None) else lm_map m)"
proof (cases "lm_map m eid")
  case None
  then have "lm_map m = (lm_map m)(eid := None)" by (simp add: fun_upd_idem)
  then show ?thesis using None inv by (simp add: ReclaimExtent_def queryExtent_def)
next
  case (Some l)
  note I = loc_invD[OF inv]
  have id: "loc_extent_id l = eid" using I(3) Some by blast
  obtain s rocks where del: "RocksStore_Delete (lm_rocks m) (loc_key eid) = (s, rocks)" by fastforce
  note M = locs.mirrors_del[OF I(2,4) del]
  show ?thesis
  proof (cases "rs_ok s")
    case False
    then have "ReclaimExtent m eid = Some (Status CYPRE_ES_ROCKSDB_STORE_ERROR ''couldn't delete extent'',
        m \<lparr> lm_rocks := rocks \<rparr>)"
      using Some del id by (simp add: ReclaimExtent_def queryExtent_def deleteExtent_def GenerateKey_def)
    moreover have "loc_inv crc (m \<lparr> lm_rocks := rocks \<rparr>)" using M False I by (auto simp: loc_inv_def)
    ultimately show ?thesis by simp
  next
    case True
    have "loc_table (lm_map m) eid = Some (loc_offset l, loc_size l)" using Some by (simp add: loc_table_def)
    from space.table_release[OF I(1,5) this] obtain sa' where
      sa': "SpaceAlloc_Free (lm_space m) (loc_offset l) (loc_size l) = Some sa'" "space_wf sa'"
      "space_fits sa' = space_fits (lm_space m)"
      "space_bytes sa' = space_bytes (lm_space m) - region (loc_offset l) (loc_size l)"
      "extents_ok (space_fits sa') (space_bytes sa') (loc_table ((lm_map m)(eid := None)))" by auto
    let ?m = "m \<lparr> lm_rocks := rocks, lm_map := (lm_map m)(eid := None), lm_space := sa' \<rparr>"
    have "ReclaimExtent m eid = Some (Status_OK, ?m)"
      using Some del id True sa'(1)
      by (simp add: ReclaimExtent_def queryExtent_def deleteExtent_def removeExtent_def GenerateKey_def)
    moreover have "loc_inv crc ?m"
      using M True I sa' loc_bytes_remove[OF I(5) Some] disk_capacity_const(2)[OF sa'(1)]
      by (auto simp: loc_inv_def)
    ultimately show ?thesis by simp
  qed
qed

text \<open>Loading a list of stored locations of disjoint free regions.\<close>

lemma load_entries_ok:
  assumes "space_wf (lm_space m)" "distinct (map loc_extent_id ls)"
    "\<And>l. l \<in> set ls \<Longrightarrow> location_valid l \<and> lm_map m (loc_extent_id l) = None \<and>
       space_fits (lm_space m) (loc_offset l) (loc_size l) \<and>
       region (loc_offset l) (loc_size l) \<inter> space_bytes (lm_space m) = {}"
    "pairwise (\<lambda>l l'. region (loc_offset l) (loc_size l) \<inter> region (loc_offset l') (loc_size l') = {}) (set ls)"
  shows "\<exists>sa. load_entries crc m (map (\<lambda>l. (GenerateKey l, Serializer_Encode crc put_location l)) ls) =
       Some (Status_OK, m \<lparr> lm_map := lm_map m ++ map_of (map (\<lambda>l. (loc_extent_id l, l)) ls), lm_space := sa \<rparr>) \<and>
     space_wf sa \<and> space_fits sa = space_fits (lm_space m) \<and> sa_disk_capacity sa = sa_disk_capacity (lm_space m) \<and>
     space_bytes sa = space_bytes (lm_space m) \<union> (\<Union>l\<in>set ls. region (loc_offset l) (loc_size l))"
  using assms
proof (induction ls arbitrary: m)
  case Nil
  then show ?case by (intro exI[of _ "lm_space m"]) simp
next
  case (Cons l ls)
  have l: "location_valid l" "lm_map m (loc_extent_id l) = None"
    "space_fits (lm_space m) (loc_offset l) (loc_size l)"
    "region (loc_offset l) (loc_size l) \<inter> space_bytes (lm_space m) = {}"
    using Cons.prems(3)[of l] by auto
  obtain sa where sa: "SpaceAlloc_Mark (lm_space m) (loc_offset l) (loc_size l) = Some sa" "space_wf sa"
    "space_fits sa = space_fits (lm_space m)"
    "space_bytes sa = space_bytes (lm_space m) \<union> region (loc_offset l) (loc_size l)"
    using space.mark_ok[OF Cons.prems(1) l(3,4)] by blast
  have dec: "Serializer_Decode crc get_location (Serializer_Encode crc put_location l) = Decode_ok l"
    by (rule loc_codec.decode_encode[OF l(1) location_archive_short[OF l(1)]])
  let ?m = "m \<lparr> lm_map := (lm_map m)(loc_extent_id l \<mapsto> l), lm_space := sa \<rparr>"
  have step: "load_entries crc m (map (\<lambda>l. (GenerateKey l, Serializer_Encode crc put_location l)) (l # ls)) =
      load_entries crc ?m (map (\<lambda>l. (GenerateKey l, Serializer_Encode crc put_location l)) ls)"
    using sa(1) dec l(2) by (simp add: addExtent_def)
  have p: "location_valid l' \<and> lm_map ?m (loc_extent_id l') = None \<and>
       space_fits (lm_space ?m) (loc_offset l') (loc_size l') \<and>
       region (loc_offset l') (loc_size l') \<inter> space_bytes (lm_space ?m) = {}" if "l' \<in> set ls" for l'
  proof -
    have "loc_extent_id l' \<in> loc_extent_id ` set ls" using that by (rule imageI)
    with Cons.prems(2) have "loc_extent_id l' \<noteq> loc_extent_id l" by auto
    moreover from this have "l' \<noteq> l" by blast
    ultimately show ?thesis
      using that Cons.prems(3)[of l'] Cons.prems(4) sa by (auto simp: pairwise_insert)
  qed
  have q: "space_wf (lm_space ?m)" "distinct (map loc_extent_id ls)" using sa(2) Cons.prems(2) by simp_all
  have r: "pairwise (\<lambda>l l'. region (loc_offset l) (loc_size l) \<inter> region (loc_offset l') (loc_size l') = {}) (set ls)"
    using Cons.prems(4) by (simp add: pairwise_insert)
  obtain sa' where S: "load_entries crc ?m (map (\<lambda>l. (GenerateKey l, Serializer_Encode crc put_location l)) ls) =
       Some (Status_OK, ?m \<lparr> lm_map := lm_map ?m ++ map_of (map (\<lambda>l. (loc_extent_id l, l)) ls), lm_space := sa' \<rparr>)"
     "space_wf sa'" "space_fits sa' = space_fits (lm_space ?m)" "sa_disk_capacity sa' = sa_disk_capacity (lm_space ?m)"
     "space_bytes sa' = space_bytes (lm_space ?m) \<union> (\<Union>l\<in>set ls. region (loc_offset l) (loc_size l))"
    using Cons.IH[OF q p r] by blast
  have meq: "((lm_map m)(loc_extent_id l \<mapsto> l)) ++ map_of (map (\<lambda>l. (loc_extent_id l, l)) ls) =
      lm_map m ++ map_of (map (\<lambda>l. (loc_extent_id l, l)) (l # ls))"
  proof -
    have "map_of (map (\<lambda>l. (loc_extent_id l, l)) ls) (loc_extent_id l) = None"
      using Cons.prems(2) by (auto simp: map_of_eq_None_iff image_iff)
    then show ?thesis by (auto simp: map_add_def fun_eq_iff split: option.split)
  qed
  have "load_entries crc m (map (\<lambda>l. (GenerateKey l, Serializer_Encode crc put_location l)) (l # ls)) =
      Some (Status_OK, m \<lparr> lm_map := lm_map m ++ map_of (map (\<lambda>l. (loc_extent_id l, l)) (l # ls)), lm_space := sa' \<rparr>)"
    unfolding step S(1) meq[symmetric] by simp
  moreover have "space_fits sa' = space_fits (lm_space m)" "sa_disk_capacity sa' = sa_disk_capacity (lm_space m)"
    "space_bytes sa' = space_bytes (lm_space m) \<union> (\<Union>l\<in>set (l # ls). region (loc_offset l) (loc_size l))"
    using S(3-5) sa(3,4) disk_capacity_const(3)[OF sa(1)] by (simp_all add: Un_assoc)
  ultimately show ?case using S(2) by blast
qed

lemma SpaceAlloc_Init_ok:
  assumes "2 ^ 20 \<le> cap" "cap < 2 ^ 64"
  obtains sa where "SpaceAlloc_Init \<lparr> sa_disk_capacity = cap, sa_bitmap_alloc = None \<rparr> = (0, sa)" "space_wf sa"
    "space_bytes sa = {}" "space_fits sa = dev_fits cap" "sa_disk_capacity sa = cap"
proof -
  obtain a where a: "BitmapAllocator_Init empty_allocator kAllocateBlockSize cap = (Status_OK, a)" "alloc_wf a"
    "ba_block_size a = kAllocateBlockSize" "NumBlocks a = cap div kAllocateBlockSize" "alloc_used a = {}"
    using BitmapAllocator_Init_ok[of kAllocateBlockSize cap empty_allocator] assms
    by (auto simp: kAllocateBlockSize_def kAlignSize_def)
  have "NumBlocks \<lparr> ba_block_size = kAllocateBlockSize, ba_capacity = cap, ba_chunks = [] \<rparr> = NumBlocks a"
    unfolding a(4) by (simp add: NumBlocks_def)
  then have "fits a = dev_fits cap" by (simp add: fits_def dev_fits_def fun_eq_iff a(3))
  with a that[of "\<lparr> sa_disk_capacity = cap, sa_bitmap_alloc = Some a \<rparr>"] show thesis
    by (simp add: SpaceAlloc_Init_def space_wf_def space_bytes_def space_fits_def alloc_bytes_def fun_eq_iff)
qed

lemma LocationMgr_Init_ok:
  assumes "2 ^ 20 \<le> cap" "cap < 2 ^ 64"
  obtains sa where "LocationMgr_Init m cap (Inr st) = (Status_OK, m \<lparr> lm_space := sa, lm_rocks := st \<rparr>)" "space_wf sa"
    "space_bytes sa = {}" "space_fits sa = dev_fits cap" "sa_disk_capacity sa = cap"
proof -
  obtain sa where "SpaceAlloc_Init \<lparr> sa_disk_capacity = cap, sa_bitmap_alloc = None \<rparr> = (0, sa)" "space_wf sa"
    "space_bytes sa = {}" "space_fits sa = dev_fits cap" "sa_disk_capacity sa = cap"
    using SpaceAlloc_Init_ok[OF assms] by blast
  then show thesis using that by (simp add: LocationMgr_Init_def)
qed

text \<open>The scan of the prefix, as the list of the stored locations.\<close>

lemma scan_locations:
  assumes "loc_inv crc m"
  obtains ls where
    "RocksStore_ScanPrefix (lm_rocks m) kExtentLocPrefix =
       map (\<lambda>l. (GenerateKey l, Serializer_Encode crc put_location l)) ls"
    "distinct (map loc_extent_id ls)" "\<And>l. l \<in> set ls \<longleftrightarrow> lm_map m (loc_extent_id l) = Some l"
proof -
  note I = loc_invD[OF assms]
  let ?scan = "RocksStore_ScanPrefix (lm_rocks m) kExtentLocPrefix" and ?enc = "Serializer_Encode crc put_location"
  have short: "location_valid x \<and> length (put_location x) < 2 ^ 31" if "lm_map m i = Some x" for i x
    using I(3)[OF that] location_archive_short by blast
  have sc: "(k, v) \<in> set ?scan \<longleftrightarrow> (\<exists>i x. k = loc_key i \<and> lm_map m i = Some x \<and> v = ?enc x)" for k v
    using short by (intro locs.scan_table(1)[OF I(2,4)])
  define dec where "dec = (\<lambda>(k :: string, v). case Serializer_Decode crc get_location v of Decode_ok l \<Rightarrow> l)"
  have dec: "e = (GenerateKey (dec e), ?enc (dec e)) \<and> lm_map m (loc_extent_id (dec e)) = Some (dec e)"
    if "e \<in> set ?scan" for e
  proof -
    obtain k v where e: "e = (k, v)" by (cases e)
    with that have "(k, v) \<in> set ?scan" by simp
    then obtain i x where x: "k = loc_key i" "lm_map m i = Some x" "v = ?enc x" unfolding sc by blast
    have "Serializer_Decode crc get_location (?enc x) = Decode_ok x"
      using short[OF x(2)] by (intro loc_codec.decode_encode) auto
    then show ?thesis using x I(3)[OF x(2)] by (simp add: e dec_def GenerateKey_def)
  qed
  have "?scan = map (\<lambda>l. (GenerateKey l, ?enc l)) (map dec ?scan)"
    using dec by (simp add: map_idI[symmetric] comp_def)
  moreover have "distinct (map loc_extent_id (map dec ?scan))"
  proof -
    have "map fst ?scan = map loc_key (map loc_extent_id (map dec ?scan))"
      using dec by (auto simp: GenerateKey_def)
    then show ?thesis using rocks.scan_distinct[OF I(2), of kExtentLocPrefix] by (metis distinct_map)
  qed
  moreover have "l \<in> set (map dec ?scan) \<longleftrightarrow> lm_map m (loc_extent_id l) = Some l" for l
  proof
    assume "lm_map m (loc_extent_id l) = Some l"
    then have "(loc_key (loc_extent_id l), ?enc l) \<in> set ?scan" unfolding sc by blast
    moreover have "dec (loc_key (loc_extent_id l), ?enc l) = l"
      using short[OF \<open>lm_map m _ = Some l\<close>] loc_codec.decode_encode[of l crc] by (simp add: dec_def)
    ultimately show "l \<in> set (map dec ?scan)" by (metis image_eqI list.set_map)
  qed (use dec in auto)
  ultimately show thesis using that by blast
qed

lemma map_of_locations:
  assumes "distinct (map loc_extent_id ls)" "\<And>l. l \<in> set ls \<longleftrightarrow> t (loc_extent_id l) = Some l"
    and "\<And>eid l. t eid = Some l \<Longrightarrow> loc_extent_id l = eid"
  shows "map_of (map (\<lambda>l. (loc_extent_id l, l)) ls) = t"
proof
  fix eid
  have d: "distinct (map fst (map (\<lambda>l. (loc_extent_id l, l)) ls))" using assms(1) by (simp add: comp_def)
  show "map_of (map (\<lambda>l. (loc_extent_id l, l)) ls) eid = t eid"
  proof (cases "t eid")
    case None
    have "loc_extent_id l \<noteq> eid" if "l \<in> set ls" for l using that None assms(2)[of l] by auto
    then have "eid \<notin> fst ` set (map (\<lambda>l. (loc_extent_id l, l)) ls)" by fastforce
    then show ?thesis using None map_of_eq_None_iff by metis
  next
    case (Some l)
    then have "l \<in> set ls" "loc_extent_id l = eid" using assms(2,3) by auto
    then show ?thesis using Some d by (force simp: map_of_eq_Some_iff)
  qed
qed

lemma restart_spec:
  assumes inv: "loc_inv crc m" and cap: "sa_disk_capacity (lm_space m) = cap" "2 ^ 20 \<le> cap" "cap < 2 ^ 64"
    and fresh: "lm_map m0 = Map.empty"
  shows "\<exists>m1 m2. LocationMgr_Init m0 cap (Inr (lm_rocks m)) = (Status_OK, m1) \<and>
     LoadExtents crc m1 = Some (Status_OK, m2) \<and> loc_inv crc m2 \<and> lm_map m2 = lm_map m \<and>
     space_bytes (lm_space m2) = space_bytes (lm_space m)"
proof -
  note I = loc_invD[OF inv]
  obtain sa where sa: "LocationMgr_Init m0 cap (Inr (lm_rocks m)) = (Status_OK, m0 \<lparr> lm_space := sa, lm_rocks := lm_rocks m \<rparr>)"
    "space_wf sa" "space_bytes sa = {}" "space_fits sa = dev_fits cap" "sa_disk_capacity sa = cap"
    using LocationMgr_Init_ok[OF cap(2,3)] by metis
  let ?m1 = "m0 \<lparr> lm_space := sa, lm_rocks := lm_rocks m \<rparr>"
  obtain ls where ls: "RocksStore_ScanPrefix (lm_rocks m) kExtentLocPrefix =
       map (\<lambda>l. (GenerateKey l, Serializer_Encode crc put_location l)) ls"
    "distinct (map loc_extent_id ls)" "\<And>l. l \<in> set ls \<longleftrightarrow> lm_map m (loc_extent_id l) = Some l"
    using scan_locations[OF inv] by metis
  have tab: "loc_table (lm_map m) (loc_extent_id l) = Some (loc_offset l, loc_size l)" if "l \<in> set ls" for l
    using that ls(3) by (simp add: loc_table_def)
  have p: "space_wf (lm_space ?m1)" using sa by simp
  have q: "location_valid l \<and> lm_map ?m1 (loc_extent_id l) = None \<and>
       space_fits (lm_space ?m1) (loc_offset l) (loc_size l) \<and>
       region (loc_offset l) (loc_size l) \<inter> space_bytes (lm_space ?m1) = {}" if "l \<in> set ls" for l
  proof -
    have "location_valid l" using that ls(3) I(3) by blast
    moreover have "dev_fits cap (loc_offset l) (loc_size l)"
      using extents_okD(1)[OF I(5) tab[OF that]] I(7) cap(1) by simp
    ultimately show ?thesis using sa fresh by simp
  qed
  have r: "pairwise (\<lambda>l l'. region (loc_offset l) (loc_size l) \<inter> region (loc_offset l') (loc_size l') = {}) (set ls)"
  proof (rule pairwiseI)
    fix l l' assume ll: "l \<in> set ls" "l' \<in> set ls" "l \<noteq> l'"
    then have "loc_extent_id l \<noteq> loc_extent_id l'" using ls(3) by (metis option.inject)
    then show "region (loc_offset l) (loc_size l) \<inter> region (loc_offset l') (loc_size l') = {}"
      using I(5) tab[OF ll(1)] tab[OF ll(2)] unfolding extents_ok_def by blast
  qed
  obtain sa2 where s2: "load_entries crc ?m1 (map (\<lambda>l. (GenerateKey l, Serializer_Encode crc put_location l)) ls) =
       Some (Status_OK, ?m1 \<lparr> lm_map := lm_map ?m1 ++ map_of (map (\<lambda>l. (loc_extent_id l, l)) ls), lm_space := sa2 \<rparr>)"
     "space_wf sa2" "space_fits sa2 = space_fits (lm_space ?m1)" "sa_disk_capacity sa2 = sa_disk_capacity (lm_space ?m1)"
     "space_bytes sa2 = space_bytes (lm_space ?m1) \<union> (\<Union>l\<in>set ls. region (loc_offset l) (loc_size l))"
    using load_entries_ok[OF p ls(2) q r] by blast
  have mo: "map_of (map (\<lambda>l. (loc_extent_id l, l)) ls) = lm_map m"
    using ls(2,3) I(3) by (intro map_of_locations) auto
  let ?m2 = "?m1 \<lparr> lm_map := lm_map m, lm_space := sa2 \<rparr>"
  have load: "LoadExtents crc ?m1 = Some (Status_OK, ?m2)"
    using s2(1) ls(1) mo fresh by (simp add: LoadExtents_def)
  have "(\<Union>l\<in>set ls. region (loc_offset l) (loc_size l)) = loc_bytes (lm_map m)"
    using ls(3) I(3) unfolding loc_bytes_def ran_def by fastforce
  then have bytes: "space_bytes sa2 = space_bytes (lm_space m)" using s2(5) sa(3) I(6) by simp
  have "space_fits sa2 = space_fits (lm_space m)" using s2(3) sa(4) I(7) cap(1) by simp
  then have "loc_inv crc ?m2" using I s2 sa bytes cap(1) by (auto simp: loc_inv_def)
  then show ?thesis using sa(1) load bytes by auto
qed

text \<open>The manager of a fresh device with an empty store.\<close>

lemma fresh_inv:
  assumes "2 ^ 20 \<le> cap" "cap < 2 ^ 64" "lm_map m0 = Map.empty" "rs_db st = []"
  shows "\<exists>m1. LocationMgr_Init m0 cap (Inr st) = (Status_OK, m1) \<and> loc_inv crc m1 \<and>
     lm_map m1 = Map.empty \<and> lm_extent_size m1 = lm_extent_size m0 \<and> sa_disk_capacity (lm_space m1) = cap"
proof -
  obtain sa where sa: "LocationMgr_Init m0 cap (Inr st) = (Status_OK, m0 \<lparr> lm_space := sa, lm_rocks := st \<rparr>)"
    "space_wf sa" "space_bytes sa = {}" "space_fits sa = dev_fits cap" "sa_disk_capacity sa = cap"
    using LocationMgr_Init_ok[OF assms(1,2)] by metis
  then show ?thesis using assms(3,4)
    by (auto simp: loc_inv_def kv_wf_def kv_lookup_def mirrors_def extents_ok_def loc_table_def loc_bytes_def)
qed

lemma QueryLocation_frame:
  "QueryLocation crc m rnd eid off al = Some (s, phys, m') \<Longrightarrow>
   sa_disk_capacity (lm_space m') = sa_disk_capacity (lm_space m)"
  by (auto simp: QueryLocation_def lookupLocation_def persistExtent_def addExtent_def SpaceAlloc_Free_aunit_def
      Let_def disk_capacity_const split: option.splits prod.splits if_splits)

lemma ReclaimExtent_frame:
  "ReclaimExtent m eid = Some (s, m') \<Longrightarrow>
   sa_disk_capacity (lm_space m') = sa_disk_capacity (lm_space m) \<and> lm_extent_size m' = lm_extent_size m"
  by (auto simp: ReclaimExtent_def queryExtent_def deleteExtent_def removeExtent_def
      Let_def disk_capacity_const split: option.splits prod.splits if_splits)

lemma load_entries_frame:
  "load_entries crc m es = Some (s, m') \<Longrightarrow>
   sa_disk_capacity (lm_space m') = sa_disk_capacity (lm_space m) \<and> lm_extent_size m' = lm_extent_size m"
proof (induction crc m es rule: load_entries.induct)
  case (2 crc m k v es)
  then show ?case
    by (auto simp: addExtent_def Let_def disk_capacity_const split: decoded.splits option.splits)
qed simp

lemma loc_reach_inv:
  assumes "loc_reach crc cap m" "2 ^ 20 \<le> cap" "cap < 2 ^ 64"
  shows "loc_inv crc m \<and> lm_extent_size m < 2 ^ 64 \<and> sa_disk_capacity (lm_space m) = cap"
  using assms(1)
proof induction
  case (init m0 st s m)
  then show ?case using fresh_inv[OF assms(2,3) init(1,3), of crc] by auto
next
  case (query m eid rnd off al s phys m')
  then show ?case
    using QueryLocation_spec[of crc m eid rnd off al] QueryLocation_frame[OF query(3)] by auto
next
  case (reclaim m eid s m')
  then show ?case using ReclaimExtent_spec[of crc m eid] ReclaimExtent_frame[OF reclaim(2)] by auto
next
  case (set_size m n)
  then show ?case by (auto simp: loc_inv_def)
next
  case (restart m m0 s m1 s' m2)
  from restart_spec[of crc m cap m0] restart obtain n1 n2 where
    n: "LocationMgr_Init m0 cap (Inr (lm_rocks m)) = (Status_OK, n1)" "LoadExtents crc n1 = Some (Status_OK, n2)"
    "loc_inv crc n2" using assms(2,3) by auto
  then have "n2 = m2" "n1 = m1" using restart by auto
  moreover obtain sa where
    "LocationMgr_Init m0 cap (Inr (lm_rocks m)) = (Status_OK, m0 \<lparr> lm_space := sa, lm_rocks := lm_rocks m \<rparr>)"
    "sa_disk_capacity sa = cap" using LocationMgr_Init_ok[OF assms(2,3), of m0 "lm_rocks m"] by blast
  then have "lm_extent_size m1 = lm_extent_size m0" "sa_disk_capacity (lm_space m1) = cap"
    using restart(4) by auto
  moreover have "sa_disk_capacity (lm_space m2) = sa_disk_capacity (lm_space m1) \<and> lm_extent_size m2 = lm_extent_size m1"
    using restart(5) load_entries_frame unfolding LoadExtents_def by blast
  ultimately show ?case using n restart(3) by simp
qed

lemma dev_fits_bound: "dev_fits cap off sz \<Longrightarrow> off + sz \<le> cap"
proof -
  let ?bs = kAllocateBlockSize
  assume "dev_fits cap off sz"
  then have f: "off = off div ?bs * ?bs" "sz = sz div ?bs * ?bs" "off div ?bs + sz div ?bs \<le> cap div ?bs"
    by (auto simp: dev_fits_def fits_def Let_def NumBlocks_def)
  have "off + sz = (off div ?bs + sz div ?bs) * ?bs" using f(1,2) by (metis add_mult_distrib)
  also have "\<dots> \<le> cap div ?bs * ?bs" using f(3) by (rule mult_right_mono) simp
  also have "\<dots> \<le> cap" by simp
  finally show ?thesis .
qed

section \<open>Properties\<close>

lemma demo_mgr_init:
  "LocationMgr_Init demo_mgr0 (2 ^ 22) (Inr \<lparr> rs_db = [], rs_faults = [] \<rparr>) = (Status_OK, demo_mgr)"
  "loc_inv crc demo_mgr" "lm_map demo_mgr = Map.empty" "lm_extent_size demo_mgr = 2 ^ 20"
proof -
  have 0: "lm_map demo_mgr0 = Map.empty" "lm_extent_size demo_mgr0 = 2 ^ 20" by (simp_all add: demo_mgr0_def)
  obtain m1 where "LocationMgr_Init demo_mgr0 (2 ^ 22) (Inr \<lparr> rs_db = [], rs_faults = [] \<rparr>) = (Status_OK, m1)"
    "loc_inv crc m1" "lm_map m1 = Map.empty" "lm_extent_size m1 = lm_extent_size demo_mgr0"
    using fresh_inv[OF _ _ 0(1), of "2 ^ 22" "\<lparr> rs_db = [], rs_faults = [] \<rparr>" crc] by auto
  then show "LocationMgr_Init demo_mgr0 (2 ^ 22) (Inr \<lparr> rs_db = [], rs_faults = [] \<rparr>) = (Status_OK, demo_mgr)"
    "loc_inv crc demo_mgr" "lm_map demo_mgr = Map.empty" "lm_extent_size demo_mgr = 2 ^ 20"
    using 0(2) by (simp_all add: demo_mgr_def)
qed

lemma demo_mgr_reach: "loc_reach crc (2 ^ 22) demo_mgr"
  by (rule loc_reach.init[OF _ _ _ demo_mgr_init(1)]) (simp_all add: demo_mgr0_def)

lemma demo_mgr_eq:
  "demo_mgr = demo_mgr0 \<lparr> lm_space := \<lparr> sa_disk_capacity = 2 ^ 22, sa_bitmap_alloc = Some
      \<lparr> ba_block_size = 2 ^ 20, ba_capacity = 2 ^ 22,
        ba_chunks = [\<lparr> c_chunk_idx = 0, c_num_blocks = 4, c_num_free_blocks = 4, c_last_free_bit = 0,
                      c_block_size = 2 ^ 20, c_data = [0] \<rparr>] \<rparr> \<rparr> \<rparr>"
  by (simp add: demo_mgr_def demo_mgr0_def LocationMgr_Init_def SpaceAlloc_Init_def BitmapAllocator_Init_def
      empty_allocator_def kAllocateBlockSize_def kAlignSize_def Let_def NumChunks_def NumBlocks_def u64_add_def
      kMaxBlocksPerChunk_def make_chunks.simps Chunk_def kBlocksPerUnit_def)

lemma demo_query:
  "\<exists>m1 m2. QueryLocation (\<lambda>_. 0) demo_mgr 0 ''b.1'' 4096 True = Some (Status_OK, Some 4096, m1) \<and>
     QueryLocation (\<lambda>_. 0) m1 0 ''b.2'' 8192 True = Some (Status_OK, Some 1056768, m2) \<and>
     lm_map m2 ''b.1'' = Some \<lparr> loc_offset = 0, loc_size = 2 ^ 20, loc_extent_id = ''b.1'' \<rparr> \<and>
     lm_map m2 ''b.2'' = Some \<lparr> loc_offset = 2 ^ 20, loc_size = 2 ^ 20, loc_extent_id = ''b.2'' \<rparr>"
  unfolding demo_mgr_eq
  by (simp add: demo_mgr0_def QueryLocation_def lookupLocation_def SpaceAlloc_Allocate_def alloc_eval
      persistExtent_def RocksStore_Put_def kv_write_def rs_ok_def addExtent_def Let_def)

text \<open>C27: \<open>QueryLocation\<close> on a consistent manager always returns and leaves it
  consistent: table, store and bitmap agree, locations are disjoint and nothing is
  leaked, also when the store refuses the write. On success the extent has a location,
  the physical offset is its start plus the request offset, and no other extent is
  touched; an extent that has a location keeps it, and a location made by this call holds
  a whole extent. On failure the table is
  unchanged.\<close>

theorem QueryLocation_correct:
  assumes "loc_inv crc m" "lm_extent_size m < 2 ^ 64" "length eid < 2 ^ 30"
  shows "\<exists>s phys m'. QueryLocation crc m rnd eid off al = Some (s, phys, m') \<and> loc_inv crc m' \<and>
     (if st_ok s
      then \<exists>l. lm_map m' = (lm_map m)(eid \<mapsto> l) \<and> phys = Some (u64_add (loc_offset l) off) \<and>
               lm_map m eid \<in> {None, Some l} \<and>
               (lm_map m eid = None \<longrightarrow> al \<and> lm_extent_size m \<le> loc_size l)
      else phys = None \<and> lm_map m' = lm_map m \<and> lm_map m eid = None)"
  using QueryLocation_spec[OF assms, of rnd off al] by blast

theorem QueryLocation_correct_witness:
  "loc_inv (\<lambda>_. 0) demo_mgr \<and> lm_extent_size demo_mgr < 2 ^ 64 \<and>
   (\<exists>m' l. QueryLocation (\<lambda>_. 0) demo_mgr 0 ''b.1'' 4096 True = Some (Status_OK, Some 4096, m') \<and>
      loc_inv (\<lambda>_. 0) m' \<and> lm_map m' = (lm_map demo_mgr)(''b.1'' \<mapsto> l))"
proof -
  obtain m' where q: "QueryLocation (\<lambda>_. 0) demo_mgr 0 ''b.1'' 4096 True = Some (Status_OK, Some 4096, m')"
    using demo_query by blast
  from QueryLocation_correct[OF demo_mgr_init(2), where eid = "''b.1''" and rnd = 0 and off = 4096 and al = True
      and crc = "\<lambda>_. 0"] q demo_mgr_init
  show ?thesis by auto
qed

text \<open>C29: \<open>ReclaimExtent\<close> on a consistent manager always returns and leaves it
  consistent. When it reports success the extent has no location any more, every other
  extent keeps its own, and exactly the bytes of the reclaimed extent are free again;
  when the store refuses the deletion nothing changes.\<close>

theorem ReclaimExtent_correct:
  assumes "loc_inv crc m"
  shows "\<exists>s m'. ReclaimExtent m eid = Some (s, m') \<and> loc_inv crc m' \<and>
     lm_map m' = (if st_ok s then (lm_map m)(eid := None) else lm_map m) \<and>
     space_bytes (lm_space m') =
       (if st_ok s then loc_bytes ((lm_map m)(eid := None)) else space_bytes (lm_space m))"
proof -
  obtain s m' where r: "ReclaimExtent m eid = Some (s, m')" "loc_inv crc m'"
    "lm_map m' = (if st_ok s then (lm_map m)(eid := None) else lm_map m)"
    using ReclaimExtent_spec[OF assms] by blast
  with loc_invD(6)[OF r(2)] loc_invD(6)[OF assms] show ?thesis by auto
qed

theorem ReclaimExtent_correct_witness:
  "loc_inv (\<lambda>_. 0) demo_mgr \<and> (\<exists>m'. ReclaimExtent demo_mgr ''b.1'' = Some (Status_OK, m') \<and> loc_inv (\<lambda>_. 0) m')"
  using ReclaimExtent_correct[OF demo_mgr_init(2), where eid = "''b.1''" and crc = "\<lambda>_. 0"] demo_mgr_init
  by (auto simp: ReclaimExtent_def queryExtent_def)

text \<open>C16: After a restart (a fresh manager on the same device and store, then
  \<open>LoadExtents\<close>) the table of locations and the bytes in use are those of before the
  restart, and the manager is consistent.\<close>

theorem restart_recovers:
  assumes "loc_inv crc m" "sa_disk_capacity (lm_space m) = cap" "2 ^ 20 \<le> cap" "cap < 2 ^ 64"
    and "lm_map m0 = Map.empty"
  shows "\<exists>m1 m2. LocationMgr_Init m0 cap (Inr (lm_rocks m)) = (Status_OK, m1) \<and>
     LoadExtents crc m1 = Some (Status_OK, m2) \<and> loc_inv crc m2 \<and> lm_map m2 = lm_map m \<and>
     space_bytes (lm_space m2) = space_bytes (lm_space m)"
  using restart_spec[OF assms] .

theorem restart_recovers_witness:
  "\<exists>(m :: location_mgr) m1 m2. lm_map m ''b.2'' = Some \<lparr> loc_offset = 2 ^ 20, loc_size = 2 ^ 20, loc_extent_id = ''b.2'' \<rparr> \<and>
     LocationMgr_Init demo_mgr0 (2 ^ 22) (Inr (lm_rocks m)) = (Status_OK, m1) \<and>
     LoadExtents (\<lambda>_. 0) m1 = Some (Status_OK, m2) \<and> lm_map m2 = lm_map m"
proof -
  obtain m1 m2 where q: "QueryLocation (\<lambda>_. 0) demo_mgr 0 ''b.1'' 4096 True = Some (Status_OK, Some 4096, m1)"
    "QueryLocation (\<lambda>_. 0) m1 0 ''b.2'' 8192 True = Some (Status_OK, Some 1056768, m2)"
    "lm_map m2 ''b.2'' = Some \<lparr> loc_offset = 2 ^ 20, loc_size = 2 ^ 20, loc_extent_id = ''b.2'' \<rparr>"
    using demo_query by blast
  have "loc_reach (\<lambda>_. 0) (2 ^ 22) m2"
    by (rule loc_reach.query[OF loc_reach.query[OF demo_mgr_reach _ q(1)] _ q(2)]) simp_all
  from loc_reach_inv[OF this] have i: "loc_inv (\<lambda>_. 0) m2" "sa_disk_capacity (lm_space m2) = 2 ^ 22" by simp_all
  have "lm_map demo_mgr0 = Map.empty" by (simp add: demo_mgr0_def)
  from restart_recovers[OF i _ _ this] obtain n1 n2 where
    "LocationMgr_Init demo_mgr0 (2 ^ 22) (Inr (lm_rocks m2)) = (Status_OK, n1)"
    "LoadExtents (\<lambda>_. 0) n1 = Some (Status_OK, n2)" "lm_map n2 = lm_map m2" by auto
  with q(3) show ?thesis by (intro exI[of _ m2] exI[of _ n1] exI[of _ n2] conjI)
qed

text \<open>C14: In every state a manager can reach, through any queries, reclaims, extent size
  changes, store failures and restarts, the locations of different extents share no byte
  and every location lies on the device.\<close>

theorem reachable_extents_disjoint:
  assumes "loc_reach crc cap m" "2 ^ 20 \<le> cap" "cap < 2 ^ 64"
    and "lm_map m e1 = Some l1" "lm_map m e2 = Some l2" "e1 \<noteq> e2"
  shows "region (loc_offset l1) (loc_size l1) \<inter> region (loc_offset l2) (loc_size l2) = {} \<and>
     loc_offset l1 + loc_size l1 \<le> cap"
proof -
  have I: "loc_inv crc m" "sa_disk_capacity (lm_space m) = cap" using loc_reach_inv[OF assms(1-3)] by simp_all
  have t: "loc_table (lm_map m) e1 = Some (loc_offset l1, loc_size l1)"
    "loc_table (lm_map m) e2 = Some (loc_offset l2, loc_size l2)" using assms(4,5) by (simp_all add: loc_table_def)
  have "dev_fits cap (loc_offset l1) (loc_size l1)"
    using extents_okD(1)[OF loc_invD(5)[OF I(1)] t(1)] loc_invD(7)[OF I(1)] I(2) by simp
  then have "loc_offset l1 + loc_size l1 \<le> cap" by (rule dev_fits_bound)
  then show ?thesis using loc_invD(5)[OF I(1)] t assms(6) unfolding extents_ok_def by blast
qed

theorem reachable_extents_disjoint_witness:
  "\<exists>m (l1 :: extent_location) (l2 :: extent_location). loc_reach (\<lambda>_. 0) (2 ^ 22) m \<and> lm_map m ''b.1'' = Some l1 \<and> lm_map m ''b.2'' = Some l2 \<and>
     region (loc_offset l1) (loc_size l1) \<inter> region (loc_offset l2) (loc_size l2) = {}"
proof -
  obtain m1 m2 where q: "QueryLocation (\<lambda>_. 0) demo_mgr 0 ''b.1'' 4096 True = Some (Status_OK, Some 4096, m1)"
    "QueryLocation (\<lambda>_. 0) m1 0 ''b.2'' 8192 True = Some (Status_OK, Some 1056768, m2)"
    "lm_map m2 ''b.1'' = Some \<lparr> loc_offset = 0, loc_size = 2 ^ 20, loc_extent_id = ''b.1'' \<rparr>"
    "lm_map m2 ''b.2'' = Some \<lparr> loc_offset = 2 ^ 20, loc_size = 2 ^ 20, loc_extent_id = ''b.2'' \<rparr>"
    using demo_query by blast
  have r: "loc_reach (\<lambda>_. 0) (2 ^ 22) m2"
    by (rule loc_reach.query[OF loc_reach.query[OF demo_mgr_reach _ q(1)] _ q(2)]) simp_all
  let ?l1 = "\<lparr> loc_offset = 0, loc_size = 2 ^ 20, loc_extent_id = ''b.1'' \<rparr>"
  let ?l2 = "\<lparr> loc_offset = 2 ^ 20, loc_size = 2 ^ 20, loc_extent_id = ''b.2'' \<rparr>"
  have "region (loc_offset ?l1) (loc_size ?l1) \<inter> region (loc_offset ?l2) (loc_size ?l2) = {}"
    using reachable_extents_disjoint[OF r _ _ q(3,4)] by simp
  with r q(3,4) show ?thesis by (intro exI[of _ m2] exI[of _ ?l1] exI[of _ ?l2] conjI)
qed

end
