(* ===== verification/Es_Request.thy ===== *)
theory Es_Request
  imports Cypre_Base
begin

text \<open>
  Requests of an extent server (\<open>src/src/extentserver/request_context.{h,cpp}\<close>) and the
  routers they carry (\<open>src/src/common/extent_router.{h,cpp}\<close>). The message types of
  the five I/O calls and of the reclaim call have the same fields as far as the server
  reads them, so one record \<open>pb_msg\<close> stands for the message an operation context points
  to. The response, and how often the closure of the call has run, are part of the
  request. Trace times are not modelled.
\<close>

section \<open>Routers\<close>

record es_instance =
  es_id :: int
  public_ip :: string
  public_port :: int
  private_ip :: string
  private_port :: int

record extent_router =
  er_version :: int
  er_extent_id :: string
  er_primary :: es_instance
  er_secondaries :: "es_instance list"

definition IsPrimary :: "extent_router \<Rightarrow> string \<Rightarrow> int \<Rightarrow> bool" where
  "IsPrimary r ip port \<longleftrightarrow> public_ip (er_primary r) = ip \<and> public_port (er_primary r) = port"

fun IsSecondary_loop :: "es_instance list \<Rightarrow> string \<Rightarrow> int \<Rightarrow> bool" where
  "IsSecondary_loop [] ip port = False"
| "IsSecondary_loop (s # ss) ip port =
     (if public_ip s = ip \<and> public_port s = port then True else IsSecondary_loop ss ip port)"

definition IsSecondary :: "extent_router \<Rightarrow> string \<Rightarrow> int \<Rightarrow> bool" where
  "IsSecondary r ip port = IsSecondary_loop (er_secondaries r) ip port"

definition IsValid :: "extent_router \<Rightarrow> string \<Rightarrow> int \<Rightarrow> bool" where
  "IsValid r ip port \<longleftrightarrow> IsPrimary r ip port \<or> IsSecondary r ip port"

text \<open>The reply of the router service of the extent manager, as the caller sees it.\<close>

datatype 'a rpc = Rpc_Failed | Rpc_Reply int "'a option"

definition queryFromRemote :: "(string \<Rightarrow> extent_router rpc) \<Rightarrow> string \<Rightarrow> extent_router option" where
  "queryFromRemote remote extent_id =
     (case remote extent_id of
        Rpc_Failed \<Rightarrow> None
      | Rpc_Reply code router \<Rightarrow>
          if code \<noteq> 0 then None
          else (case router of
                  None \<Rightarrow> None
                | Some r \<Rightarrow> Some \<lparr> er_version = 0, er_extent_id = extent_id,
                                   er_primary = er_primary r, er_secondaries = er_secondaries r \<rparr>))"

text \<open>The cache of \<open>ExtentRouterMgr\<close>: the map of the process, or of the calling thread
  when it is thread local.\<close>

type_synonym router_cache = "string \<rightharpoonup> extent_router"

definition QueryRouter ::
    "(string \<Rightarrow> extent_router rpc) \<Rightarrow> router_cache \<Rightarrow> string \<Rightarrow> extent_router option \<times> router_cache" where
  "QueryRouter remote cache extent_id =
     (case cache extent_id of
        Some r \<Rightarrow> (Some r, cache)
      | None \<Rightarrow>
          (case queryFromRemote remote extent_id of
             None \<Rightarrow> (None, cache)
           | Some r \<Rightarrow> (Some r, cache(extent_id \<mapsto> r))))"

definition DeleteRouter :: "router_cache \<Rightarrow> string \<Rightarrow> router_cache" where
  "DeleteRouter cache extent_id = cache(extent_id := None)"

definition ClearRouters :: "router_cache \<Rightarrow> router_cache" where
  "ClearRouters cache = Map.empty"

section \<open>Requests\<close>

datatype request_type =
    kTypeRead | kTypeWrite | kTypeReplicate | kTypeScrub | kTypeDelete | kTypeReclaimExtent | kTypeNoop

record pb_msg =
  msg_extent_id :: string
  msg_offset :: nat
  msg_size :: nat
  msg_crc32 :: "nat option"
  msg_attachment :: string

record es_response =
  resp_code :: int
  resp_message :: string
  resp_crc32 :: "nat option"
  resp_attachment :: string

record request =
  rq_result :: bool
  rq_ref_count :: int
  rq_type :: request_type
  rq_io_unit :: "string option"
  rq_router :: "extent_router option"
  rq_phys :: nat
  rq_msg :: pb_msg
  rq_resp :: es_response
  rq_done :: nat
  rq_put :: nat

definition Request_Reset :: "request \<Rightarrow> request_type \<Rightarrow> request" where
  "Request_Reset req t =
     req \<lparr> rq_result := True, rq_ref_count := 1, rq_type := t, rq_io_unit := None,
           rq_router := None, rq_phys := 0 \<rparr>"

definition SetResult :: "request \<Rightarrow> bool \<Rightarrow> request" where
  "SetResult req success = req \<lparr> rq_result := rq_result req \<and> success \<rparr>"

text \<open>\<open>fetch_sub\<close>: the value before, and the decrement.\<close>

definition FetchAndSubRef :: "request \<Rightarrow> int \<times> request" where
  "FetchAndSubRef req = (rq_ref_count req, req \<lparr> rq_ref_count := rq_ref_count req - 1 \<rparr>)"

definition SetRefCount :: "request \<Rightarrow> int \<Rightarrow> request" where
  "SetRefCount req n = req \<lparr> rq_ref_count := n \<rparr>"

definition ExtentID :: "request \<Rightarrow> string" where
  "ExtentID req = (case rq_type req of kTypeNoop \<Rightarrow> [] | _ \<Rightarrow> msg_extent_id (rq_msg req))"

definition Request_Offset :: "request \<Rightarrow> nat" where
  "Request_Offset req =
     (case rq_type req of kTypeReclaimExtent \<Rightarrow> 0 | kTypeNoop \<Rightarrow> 0 | _ \<Rightarrow> msg_offset (rq_msg req))"

definition Request_Size :: "request \<Rightarrow> nat" where
  "Request_Size req =
     (case rq_type req of kTypeReclaimExtent \<Rightarrow> 0 | kTypeNoop \<Rightarrow> 0 | _ \<Rightarrow> msg_size (rq_msg req))"

text \<open>\<open>SetEmptyResponse\<close>: the response attachment becomes \<open>Size()\<close> zero bytes.\<close>

definition SetEmptyResponse :: "request \<Rightarrow> request" where
  "SetEmptyResponse req =
     req \<lparr> rq_resp := (rq_resp req) \<lparr> resp_attachment := replicate (Request_Size req) (char_of (0 :: nat)) \<rparr> \<rparr>"

definition SetOperationContext :: "request \<Rightarrow> pb_msg \<Rightarrow> es_response \<Rightarrow> request" where
  "SetOperationContext req msg resp = req \<lparr> rq_msg := msg, rq_resp := resp, rq_done := 0, rq_put := 0 \<rparr>"

text \<open>\<open>RequestMgr\<close>: a request from the pool, reset; \<open>avail\<close> is whether the pool had one.\<close>

definition GetRequest :: "bool \<Rightarrow> request \<Rightarrow> request_type \<Rightarrow> request option" where
  "GetRequest avail unit t = (if avail then Some (Request_Reset unit t) else None)"

text \<open>\<open>PutRequest\<close> gives the request back to the pool; \<open>rq_put\<close> counts how often.\<close>

definition PutRequest :: "request \<Rightarrow> request" where
  "PutRequest req = (Request_Reset req kTypeNoop) \<lparr> rq_put := rq_put req + 1 \<rparr>"

section \<open>Lemmas\<close>

lemma IsSecondary_iff:
  "IsSecondary r ip port \<longleftrightarrow> (\<exists>s\<in>set (er_secondaries r). public_ip s = ip \<and> public_port s = port)"
proof -
  have "IsSecondary_loop ss ip port \<longleftrightarrow> (\<exists>s\<in>set ss. public_ip s = ip \<and> public_port s = port)" for ss
    by (induction ss) auto
  then show ?thesis by (simp add: IsSecondary_def)
qed

text \<open>What a request asks for does not depend on the bookkeeping fields.\<close>

lemma ExtentID_frame [simp]:
  "ExtentID (req \<lparr> rq_io_unit := x0 \<rparr>) = ExtentID req"
  "ExtentID (req \<lparr> rq_phys := x1 \<rparr>) = ExtentID req"
  "ExtentID (req \<lparr> rq_router := x2 \<rparr>) = ExtentID req"
  "ExtentID (req \<lparr> rq_result := x3 \<rparr>) = ExtentID req"
  "ExtentID (req \<lparr> rq_ref_count := x4 \<rparr>) = ExtentID req"
  "ExtentID (req \<lparr> rq_resp := x5 \<rparr>) = ExtentID req"
  "ExtentID (req \<lparr> rq_done := x6 \<rparr>) = ExtentID req"
  "ExtentID (req \<lparr> rq_put := x7 \<rparr>) = ExtentID req"
  by (simp_all add: ExtentID_def split: request_type.split)

lemma Request_Offset_frame [simp]:
  "Request_Offset (req \<lparr> rq_io_unit := x0 \<rparr>) = Request_Offset req"
  "Request_Offset (req \<lparr> rq_phys := x1 \<rparr>) = Request_Offset req"
  "Request_Offset (req \<lparr> rq_router := x2 \<rparr>) = Request_Offset req"
  "Request_Offset (req \<lparr> rq_result := x3 \<rparr>) = Request_Offset req"
  "Request_Offset (req \<lparr> rq_ref_count := x4 \<rparr>) = Request_Offset req"
  "Request_Offset (req \<lparr> rq_resp := x5 \<rparr>) = Request_Offset req"
  "Request_Offset (req \<lparr> rq_done := x6 \<rparr>) = Request_Offset req"
  "Request_Offset (req \<lparr> rq_put := x7 \<rparr>) = Request_Offset req"
  by (simp_all add: Request_Offset_def split: request_type.split)

lemma Request_Size_frame [simp]:
  "Request_Size (req \<lparr> rq_io_unit := x0 \<rparr>) = Request_Size req"
  "Request_Size (req \<lparr> rq_phys := x1 \<rparr>) = Request_Size req"
  "Request_Size (req \<lparr> rq_router := x2 \<rparr>) = Request_Size req"
  "Request_Size (req \<lparr> rq_result := x3 \<rparr>) = Request_Size req"
  "Request_Size (req \<lparr> rq_ref_count := x4 \<rparr>) = Request_Size req"
  "Request_Size (req \<lparr> rq_resp := x5 \<rparr>) = Request_Size req"
  "Request_Size (req \<lparr> rq_done := x6 \<rparr>) = Request_Size req"
  "Request_Size (req \<lparr> rq_put := x7 \<rparr>) = Request_Size req"
  by (simp_all add: Request_Size_def split: request_type.split)

lemma QueryRouter_cached:
  "QueryRouter remote cache eid = (Some r, cache') \<Longrightarrow> cache' eid = Some r \<and> (\<forall>e. e \<noteq> eid \<longrightarrow> cache' e = cache e)"
  by (auto simp: QueryRouter_def split: option.splits)

lemma QueryRouter_again:
  "QueryRouter remote cache eid = (Some r, cache') \<Longrightarrow> QueryRouter remote' cache' eid = (Some r, cache')"
  using QueryRouter_cached[of remote cache eid r cache'] by (simp add: QueryRouter_def)

end
