(* ===== verification/Storage_Engine.thy ===== *)
theory Storage_Engine
  imports Extent_Location Es_Request
begin

text \<open>
  The data path of an extent server: \<open>StorageEngine\<close> (safety checks, then replication,
  then the local device), \<open>ReplicateEngine\<close>, \<open>BareEngine\<close>, the device worker and the
  completion callbacks of the I/O service (\<open>src/src/extentserver/storage_engine.cpp\<close>,
  \<open>replicate_engine.cpp\<close>, \<open>bare_engine.cpp\<close>, \<open>spdk_worker.cpp\<close>,
  \<open>extent_io_service.cpp\<close>).

  What the server cannot decide itself is the record \<open>es_env\<close>: the checksum function, the
  replies of the extent manager, which peers can be connected, the random start of the
  allocator, whether the device queue takes the request and whether the device accepts
  it, the content a pooled I/O buffer has from its last use, and the bytes a failed write
  leaves on the device. The device is a function from byte addresses to bytes.
\<close>

section \<open>Data\<close>

datatype engine_type = kHddEngine | kSsdEngine | kNVMeEngine | kInvalidEngine
datatype replication_type = kStandardReplication | kStarReplication | kInvalidReplication

record es_state =
  se_engine_type :: engine_type
  se_replication :: replication_type
  se_align_size :: nat
  se_extent_size :: nat
  se_log_engine :: bool
  se_routers :: router_cache
  se_locs :: location_mgr
  se_ip :: string
  se_port :: int
  se_dev :: "nat \<Rightarrow> char"

record es_env =
  env_crc :: "string \<Rightarrow> 32 word"
  env_remote :: "string \<Rightarrow> extent_router rpc"
  env_conn :: "es_instance \<Rightarrow> bool"
  env_rnd :: nat
  env_enqueue :: bool
  env_submit :: bool
  env_buf :: string
  env_torn :: "nat \<Rightarrow> char"

definition engine_of :: "string \<Rightarrow> engine_type" where
  "engine_of device_type =
     (if device_type = ''hdd'' then kHddEngine
      else if device_type = ''ssd'' then kSsdEngine
      else if device_type = ''nvme'' then kNVMeEngine
      else kInvalidEngine)"

definition replication_of :: "string \<Rightarrow> replication_type" where
  "replication_of replication_type =
     (if replication_type = ''standard'' then kStandardReplication
      else if replication_type = ''star'' then kStarReplication
      else kInvalidReplication)"

text \<open>The constructor and \<open>SetExtentSize\<close>.\<close>

definition StorageEngine :: "es_state \<Rightarrow> string \<Rightarrow> string \<Rightarrow> es_state" where
  "StorageEngine st device_type replication_type =
     st \<lparr> se_engine_type := engine_of device_type, se_replication := replication_of replication_type,
          se_align_size := kAlignSize, se_extent_size := 0, se_log_engine := False \<rparr>"

definition SetExtentSize :: "es_state \<Rightarrow> nat \<Rightarrow> es_state" where
  "SetExtentSize st extent_size =
     st \<lparr> se_extent_size := extent_size, se_locs := (se_locs st) \<lparr> lm_extent_size := extent_size \<rparr> \<rparr>"

section \<open>Completion callbacks of the I/O service\<close>

definition respond :: "request \<Rightarrow> string \<Rightarrow> request" where
  "respond req err =
     (if \<not> rq_result req
      then req \<lparr> rq_resp := (rq_resp req) \<lparr> resp_code := CYPRE_ES_PROCESS_REQ_ERROR, resp_message := err \<rparr> \<rparr>
      else req \<lparr> rq_resp := (rq_resp req) \<lparr> resp_code := CYPRE_OK \<rparr> \<rparr>)"

definition run_done :: "request \<Rightarrow> request" where
  "run_done req = req \<lparr> rq_done := rq_done req + 1 \<rparr>"

text \<open>\<open>WriteDone\<close>: only the last of the local and the replica completions answers.\<close>

definition WriteDone :: "request \<Rightarrow> request" where
  "WriteDone req =
     (let (old, req) = FetchAndSubRef req in
      if old \<noteq> 1 then req
      else run_done (PutRequest (respond req ''write io error'')))"

definition ReplicateDone :: "request \<Rightarrow> request" where
  "ReplicateDone req = run_done (PutRequest (respond req ''replicate io error''))"

definition DeleteDone :: "request \<Rightarrow> request" where
  "DeleteDone req = run_done (PutRequest (respond req ''delete error''))"

definition ScrubDone :: "es_env \<Rightarrow> request \<Rightarrow> request" where
  "ScrubDone env req =
     (let req' = respond req ''scrub error'';
          req'' = (if rq_result req
                   then (case rq_io_unit req of
                           None \<Rightarrow> req'
                         | Some data \<Rightarrow> req' \<lparr> rq_resp := (rq_resp req') \<lparr> resp_crc32 := Some (unat (env_crc env data)) \<rparr> \<rparr>)
                   else req')
      in run_done (PutRequest req''))"

text \<open>\<open>ReadDone\<close>: a buffer that goes out with the response is given back, with the
  request, by \<open>ReclaimIOUnit\<close> once the response is sent.\<close>

definition ReadDone :: "request \<Rightarrow> request" where
  "ReadDone req =
     (let req' = respond req ''read io error'' in
      if rq_result req then
        (case rq_io_unit req of
           Some data \<Rightarrow>
             run_done (req' \<lparr> rq_resp := (rq_resp req') \<lparr> resp_attachment :=
                 resp_attachment (rq_resp req) @ take (Request_Size req) data \<rparr> \<rparr>)
         | None \<Rightarrow> run_done (PutRequest req'))
      else run_done (PutRequest req'))"

definition ReclaimIOUnit :: "request \<Rightarrow> request" where
  "ReclaimIOUnit req = PutRequest req"

definition user_callback :: "es_env \<Rightarrow> request \<Rightarrow> request" where
  "user_callback env req =
     (case rq_type req of
        kTypeRead \<Rightarrow> ReadDone req
      | kTypeWrite \<Rightarrow> WriteDone req
      | kTypeReplicate \<Rightarrow> ReplicateDone req
      | kTypeScrub \<Rightarrow> ScrubDone env req
      | kTypeDelete \<Rightarrow> DeleteDone req
      | _ \<Rightarrow> req)"

section \<open>ReplicateEngine\<close>

text \<open>The loop of \<open>Send\<close>: after the first peer without a connection the remaining ones are
  only counted down. The third component collects the peers a message went to.\<close>

fun send_loop :: "(es_instance \<Rightarrow> bool) \<Rightarrow> request \<Rightarrow> bool \<Rightarrow> es_instance list \<Rightarrow> es_instance list
    \<Rightarrow> request \<times> bool \<times> es_instance list" where
  "send_loop conn req failed sent [] = (req, failed, sent)"
| "send_loop conn req failed sent (s # ss) =
     (if failed then send_loop conn (WriteDone req) failed sent ss
      else if \<not> conn s then send_loop conn (WriteDone (SetResult req False)) True sent ss
      else send_loop conn req failed (sent @ [s]) ss)"

definition ReplicateEngine_Send :: "es_env \<Rightarrow> request \<Rightarrow> extent_router \<Rightarrow> status \<times> request \<times> es_instance list" where
  "ReplicateEngine_Send env req router =
     (let req = SetRefCount req (1 + int (length (er_secondaries router)));
          (req, failed, sent) = send_loop (env_conn env) req False [] (er_secondaries router)
      in if failed then (Status CYPRE_ES_REPLICATE_PART_FAIL ''replicate partial error'', req, sent)
         else (Status_OK, req, sent))"

text \<open>The message a secondary gets.\<close>

definition sendOneReplicate :: "request \<Rightarrow> pb_msg" where
  "sendOneReplicate req =
     \<lparr> msg_extent_id = ExtentID req, msg_offset = Request_Offset req, msg_size = Request_Size req,
       msg_crc32 = msg_crc32 (rq_msg req), msg_attachment = msg_attachment (rq_msg req) \<rparr>"

text \<open>\<open>HandleResponse\<close>: the reply of a secondary, \<open>None\<close> when the call failed.\<close>

definition HandleResponse :: "request \<Rightarrow> int option \<Rightarrow> request" where
  "HandleResponse req reply = WriteDone (SetResult req (reply = Some 0))"

section \<open>BareEngine\<close>

text \<open>\<open>SpdkMgr::ProcessRequest\<close>: the request is put into the queue of the workers.\<close>

definition bdev_ProcessRequest :: "es_env \<Rightarrow> status" where
  "bdev_ProcessRequest env =
     (if env_enqueue env then Status_OK else Status CYPRE_ES_RTE_RING_FULL ''couldn't submit request'')"

definition query_location :: "es_env \<Rightarrow> es_state \<Rightarrow> request \<Rightarrow> bool \<Rightarrow> (status \<times> request \<times> es_state) option" where
  "query_location env st req alloc =
     (case QueryLocation (env_crc env) (se_locs st) (env_rnd env) (ExtentID req) (Request_Offset req) alloc of
        None \<Rightarrow> None
      | Some (s, phys, locs) \<Rightarrow>
          Some (s, (case phys of None \<Rightarrow> req | Some p \<Rightarrow> req \<lparr> rq_phys := p \<rparr>), st \<lparr> se_locs := locs \<rparr>))"

definition handleRead :: "es_env \<Rightarrow> es_state \<Rightarrow> request \<Rightarrow> (status \<times> request \<times> es_state) option" where
  "handleRead env st req =
     (case query_location env st req False of
        None \<Rightarrow> None
      | Some (s, req, st) \<Rightarrow>
          if \<not> st_ok s then Some (Status CYPRE_ES_EXTENT_EMPTY ''extent empty'', SetEmptyResponse req, st)
          else Some (bdev_ProcessRequest env, req, st))"

definition handleWrite :: "es_env \<Rightarrow> es_state \<Rightarrow> request \<Rightarrow> (status \<times> request \<times> es_state) option" where
  "handleWrite env st req =
     (case query_location env st req True of
        None \<Rightarrow> None
      | Some (s, req, st) \<Rightarrow>
          if \<not> st_ok s then Some (s, req, st) else Some (bdev_ProcessRequest env, req, st))"

definition handleDelete :: "es_env \<Rightarrow> es_state \<Rightarrow> request \<Rightarrow> (status \<times> request \<times> es_state) option" where
  "handleDelete env st req =
     (case query_location env st req False of
        None \<Rightarrow> None
      | Some (s, req, st) \<Rightarrow>
          if \<not> st_ok s then Some (s, req, st) else Some (bdev_ProcessRequest env, req, st))"

definition handleScrub :: "es_env \<Rightarrow> es_state \<Rightarrow> request \<Rightarrow> (status \<times> request \<times> es_state) option" where
  "handleScrub env st req =
     (case query_location env st req False of
        None \<Rightarrow> None
      | Some (s, req, st) \<Rightarrow>
          if \<not> st_ok s then Some (s, req, st) else Some (bdev_ProcessRequest env, req, st))"

definition handleReclaimExtent :: "es_state \<Rightarrow> request \<Rightarrow> (status \<times> request \<times> es_state) option" where
  "handleReclaimExtent st req =
     (let st = st \<lparr> se_routers := DeleteRouter (se_routers st) (ExtentID req) \<rparr> in
      case ReclaimExtent (se_locs st) (ExtentID req) of
        None \<Rightarrow> None
      | Some (s, locs) \<Rightarrow> Some (s, req, st \<lparr> se_locs := locs \<rparr>))"

definition BareEngine_ProcessRequest ::
    "es_env \<Rightarrow> es_state \<Rightarrow> request \<Rightarrow> (status \<times> request \<times> es_state) option" where
  "BareEngine_ProcessRequest env st req =
     (case rq_type req of
        kTypeRead \<Rightarrow> handleRead env st req
      | kTypeWrite \<Rightarrow> handleWrite env st req
      | kTypeReplicate \<Rightarrow> handleWrite env st req
      | kTypeDelete \<Rightarrow> handleDelete env st req
      | kTypeScrub \<Rightarrow> handleScrub env st req
      | kTypeReclaimExtent \<Rightarrow> handleReclaimExtent st req
      | _ \<Rightarrow> Some (Status CYPRE_ER_NOT_SUPPORTED ''invalid request type'', req, st))"

section \<open>StorageEngine\<close>

definition StorageEngine_queryRouter :: "es_env \<Rightarrow> es_state \<Rightarrow> request \<Rightarrow> status \<times> request \<times> es_state" where
  "StorageEngine_queryRouter env st req =
     (if rq_type req = kTypeDelete \<or> rq_type req = kTypeReclaimExtent then (Status_OK, req, st)
      else case QueryRouter (env_remote env) (se_routers st) (ExtentID req) of
             (None, cache) \<Rightarrow> (Status CYPRE_ES_QUERY_ROUTER_FAIL ''couldn't get extent router'', req, st \<lparr> se_routers := cache \<rparr>)
           | (Some r, cache) \<Rightarrow> (Status_OK, req \<lparr> rq_router := Some r \<rparr>, st \<lparr> se_routers := cache \<rparr>))"

text \<open>\<open>req->Offset() + req->Size()\<close> is 64-bit arithmetic.\<close>

definition checkParameters :: "es_state \<Rightarrow> request \<Rightarrow> status" where
  "checkParameters st req =
     (if ExtentID req = [] then Status CYPRE_ER_INVALID_ARGUMENT ''extent_id empty''
      else if Request_Offset req mod se_align_size st \<noteq> 0
           then Status CYPRE_ER_INVALID_ARGUMENT ''offset not align with 4k''
      else if Request_Size req mod se_align_size st \<noteq> 0
           then Status CYPRE_ER_INVALID_ARGUMENT ''len not align with 4k''
      else if u64_add (Request_Offset req) (Request_Size req) > se_extent_size st
           then Status CYPRE_ER_INVALID_ARGUMENT ''(offset + len) exceeds extent size''
      else Status_OK)"

definition check_writer :: "es_state \<Rightarrow> extent_router \<Rightarrow> status" where
  "check_writer st r =
     (if se_replication st = kStandardReplication \<and> \<not> IsPrimary r (se_ip st) (se_port st)
      then Status CYPRE_ER_NO_PERMISSION ''ilegal node, not primary''
      else if se_replication st = kStarReplication \<and> \<not> IsValid r (se_ip st) (se_port st)
      then Status CYPRE_ER_NO_PERMISSION ''ilegal node, not primary or secondary''
      else Status_OK)"

text \<open>The case of reads falls through into the case of writes. \<open>None\<close>: no router was set.\<close>

definition checkOwnership :: "es_state \<Rightarrow> request \<Rightarrow> status option" where
  "checkOwnership st req =
     (case rq_type req of
        kTypeRead \<Rightarrow>
          (case rq_router req of
             None \<Rightarrow> None
           | Some r \<Rightarrow>
               if \<not> IsPrimary r (se_ip st) (se_port st)
               then Some (Status CYPRE_ER_NO_PERMISSION ''ilegal node, not primary'')
               else Some (check_writer st r))
      | kTypeWrite \<Rightarrow> map_option (check_writer st) (rq_router req)
      | kTypeReplicate \<Rightarrow>
          map_option (\<lambda>r. if \<not> IsSecondary r (se_ip st) (se_port st)
             then Status CYPRE_ER_NO_PERMISSION ''ilegal node, not secondary'' else Status_OK) (rq_router req)
      | kTypeScrub \<Rightarrow>
          map_option (\<lambda>r. if \<not> IsValid r (se_ip st) (se_port st)
             then Status CYPRE_ER_NO_PERMISSION ''illegal node, not primary or secondary'' else Status_OK) (rq_router req)
      | kTypeReclaimExtent \<Rightarrow> Some Status_OK
      | kTypeDelete \<Rightarrow> Some Status_OK
      | kTypeNoop \<Rightarrow> Some (Status CYPRE_ER_INVALID_ARGUMENT ''invalid cmd type''))"

definition checkChecksum :: "es_env \<Rightarrow> request \<Rightarrow> status" where
  "checkChecksum env req =
     (if rq_type req = kTypeWrite \<or> rq_type req = kTypeReplicate then
        (case msg_crc32 (rq_msg req) of
           None \<Rightarrow> Status_OK
         | Some crc32 \<Rightarrow>
             if unat (env_crc env (msg_attachment (rq_msg req))) = crc32 then Status_OK
             else Status CYPRE_ES_CHECKSUM_ERROR ''crc32 value not equal to data checksum'')
      else Status_OK)"

definition doSafetyCheck :: "es_env \<Rightarrow> es_state \<Rightarrow> request \<Rightarrow> (status \<times> request \<times> es_state) option" where
  "doSafetyCheck env st req =
     (let (s, req, st) = StorageEngine_queryRouter env st req in
      if \<not> st_ok s then Some (s, req, st)
      else let s = checkParameters st req in
        if \<not> st_ok s then Some (s, req, st)
        else case checkOwnership st req of
               None \<Rightarrow> None
             | Some s \<Rightarrow>
                 if \<not> st_ok s then Some (s, req, st)
                 else Some (checkChecksum env req, req, st))"

definition doReplicate :: "es_env \<Rightarrow> es_state \<Rightarrow> request \<Rightarrow> (status \<times> request \<times> es_instance list) option" where
  "doReplicate env st req =
     (if se_replication st = kStarReplication then Some (Status_OK, req, [])
      else if rq_type req \<noteq> kTypeWrite then Some (Status_OK, req, [])
      else map_option (ReplicateEngine_Send env req) (rq_router req))"

definition StorageEngine_ProcessRequest ::
    "es_env \<Rightarrow> es_state \<Rightarrow> request \<Rightarrow> (status \<times> request \<times> es_state \<times> es_instance list) option" where
  "StorageEngine_ProcessRequest env st req =
     (case doSafetyCheck env st req of
        None \<Rightarrow> None
      | Some (s, req, st) \<Rightarrow>
          if \<not> st_ok s then Some (s, req, st, [])
          else (case doReplicate env st req of
                  None \<Rightarrow> None
                | Some (s, req, sent) \<Rightarrow>
                    if \<not> st_ok s then Some (s, req, st, sent)
                    else if \<not> se_log_engine st
                    then map_option (\<lambda>(s, req, st). (s, req, st, sent)) (BareEngine_ProcessRequest env st req)
                    else Some (Status_OK, req, st, sent)))"

section \<open>The device worker\<close>

definition dev_read :: "(nat \<Rightarrow> char) \<Rightarrow> nat \<Rightarrow> nat \<Rightarrow> string" where
  "dev_read dev off n = map dev [off..<off + n]"

definition dev_write :: "(nat \<Rightarrow> char) \<Rightarrow> nat \<Rightarrow> string \<Rightarrow> nat \<Rightarrow> char" where
  "dev_write dev off bytes = (\<lambda>a. if off \<le> a \<and> a < off + length bytes then bytes ! (a - off) else dev a)"

definition dev_torn :: "(nat \<Rightarrow> char) \<Rightarrow> nat \<Rightarrow> nat \<Rightarrow> (nat \<Rightarrow> char) \<Rightarrow> nat \<Rightarrow> char" where
  "dev_torn dev off n torn = (\<lambda>a. if off \<le> a \<and> a < off + n then torn a else dev a)"

text \<open>\<open>worker_callback\<close>.\<close>

definition worker_callback :: "es_env \<Rightarrow> bool \<Rightarrow> request \<Rightarrow> request" where
  "worker_callback env success req = user_callback env (SetResult req success)"

definition doRead :: "es_env \<Rightarrow> es_state \<Rightarrow> request \<Rightarrow> bool \<Rightarrow> request \<times> es_state" where
  "doRead env st req success =
     (if \<not> env_submit env then (user_callback env (SetResult req False), st)
      else let req = (if success then req \<lparr> rq_io_unit := Some (dev_read (se_dev st) (rq_phys req) (Request_Size req)) \<rparr> else req)
           in (worker_callback env success req, st))"

text \<open>\<open>copy_to\<close> copies at most the attachment into the buffer.\<close>

definition copy_to :: "string \<Rightarrow> string \<Rightarrow> nat \<Rightarrow> string" where
  "copy_to attachment buf n = take n attachment @ drop (length (take n attachment)) buf"

definition doWrite :: "es_env \<Rightarrow> es_state \<Rightarrow> request \<Rightarrow> bool \<Rightarrow> request \<times> es_state" where
  "doWrite env st req success =
     (let data = copy_to (msg_attachment (rq_msg req)) (case rq_io_unit req of None \<Rightarrow> [] | Some b \<Rightarrow> b) (Request_Size req);
          req = req \<lparr> rq_io_unit := Some data \<rparr>
      in if \<not> env_submit env then (user_callback env (SetResult req False), st)
         else (worker_callback env success req,
               st \<lparr> se_dev := (if success then dev_write (se_dev st) (rq_phys req) (take (Request_Size req) data)
                              else dev_torn (se_dev st) (rq_phys req) (Request_Size req) (env_torn env)) \<rparr>))"

definition doDelete :: "es_env \<Rightarrow> es_state \<Rightarrow> request \<Rightarrow> bool \<Rightarrow> request \<times> es_state" where
  "doDelete env st req success =
     (if \<not> env_submit env then (user_callback env (SetResult req False), st)
      else (worker_callback env success req,
            st \<lparr> se_dev := (if success then dev_write (se_dev st) (rq_phys req) (replicate (Request_Size req) (char_of (0 :: nat)))
                           else dev_torn (se_dev st) (rq_phys req) (Request_Size req) (env_torn env)) \<rparr>))"

text \<open>One turn of the loop of \<open>SpdkWorker::run\<close>: a buffer is attached and the request handed
  to the device; \<open>success\<close> is what the device reports.\<close>

definition worker_step :: "es_env \<Rightarrow> es_state \<Rightarrow> request \<Rightarrow> bool \<Rightarrow> request \<times> es_state" where
  "worker_step env st req success =
     (let req = req \<lparr> rq_io_unit := Some (env_buf env) \<rparr> in
      case rq_type req of
        kTypeRead \<Rightarrow> doRead env st req success
      | kTypeScrub \<Rightarrow> doRead env st req success
      | kTypeWrite \<Rightarrow> doWrite env st req success
      | kTypeReplicate \<Rightarrow> doWrite env st req success
      | kTypeDelete \<Rightarrow> doDelete env st req success
      | _ \<Rightarrow> (req, st))"

end
