(* ===== verification/Extent_Io_Service.thy ===== *)
theory Extent_Io_Service
  imports Storage_Engine
begin

text \<open>
  The calls of the extent server (\<open>src/src/extentserver/extent_io_service.cpp\<close> and
  \<open>extent_control_service.cpp\<close>) and what they guarantee: a write is answered exactly
  once, after its last completion and with the right code, in whatever order the local
  device and the secondaries complete; accepted requests stay inside their extent; reads
  return what was written. A call returns the request, the state, the secondaries a
  message was sent to and whether a local I/O is pending; the completions that follow
  are a list of events.
\<close>

section \<open>Calls\<close>

definition fresh_response :: es_response where
  "fresh_response = \<lparr> resp_code = 0, resp_message = [], resp_crc32 = None, resp_attachment = [] \<rparr>"

definition no_request :: "request \<Rightarrow> pb_msg \<Rightarrow> string \<Rightarrow> request" where
  "no_request unit msg err =
     run_done (unit \<lparr> rq_msg := msg, rq_done := 0, rq_put := 0, rq_resp := fresh_response \<lparr>
        resp_code := CYPRE_ES_GET_REQ_UNIT_FAIL, resp_message := err \<rparr> \<rparr>)"

text \<open>The common frame of the asynchronous calls: take a request, run the storage engine, and
  on an error finish the request with \<open>on_error\<close>.\<close>

definition start_call :: "es_env \<Rightarrow> bool \<Rightarrow> request \<Rightarrow> es_state \<Rightarrow> request_type \<Rightarrow> pb_msg
    \<Rightarrow> (status \<Rightarrow> request \<Rightarrow> request) \<Rightarrow> (request \<times> es_state \<times> es_instance list \<times> bool) option" where
  "start_call env avail unit st t msg on_error =
     (case GetRequest avail unit t of
        None \<Rightarrow> Some (no_request unit msg ''get request unit fail'', st, [], False)
      | Some req \<Rightarrow>
          let req = SetOperationContext req msg fresh_response in
          (case StorageEngine_ProcessRequest env st req of
             None \<Rightarrow> None
           | Some (s, req, st, sent) \<Rightarrow>
               if st_ok s then Some (req, st, sent, True)
               else Some (on_error s req, st, sent, False)))"

definition IoService_Read where
  "IoService_Read env avail unit st msg = start_call env avail unit st kTypeRead msg
     (\<lambda>s req. ReadDone (SetResult req (Status_IsEmpty s)))"

definition IoService_Write where
  "IoService_Write env avail unit st msg = start_call env avail unit st kTypeWrite msg
     (\<lambda>s req. WriteDone (SetResult req False))"

definition IoService_Delete where
  "IoService_Delete env avail unit st msg = start_call env avail unit st kTypeDelete msg
     (\<lambda>s req. DeleteDone (SetResult req False))"

definition IoService_Replicate where
  "IoService_Replicate env avail unit st msg = start_call env avail unit st kTypeReplicate msg
     (\<lambda>s req. ReplicateDone (SetResult req False))"

definition IoService_Scrub where
  "IoService_Scrub env avail unit st msg = start_call env avail unit st kTypeScrub msg
     (\<lambda>s req. ScrubDone env (SetResult req False))"

text \<open>The reclaim call is synchronous and answers with the message of the status.\<close>

definition ControlService_ReclaimExtent ::
    "es_env \<Rightarrow> bool \<Rightarrow> request \<Rightarrow> es_state \<Rightarrow> pb_msg \<Rightarrow> (es_response \<times> es_state) option" where
  "ControlService_ReclaimExtent env avail unit st msg =
     (case GetRequest avail unit kTypeReclaimExtent of
        None \<Rightarrow> Some (fresh_response \<lparr> resp_code := CYPRE_ES_GET_REQ_UNIT_FAIL, resp_message := ''internal io error'' \<rparr>, st)
      | Some req \<Rightarrow>
          let req = SetOperationContext req msg fresh_response in
          (case StorageEngine_ProcessRequest env st req of
             None \<Rightarrow> None
           | Some (s, req, st, _) \<Rightarrow>
               if \<not> st_ok s
               then Some (fresh_response \<lparr> resp_code := CYPRE_ES_PROCESS_REQ_ERROR, resp_message := ToString s \<rparr>, st)
               else Some (fresh_response \<lparr> resp_code := CYPRE_OK \<rparr>, st)))"

section \<open>Completions\<close>

text \<open>The local device finished the request, or a secondary answered (\<open>None\<close>: the call
  failed).\<close>

datatype completion = Local bool | Replica "int option"

fun completed_ok :: "es_env \<Rightarrow> completion \<Rightarrow> bool" where
  "completed_ok env (Local success) \<longleftrightarrow> env_submit env \<and> success"
| "completed_ok env (Replica reply) \<longleftrightarrow> reply = Some 0"

fun complete :: "es_env \<Rightarrow> request \<times> es_state \<Rightarrow> completion \<Rightarrow> request \<times> es_state" where
  "complete env (req, st) (Local success) = worker_step env st req success"
| "complete env (req, st) (Replica reply) = (HandleResponse req reply, st)"

text \<open>The completions a call waits for, in any order: one of the local device when an I/O is
  pending, and one for each secondary a message was sent to.\<close>

fun is_local :: "completion \<Rightarrow> bool" where
  "is_local (Local success) = True"
| "is_local (Replica reply) = False"

definition expected :: "es_instance list \<Rightarrow> bool \<Rightarrow> completion list \<Rightarrow> bool" where
  "expected sent pending cs \<longleftrightarrow>
     length (filter is_local cs) = (if pending then 1 else 0) \<and>
     length (filter (\<lambda>c. \<not> is_local c) cs) = length sent"

section \<open>The invariant of the server and the contents of an extent\<close>

definition se_wf :: "(string \<Rightarrow> 32 word) \<Rightarrow> es_state \<Rightarrow> bool" where
  "se_wf crc st \<longleftrightarrow>
     loc_inv crc (se_locs st) \<and> lm_extent_size (se_locs st) = se_extent_size st \<and>
     se_extent_size st < 2 ^ 64 \<and> se_align_size st = kAlignSize \<and> \<not> se_log_engine st \<and>
     (\<forall>eid l. lm_map (se_locs st) eid = Some l \<longrightarrow> se_extent_size st \<le> loc_size l)"

text \<open>The byte at a position of an extent, as a read sees it: zero when the extent has no
  location.\<close>

definition extent_byte :: "es_state \<Rightarrow> string \<Rightarrow> nat \<Rightarrow> char" where
  "extent_byte st eid i =
     (case lm_map (se_locs st) eid of
        None \<Rightarrow> char_of (0 :: nat)
      | Some l \<Rightarrow> se_dev st (loc_offset l + i))"

text \<open>All local operations but the reclaim query the location and then queue the request.\<close>

definition io_type :: "request_type \<Rightarrow> bool" where
  "io_type t \<longleftrightarrow> t \<noteq> kTypeReclaimExtent \<and> t \<noteq> kTypeNoop"

text \<open>A write that waits for \<open>k\<close> completions.\<close>

definition waiting :: "request \<Rightarrow> nat \<Rightarrow> bool \<Rightarrow> bool" where
  "waiting req k res \<longleftrightarrow> rq_type req = kTypeWrite \<and> rq_ref_count req = int k \<and> rq_done req = 0 \<and>
     rq_put req = 0 \<and> rq_result req = res"

text \<open>A write that was answered.\<close>

definition answered :: "request \<Rightarrow> bool \<Rightarrow> bool" where
  "answered req res \<longleftrightarrow> rq_done req = 1 \<and> rq_put req = 1 \<and>
     resp_code (rq_resp req) = (if res then CYPRE_OK else CYPRE_ES_PROCESS_REQ_ERROR)"

section \<open>Completion of writes\<close>

lemma WriteDone_more: "rq_ref_count req \<noteq> 1 \<Longrightarrow> WriteDone req = req \<lparr> rq_ref_count := rq_ref_count req - 1 \<rparr>"
  by (simp add: WriteDone_def FetchAndSubRef_def)

lemma WriteDone_last:
  assumes "rq_ref_count req = 1"
  shows "rq_done (WriteDone req) = rq_done req + 1" "rq_put (WriteDone req) = rq_put req + 1"
    "resp_code (rq_resp (WriteDone req)) = (if rq_result req then CYPRE_OK else CYPRE_ES_PROCESS_REQ_ERROR)"
  using assms by (auto simp: WriteDone_def FetchAndSubRef_def run_done_def PutRequest_def respond_def Request_Reset_def)

lemma WriteDone_waiting:
  assumes "waiting req (Suc k) res"
  shows "if k = 0 then answered (WriteDone (SetResult req ok)) (res \<and> ok)
     else waiting (WriteDone (SetResult req ok)) k (res \<and> ok)"
proof (cases "k = 0")
  case True
  then show ?thesis
    using assms WriteDone_last[of "SetResult req ok"] by (simp add: waiting_def answered_def SetResult_def)
next
  case False
  then show ?thesis
    using assms WriteDone_more[of "SetResult req ok"] by (simp add: waiting_def SetResult_def)
qed

lemma worker_step_write:
  assumes "rq_type req = kTypeWrite"
  shows "\<exists>req' st'. worker_step env st req success = (WriteDone (SetResult req' (completed_ok env (Local success))), st') \<and>
     (\<forall>k res. waiting req k res \<longrightarrow> waiting req' k res)"
proof -
  let ?data = "copy_to (msg_attachment (rq_msg req)) (env_buf env) (Request_Size req)"
  let ?req = "req \<lparr> rq_io_unit := Some ?data \<rparr>"
  have "fst (worker_step env st req success) = WriteDone (SetResult ?req (completed_ok env (Local success)))"
    using assms by (simp add: worker_step_def doWrite_def worker_callback_def user_callback_def SetResult_def Let_def)
  moreover have "waiting ?req k res \<longleftrightarrow> waiting req k res" for k res by (simp add: waiting_def)
  ultimately show ?thesis by (intro exI[of _ ?req] exI[of _ "snd (worker_step env st req success)"]) (auto simp: prod_eq_iff)
qed

lemma complete_step:
  assumes "waiting req (Suc k) res" "complete env (req, st) c = (req', st')"
  shows "if k = 0 then answered req' (res \<and> completed_ok env c) else waiting req' k (res \<and> completed_ok env c)"
proof (cases c)
  case (Local success)
  have "rq_type req = kTypeWrite" using assms(1) by (simp add: waiting_def)
  from worker_step_write[OF this, of env st success] obtain r st'' where
    r: "worker_step env st req success = (WriteDone (SetResult r (completed_ok env c)), st'')"
    "\<forall>k res. waiting req k res \<longrightarrow> waiting r k res" using Local by auto
  then have "waiting r (Suc k) res" "req' = WriteDone (SetResult r (completed_ok env c))"
    using assms Local by auto
  then show ?thesis using WriteDone_waiting by simp
next
  case (Replica reply)
  then have "req' = WriteDone (SetResult req (completed_ok env c))"
    using assms(2) by (simp add: HandleResponse_def)
  then show ?thesis using WriteDone_waiting[OF assms(1)] by simp
qed

lemma completions:
  assumes "waiting req (length cs) res" "cs \<noteq> []"
  shows "answered (fst (foldl (complete env) (req, st) cs)) (res \<and> list_all (completed_ok env) cs) \<and>
     (\<forall>n < length cs. rq_done (fst (foldl (complete env) (req, st) (take n cs))) = 0)"
  using assms
proof (induction cs arbitrary: req st res)
  case (Cons c cs)
  obtain req' st' where step: "complete env (req, st) c = (req', st')" by fastforce
  note s = complete_step[OF _ step, of "length cs" res]
  show ?case
  proof (cases "cs = []")
    case True
    then show ?thesis using s Cons.prems step by (auto simp: waiting_def)
  next
    case False
    then have "waiting req' (length cs) (res \<and> completed_ok env c)" using s Cons.prems by simp
    note IH = Cons.IH[OF this False, of st']
    have "rq_done (fst (foldl (complete env) (req, st) (take n (c # cs)))) = 0" if "n < length (c # cs)" for n
      using that IH step Cons.prems(1) by (cases n) (auto simp: waiting_def)
    then show ?thesis using IH step by simp
  qed
qed simp

section \<open>Sending to the secondaries\<close>

lemma send_loop_failed: "send_loop conn r True sent ss = (r', failed', sent') \<Longrightarrow> failed'"
  by (induction ss arbitrary: r sent) auto

lemma send_loop_waiting:
  assumes "waiting req (Suc (length sent + length ss)) res" "failed \<longrightarrow> \<not> res"
    "send_loop conn req failed sent ss = (req', failed', sent')"
  shows "waiting req' (Suc (length sent')) (res \<and> \<not> failed') \<and> rq_msg req' = rq_msg req \<and>
     set sent' \<subseteq> set sent \<union> set ss \<and> (\<not> failed' \<longrightarrow> sent' = sent @ ss)"
  using assms
proof (induction conn req failed sent ss arbitrary: res rule: send_loop.induct)
  case (1 conn req failed sent)
  then show ?case by auto
next
  case (2 conn req failed sent s ss)
  have more: "WriteDone r = r \<lparr> rq_ref_count := rq_ref_count r - 1 \<rparr>"
    if "waiting r (Suc (length sent + length (s # ss))) x" for r x
    using that by (intro WriteDone_more) (auto simp: waiting_def)
  consider "failed" | "\<not> failed" "\<not> conn s" | "\<not> failed" "conn s" by blast
  then show ?case
  proof cases
    case 1
    then have w: "waiting (WriteDone req) (Suc (length sent + length ss)) res"
      using more[OF 2(4)] 2(4) by (simp add: waiting_def)
    have loop: "send_loop conn (WriteDone req) failed sent ss = (req', failed', sent')" using 2(6) 1 by simp
    then have "failed'" using 1 send_loop_failed by simp
    moreover have "waiting req' (Suc (length sent')) (res \<and> \<not> failed') \<and> rq_msg req' = rq_msg (WriteDone req) \<and>
       set sent' \<subseteq> set sent \<union> set ss"
      using 2(1)[OF 1 w 2(5) loop] by blast
    ultimately show ?thesis using more[OF 2(4)] by auto
  next
    case c2: 2
    have w0: "waiting (SetResult req False) (Suc (length sent + length (s # ss))) False"
      using 2(4) by (simp add: waiting_def SetResult_def)
    then have w: "waiting (WriteDone (SetResult req False)) (Suc (length sent + length ss)) False"
      using more[OF w0] by (simp add: waiting_def)
    have "waiting req' (Suc (length sent')) (False \<and> \<not> failed') \<and> rq_msg req' = rq_msg (WriteDone (SetResult req False)) \<and>
       set sent' \<subseteq> set sent \<union> set ss \<and> (\<not> failed' \<longrightarrow> sent' = sent @ ss)"
      using 2(2)[OF c2 w] 2(6) c2 by auto
    moreover have "failed'" using 2(6) c2 send_loop_failed by (auto split: if_splits)
    ultimately show ?thesis using more[OF w0] by (auto simp: SetResult_def)
  next
    case c3: 3
    have w: "waiting req (Suc (length (sent @ [s]) + length ss)) res" using 2(4) by (simp add: waiting_def)
    show ?thesis using 2(3)[OF c3(1) _ w] 2(5,6) c3 by auto
  qed
qed

section \<open>The safety checks\<close>

lemma checkParameters_frame [simp]:
  "checkParameters (st \<lparr> se_routers := c \<rparr>) req = checkParameters st req"
  "checkParameters st (req \<lparr> rq_router := r \<rparr>) = checkParameters st req"
  by (simp_all add: checkParameters_def)

lemma checkChecksum_frame [simp]: "checkChecksum env (req \<lparr> rq_router := r \<rparr>) = checkChecksum env req"
  by (simp add: checkChecksum_def split: option.split)

text \<open>The checks look up the router and leave everything else alone; a request that passes
  has passed each of them.\<close>

lemma doSafetyCheck_spec:
  obtains s cache r where
    "doSafetyCheck env st req = Some (s, req \<lparr> rq_router := r \<rparr>, st \<lparr> se_routers := cache \<rparr>)"
    "st_ok s \<Longrightarrow> st_ok (checkParameters st req) \<and> st_ok (checkChecksum env req) \<and>
       (\<exists>s'. checkOwnership (st \<lparr> se_routers := cache \<rparr>) (req \<lparr> rq_router := r \<rparr>) = Some s' \<and> st_ok s') \<and>
       (rq_type req \<noteq> kTypeDelete \<longrightarrow> rq_type req \<noteq> kTypeReclaimExtent \<longrightarrow> r \<noteq> None)"
proof (cases "rq_type req = kTypeDelete \<or> rq_type req = kTypeReclaimExtent")
  case True
  then have own: "checkOwnership st req = Some Status_OK" by (auto simp: checkOwnership_def)
  have "req = req \<lparr> rq_router := rq_router req \<rparr>" "st = st \<lparr> se_routers := se_routers st \<rparr>" by simp_all
  then have eq: "doSafetyCheck env st req = Some (if st_ok (checkParameters st req) then checkChecksum env req else checkParameters st req,
      req \<lparr> rq_router := rq_router req \<rparr>, st \<lparr> se_routers := se_routers st \<rparr>)"
    using True own by (simp add: doSafetyCheck_def StorageEngine_queryRouter_def Let_def)
  show thesis by (rule that[OF eq]) (use own True in \<open>auto split: if_splits\<close>)
next
  case False
  obtain ro cache where q: "QueryRouter (env_remote env) (se_routers st) (ExtentID req) = (ro, cache)" by fastforce
  show thesis
  proof (cases ro)
    case None
    have "req = req \<lparr> rq_router := rq_router req \<rparr>" by simp
    then have eq: "doSafetyCheck env st req = Some (Status CYPRE_ES_QUERY_ROUTER_FAIL ''couldn't get extent router'',
        req \<lparr> rq_router := rq_router req \<rparr>, st \<lparr> se_routers := cache \<rparr>)"
      using False q None by (simp add: doSafetyCheck_def StorageEngine_queryRouter_def Let_def)
    show thesis by (rule that[OF eq]) simp
  next
    case (Some r)
    let ?req = "req \<lparr> rq_router := Some r \<rparr>" and ?st = "st \<lparr> se_routers := cache \<rparr>"
    have "\<exists>s'. checkOwnership ?st ?req = Some s'"
      by (cases "rq_type req") (auto simp: checkOwnership_def)
    then obtain s' where own: "checkOwnership ?st ?req = Some s'" by blast
    have eq: "doSafetyCheck env st req = Some (if st_ok (checkParameters st req)
          then if st_ok s' then checkChecksum env req else s' else checkParameters st req, ?req, ?st)"
      using False q Some own by (simp add: doSafetyCheck_def StorageEngine_queryRouter_def Let_def)
    show thesis by (rule that[OF eq]) (use own in \<open>auto split: if_splits\<close>)
  qed
qed

lemma waiting_frame [simp]:
  "waiting (req \<lparr> rq_router := r \<rparr>) k res = waiting req k res"
  "waiting (req \<lparr> rq_phys := p \<rparr>) k res = waiting req k res"
  by (simp_all add: waiting_def)

lemma doReplicate_spec:
  assumes "waiting req 1 True" "rq_router req \<noteq> None"
  obtains s req' sent where "doReplicate env st req = Some (s, req', sent)"
    "waiting req' (Suc (length sent)) (st_ok s)" "rq_msg req' = rq_msg req"
    "\<exists>r. rq_router req = Some r \<and> set sent \<subseteq> set (er_secondaries r) \<and>
       (st_ok s \<longrightarrow> sent = (if se_replication st = kStarReplication then [] else er_secondaries r))"
proof -
  obtain r where r: "rq_router req = Some r" using assms(2) by blast
  have t: "rq_type req = kTypeWrite" using assms(1) by (simp add: waiting_def)
  show thesis
  proof (cases "se_replication st = kStarReplication")
    case True
    then show thesis using that[of Status_OK req "[]"] assms r by (simp add: doReplicate_def)
  next
    case False
    let ?req = "SetRefCount req (1 + int (length (er_secondaries r)))"
    obtain req' failed sent where loop:
      "send_loop (env_conn env) ?req False [] (er_secondaries r) = (req', failed, sent)" by (metis prod_cases3)
    have "waiting ?req (Suc (length ([] :: es_instance list) + length (er_secondaries r))) True"
      using assms(1) by (simp add: waiting_def SetRefCount_def)
    from send_loop_waiting[OF this _ loop]
    have w: "waiting req' (Suc (length sent)) (\<not> failed)" "rq_msg req' = rq_msg req"
      "set sent \<subseteq> set (er_secondaries r)" "\<not> failed \<longrightarrow> sent = er_secondaries r"
      by (auto simp: SetRefCount_def)
    show thesis
      using that[of "if failed then Status CYPRE_ES_REPLICATE_PART_FAIL ''replicate partial error'' else Status_OK" req' sent]
        w r False t loop
      by (cases failed) (auto simp: doReplicate_def ReplicateEngine_Send_def Let_def)
  qed
qed

section \<open>The local engine\<close>

lemma se_wfD:
  assumes "se_wf crc st"
  shows "loc_inv crc (se_locs st)" "lm_extent_size (se_locs st) = se_extent_size st" "se_extent_size st < 2 ^ 64"
    "se_align_size st = kAlignSize" "\<not> se_log_engine st"
    "\<And>eid l. lm_map (se_locs st) eid = Some l \<Longrightarrow> se_extent_size st \<le> loc_size l"
  using assms by (auto simp: se_wf_def)

lemma query_location_spec:
  assumes wf: "se_wf (env_crc env) st" and len: "length (ExtentID req) < 2 ^ 30"
  obtains s p locs where
    "query_location env st req alloc = Some (s, req \<lparr> rq_phys := p \<rparr>, st \<lparr> se_locs := locs \<rparr>)"
    "se_wf (env_crc env) (st \<lparr> se_locs := locs \<rparr>)"
    "if st_ok s
     then \<exists>l. lm_map locs = (lm_map (se_locs st))(ExtentID req \<mapsto> l) \<and> p = u64_add (loc_offset l) (Request_Offset req) \<and>
              lm_map (se_locs st) (ExtentID req) \<in> {None, Some l} \<and>
              (lm_map (se_locs st) (ExtentID req) = None \<longrightarrow> alloc)
     else lm_map locs = lm_map (se_locs st) \<and> lm_map (se_locs st) (ExtentID req) = None"
proof -
  note W = se_wfD[OF wf]
  have sz: "lm_extent_size (se_locs st) < 2 ^ 64" using W(2,3) by simp
  obtain s phys locs where q:
    "QueryLocation (env_crc env) (se_locs st) (env_rnd env) (ExtentID req) (Request_Offset req) alloc = Some (s, phys, locs)"
    "loc_inv (env_crc env) locs" "lm_extent_size locs = lm_extent_size (se_locs st)"
    "if st_ok s
      then \<exists>l. lm_map locs = (lm_map (se_locs st))(ExtentID req \<mapsto> l) \<and> phys = Some (u64_add (loc_offset l) (Request_Offset req)) \<and>
               lm_map (se_locs st) (ExtentID req) \<in> {None, Some l} \<and>
               (lm_map (se_locs st) (ExtentID req) = None \<longrightarrow> alloc \<and> lm_extent_size (se_locs st) \<le> loc_size l)
      else phys = None \<and> lm_map locs = lm_map (se_locs st) \<and> lm_map (se_locs st) (ExtentID req) = None"
    using QueryLocation_spec[OF W(1) sz len, of "env_rnd env" "Request_Offset req" alloc] by blast
  show thesis
  proof (cases "st_ok s")
    case True
    then obtain l where l: "lm_map locs = (lm_map (se_locs st))(ExtentID req \<mapsto> l)"
      "phys = Some (u64_add (loc_offset l) (Request_Offset req))"
      "lm_map (se_locs st) (ExtentID req) \<in> {None, Some l}"
      "lm_map (se_locs st) (ExtentID req) = None \<longrightarrow> alloc \<and> lm_extent_size (se_locs st) \<le> loc_size l"
      using q(4) by auto
    have "se_extent_size st \<le> loc_size l'" if "lm_map locs e = Some l'" for e l'
      using that l W(2) W(6)[of e l'] by (cases "e = ExtentID req") auto
    then have "se_wf (env_crc env) (st \<lparr> se_locs := locs \<rparr>)" using W q(2,3) by (auto simp: se_wf_def)
    then show thesis using that[of s "u64_add (loc_offset l) (Request_Offset req)" locs] q(1) l True
      by (auto simp: query_location_def)
  next
    case False
    then have "phys = None" "lm_map locs = lm_map (se_locs st)" "lm_map (se_locs st) (ExtentID req) = None"
      using q(4) by auto
    moreover from this have "se_wf (env_crc env) (st \<lparr> se_locs := locs \<rparr>)" using W q(2,3) by (auto simp: se_wf_def)
    moreover have "req \<lparr> rq_phys := rq_phys req \<rparr> = req" by simp
    ultimately show thesis using that[of s "rq_phys req" locs] q(1) False by (simp add: query_location_def)
  qed
qed

lemma BareEngine_io:
  assumes "io_type (rq_type req)"
  shows "BareEngine_ProcessRequest env st req =
     (case query_location env st req (rq_type req = kTypeWrite \<or> rq_type req = kTypeReplicate) of
        None \<Rightarrow> None
      | Some (s, req', st') \<Rightarrow>
          if st_ok s then Some (bdev_ProcessRequest env, req', st')
          else if rq_type req = kTypeRead
          then Some (Status CYPRE_ES_EXTENT_EMPTY ''extent empty'', SetEmptyResponse req', st')
          else Some (s, req', st'))"
  using assms
  by (cases "rq_type req")
    (auto simp: io_type_def BareEngine_ProcessRequest_def handleRead_def handleWrite_def handleDelete_def handleScrub_def
      split: option.splits)

lemma checkParameters_ok:
  assumes "st_ok (checkParameters st req)" "Request_Offset req + Request_Size req < 2 ^ 64"
  shows "Request_Offset req + Request_Size req \<le> se_extent_size st" "ExtentID req \<noteq> []"
    "Request_Offset req mod se_align_size st = 0" "Request_Size req mod se_align_size st = 0"
  using assms by (auto simp: checkParameters_def u64_add_small split: if_splits)

text \<open>Where an accepted request lands on the device.\<close>

lemma location_bounds:
  assumes "se_wf crc st" "lm_map (se_locs st) eid = Some l" "off + n \<le> se_extent_size st"
  shows "u64_add (loc_offset l) off = loc_offset l + off" "off + n \<le> loc_size l"
    "region (loc_offset l + off) n \<subseteq> region (loc_offset l) (loc_size l)"
proof -
  note W = se_wfD[OF assms(1)]
  note I = loc_invD[OF W(1)]
  have "loc_table (lm_map (se_locs st)) eid = Some (loc_offset l, loc_size l)"
    using assms(2) by (simp add: loc_table_def)
  then have "loc_offset l + loc_size l < 2 ^ 64"
    using extents_okD(1)[OF I(5)] space_fits_bound(1)[OF I(1)] by blast
  moreover show le: "off + n \<le> loc_size l" using W(6)[OF assms(2)] assms(3) by simp
  ultimately show "u64_add (loc_offset l) off = loc_offset l + off" by (intro u64_add_small) simp
  show "region (loc_offset l + off) n \<subseteq> region (loc_offset l) (loc_size l)" using le by (auto simp: region_def)
qed

lemma se_wf_routers [simp]: "se_wf crc (st \<lparr> se_routers := c \<rparr>) = se_wf crc st"
  by (simp add: se_wf_def)

lemma doReplicate_frame:
  assumes "rq_router req \<noteq> None \<or> rq_type req \<noteq> kTypeWrite"
  obtains s req' sent where "doReplicate env st req = Some (s, req', sent)"
    "st_ok s \<Longrightarrow> req' = req \<lparr> rq_ref_count := rq_ref_count req' \<rparr>"
proof (cases "se_replication st = kStarReplication \<or> rq_type req \<noteq> kTypeWrite")
  case True
  then show thesis using that[of Status_OK req "[]"] by (auto simp: doReplicate_def)
next
  case False
  then obtain r where r: "rq_router req = Some r" using assms by blast
  let ?n = "1 + int (length (er_secondaries r))"
  obtain req' failed sent where loop:
    "send_loop (env_conn env) (SetRefCount req ?n) False [] (er_secondaries r) = (req', failed, sent)" by (metis prod_cases3)
  have same: "r' = r0" if "send_loop c r0 f s0 ss = (r', f', s')" "\<not> f'" "\<not> f" for c r0 f s0 ss r' f' s'
    using that
  proof (induction ss arbitrary: s0)
    case (Cons a ss)
    then show ?case by (auto split: if_splits dest: send_loop_failed)
  qed simp
  have "req' = req \<lparr> rq_ref_count := rq_ref_count req' \<rparr>" if "\<not> failed"
    using same[OF loop that] by (simp add: SetRefCount_def)
  then show thesis
    using that[of "if failed then Status CYPRE_ES_REPLICATE_PART_FAIL ''replicate partial error'' else Status_OK" req' sent]
      False r loop by (cases failed) (auto simp: doReplicate_def ReplicateEngine_Send_def Let_def)
qed

text \<open>An I/O request that the engine accepts is queued for a place inside its extent.\<close>

lemma ProcessRequest_in_extent:
  assumes wf: "se_wf (env_crc env) st" and len: "length (ExtentID req) < 2 ^ 30" and io: "io_type (rq_type req)"
    and ok: "StorageEngine_ProcessRequest env st req = Some (s, req', st', sent)" "st_ok s"
    and nowrap: "Request_Offset req + Request_Size req < 2 ^ 64"
  shows "\<exists>l. lm_map (se_locs st') = (lm_map (se_locs st))(ExtentID req \<mapsto> l) \<and>
     rq_phys req' = loc_offset l + Request_Offset req \<and>
     Request_Offset req + Request_Size req \<le> loc_size l \<and> Request_Offset req + Request_Size req \<le> se_extent_size st \<and>
     lm_map (se_locs st) (ExtentID req) \<in> {None, Some l} \<and>
     (lm_map (se_locs st) (ExtentID req) = None \<longrightarrow> rq_type req = kTypeWrite \<or> rq_type req = kTypeReplicate) \<and>
     rq_type req' = rq_type req \<and> rq_msg req' = rq_msg req \<and> rq_resp req' = rq_resp req \<and> rq_result req' = rq_result req \<and>
     rq_done req' = rq_done req \<and> rq_put req' = rq_put req \<and> se_wf (env_crc env) st' \<and> se_dev st' = se_dev st \<and>
     se_extent_size st' = se_extent_size st"
proof -
  obtain s1 cache r where c: "doSafetyCheck env st req = Some (s1, req \<lparr> rq_router := r \<rparr>, st \<lparr> se_routers := cache \<rparr>)"
    "st_ok s1 \<Longrightarrow> st_ok (checkParameters st req) \<and> (rq_type req \<noteq> kTypeDelete \<longrightarrow> rq_type req \<noteq> kTypeReclaimExtent \<longrightarrow> r \<noteq> None)"
    using doSafetyCheck_spec[of env st req] by metis
  let ?req1 = "req \<lparr> rq_router := r \<rparr>" and ?st1 = "st \<lparr> se_routers := cache \<rparr>"
  have s1: "st_ok s1" using ok c(1) by (auto simp: StorageEngine_ProcessRequest_def split: if_splits)
  note cp = checkParameters_ok[OF conjunct1[OF c(2)[OF s1]] nowrap]
  have "rq_router ?req1 \<noteq> None \<or> rq_type ?req1 \<noteq> kTypeWrite" using c(2)[OF s1] by auto
  then obtain s2 req2 sent2 where d: "doReplicate env ?st1 ?req1 = Some (s2, req2, sent2)"
    "st_ok s2 \<Longrightarrow> req2 = ?req1 \<lparr> rq_ref_count := rq_ref_count req2 \<rparr>" by (rule doReplicate_frame[where env = env and st = ?st1]) blast
  have s2: "st_ok s2" using ok c(1) s1 d(1) by (auto simp: StorageEngine_ProcessRequest_def split: if_splits)
  define rc where "rc = rq_ref_count req2"
  have req2: "req2 = req \<lparr> rq_router := r, rq_ref_count := rc \<rparr>" using d(2)[OF s2] by (simp add: rc_def)
  have bare: "BareEngine_ProcessRequest env ?st1 req2 = Some (s, req', st')"
    using ok c(1) s1 d(1) s2 se_wfD(5)[OF wf] by (auto simp: StorageEngine_ProcessRequest_def)
  have wf1: "se_wf (env_crc env) ?st1" using wf by simp
  have id2: "ExtentID req2 = ExtentID req" "Request_Offset req2 = Request_Offset req" "rq_type req2 = rq_type req"
    by (simp_all add: req2)
  have len2: "length (ExtentID req2) < 2 ^ 30" using len id2 by simp
  obtain s3 p locs where q: "query_location env ?st1 req2 (rq_type req2 = kTypeWrite \<or> rq_type req2 = kTypeReplicate) =
      Some (s3, req2 \<lparr> rq_phys := p \<rparr>, ?st1 \<lparr> se_locs := locs \<rparr>)"
    "se_wf (env_crc env) (?st1 \<lparr> se_locs := locs \<rparr>)"
    "if st_ok s3 then \<exists>l. lm_map locs = (lm_map (se_locs ?st1))(ExtentID req2 \<mapsto> l) \<and> p = u64_add (loc_offset l) (Request_Offset req2) \<and>
              lm_map (se_locs ?st1) (ExtentID req2) \<in> {None, Some l} \<and>
              (lm_map (se_locs ?st1) (ExtentID req2) = None \<longrightarrow> rq_type req2 = kTypeWrite \<or> rq_type req2 = kTypeReplicate)
     else lm_map locs = lm_map (se_locs ?st1) \<and> lm_map (se_locs ?st1) (ExtentID req2) = None"
    by (rule query_location_spec[OF wf1 len2, where alloc = "rq_type req2 = kTypeWrite \<or> rq_type req2 = kTypeReplicate"])
  have io2: "io_type (rq_type req2)" using io id2 by simp
  have s3: "st_ok s3" "req' = req2 \<lparr> rq_phys := p \<rparr>" "st' = ?st1 \<lparr> se_locs := locs \<rparr>"
    using bare ok(2) unfolding BareEngine_io[OF io2] q(1) by (auto split: if_splits)
  then obtain l where l: "lm_map locs = (lm_map (se_locs st))(ExtentID req \<mapsto> l)" "p = u64_add (loc_offset l) (Request_Offset req)"
    "lm_map (se_locs st) (ExtentID req) \<in> {None, Some l}"
    "lm_map (se_locs st) (ExtentID req) = None \<longrightarrow> rq_type req = kTypeWrite \<or> rq_type req = kTypeReplicate"
    using q(3) id2 by auto
  have "lm_map (se_locs st') (ExtentID req) = Some l" "se_wf (env_crc env) st'" using s3(3) l(1) q(2) by simp_all
  from location_bounds[OF this(2,1), of "Request_Offset req" "Request_Size req"] cp(1)
  have "p = loc_offset l + Request_Offset req" "Request_Offset req + Request_Size req \<le> loc_size l"
    using s3(3) l(2) by simp_all
  then show ?thesis using l cp(1) s3 q(2) by (intro exI[of _ l]) (simp add: req2)
qed

section \<open>Writes, from the call to the answer\<close>

lemma start_waiting:
  "waiting (SetOperationContext (Request_Reset unit kTypeWrite) msg fresh_response) 1 True"
  by (simp add: waiting_def SetOperationContext_def Request_Reset_def)

lemma bare_write_spec:
  assumes wf: "se_wf (env_crc env) st" and len: "length (ExtentID req) < 2 ^ 30" and w: "waiting req k res"
  obtains s req' st' where "BareEngine_ProcessRequest env st req = Some (s, req', st')" "waiting req' k res"
    "se_wf (env_crc env) st'" "se_dev st' = se_dev st"
proof -
  have t: "rq_type req = kTypeWrite" using w by (simp add: waiting_def)
  have io: "io_type (rq_type req)" by (simp add: io_type_def t)
  obtain s p locs where q: "query_location env st req True = Some (s, req \<lparr> rq_phys := p \<rparr>, st \<lparr> se_locs := locs \<rparr>)"
    "se_wf (env_crc env) (st \<lparr> se_locs := locs \<rparr>)" by (rule query_location_spec[OF wf len, where alloc = True])
  show thesis
    by (rule that[of "if st_ok s then bdev_ProcessRequest env else s" "req \<lparr> rq_phys := p \<rparr>" "st \<lparr> se_locs := locs \<rparr>"])
      (use q w in \<open>simp_all add: BareEngine_io[OF io] t\<close>)
qed

lemma ProcessRequest_write:
  assumes wf: "se_wf (env_crc env) st" and len: "length (ExtentID req) < 2 ^ 30" and w: "waiting req 1 True"
  obtains s req' st' sent where "StorageEngine_ProcessRequest env st req = Some (s, req', st', sent)"
    "se_wf (env_crc env) st'" "se_dev st' = se_dev st" "\<exists>res. waiting req' (Suc (length sent)) res \<and> (st_ok s \<longrightarrow> res)"
proof -
  obtain s1 cache r where c: "doSafetyCheck env st req = Some (s1, req \<lparr> rq_router := r \<rparr>, st \<lparr> se_routers := cache \<rparr>)"
    "st_ok s1 \<Longrightarrow> (rq_type req \<noteq> kTypeDelete \<longrightarrow> rq_type req \<noteq> kTypeReclaimExtent \<longrightarrow> r \<noteq> None)"
    using doSafetyCheck_spec[of env st req] by metis
  let ?req1 = "req \<lparr> rq_router := r \<rparr>" and ?st1 = "st \<lparr> se_routers := cache \<rparr>"
  have t: "rq_type req = kTypeWrite" using w by (simp add: waiting_def)
  show thesis
  proof (cases "st_ok s1")
    case False
    then show thesis
      using that[of s1 ?req1 ?st1 "[]"] c(1) wf w by (auto simp: StorageEngine_ProcessRequest_def)
  next
    case True
    have w1: "waiting ?req1 1 True" "rq_router ?req1 \<noteq> None" using w c(2)[OF True] t by simp_all
    obtain s2 req2 sent where d: "doReplicate env ?st1 ?req1 = Some (s2, req2, sent)"
      "waiting req2 (Suc (length sent)) (st_ok s2)" "rq_msg req2 = rq_msg ?req1"
      by (rule doReplicate_spec[OF w1, where env = env and st = ?st1])
    show thesis
    proof (cases "st_ok s2")
      case False
      then show thesis
        using that[of s2 req2 ?st1 sent] c(1) True d wf by (auto simp: StorageEngine_ProcessRequest_def)
    next
      case s2: True
      have "ExtentID req2 = ExtentID req" using d(2,3) t by (simp add: ExtentID_def waiting_def)
      then have len2: "length (ExtentID req2) < 2 ^ 30" using len by simp
      have wf1: "se_wf (env_crc env) ?st1" using wf by simp
      obtain s3 req3 st3 where b: "BareEngine_ProcessRequest env ?st1 req2 = Some (s3, req3, st3)"
        "waiting req3 (Suc (length sent)) (st_ok s2)" "se_wf (env_crc env) st3" "se_dev st3 = se_dev ?st1"
        by (rule bare_write_spec[OF wf1 len2 d(2)])
      then show thesis
        using that[of s3 req3 st3 sent] c(1) True d(1) s2 se_wfD(5)[OF wf]
        by (auto simp: StorageEngine_ProcessRequest_def)
    qed
  qed
qed

lemma IoService_Write_spec:
  assumes wf: "se_wf (env_crc env) st" and len: "length (msg_extent_id msg) < 2 ^ 30"
  obtains req st' sent pending where "IoService_Write env True unit st msg = Some (req, st', sent, pending)"
    "se_wf (env_crc env) st'" "se_dev st' = se_dev st"
    "if pending then waiting req (Suc (length sent)) True
     else if sent = [] then answered req False else waiting req (length sent) False"
proof -
  let ?req = "SetOperationContext (Request_Reset unit kTypeWrite) msg fresh_response"
  have id: "ExtentID ?req = msg_extent_id msg" by (simp add: ExtentID_def SetOperationContext_def Request_Reset_def)
  obtain s req' st' sent where p: "StorageEngine_ProcessRequest env st ?req = Some (s, req', st', sent)"
    "se_wf (env_crc env) st'" "se_dev st' = se_dev st" "\<exists>res. waiting req' (Suc (length sent)) res \<and> (st_ok s \<longrightarrow> res)"
    by (rule ProcessRequest_write[OF wf _ start_waiting[of unit msg]]) (use id len in simp_all)
  then obtain res where res: "waiting req' (Suc (length sent)) res" "st_ok s \<longrightarrow> res" by blast
  show thesis
  proof (cases "st_ok s")
    case True
    then show thesis using that[of req' st' sent True] p res
      by (simp add: IoService_Write_def start_call_def GetRequest_def)
  next
    case False
    have d: "if sent = [] then answered (WriteDone (SetResult req' False)) False
        else waiting (WriteDone (SetResult req' False)) (length sent) False"
      using WriteDone_waiting[OF res(1), of False] by (simp split: if_splits)
    show thesis
      by (rule that[of "WriteDone (SetResult req' False)" st' sent False])
        (use p False d in \<open>simp_all add: IoService_Write_def start_call_def GetRequest_def\<close>)
  qed
qed

section \<open>Secondaries of an accepted write\<close>

lemma send_loop_all: "send_loop conn r failed sent ss = (r', False, sent') \<Longrightarrow> sent' = sent @ ss"
  by (induction ss arbitrary: r failed sent) (fastforce split: if_splits dest: send_loop_failed)+

lemma doReplicate_all:
  assumes "doReplicate env st req = Some (s, req', sent)" "st_ok s" "rq_type req = kTypeWrite"
    "se_replication st \<noteq> kStarReplication"
  shows "\<exists>r. rq_router req = Some r \<and> sent = er_secondaries r"
proof -
  obtain r where r: "rq_router req = Some r" "ReplicateEngine_Send env req r = (s, req', sent)"
    using assms by (auto simp: doReplicate_def)
  obtain req1 failed sent1 where loop: "send_loop (env_conn env) (SetRefCount req (1 + int (length (er_secondaries r))))
      False [] (er_secondaries r) = (req1, failed, sent1)" by (metis prod_cases3)
  then have "\<not> failed" "sent = sent1" using r(2) assms(2) by (auto simp: ReplicateEngine_Send_def Let_def split: if_splits)
  then show ?thesis using r(1) loop send_loop_all by fastforce
qed

lemma ProcessRequest_sent:
  assumes ok: "StorageEngine_ProcessRequest env st req = Some (s, req', st', sent)" "st_ok s"
    and t: "rq_type req = kTypeWrite" and std: "se_replication st = kStandardReplication"
  shows "\<exists>r. fst (QueryRouter (env_remote env) (se_routers st) (ExtentID req)) = Some r \<and>
     sent = er_secondaries r \<and> IsPrimary r (se_ip st) (se_port st)"
proof -
  obtain s1 req1 st1 where c: "doSafetyCheck env st req = Some (s1, req1, st1)" "st_ok s1"
    using ok by (auto simp: StorageEngine_ProcessRequest_def split: option.splits if_splits)
  then have r: "rq_router req1 = fst (QueryRouter (env_remote env) (se_routers st) (ExtentID req))"
    "rq_type req1 = kTypeWrite" "se_replication st1 = kStandardReplication"
    "\<forall>r. rq_router req1 = Some r \<longrightarrow> IsPrimary r (se_ip st) (se_port st)"
    using t std
    by (auto simp: doSafetyCheck_def StorageEngine_queryRouter_def Let_def checkOwnership_def check_writer_def
        split: option.splits if_splits prod.splits)
  obtain s2 req2 where d: "doReplicate env st1 req1 = Some (s2, req2, sent)" "st_ok s2"
    using ok c by (auto simp: StorageEngine_ProcessRequest_def split: option.splits if_splits)
  from doReplicate_all[OF d] r show ?thesis by auto
qed

section \<open>What a completed request leaves on the device\<close>

lemma se_wf_dev [simp]: "se_wf crc (st \<lparr> se_dev := d \<rparr>) = se_wf crc st"
  by (simp add: se_wf_def)

lemma start_call_accepted:
  assumes "start_call env True unit st t msg h = Some (req, st', sent, True)"
  obtains s where "StorageEngine_ProcessRequest env st (SetOperationContext (Request_Reset unit t) msg fresh_response) = Some (s, req, st', sent)"
    "st_ok s"
  using assms by (auto simp: start_call_def GetRequest_def Let_def split: option.splits if_splits)

lemma context_fields [simp]:
  "rq_type (SetOperationContext (Request_Reset unit t) msg resp) = t"
  "rq_msg (SetOperationContext (Request_Reset unit t) msg resp) = msg"
  "rq_resp (SetOperationContext (Request_Reset unit t) msg resp) = resp"
  "rq_result (SetOperationContext (Request_Reset unit t) msg resp) = True"
  "rq_done (SetOperationContext (Request_Reset unit t) msg resp) = 0"
  "rq_put (SetOperationContext (Request_Reset unit t) msg resp) = 0"
  by (simp_all add: SetOperationContext_def Request_Reset_def)

lemma io_type_fields:
  assumes "io_type (rq_type req)"
  shows "ExtentID req = msg_extent_id (rq_msg req)" "Request_Offset req = msg_offset (rq_msg req)"
    "Request_Size req = msg_size (rq_msg req)"
  using assms by (auto simp: io_type_def ExtentID_def Request_Offset_def Request_Size_def split: request_type.splits)

text \<open>An accepted call is queued for its place inside its extent.\<close>

lemma call_in_extent:
  assumes wf: "se_wf (env_crc env) st" and len: "length (msg_extent_id msg) < 2 ^ 30" and io: "io_type t"
    and ok: "start_call env True unit st t msg h = Some (req, st', sent, True)"
    and nowrap: "msg_offset msg + msg_size msg < 2 ^ 64"
  shows "\<exists>l. lm_map (se_locs st') = (lm_map (se_locs st))(msg_extent_id msg \<mapsto> l) \<and>
     rq_phys req = loc_offset l + msg_offset msg \<and> msg_offset msg + msg_size msg \<le> loc_size l \<and>
     msg_offset msg + msg_size msg \<le> se_extent_size st \<and>
     lm_map (se_locs st) (msg_extent_id msg) \<in> {None, Some l} \<and>
     (lm_map (se_locs st) (msg_extent_id msg) = None \<longrightarrow> t = kTypeWrite \<or> t = kTypeReplicate) \<and>
     rq_type req = t \<and> rq_msg req = msg \<and> rq_resp req = fresh_response \<and> rq_result req \<and>
     rq_done req = 0 \<and> rq_put req = 0 \<and> se_wf (env_crc env) st' \<and> se_dev st' = se_dev st \<and>
     se_extent_size st' = se_extent_size st"
proof -
  let ?req = "SetOperationContext (Request_Reset unit t) msg fresh_response"
  have f: "ExtentID ?req = msg_extent_id msg" "Request_Offset ?req = msg_offset msg" "Request_Size ?req = msg_size msg"
    using io by (simp_all add: io_type_fields)
  obtain s where p: "StorageEngine_ProcessRequest env st ?req = Some (s, req, st', sent)" "st_ok s"
    by (rule start_call_accepted[OF ok])
  have "length (ExtentID ?req) < 2 ^ 30" "io_type (rq_type ?req)" "Request_Offset ?req + Request_Size ?req < 2 ^ 64"
    using len io nowrap f by simp_all
  from ProcessRequest_in_extent[OF wf this(1,2) p this(3)] show ?thesis by (simp add: f)
qed

end
