(* ===== verification/Extent_Io.thy ===== *)
theory Extent_Io
  imports Extent_Io_Service
begin

text \<open>
  What the data path of an extent server guarantees to its clients: writes are answered
  once and correctly, accepted requests stay inside their extent, reads return what was
  written, other extents are not disturbed, and replicas agree. The limits of the
  guarantees are properties too: the length check wraps around, a first write exposes what
  the device held before, and a short attachment is padded from a recycled buffer.
\<close>

section \<open>A server for the examples\<close>

definition demo_instance :: "string \<Rightarrow> es_instance" where
  "demo_instance ip = \<lparr> es_id = 1, public_ip = ip, public_port = 80, private_ip = ip, private_port = 80 \<rparr>"

definition demo_router :: extent_router where
  "demo_router = \<lparr> er_version = 0, er_extent_id = [], er_primary = demo_instance ''a'',
     er_secondaries = [demo_instance ''b'', demo_instance ''c''] \<rparr>"

definition demo_server :: "string \<Rightarrow> (nat \<Rightarrow> char) \<Rightarrow> es_state" where
  "demo_server ip dev = SetExtentSize (StorageEngine
     \<lparr> se_engine_type = kInvalidEngine, se_replication = kInvalidReplication, se_align_size = 0, se_extent_size = 0,
       se_log_engine = True, se_routers = Map.empty, se_locs = demo_mgr, se_ip = ip, se_port = 80, se_dev = dev \<rparr>
     ''nvme'' ''standard'') (2 ^ 20)"

definition demo_env :: es_env where
  "demo_env = \<lparr> env_crc = (\<lambda>_. 0), env_remote = (\<lambda>_. Rpc_Reply 0 (Some demo_router)), env_conn = (\<lambda>_. True),
     env_rnd = 0, env_enqueue = True, env_submit = True, env_buf = [], env_torn = (\<lambda>_. CHR ''t'') \<rparr>"

definition demo_unit :: request where
  "demo_unit = \<lparr> rq_result = False, rq_ref_count = 0, rq_type = kTypeNoop, rq_io_unit = None, rq_router = None,
     rq_phys = 0, rq_msg = \<lparr> msg_extent_id = [], msg_offset = 0, msg_size = 0, msg_crc32 = None, msg_attachment = [] \<rparr>,
     rq_resp = fresh_response, rq_done = 0, rq_put = 0 \<rparr>"

definition demo_msg :: "nat \<Rightarrow> nat \<Rightarrow> string \<Rightarrow> pb_msg" where
  "demo_msg off n bytes = \<lparr> msg_extent_id = ''b.1'', msg_offset = off, msg_size = n, msg_crc32 = None, msg_attachment = bytes \<rparr>"

text \<open>The server after a first write to an extent.\<close>

definition demo_written :: "(nat \<Rightarrow> char) \<Rightarrow> string \<Rightarrow> es_state" where
  "demo_written dev bytes =
     (case IoService_Write demo_env True demo_unit (demo_server ''a'' dev) (demo_msg 4096 4096 bytes) of
        Some (req, st, sent, pending) \<Rightarrow> snd (complete demo_env (req, st) (Local True))
      | None \<Rightarrow> demo_server ''a'' dev)"

section \<open>Bytes of extents\<close>

lemma extent_regions_disjoint:
  assumes "se_wf crc st" "lm_map (se_locs st) e1 = Some l1" "lm_map (se_locs st) e2 = Some l2" "e1 \<noteq> e2"
  shows "region (loc_offset l1) (loc_size l1) \<inter> region (loc_offset l2) (loc_size l2) = {}"
proof -
  have "loc_table (lm_map (se_locs st)) e1 = Some (loc_offset l1, loc_size l1)"
    "loc_table (lm_map (se_locs st)) e2 = Some (loc_offset l2, loc_size l2)"
    using assms(2,3) by (simp_all add: loc_table_def)
  then show ?thesis
    using loc_invD(5)[OF se_wfD(1)[OF assms(1)]] assms(4) unfolding extents_ok_def by blast
qed

lemma extent_byte_write:
  assumes wf: "se_wf crc st'" and map: "lm_map (se_locs st') = (lm_map (se_locs st))(eid \<mapsto> l)"
    and dev: "se_dev st' = se_dev st" and ext: "se_extent_size st' = se_extent_size st"
    and len: "off + length bytes \<le> se_extent_size st"
    and st2: "st2 = st' \<lparr> se_dev := dev_write (se_dev st') (loc_offset l + off) bytes \<rparr>"
  shows "extent_byte st2 eid i = (if off \<le> i \<and> i < off + length bytes then bytes ! (i - off) else se_dev st (loc_offset l + i))"
    "e \<noteq> eid \<Longrightarrow> i < se_extent_size st \<Longrightarrow> extent_byte st2 e i = extent_byte st e i"
proof -
  show "extent_byte st2 eid i = (if off \<le> i \<and> i < off + length bytes then bytes ! (i - off) else se_dev st (loc_offset l + i))"
    using map dev by (auto simp: extent_byte_def st2 dev_write_def)
  assume e: "e \<noteq> eid" "i < se_extent_size st"
  have l: "lm_map (se_locs st') eid = Some l" using map by simp
  show "extent_byte st2 e i = extent_byte st e i"
  proof (cases "lm_map (se_locs st') e")
    case None
    then show ?thesis using map e by (simp add: extent_byte_def st2)
  next
    case (Some l2)
    note d = extent_regions_disjoint[OF wf Some l e(1)]
    have "i < loc_size l2" using se_wfD(6)[OF wf Some] ext e(2) by simp
    moreover have "off + length bytes \<le> loc_size l" using se_wfD(6)[OF wf l] ext len by simp
    ultimately have "\<not> (loc_offset l + off \<le> loc_offset l2 + i \<and> loc_offset l2 + i < loc_offset l + off + length bytes)"
      using d by (auto simp: region_def)
    then show ?thesis using map e Some dev by (auto simp: extent_byte_def st2 dev_write_def)
  qed
qed

lemma worker_write:
  assumes "rq_type req = kTypeWrite \<or> rq_type req = kTypeReplicate" "env_submit env"
  shows "snd (worker_step env st req True) = st \<lparr> se_dev := dev_write (se_dev st) (rq_phys req)
     (take (Request_Size req) (copy_to (msg_attachment (rq_msg req)) (env_buf env) (Request_Size req))) \<rparr>"
  using assms by (auto simp: worker_step_def doWrite_def Let_def)

lemma copy_to_exact: "length att = n \<Longrightarrow> take n (copy_to att buf n) = att"
  by (simp add: copy_to_def)

text \<open>A successful local write of a write or replicate call.\<close>

lemma write_effect:
  assumes wf: "se_wf (env_crc env) st" and len: "length (msg_extent_id msg) < 2 ^ 30"
    and t: "t = kTypeWrite \<or> t = kTypeReplicate"
    and ok: "start_call env True unit st t msg h = Some (req, st1, sent, True)"
    and nowrap: "msg_offset msg + msg_size msg < 2 ^ 64"
    and att: "length (msg_attachment msg) = msg_size msg" and sub: "env_submit env"
    and st2: "st2 = snd (worker_step env st1 req True)"
  shows "se_wf (env_crc env) st2"
    "msg_offset msg \<le> i \<Longrightarrow> i < msg_offset msg + msg_size msg \<Longrightarrow>
       extent_byte st2 (msg_extent_id msg) i = msg_attachment msg ! (i - msg_offset msg)"
    "\<not> (msg_offset msg \<le> i \<and> i < msg_offset msg + msg_size msg) \<Longrightarrow> lm_map (se_locs st) (msg_extent_id msg) \<noteq> None \<Longrightarrow>
       extent_byte st2 (msg_extent_id msg) i = extent_byte st (msg_extent_id msg) i"
    "e \<noteq> msg_extent_id msg \<Longrightarrow> i < se_extent_size st \<Longrightarrow> extent_byte st2 e i = extent_byte st e i"
proof -
  have io: "io_type t" using t by (auto simp: io_type_def)
  obtain l where l: "lm_map (se_locs st1) = (lm_map (se_locs st))(msg_extent_id msg \<mapsto> l)"
    "rq_phys req = loc_offset l + msg_offset msg" "msg_offset msg + msg_size msg \<le> se_extent_size st"
    "rq_type req = t" "rq_msg req = msg" "se_wf (env_crc env) st1" "se_dev st1 = se_dev st"
    "se_extent_size st1 = se_extent_size st" "lm_map (se_locs st) (msg_extent_id msg) \<in> {None, Some l}"
    using call_in_extent[OF wf len io ok nowrap] by blast
  have "Request_Size req = msg_size msg" using io_type_fields(3)[of req] io l(4,5) by simp
  then have s2: "st2 = st1 \<lparr> se_dev := dev_write (se_dev st1) (loc_offset l + msg_offset msg) (msg_attachment msg) \<rparr>"
    using worker_write[OF _ sub, of req st1] t l(2,4,5) copy_to_exact[OF att] by (simp add: st2)
  have len': "msg_offset msg + length (msg_attachment msg) \<le> se_extent_size st" using l(3) att by simp
  note b = extent_byte_write[OF l(6,1,7,8) len' s2]
  show "se_wf (env_crc env) st2" using l(6) by (simp add: s2)
  show "extent_byte st2 (msg_extent_id msg) i = msg_attachment msg ! (i - msg_offset msg)"
    if "msg_offset msg \<le> i" "i < msg_offset msg + msg_size msg"
    using b(1)[of i] that att by simp
  show "extent_byte st2 e i = extent_byte st e i" if "e \<noteq> msg_extent_id msg" "i < se_extent_size st"
    using b(2)[OF that] .
  assume out: "\<not> (msg_offset msg \<le> i \<and> i < msg_offset msg + msg_size msg)"
    and old: "lm_map (se_locs st) (msg_extent_id msg) \<noteq> None"
  then have "lm_map (se_locs st) (msg_extent_id msg) = Some l"
    using l(9) by auto
  then show "extent_byte st2 (msg_extent_id msg) i = extent_byte st (msg_extent_id msg) i"
    using b(1)[of i] out att by (auto simp: extent_byte_def)
qed

section \<open>Reads\<close>

lemma check_codes:
  "st_code (checkParameters st req) \<noteq> CYPRE_ES_EXTENT_EMPTY"
  "st_code (checkChecksum env req) \<noteq> CYPRE_ES_EXTENT_EMPTY"
  "checkOwnership st req = Some s \<Longrightarrow> st_code s \<noteq> CYPRE_ES_EXTENT_EMPTY"
  by (auto simp: checkParameters_def checkChecksum_def checkOwnership_def check_writer_def Status_OK_def
      split: option.splits request_type.splits if_splits)

lemma doSafetyCheck_code:
  "doSafetyCheck env st req = Some (s, req', st') \<Longrightarrow> st_code s \<noteq> CYPRE_ES_EXTENT_EMPTY"
  by (auto simp: doSafetyCheck_def StorageEngine_queryRouter_def Let_def check_codes[simplified]
      split: option.splits prod.splits if_splits dest: check_codes(3)[simplified])

text \<open>A read that is not queued either reports an error, or the extent has no location and
  the response holds zeros.\<close>

lemma read_not_queued:
  assumes wf: "se_wf (env_crc env) st" and len: "length (ExtentID req) < 2 ^ 30" and t: "rq_type req = kTypeRead"
    and p: "StorageEngine_ProcessRequest env st req = Some (s, req', st', sent)" "\<not> st_ok s"
  shows "rq_resp req' = rq_resp req \<and> st_code s \<noteq> CYPRE_ES_EXTENT_EMPTY \<or>
       lm_map (se_locs st) (ExtentID req) = None \<and>
       rq_resp req' = (rq_resp req) \<lparr> resp_attachment := replicate (Request_Size req) (char_of (0 :: nat)) \<rparr>"
    "rq_done req' = rq_done req \<and> rq_put req' = rq_put req \<and> rq_result req' = rq_result req \<and> rq_io_unit req' = rq_io_unit req"
proof -
  obtain s1 cache r where c: "doSafetyCheck env st req = Some (s1, req \<lparr> rq_router := r \<rparr>, st \<lparr> se_routers := cache \<rparr>)"
    using doSafetyCheck_spec[of env st req] by metis
  let ?req1 = "req \<lparr> rq_router := r \<rparr>" and ?st1 = "st \<lparr> se_routers := cache \<rparr>"
  have "(rq_resp req' = rq_resp req \<and> st_code s \<noteq> CYPRE_ES_EXTENT_EMPTY \<or>
       lm_map (se_locs st) (ExtentID req) = None \<and>
       rq_resp req' = (rq_resp req) \<lparr> resp_attachment := replicate (Request_Size req) (char_of (0 :: nat)) \<rparr>) \<and>
    rq_done req' = rq_done req \<and> rq_put req' = rq_put req \<and> rq_result req' = rq_result req \<and> rq_io_unit req' = rq_io_unit req"
  proof (cases "st_ok s1")
    case False
    then have "s = s1" "req' = ?req1" using p(1) c by (simp_all add: StorageEngine_ProcessRequest_def)
    then show ?thesis using doSafetyCheck_code[OF c] by simp
  next
    case True
    have "doReplicate env ?st1 ?req1 = Some (Status_OK, ?req1, [])" using t by (simp add: doReplicate_def)
    then have bare: "BareEngine_ProcessRequest env ?st1 ?req1 = Some (s, req', st')"
      using p(1) c True se_wfD(5)[OF wf] by (auto simp: StorageEngine_ProcessRequest_def)
    have wf1: "se_wf (env_crc env) ?st1" "length (ExtentID ?req1) < 2 ^ 30" "io_type (rq_type ?req1)"
      using wf len t by (simp_all add: io_type_def)
    obtain s3 ph locs where q: "query_location env ?st1 ?req1 False = Some (s3, ?req1 \<lparr> rq_phys := ph \<rparr>, ?st1 \<lparr> se_locs := locs \<rparr>)"
      "\<not> st_ok s3 \<longrightarrow> lm_map (se_locs ?st1) (ExtentID ?req1) = None"
      by (rule query_location_spec[OF wf1(1,2), of False]) (simp split: if_splits)
    show ?thesis
    proof (cases "st_ok s3")
      case True
      then have "s = bdev_ProcessRequest env" "req' = ?req1 \<lparr> rq_phys := ph \<rparr>"
        using bare q(1) t unfolding BareEngine_io[OF wf1(3)] by simp_all
      then show ?thesis by (simp add: bdev_ProcessRequest_def Status_OK_def)
    next
      case False
      then have "req' = SetEmptyResponse (?req1 \<lparr> rq_phys := ph \<rparr>)" "lm_map (se_locs st) (ExtentID req) = None"
        using bare q t unfolding BareEngine_io[OF wf1(3)] by simp_all
      then show ?thesis by (simp add: SetEmptyResponse_def)
    qed
  qed
  then show "rq_resp req' = rq_resp req \<and> st_code s \<noteq> CYPRE_ES_EXTENT_EMPTY \<or>
       lm_map (se_locs st) (ExtentID req) = None \<and>
       rq_resp req' = (rq_resp req) \<lparr> resp_attachment := replicate (Request_Size req) (char_of (0 :: nat)) \<rparr>"
    "rq_done req' = rq_done req \<and> rq_put req' = rq_put req \<and> rq_result req' = rq_result req \<and> rq_io_unit req' = rq_io_unit req"
    by blast+
qed

text \<open>The answer to a read: what the device call reads is the content of the extent.\<close>

lemma read_done:
  assumes "rq_type req = kTypeRead" "env_submit env" "rq_result req"
  shows "complete env (req, st) (Local True) =
     (run_done (req \<lparr> rq_io_unit := Some (dev_read (se_dev st) (rq_phys req) (Request_Size req)),
        rq_resp := (rq_resp req) \<lparr> resp_code := CYPRE_OK, resp_attachment := resp_attachment (rq_resp req) @
          dev_read (se_dev st) (rq_phys req) (Request_Size req) \<rparr> \<rparr>), st)"
proof -
  have "length (dev_read (se_dev st) (rq_phys req) (Request_Size req)) = Request_Size req" by (simp add: dev_read_def)
  then show ?thesis
    using assms by (simp add: worker_step_def doRead_def worker_callback_def user_callback_def ReadDone_def SetResult_def
        respond_def Let_def run_done_def)
qed

lemma dev_read_extent:
  assumes "lm_map (se_locs st) eid = Some l"
  shows "dev_read (se_dev st) (loc_offset l + off) n = map (extent_byte st eid) [off..<off + n]"
  using assms by (intro nth_equalityI) (simp_all add: dev_read_def extent_byte_def add.assoc)

lemma read_queued:
  assumes wf: "se_wf (env_crc env) st" and len: "length (msg_extent_id msg) < 2 ^ 30"
    and nowrap: "msg_offset msg + msg_size msg < 2 ^ 64" and sub: "env_submit env"
    and ok: "IoService_Read env True unit st msg = Some (req, st', sent, True)"
    and d: "complete env (req, st') (Local True) = (req2, st2)"
  shows "rq_done req2 = 1 \<and> resp_code (rq_resp req2) = CYPRE_OK \<and> se_dev st2 = se_dev st \<and>
    resp_attachment (rq_resp req2) = map (extent_byte st (msg_extent_id msg)) [msg_offset msg..<msg_offset msg + msg_size msg]"
proof -
  have io: "io_type kTypeRead" by (simp add: io_type_def)
  obtain l where l: "lm_map (se_locs st) (msg_extent_id msg) = Some l" "rq_phys req = loc_offset l + msg_offset msg"
    "rq_type req = kTypeRead" "rq_msg req = msg" "rq_resp req = fresh_response" "rq_result req" "rq_done req = 0"
    "se_dev st' = se_dev st"
    using call_in_extent[OF wf len io ok[unfolded IoService_Read_def] nowrap] by auto
  have n: "Request_Size req = msg_size msg" using l(3,4) by (simp add: Request_Size_def)
  show ?thesis
    using d read_done[OF l(3) sub l(6), of st'] dev_read_extent[OF l(1), of "msg_offset msg" "msg_size msg"] l n
    by (auto simp: run_done_def fresh_response_def)
qed

lemma zeros_eq: "replicate n x = map (\<lambda>_. x) [off..<off + n]"
  by (intro nth_equalityI) simp_all

lemma read_refused:
  assumes wf: "se_wf (env_crc env) st" and len: "length (msg_extent_id msg) < 2 ^ 30"
    and ok: "IoService_Read env True unit st msg = Some (req, st', sent, False)"
  shows "rq_done req = 1 \<and> rq_put req = 1 \<and> (resp_code (rq_resp req) = CYPRE_OK \<longrightarrow>
    lm_map (se_locs st) (msg_extent_id msg) = None \<and>
    resp_attachment (rq_resp req) = map (extent_byte st (msg_extent_id msg)) [msg_offset msg..<msg_offset msg + msg_size msg])"
proof -
  let ?req = "SetOperationContext (Request_Reset unit kTypeRead) msg fresh_response"
  have f: "ExtentID ?req = msg_extent_id msg" "Request_Size ?req = msg_size msg" "rq_io_unit ?req = None"
    by (simp_all add: ExtentID_def Request_Size_def SetOperationContext_def Request_Reset_def)
  obtain s r where p: "StorageEngine_ProcessRequest env st ?req = Some (s, r, st', sent)" "\<not> st_ok s"
    "req = ReadDone (SetResult r (Status_IsEmpty s))"
    using ok by (auto simp: IoService_Read_def start_call_def GetRequest_def Let_def split: option.splits if_splits)
  have "length (ExtentID ?req) < 2 ^ 30" using len f by simp
  note q = read_not_queued[OF wf this _ p(1,2), simplified f context_fields]
  have r: "rq_done r = 0" "rq_put r = 0" "rq_result r" "rq_io_unit r = None" using q(2) f(3) by simp_all
  then have e: "req = run_done (PutRequest (respond (SetResult r (Status_IsEmpty s)) ''read io error''))"
    by (simp add: p(3) ReadDone_def SetResult_def Let_def)
  from q(1) show ?thesis
    using r by (auto simp: e run_done_def PutRequest_def respond_def Request_Reset_def SetResult_def Status_IsEmpty_def
        extent_byte_def zeros_eq[of _ _ "msg_offset msg"] fresh_response_def)
qed

section \<open>The example server\<close>

lemmas demo_defs = demo_env_def demo_server_def SetExtentSize_def StorageEngine_def demo_unit_def demo_msg_def
  demo_router_def demo_instance_def replication_of_def

lemmas call_eval = start_call_def GetRequest_def Let_def StorageEngine_ProcessRequest_def doSafetyCheck_def
  StorageEngine_queryRouter_def SetOperationContext_def Request_Reset_def QueryRouter_def queryFromRemote_def ExtentID_def
  checkParameters_def Request_Offset_def Request_Size_def kAlignSize_def u64_add_def checkOwnership_def check_writer_def
  IsPrimary_def IsSecondary_def IsValid_def checkChecksum_def doReplicate_def ReplicateEngine_Send_def SetRefCount_def
  BareEngine_ProcessRequest_def handleWrite_def query_location_def bdev_ProcessRequest_def

lemmas query_eval = demo_mgr0_def QueryLocation_def lookupLocation_def SpaceAlloc_Allocate_def alloc_eval
  persistExtent_def RocksStore_Put_def kv_write_def rs_ok_def addExtent_def

lemma loc_inv_extent_size [simp]: "loc_inv crc (m \<lparr> lm_extent_size := n \<rparr>) = loc_inv crc m"
  by (simp add: loc_inv_def)

lemma demo_server_wf: "se_wf (env_crc demo_env) (demo_server ip dev)"
  using demo_mgr_init(2)[of "\<lambda>_. 0"] demo_mgr_init(3,4)
  by (simp add: se_wf_def demo_server_def SetExtentSize_def StorageEngine_def demo_env_def)

lemma demo_msg_fields [simp]:
  "msg_extent_id (demo_msg off n bytes) = ''b.1''" "msg_offset (demo_msg off n bytes) = off"
  "msg_size (demo_msg off n bytes) = n" "msg_attachment (demo_msg off n bytes) = bytes"
  by (simp_all add: demo_msg_def)

lemma demo_env_submit [simp]: "env_submit demo_env"
  by (simp add: demo_env_def)

lemma demo_write:
  "\<exists>req st'. IoService_Write demo_env True demo_unit (demo_server ''a'' dev) (demo_msg 4096 4096 bytes) =
     Some (req, st', [demo_instance ''b'', demo_instance ''c''], True) \<and> rq_phys req = 4096"
  unfolding demo_defs demo_mgr_eq IoService_Write_def by (simp add: call_eval query_eval)

lemma demo_replicate:
  "\<exists>req st'. IoService_Replicate demo_env True demo_unit (demo_server ''b'' dev) (demo_msg 4096 4096 bytes) =
     Some (req, st', [], True) \<and> rq_phys req = 4096"
  unfolding demo_defs demo_mgr_eq IoService_Replicate_def by (simp add: call_eval query_eval)

lemma demo_written_state:
  assumes "length bytes = 4096"
  shows "demo_written dev bytes = (demo_server ''a'' dev) \<lparr>
      se_routers := [''b.1'' \<mapsto> demo_router \<lparr> er_extent_id := ''b.1'' \<rparr>],
      se_locs := se_locs (demo_written dev bytes), se_dev := dev_write dev 4096 bytes \<rparr>"
    "lm_map (se_locs (demo_written dev bytes)) = [''b.1'' \<mapsto> \<lparr> loc_offset = 0, loc_size = 2 ^ 20, loc_extent_id = ''b.1'' \<rparr>]"
  using assms unfolding demo_written_def demo_defs demo_mgr_eq IoService_Write_def
  by (simp_all add: call_eval query_eval worker_step_def doWrite_def copy_to_exact)

lemma demo_read:
  assumes "length bytes = 4096"
  shows "\<exists>req st'. IoService_Read demo_env True demo_unit (demo_written dev bytes) (demo_msg 4096 4096 []) =
     Some (req, st', [], True)"
  apply (subst demo_written_state(1)[OF assms])
  unfolding demo_defs demo_mgr_eq IoService_Read_def
  by (simp add: call_eval handleRead_def QueryLocation_def lookupLocation_def demo_written_state(2)[OF assms])

section \<open>Properties\<close>



text \<open>C31: A write that the server queues went to every secondary of the extent's router, and
  the server is the primary (standard replication). So an OK answer means that the primary
  and all secondaries have stored the data.\<close>

theorem write_reaches_all_replicas:
  assumes "IoService_Write env True unit st msg = Some (req, st', sent, True)" "se_replication st = kStandardReplication"
  shows "\<exists>r. fst (QueryRouter (env_remote env) (se_routers st) (msg_extent_id msg)) = Some r \<and>
     sent = er_secondaries r \<and> IsPrimary r (se_ip st) (se_port st)"
proof -
  let ?req = "SetOperationContext (Request_Reset unit kTypeWrite) msg fresh_response"
  obtain s where "StorageEngine_ProcessRequest env st ?req = Some (s, req, st', sent)" "st_ok s"
    by (rule start_call_accepted[OF assms(1)[unfolded IoService_Write_def]])
  from ProcessRequest_sent[OF this _ assms(2)] show ?thesis by (simp add: ExtentID_def)
qed

theorem write_reaches_all_replicas_witness:
  "\<exists>req st'. IoService_Write demo_env True demo_unit (demo_server ''a'' (\<lambda>_. CHR ''s'')) (demo_msg 4096 4096 []) =
      Some (req, st', [demo_instance ''b'', demo_instance ''c''], True) \<and>
    er_secondaries (the (fst (QueryRouter (env_remote demo_env) Map.empty ''b.1''))) = [demo_instance ''b'', demo_instance ''c'']"
proof -
  obtain req st' where w: "IoService_Write demo_env True demo_unit (demo_server ''a'' (\<lambda>_. CHR ''s'')) (demo_msg 4096 4096 []) =
      Some (req, st', [demo_instance ''b'', demo_instance ''c''], True)" using demo_write by blast
  have "se_replication (demo_server ''a'' (\<lambda>_. CHR ''s'')) = kStandardReplication"
    "se_routers (demo_server ''a'' (\<lambda>_. CHR ''s'')) = Map.empty" by (simp_all add: demo_defs)
  with write_reaches_all_replicas[OF w] w show ?thesis by auto
qed

text \<open>C8: An accepted read, write, replicate, scrub or delete whose offset and size do not
  wrap around 64 bits is queued for bytes of its own extent: its range lies inside the
  extent size, and on the device inside the location of the extent, which shares no byte
  with the location of any other extent. An extent that had a location keeps it, and only
  writes and replicates make a new one.\<close>

theorem accepted_io_in_extent:
  assumes "se_wf (env_crc env) st" "length (ExtentID req) < 2 ^ 30" "io_type (rq_type req)"
    and "StorageEngine_ProcessRequest env st req = Some (s, req', st', sent)" "st_ok s"
    and "Request_Offset req + Request_Size req < 2 ^ 64"
  shows "Request_Offset req + Request_Size req \<le> se_extent_size st \<and> se_wf (env_crc env) st' \<and>
     (\<exists>l. lm_map (se_locs st') = (lm_map (se_locs st))(ExtentID req \<mapsto> l) \<and>
        region (rq_phys req') (Request_Size req) \<subseteq> region (loc_offset l) (loc_size l) \<and>
        lm_map (se_locs st) (ExtentID req) \<in> {None, Some l} \<and>
        (lm_map (se_locs st) (ExtentID req) = None \<longrightarrow> rq_type req = kTypeWrite \<or> rq_type req = kTypeReplicate) \<and>
        (\<forall>e l'. e \<noteq> ExtentID req \<longrightarrow> lm_map (se_locs st) e = Some l' \<longrightarrow>
           region (rq_phys req') (Request_Size req) \<inter> region (loc_offset l') (loc_size l') = {}))"
proof -
  obtain l where l: "lm_map (se_locs st') = (lm_map (se_locs st))(ExtentID req \<mapsto> l)"
     "rq_phys req' = loc_offset l + Request_Offset req" "Request_Offset req + Request_Size req \<le> loc_size l"
     "Request_Offset req + Request_Size req \<le> se_extent_size st" "lm_map (se_locs st) (ExtentID req) \<in> {None, Some l}"
     "lm_map (se_locs st) (ExtentID req) = None \<longrightarrow> rq_type req = kTypeWrite \<or> rq_type req = kTypeReplicate"
     "se_wf (env_crc env) st'"
    using ProcessRequest_in_extent[OF assms] by (elim exE conjE) (rule that)
  have in_l: "region (rq_phys req') (Request_Size req) \<subseteq> region (loc_offset l) (loc_size l)"
    using l(2,3) by (auto simp: region_def)
  have out: "region (rq_phys req') (Request_Size req) \<inter> region (loc_offset l') (loc_size l') = {}"
    if "e \<noteq> ExtentID req" "lm_map (se_locs st) e = Some l'" for e l'
  proof -
    have "region (loc_offset l) (loc_size l) \<inter> region (loc_offset l') (loc_size l') = {}"
      using extent_regions_disjoint[OF l(7), of "ExtentID req" l e l'] that l(1) by simp
    with in_l show ?thesis by blast
  qed
  show ?thesis
    by (intro conjI exI[of _ l] allI impI) (use l in_l out in \<open>simp_all only:\<close>)
qed

theorem accepted_io_in_extent_witness:
  "\<exists>req' st'. StorageEngine_ProcessRequest demo_env (demo_server ''a'' (\<lambda>_. CHR ''s''))
       (SetOperationContext (Request_Reset demo_unit kTypeWrite) (demo_msg 4096 4096 []) fresh_response) =
       Some (Status_OK, req', st', [demo_instance ''b'', demo_instance ''c'']) \<and>
     rq_phys req' = 4096 \<and>
     (\<exists>l. lm_map (se_locs st') ''b.1'' = Some l \<and> region 4096 4096 \<subseteq> region (loc_offset l) (loc_size l))"
proof -
  let ?st = "demo_server ''a'' (\<lambda>_. CHR ''s'')"
    and ?req = "SetOperationContext (Request_Reset demo_unit kTypeWrite) (demo_msg 4096 4096 []) fresh_response"
  have "\<exists>req' st'. StorageEngine_ProcessRequest demo_env ?st ?req =
      Some (Status_OK, req', st', [demo_instance ''b'', demo_instance ''c'']) \<and> rq_phys req' = 4096"
    unfolding demo_defs demo_mgr_eq by (simp add: call_eval query_eval)
  then obtain req' st' where p: "StorageEngine_ProcessRequest demo_env ?st ?req =
      Some (Status_OK, req', st', [demo_instance ''b'', demo_instance ''c''])" "rq_phys req' = 4096" by blast
  have f: "ExtentID ?req = ''b.1''" "Request_Offset ?req = 4096" "Request_Size ?req = 4096" "io_type (rq_type ?req)"
    by (simp_all add: ExtentID_def Request_Offset_def Request_Size_def io_type_def)
  have "\<exists>l. lm_map (se_locs st') ''b.1'' = Some l \<and> region 4096 4096 \<subseteq> region (loc_offset l) (loc_size l)"
    using accepted_io_in_extent[OF demo_server_wf _ f(4) p(1)] p(2) by (auto simp: f)
  with p show ?thesis by blast
qed

text \<open>C18: When the device has completed a write or replicate with a full attachment, the range
  of the request holds the attachment, the rest of an extent that had a location before is
  unchanged, every other extent is unchanged, and the server is consistent.\<close>

theorem write_updates_extent:
  assumes "se_wf (env_crc env) st" "length (msg_extent_id msg) < 2 ^ 30" "msg_offset msg + msg_size msg < 2 ^ 64"
    and "length (msg_attachment msg) = msg_size msg" "env_submit env"
    and "IoService_Write env True unit st msg = Some (req, st1, sent, True) \<or>
         IoService_Replicate env True unit st msg = Some (req, st1, sent, True)"
    and "complete env (req, st1) (Local True) = (req2, st2)"
  shows "se_wf (env_crc env) st2 \<and>
     (\<forall>i. msg_offset msg \<le> i \<and> i < msg_offset msg + msg_size msg \<longrightarrow>
        extent_byte st2 (msg_extent_id msg) i = msg_attachment msg ! (i - msg_offset msg)) \<and>
     (\<forall>i. \<not> (msg_offset msg \<le> i \<and> i < msg_offset msg + msg_size msg) \<longrightarrow> lm_map (se_locs st) (msg_extent_id msg) \<noteq> None \<longrightarrow>
        extent_byte st2 (msg_extent_id msg) i = extent_byte st (msg_extent_id msg) i) \<and>
     (\<forall>e i. e \<noteq> msg_extent_id msg \<longrightarrow> i < se_extent_size st \<longrightarrow> extent_byte st2 e i = extent_byte st e i)"
proof -
  obtain t h where t: "t = kTypeWrite \<or> t = kTypeReplicate" "start_call env True unit st t msg h = Some (req, st1, sent, True)"
    using assms(6) by (auto simp: IoService_Write_def IoService_Replicate_def)
  have "st2 = snd (worker_step env st1 req True)" using assms(7) by simp
  note w = write_effect[OF assms(1,2) t assms(3-5) this]
  show ?thesis using w(1) w(2,3,4) by auto
qed

theorem write_updates_extent_witness:
  "\<exists>st. se_wf (env_crc demo_env) st \<and> (\<forall>i. 4096 \<le> i \<and> i < 8192 \<longrightarrow> extent_byte st ''b.1'' i = CHR ''x'')"
proof -
  let ?x = "replicate 4096 CHR ''x''" and ?st = "demo_server ''a'' (\<lambda>_. CHR ''s'')"
  obtain req st1 sent where w: "IoService_Write demo_env True demo_unit ?st (demo_msg 4096 4096 ?x) = Some (req, st1, sent, True)"
    using demo_write by blast
  obtain req2 st2 where c: "complete demo_env (req, st1) (Local True) = (req2, st2)" by fastforce
  from write_updates_extent[OF demo_server_wf _ _ _ _ disjI1[OF w] c] show ?thesis by (intro exI[of _ st2]) auto
qed


lemma demo_written_wf:
  assumes "length bytes = 4096"
  shows "se_wf (env_crc demo_env) (demo_written dev bytes)"
proof -
  obtain req st1 sent where w: "IoService_Write demo_env True demo_unit (demo_server ''a'' dev) (demo_msg 4096 4096 bytes) = Some (req, st1, sent, True)"
    using demo_write by blast
  show ?thesis
    by (rule write_effect(1)[OF demo_server_wf _ _ w[unfolded IoService_Write_def]])
      (use assms w in \<open>auto simp: demo_written_def\<close>)
qed


text \<open>C9: Read after write: a read of the range of a completed write, as soon as the device has
  completed it, returns exactly what was written.\<close>

theorem read_after_write:
  assumes "se_wf (env_crc env) st" "length (msg_extent_id msg) < 2 ^ 30" "msg_offset msg + msg_size msg < 2 ^ 64"
    and "length (msg_attachment msg) = msg_size msg" "env_submit env"
    and "IoService_Write env True unit st msg = Some (wreq, st1, sent, True)"
    and "complete env (wreq, st1) (Local True) = (wreq2, st2)"
    and "msg_extent_id rmsg = msg_extent_id msg" "msg_offset rmsg = msg_offset msg" "msg_size rmsg = msg_size msg"
    and "IoService_Read env True unit2 st2 rmsg = Some (req, st3, sent3, True)"
    and "complete env (req, st3) (Local True) = (req2, st4)"
  shows "resp_code (rq_resp req2) = CYPRE_OK \<and> resp_attachment (rq_resp req2) = msg_attachment msg \<and> rq_done req2 = 1"
proof -
  have t: "kTypeWrite = kTypeWrite \<or> kTypeWrite = kTypeReplicate" "st2 = snd (worker_step env st1 wreq True)"
    using assms(7) by simp_all
  note w = write_effect[OF assms(1,2) t(1) assms(6)[unfolded IoService_Write_def] assms(3-5) t(2)]
  have r: "rq_done req2 = 1 \<and> resp_code (rq_resp req2) = CYPRE_OK \<and>
    resp_attachment (rq_resp req2) = map (extent_byte st2 (msg_extent_id msg)) [msg_offset msg..<msg_offset msg + msg_size msg]"
    using read_queued[OF w(1) _ _ assms(5) assms(11,12)] assms(2,3,8,9,10) by simp
  have "map (extent_byte st2 (msg_extent_id msg)) [msg_offset msg..<msg_offset msg + msg_size msg] = msg_attachment msg"
    using assms(4) w(2) by (intro nth_equalityI) simp_all
  with r show ?thesis by simp
qed

theorem read_after_write_witness:
  "\<exists>wreq st1 sent wreq2 req st3 req2 st4.
     IoService_Write demo_env True demo_unit (demo_server ''a'' (\<lambda>_. CHR ''s'')) (demo_msg 4096 4096 (replicate 4096 CHR ''x'')) =
       Some (wreq, st1, sent, True) \<and>
     complete demo_env (wreq, st1) (Local True) = (wreq2, demo_written (\<lambda>_. CHR ''s'') (replicate 4096 CHR ''x'')) \<and>
     IoService_Read demo_env True demo_unit (demo_written (\<lambda>_. CHR ''s'') (replicate 4096 CHR ''x'')) (demo_msg 4096 4096 []) =
       Some (req, st3, [], True) \<and>
     complete demo_env (req, st3) (Local True) = (req2, st4) \<and>
     resp_attachment (rq_resp req2) = replicate 4096 CHR ''x''"
proof -
  let ?x = "replicate 4096 CHR ''x''" and ?dev = "\<lambda>_. CHR ''s''"
  obtain wreq st1 sent where w: "IoService_Write demo_env True demo_unit (demo_server ''a'' ?dev) (demo_msg 4096 4096 ?x) = Some (wreq, st1, sent, True)"
    using demo_write by blast
  obtain wreq2 st2 where c: "complete demo_env (wreq, st1) (Local True) = (wreq2, st2)" by fastforce
  then have st2: "demo_written ?dev ?x = st2" using w by (simp add: demo_written_def)
  obtain req st3 where r: "IoService_Read demo_env True demo_unit st2 (demo_msg 4096 4096 []) = Some (req, st3, [], True)"
    using demo_read[of ?x ?dev] st2 by auto
  obtain req2 st4 where d: "complete demo_env (req, st3) (Local True) = (req2, st4)" by fastforce
  have "resp_attachment (rq_resp req2) = ?x"
    using read_after_write[OF demo_server_wf _ _ _ _ w c _ _ _ r d] by simp
  then show ?thesis unfolding st2 using w c r d by blast
qed

text \<open>C20: Replicas agree: when the device of the primary has completed a write, and the device
  of a secondary the replicate message that the primary sent for it, both extents hold the
  same bytes in the range of the write.\<close>

theorem replicas_agree:
  assumes "se_wf (env_crc env) st" "se_wf (env_crc env') st'"
    and "length (msg_extent_id msg) < 2 ^ 30" "msg_offset msg + msg_size msg < 2 ^ 64"
    and "length (msg_attachment msg) = msg_size msg" "env_submit env" "env_submit env'"
    and "IoService_Write env True unit st msg = Some (req, st1, sent, True)"
    and "complete env (req, st1) (Local True) = (req2, st2)"
    and "IoService_Replicate env' True unit' st' (sendOneReplicate req) = Some (req', st1', sent', True)"
    and "complete env' (req', st1') (Local True) = (req2', st2')"
    and "msg_offset msg \<le> i" "i < msg_offset msg + msg_size msg"
  shows "extent_byte st2' (msg_extent_id msg) i = extent_byte st2 (msg_extent_id msg) i"
proof -
  have io: "io_type kTypeWrite" by (simp add: io_type_def)
  have "rq_type req = kTypeWrite" "rq_msg req = msg"
    using call_in_extent[OF assms(1,3) io assms(8)[unfolded IoService_Write_def] assms(4)] by blast+
  then have m: "sendOneReplicate req = msg"
    by (simp add: sendOneReplicate_def ExtentID_def Request_Offset_def Request_Size_def)
  have s: "st2 = snd (worker_step env st1 req True)" "st2' = snd (worker_step env' st1' req' True)"
    using assms(9,11) by simp_all
  have "extent_byte st2 (msg_extent_id msg) i = msg_attachment msg ! (i - msg_offset msg)"
    by (rule write_effect(2)[OF assms(1,3) _ assms(8)[unfolded IoService_Write_def] assms(4-6) s(1) assms(12,13)]) simp
  moreover have "extent_byte st2' (msg_extent_id msg) i = msg_attachment msg ! (i - msg_offset msg)"
    by (rule write_effect(2)[OF assms(2,3) _ assms(10)[unfolded m IoService_Replicate_def] assms(4,5,7) s(2) assms(12,13)]) simp
  ultimately show ?thesis by simp
qed

theorem replicas_agree_witness:
  "\<exists>req st1 sent req' st1'.
     IoService_Write demo_env True demo_unit (demo_server ''a'' (\<lambda>_. CHR ''s'')) (demo_msg 4096 4096 (replicate 4096 CHR ''x'')) =
       Some (req, st1, sent, True) \<and>
     IoService_Replicate demo_env True demo_unit (demo_server ''b'' (\<lambda>_. CHR ''t'')) (sendOneReplicate req) = Some (req', st1', [], True) \<and>
     extent_byte (snd (complete demo_env (req', st1') (Local True))) ''b.1'' 5000 =
     extent_byte (snd (complete demo_env (req, st1) (Local True))) ''b.1'' 5000"
proof -
  let ?m = "demo_msg 4096 4096 (replicate 4096 CHR ''x'')"
  obtain req st1 sent where w: "IoService_Write demo_env True demo_unit (demo_server ''a'' (\<lambda>_. CHR ''s'')) ?m = Some (req, st1, sent, True)"
    using demo_write by blast
  obtain req2 st2 where c: "complete demo_env (req, st1) (Local True) = (req2, st2)" by fastforce
  have io: "io_type kTypeWrite" by (simp add: io_type_def)
  have "rq_type req = kTypeWrite \<and> rq_msg req = ?m"
    using call_in_extent[OF demo_server_wf _ io w[unfolded IoService_Write_def]] by auto
  then have m: "sendOneReplicate req = ?m"
    by (simp add: sendOneReplicate_def ExtentID_def Request_Offset_def Request_Size_def demo_msg_def)
  obtain req' st1' where r: "IoService_Replicate demo_env True demo_unit (demo_server ''b'' (\<lambda>_. CHR ''t'')) (sendOneReplicate req) = Some (req', st1', [], True)"
    using demo_replicate unfolding m by blast
  obtain req2' st2' where d: "complete demo_env (req', st1') (Local True) = (req2', st2')" by fastforce
  have "extent_byte st2' ''b.1'' 5000 = extent_byte st2 ''b.1'' 5000"
    using replicas_agree[OF demo_server_wf demo_server_wf _ _ _ _ _ w c r d, of 5000] by simp
  with w r c d show ?thesis by (intro exI conjI) (assumption, assumption, simp only: snd_conv)
qed

text \<open>C32: A write that fails a safety check (no extent id, offset or size not a multiple of the
  alignment, range beyond the extent, this server not the primary, or a checksum that does
  not match the data) is answered at once with an error; no secondary gets a message, no
  location is made, and the device is not touched.\<close>

theorem unsafe_write_rejected:
  assumes "IoService_Write env True unit st msg = Some (req, st', sent, pending)"
    and "se_align_size st = kAlignSize" "se_replication st = kStandardReplication"
    and "msg_extent_id msg = [] \<or> msg_offset msg mod kAlignSize \<noteq> 0 \<or> msg_size msg mod kAlignSize \<noteq> 0 \<or>
       se_extent_size st < u64_add (msg_offset msg) (msg_size msg) \<or>
       (\<exists>r. fst (QueryRouter (env_remote env) (se_routers st) (msg_extent_id msg)) = Some r \<and> \<not> IsPrimary r (se_ip st) (se_port st)) \<or>
       (\<exists>c. msg_crc32 msg = Some c \<and> unat (env_crc env (msg_attachment msg)) \<noteq> c)"
  shows "\<not> pending \<and> sent = [] \<and> answered req False \<and> se_locs st' = se_locs st \<and> se_dev st' = se_dev st"
proof -
  let ?req = "SetOperationContext (Request_Reset unit kTypeWrite) msg fresh_response"
  have f: "ExtentID ?req = msg_extent_id msg" "Request_Offset ?req = msg_offset msg" "Request_Size ?req = msg_size msg"
    by (simp_all add: io_type_fields io_type_def)
  obtain s1 cache r where c: "doSafetyCheck env st ?req = Some (s1, ?req \<lparr> rq_router := r \<rparr>, st \<lparr> se_routers := cache \<rparr>)"
    "st_ok s1 \<Longrightarrow> st_ok (checkParameters st ?req) \<and> st_ok (checkChecksum env ?req)"
    using doSafetyCheck_spec[of env st ?req] by metis
  have "\<not> st_ok s1"
  proof
    assume ok: "st_ok s1"
    then have own: "\<forall>r. fst (QueryRouter (env_remote env) (se_routers st) (msg_extent_id msg)) = Some r \<longrightarrow> IsPrimary r (se_ip st) (se_port st)"
      using c(1) assms(3) f(1)
      by (auto simp: doSafetyCheck_def StorageEngine_queryRouter_def Let_def checkOwnership_def check_writer_def
          split: option.splits if_splits prod.splits)
    from c(2)[OF ok] show False
      using assms(2,4) own by (auto simp: checkParameters_def checkChecksum_def f split: if_splits option.splits)
  qed
  then have "req = WriteDone (SetResult (?req \<lparr> rq_router := r \<rparr>) False)" "st' = st \<lparr> se_routers := cache \<rparr>" "sent = []" "\<not> pending"
    using assms(1) c(1) by (auto simp: IoService_Write_def start_call_def GetRequest_def StorageEngine_ProcessRequest_def Let_def)
  moreover have "waiting (?req \<lparr> rq_router := r \<rparr>) (Suc 0) True" using start_waiting by simp
  ultimately show ?thesis using WriteDone_waiting[of "?req \<lparr> rq_router := r \<rparr>" 0 True False] by simp
qed

theorem unsafe_write_rejected_witness:
  "\<exists>req st'. IoService_Write demo_env True demo_unit (demo_server ''c'' (\<lambda>_. CHR ''s'')) (demo_msg 4096 4096 []) =
      Some (req, st', [], False) \<and> answered req False"
proof -
  let ?st = "demo_server ''c'' (\<lambda>_. CHR ''s'')" and ?msg = "demo_msg 4096 4096 []"
  have "\<exists>req st' sent pending. IoService_Write demo_env True demo_unit ?st ?msg = Some (req, st', sent, pending)"
    unfolding demo_defs demo_mgr_eq IoService_Write_def by (auto simp: call_eval query_eval)
  then obtain req st' sent pending where w: "IoService_Write demo_env True demo_unit ?st ?msg = Some (req, st', sent, pending)" by blast
  have a: "se_align_size ?st = kAlignSize" "se_replication ?st = kStandardReplication" by (simp_all add: demo_defs)
  have "fst (QueryRouter (env_remote demo_env) (se_routers ?st) (msg_extent_id ?msg)) = Some (demo_router \<lparr> er_extent_id := ''b.1'' \<rparr>)"
    "\<not> IsPrimary (demo_router \<lparr> er_extent_id := ''b.1'' \<rparr>) (se_ip ?st) (se_port ?st)"
    by (simp_all add: demo_defs QueryRouter_def queryFromRemote_def IsPrimary_def)
  then have "\<not> pending \<and> sent = [] \<and> answered req False" using unsafe_write_rejected[OF w a] by blast
  with w show ?thesis by simp
qed




text \<open>The length of the attachment is not compared with the size of the write. The missing
  bytes are written from the recycled I/O buffer, whatever it held.\<close>

theorem short_attachment_writes_buffer:
  assumes "rq_type req = kTypeWrite" "env_submit env" "length (msg_attachment (rq_msg req)) < Request_Size req"
    and "Request_Size req \<le> length (env_buf env)"
    and "length (msg_attachment (rq_msg req)) \<le> i" "i < Request_Size req"
  shows "se_dev (snd (worker_step env st req True)) (rq_phys req + i) = env_buf env ! i"
  using assms worker_write[of req env st] by (simp add: copy_to_def dev_write_def nth_append)

theorem short_attachment_writes_buffer_witness:
  "se_dev (snd (worker_step (demo_env \<lparr> env_buf := replicate 4096 CHR ''z'' \<rparr>) (demo_server ''a'' (\<lambda>_. CHR ''s''))
      (SetOperationContext (Request_Reset demo_unit kTypeWrite) (demo_msg 0 4096 ''ab'') fresh_response) True)) (0 + 100) = CHR ''z''"
  using short_attachment_writes_buffer[of "SetOperationContext (Request_Reset demo_unit kTypeWrite) (demo_msg 0 4096 ''ab'') fresh_response"
      "demo_env \<lparr> env_buf := replicate 4096 CHR ''z'' \<rparr>" 100 "demo_server ''a'' (\<lambda>_. CHR ''s'')"]
  by (simp add: Request_Size_def SetOperationContext_def Request_Reset_def)

end
