(* ===== verification/Rbd_Stream.thy ===== *)
theory Rbd_Stream
  imports Gc_Manager Extent_Io
begin

text \<open>
  The client library: \<open>RBDStreamHandleImpl\<close>, which turns a blob into a flat range of bytes,
  the handles of its extents and the calls to the extent servers
  (\<open>src/clients/libcypre/stream\<close>), with the connections of a stream
  (\<open>ConnectionPool2\<close> in \<open>src/src/common/connection_pool.h\<close>).

  The memory of the client is a function from addresses to bytes, as the device of a
  server is. What the library cannot decide is the record \<open>cl_env\<close>: the checksum, the
  replies of the router service, which channels can be opened, and the extent servers,
  as functions on their own state. A user request records the statuses its callback was
  called with and how often it was deleted. The rings and threads that carry a request to
  the sender are not part of the model: an asynchronous call leaves a \<open>caller\<close> that is
  completed later, in any order with others. Times and latency counters are not modelled.
\<close>

section \<open>Data\<close>

datatype ExtentIoProtocol = kBrpc | kNull

datatype stream_io_type = kRead | kWrite

record rbd_options =
  so_blob_id :: string
  so_blob_name :: string
  so_pool_id :: string
  so_user_id :: string
  so_extent_size :: nat
  so_blob_size :: nat

text \<open>The handle of an extent: \<open>es_wrapper_\<close> is one of two wrappers, named by its protocol.\<close>

record ystream =
  ys_extent_id :: string
  ys_extent_idx :: int
  ys_wrapper :: ExtentIoProtocol

record rbd_stream =
  rbd_sopts :: rbd_options
  rbd_handleMap :: "nat \<rightharpoonup> ystream"
  rbd_esio_proto :: ExtentIoProtocol
  rbd_ioInflight :: int
  rbd_isClosed :: bool
  rbd_routers :: router_cache
  rbd_conn_pool :: "int \<rightharpoonup> string"

text \<open>\<open>ReadRequest\<close> and \<open>WriteRequest\<close>: one call for a range of an extent.\<close>

record io_request =
  ir_buf :: nat
  ir_data_crc32 :: "32 word"
  ir_has_data_crc32 :: bool
  ir_header_crc32 :: "32 word"
  ir_real_offset :: nat
  ir_real_len :: nat
  ir_extent_id :: string
  ir_is_done :: bool
  ir_status :: int

record user_request =
  ur_type :: stream_io_type
  ur_buf :: nat
  ur_logic_len :: nat
  ur_logic_offset :: nat
  ur_data_crc32 :: "32 word"
  ur_header_crc32 :: "32 word"
  ur_is_splited :: bool
  ur_user_cb :: bool
  ur_status :: int
  ur_ref :: int
  ur_called :: "int list"
  ur_deleted :: nat

record es_caller =
  ca_conn :: "string option"
  ca_req :: io_request
  ca_null :: bool

datatype es_reply = Cntl_Failed | Cntl_Reply es_response

record 's cl_env =
  ce_crc :: "string \<Rightarrow> 32 word"
  ce_remote :: "string \<Rightarrow> extent_router rpc"
  ce_channel :: "string \<Rightarrow> bool"
  ce_read :: "'s \<Rightarrow> string \<Rightarrow> pb_msg \<Rightarrow> 's \<times> es_reply"
  ce_write :: "'s \<Rightarrow> string \<Rightarrow> pb_msg \<Rightarrow> 's \<times> es_reply"

text \<open>What a call works on: the value to return, the servers, the memory, the stream, the
  user request and the calls that were handed to the sender.\<close>

record 's flight =
  fl_rv :: int
  fl_servers :: 's
  fl_mem :: "nat \<Rightarrow> char"
  fl_rbd :: rbd_stream
  fl_ureq :: user_request
  fl_callers :: "es_caller list"

section \<open>Connections\<close>

definition ConnectionPool2_NewConnection :: "('s, 'm) cl_env_scheme \<Rightarrow> rbd_stream \<Rightarrow> es_instance \<Rightarrow> string option \<times> rbd_stream" where
  "ConnectionPool2_NewConnection e rbd es =
     (let conn_id = get_connection_id (public_ip es) (public_port es) in
      if \<not> ce_channel e conn_id then (None, rbd)
      else (Some conn_id, rbd \<lparr> rbd_conn_pool := (rbd_conn_pool rbd)(es_id es \<mapsto> conn_id) \<rparr>))"

definition ConnectionPool2_GetConnection :: "rbd_stream \<Rightarrow> int \<Rightarrow> string option" where
  "ConnectionPool2_GetConnection rbd i = rbd_conn_pool rbd i"

text \<open>The connection of a call: the one of the pool, or a new one.\<close>

definition wrapper_connection :: "('s, 'm) cl_env_scheme \<Rightarrow> rbd_stream \<Rightarrow> es_instance \<Rightarrow> string option \<times> rbd_stream" where
  "wrapper_connection e rbd es =
     (case ConnectionPool2_GetConnection rbd (es_id es) of
        Some conn \<Rightarrow> (Some conn, rbd)
      | None \<Rightarrow> ConnectionPool2_NewConnection e rbd es)"

section \<open>Calls to an extent server\<close>

definition reader_message :: "io_request \<Rightarrow> pb_msg" where
  "reader_message req =
     \<lparr> msg_extent_id = ir_extent_id req, msg_offset = ir_real_offset req, msg_size = ir_real_len req,
       msg_crc32 = None, msg_attachment = [] \<rparr>"

definition writer_message :: "(nat \<Rightarrow> char) \<Rightarrow> io_request \<Rightarrow> pb_msg" where
  "writer_message mem req =
     \<lparr> msg_extent_id = ir_extent_id req, msg_offset = ir_real_offset req, msg_size = ir_real_len req,
       msg_crc32 = Some (unat (ir_data_crc32 req)), msg_attachment = dev_read mem (ir_buf req) (ir_real_len req) \<rparr>"

text \<open>The status of a call. When the call itself failed the response is an unset message.\<close>

definition reply_code :: "es_reply \<Rightarrow> int" where
  "reply_code reply =
     (case reply of
        Cntl_Failed \<Rightarrow> CYPRE_ER_NET_ERROR
      | Cntl_Reply resp \<Rightarrow> if resp_code resp \<noteq> 0 then resp_code resp else CYPRE_OK)"

text \<open>The end of a call; the flag tells whether the caller's callback runs.\<close>

definition BrpcEsReader_onReadDone :: "es_reply \<Rightarrow> io_request \<Rightarrow> (nat \<Rightarrow> char) \<Rightarrow> io_request \<times> (nat \<Rightarrow> char) \<times> bool" where
  "BrpcEsReader_onReadDone reply req mem =
     (if ir_is_done req then (req, mem, False)
      else let req = req \<lparr> ir_is_done := True \<rparr>;
               rc = reply_code reply;
               resp = (case reply of Cntl_Failed \<Rightarrow> fresh_response | Cntl_Reply resp \<Rightarrow> resp);
               (req, mem) =
                 (if CYPRE_OK = resp_code resp
                  then (case resp_crc32 resp of
                          None \<Rightarrow> req
                        | Some c \<Rightarrow> req \<lparr> ir_data_crc32 := of_nat c, ir_has_data_crc32 := True \<rparr>,
                        dev_write mem (ir_buf req) (resp_attachment resp))
                  else (req, mem))
           in (req \<lparr> ir_status := rc \<rparr>, mem, True))"

definition BrpcEsWriter_onWriteDone :: "es_reply \<Rightarrow> io_request \<Rightarrow> io_request \<times> bool" where
  "BrpcEsWriter_onWriteDone reply req =
     (if ir_is_done req then (req, False)
      else (req \<lparr> ir_is_done := True, ir_status := reply_code reply \<rparr>, True))"

definition caller_done :: "stream_io_type \<Rightarrow> es_reply \<Rightarrow> io_request \<Rightarrow> (nat \<Rightarrow> char) \<Rightarrow> io_request \<times> (nat \<Rightarrow> char) \<times> bool" where
  "caller_done t reply req mem =
     (case t of
        kRead \<Rightarrow> BrpcEsReader_onReadDone reply req mem
      | kWrite \<Rightarrow> (case BrpcEsWriter_onWriteDone reply req of (req, run) \<Rightarrow> (req, mem, run)))"

definition SyncCall :: "('s, 'm) cl_env_scheme \<Rightarrow> 's \<Rightarrow> (nat \<Rightarrow> char) \<Rightarrow> stream_io_type \<Rightarrow> string \<Rightarrow> io_request
    \<Rightarrow> io_request \<times> 's \<times> (nat \<Rightarrow> char)" where
  "SyncCall e s mem t conn req =
     (case (case t of
              kRead \<Rightarrow> ce_read e s conn (reader_message req)
            | kWrite \<Rightarrow> ce_write e s conn (writer_message mem req)) of
        (s, reply) \<Rightarrow> (case caller_done t reply req mem of (req, mem, _) \<Rightarrow> (req, s, mem)))"

definition call_refused :: "io_request \<Rightarrow> io_request" where
  "call_refused req = req \<lparr> ir_is_done := True, ir_status := CYPRE_C_INTERNAL_ERROR \<rparr>"

text \<open>\<open>AsyncRead\<close> and \<open>AsyncWrite\<close> of the wrappers; \<open>cb\<close> tells whether there is a callback.
  The result is the return value, the request, the servers, the memory, the stream and
  the caller that was pushed to the sender.\<close>

definition BrpcEsWrapper_Async where
  "BrpcEsWrapper_Async e s mem rbd t es req cb =
     (case wrapper_connection e rbd es of
        (None, rbd) \<Rightarrow> (CYPRE_C_INTERNAL_ERROR, call_refused req, s, mem, rbd, None)
      | (Some conn, rbd) \<Rightarrow>
          if cb then (CYPRE_OK, req, s, mem, rbd, Some \<lparr> ca_conn = Some conn, ca_req = req, ca_null = False \<rparr>)
          else (case SyncCall e s mem t conn req of (req, s, mem) \<Rightarrow> (ir_status req, req, s, mem, rbd, None)))"

definition NullEsWrapper_Async where
  "NullEsWrapper_Async e s mem rbd t es req cb =
     (case wrapper_connection e rbd es of
        (conn, rbd) \<Rightarrow>
          if cb then (CYPRE_OK, req, s, mem, rbd, Some \<lparr> ca_conn = conn, ca_req = req, ca_null = True \<rparr>)
          else (CYPRE_OK, req, s, mem, rbd, None))"

definition YStreamHandle_Async where
  "YStreamHandle_Async e s mem rbd t ys req cb =
     (case QueryRouter (ce_remote e) (rbd_routers rbd) (ys_extent_id ys) of
        (None, cache) \<Rightarrow> (CYPRE_C_INTERNAL_ERROR, call_refused req, s, mem, rbd \<lparr> rbd_routers := cache \<rparr>, None)
      | (Some router, cache) \<Rightarrow>
          (case ys_wrapper ys of
             kBrpc \<Rightarrow> BrpcEsWrapper_Async e s mem (rbd \<lparr> rbd_routers := cache \<rparr>) t (er_primary router) req cb
           | kNull \<Rightarrow> NullEsWrapper_Async e s mem (rbd \<lparr> rbd_routers := cache \<rparr>) t (er_primary router) req cb))"

section \<open>The stream\<close>

definition YStreamHandle_SetExtentIoProto :: "ystream \<Rightarrow> ExtentIoProtocol \<Rightarrow> int \<times> ystream" where
  "YStreamHandle_SetExtentIoProto ys esio =
     (if esio = kNull then (CYPRE_OK, ys \<lparr> ys_wrapper := kNull \<rparr>)
      else if esio = kBrpc then (CYPRE_OK, ys \<lparr> ys_wrapper := kBrpc \<rparr>)
      else (CYPRE_ER_INVALID_ARGUMENT, ys))"

definition RBDStreamHandleImpl :: "rbd_options \<Rightarrow> router_cache \<Rightarrow> rbd_stream" where
  "RBDStreamHandleImpl opt routers =
     \<lparr> rbd_sopts = opt, rbd_handleMap = Map.empty, rbd_esio_proto = kBrpc, rbd_ioInflight = 0, rbd_isClosed = False,
       rbd_routers = routers, rbd_conn_pool = Map.empty \<rparr>"

text \<open>\<open>YStreamHandle::Init\<close> always succeeds, so the branch that resets the new handle (and
  then uses it) is never taken. The handle is in the map before its protocol is set.\<close>

definition GetExtentStreamHandle :: "rbd_stream \<Rightarrow> nat \<Rightarrow> ystream \<times> rbd_stream" where
  "GetExtentStreamHandle rbd extent_index =
     (case rbd_handleMap rbd extent_index of
        Some handle \<Rightarrow> (handle, rbd)
      | None \<Rightarrow>
          let handle = \<lparr> ys_extent_id = GenerateExtentID (so_blob_id (rbd_sopts rbd)) extent_index,
                         ys_extent_idx = to_int32 (int extent_index), ys_wrapper = kBrpc \<rparr>;
              handle = snd (YStreamHandle_SetExtentIoProto handle (rbd_esio_proto rbd))
          in (handle, rbd \<lparr> rbd_handleMap := (rbd_handleMap rbd)(extent_index \<mapsto> handle) \<rparr>))"

text \<open>The pieces of a request: handle, offset in the extent and length. \<open>None\<close>: a division by
  an extent size of zero.\<close>

definition splitUserRequest :: "rbd_stream \<Rightarrow> user_request \<Rightarrow> (int \<times> (ystream \<times> nat \<times> nat) list \<times> rbd_stream) option" where
  "splitUserRequest rbd ureq =
     (let extSize = so_extent_size (rbd_sopts rbd); off = ur_logic_offset ureq; len = ur_logic_len ureq in
      if extSize = 0 then None
      else let extent_index1 = u64_add (off div extSize) 1;
               extent_index2 = u64_add (u64_sub (u64_add off len) 1 div extSize) 1
           in if extent_index2 > u64_add extent_index1 1 then Some (CYPRE_C_DATA_TOO_LARGE, [], rbd)
              else let (handle0, rbd) = GetExtentStreamHandle rbd extent_index1;
                       roff0 = u64_sub off (u64_mul (u64_sub extent_index1 1) extSize)
                   in if extent_index2 > extent_index1
                      then let len0 = u64_sub extSize roff0 mod 2 ^ 32;
                               (handle1, rbd) = GetExtentStreamHandle rbd extent_index2
                           in Some (CYPRE_OK, [(handle0, roff0, len0), (handle1, 0, (len + 2 ^ 32 - len0) mod 2 ^ 32)], rbd)
                      else Some (CYPRE_OK, [(handle0, roff0, len)], rbd))"

definition generateHeaderCrc32 :: "(string \<Rightarrow> 32 word) \<Rightarrow> user_request \<Rightarrow> user_request" where
  "generateHeaderCrc32 crc ureq =
     ureq \<lparr> ur_header_crc32 := crc (dec_digits (ur_logic_len ureq) @ dec_digits (ur_logic_offset ureq)) \<rparr>"

text \<open>The last steps of \<open>onReadDone\<close> and \<open>onWriteDone\<close>: the first error stays, the last piece
  runs the callback of the user and deletes the request.\<close>

definition piece_done :: "rbd_stream \<Rightarrow> user_request \<Rightarrow> io_request \<Rightarrow> user_request \<times> rbd_stream" where
  "piece_done rbd ureq req =
     (let ureq = (if ir_status req \<noteq> CYPRE_OK \<and> ur_status ureq = CYPRE_OK then ureq \<lparr> ur_status := ir_status req \<rparr> else ureq);
          ureq = ureq \<lparr> ur_ref := ur_ref ureq - 1 \<rparr>
      in if ur_ref ureq > 0 then (ureq, rbd)
         else (ureq \<lparr> ur_called := ur_called ureq @ (if ur_user_cb ureq then [ur_status ureq] else []),
                      ur_deleted := ur_deleted ureq + 1 \<rparr>,
               rbd \<lparr> rbd_ioInflight := rbd_ioInflight rbd - 1 \<rparr>))"

definition rbd_onReadDone :: "(string \<Rightarrow> 32 word) \<Rightarrow> (nat \<Rightarrow> char) \<Rightarrow> rbd_stream \<Rightarrow> user_request \<Rightarrow> io_request
    \<Rightarrow> user_request \<times> rbd_stream" where
  "rbd_onReadDone crc mem rbd ureq req =
     (let ureq = (if ir_status req = CYPRE_OK \<and> ir_has_data_crc32 req
                  then (if ir_data_crc32 req \<noteq> crc (dev_read mem (ir_buf req) (ir_real_len req))
                        then ureq \<lparr> ur_status := CYPRE_C_CRC_ERROR \<rparr> else ureq)
                  else ureq)
      in piece_done rbd ureq req)"

definition rbd_onWriteDone :: "rbd_stream \<Rightarrow> user_request \<Rightarrow> io_request \<Rightarrow> user_request \<times> rbd_stream" where
  "rbd_onWriteDone rbd ureq req = piece_done rbd ureq req"

text \<open>The callback of a piece.\<close>

definition run_callback :: "('s, 'm) cl_env_scheme \<Rightarrow> io_request \<Rightarrow> 's flight \<Rightarrow> 's flight" where
  "run_callback e req f =
     (case (case ur_type (fl_ureq f) of
              kRead \<Rightarrow> rbd_onReadDone (ce_crc e) (fl_mem f) (fl_rbd f) (fl_ureq f) req
            | kWrite \<Rightarrow> rbd_onWriteDone (fl_rbd f) (fl_ureq f) req) of
        (ureq, rbd) \<Rightarrow> f \<lparr> fl_ureq := ureq, fl_rbd := rbd \<rparr>)"

definition new_request :: "(string \<Rightarrow> 32 word) \<Rightarrow> (nat \<Rightarrow> char) \<Rightarrow> user_request \<Rightarrow> ystream \<Rightarrow> nat \<Rightarrow> nat \<Rightarrow> nat \<Rightarrow> io_request" where
  "new_request crc mem ureq handle buf roff len =
     \<lparr> ir_buf = buf,
       ir_data_crc32 = (if ur_type ureq = kWrite
                        then (if ur_is_splited ureq then crc (dev_read mem buf len) else ur_data_crc32 ureq) else 0),
       ir_has_data_crc32 = False, ir_header_crc32 = ur_header_crc32 ureq,
       ir_real_offset = roff mod 2 ^ 32, ir_real_len = len, ir_extent_id = ys_extent_id handle,
       ir_is_done = False, ir_status = -1 \<rparr>"

fun submit_pieces :: "('s, 'm) cl_env_scheme \<Rightarrow> (ystream \<times> nat \<times> nat) list \<Rightarrow> nat \<Rightarrow> 's flight \<Rightarrow> 's flight" where
  "submit_pieces e [] buf f = f"
| "submit_pieces e ((handle, roff, len) # ps) buf f =
     (let req = new_request (ce_crc e) (fl_mem f) (fl_ureq f) handle buf roff len in
      case YStreamHandle_Async e (fl_servers f) (fl_mem f) (fl_rbd f) (ur_type (fl_ureq f)) handle req (ur_user_cb (fl_ureq f)) of
        (rc, req, s, mem, rbd, caller) \<Rightarrow>
          let f = f \<lparr> fl_rv := (if rc \<noteq> CYPRE_OK then rc else fl_rv f), fl_servers := s, fl_mem := mem, fl_rbd := rbd,
                      fl_callers := fl_callers f @ (case caller of None \<Rightarrow> [] | Some c \<Rightarrow> [c]) \<rparr>;
              f = (if ur_user_cb (fl_ureq f) then (if rc \<noteq> CYPRE_OK then run_callback e req f else f)
                   else run_callback e req f)
          in submit_pieces e ps (buf + len) f)"

definition doUserRequest :: "('s, 'm) cl_env_scheme \<Rightarrow> 's \<Rightarrow> (nat \<Rightarrow> char) \<Rightarrow> rbd_stream \<Rightarrow> user_request \<Rightarrow> 's flight option" where
  "doUserRequest e s mem rbd ureq =
     (case splitUserRequest rbd ureq of
        None \<Rightarrow> None
      | Some (rv, pieces, rbd) \<Rightarrow>
          if rv \<noteq> CYPRE_OK
          then Some \<lparr> fl_rv = rv, fl_servers = s, fl_mem = mem, fl_rbd = rbd,
                      fl_ureq = ureq \<lparr> ur_deleted := ur_deleted ureq + 1 \<rparr>, fl_callers = [] \<rparr>
          else Some (submit_pieces e pieces (ur_buf ureq)
                 \<lparr> fl_rv = rv, fl_servers = s, fl_mem = mem,
                   fl_rbd = rbd \<lparr> rbd_ioInflight := rbd_ioInflight rbd + 1 \<rparr>,
                   fl_ureq = ureq \<lparr> ur_ref := int (length pieces), ur_is_splited := length pieces = 2 \<rparr>,
                   fl_callers = [] \<rparr>))"

definition new_ureq :: "stream_io_type \<Rightarrow> nat \<Rightarrow> nat \<Rightarrow> nat \<Rightarrow> bool \<Rightarrow> user_request" where
  "new_ureq t buf len offset cb =
     \<lparr> ur_type = t, ur_buf = buf, ur_logic_len = len, ur_logic_offset = offset, ur_data_crc32 = 0, ur_header_crc32 = 0,
       ur_is_splited = False, ur_user_cb = cb, ur_status = CYPRE_OK, ur_ref = 0, ur_called = [], ur_deleted = 0 \<rparr>"

text \<open>The operations of the user. \<open>Inl\<close>: refused because the stream is closed.\<close>

definition rbd_AsyncRead :: "('s, 'm) cl_env_scheme \<Rightarrow> 's \<Rightarrow> (nat \<Rightarrow> char) \<Rightarrow> rbd_stream \<Rightarrow> nat \<Rightarrow> nat \<Rightarrow> nat \<Rightarrow> bool
    \<Rightarrow> (int + 's flight) option" where
  "rbd_AsyncRead e s mem rbd buf len offset cb =
     (if rbd_isClosed rbd then Some (Inl CYPRE_C_DEVICE_CLOSED)
      else map_option Inr (doUserRequest e s mem rbd (generateHeaderCrc32 (ce_crc e) (new_ureq kRead buf len offset cb))))"

definition rbd_AsyncWrite :: "('s, 'm) cl_env_scheme \<Rightarrow> 's \<Rightarrow> (nat \<Rightarrow> char) \<Rightarrow> rbd_stream \<Rightarrow> nat \<Rightarrow> nat \<Rightarrow> nat \<Rightarrow> bool
    \<Rightarrow> (int + 's flight) option" where
  "rbd_AsyncWrite e s mem rbd buf len offset cb =
     (if rbd_isClosed rbd then Some (Inl CYPRE_C_DEVICE_CLOSED)
      else map_option Inr (doUserRequest e s mem rbd (generateHeaderCrc32 (ce_crc e)
        ((new_ureq kWrite buf len offset cb) \<lparr> ur_data_crc32 := ce_crc e (dev_read mem buf len) \<rparr>))))"

definition rbd_Read where
  "rbd_Read e s mem rbd buf len offset = rbd_AsyncRead e s mem rbd buf len offset False"

definition rbd_Write where
  "rbd_Write e s mem rbd buf len offset = rbd_AsyncWrite e s mem rbd buf len offset False"

text \<open>The later life of a pushed call: the sender passes it to the channel and the server
  answers, or the sender is stopped and expires it. A call of the null wrapper is answered
  at once by an empty response.\<close>

datatype caller_event = Answered es_reply | Expired

definition SetExpired :: "io_request \<Rightarrow> io_request" where
  "SetExpired req = req \<lparr> ir_is_done := True, ir_status := CYPRE_C_DEVICE_CLOSED \<rparr>"

definition caller_step :: "('s, 'm) cl_env_scheme \<Rightarrow> 's flight \<Rightarrow> es_caller \<times> caller_event \<Rightarrow> 's flight" where
  "caller_step e f ce =
     (case snd ce of
        Expired \<Rightarrow> run_callback e (SetExpired (ca_req (fst ce))) f
      | Answered reply \<Rightarrow>
          (case caller_done (ur_type (fl_ureq f)) (if ca_null (fst ce) then Cntl_Reply fresh_response else reply)
                  (ca_req (fst ce)) (fl_mem f) of
             (req, mem, run) \<Rightarrow>
               let f = f \<lparr> fl_mem := mem \<rparr> in if run then run_callback e req f else f))"

text \<open>\<open>SetExtentIoProto\<close> of the stream, and \<open>Close\<close>: it waits while requests are in flight
  (\<open>None\<close>); closing an extent handle does nothing.\<close>

definition rbd_SetExtentIoProto :: "rbd_stream \<Rightarrow> ExtentIoProtocol \<Rightarrow> int \<times> rbd_stream" where
  "rbd_SetExtentIoProto rbd esio =
     (if rbd_esio_proto rbd = esio then (CYPRE_OK, rbd)
      else (CYPRE_OK, rbd \<lparr> rbd_esio_proto := esio,
              rbd_handleMap := map_option (\<lambda>h. snd (YStreamHandle_SetExtentIoProto h esio)) \<circ> rbd_handleMap rbd \<rparr>))"

definition rbd_Close :: "rbd_stream \<Rightarrow> (int \<times> rbd_stream) option" where
  "rbd_Close rbd =
     (if rbd_isClosed rbd then Some (CYPRE_OK, rbd)
      else if rbd_ioInflight rbd \<noteq> 0 then None
      else Some (CYPRE_OK, rbd \<lparr> rbd_isClosed := True, rbd_handleMap := Map.empty \<rparr>))"

section \<open>The pieces of a request\<close>

text \<open>The bytes of an extent that a piece stands for.\<close>

definition piece_cells :: "ystream \<times> nat \<times> nat \<Rightarrow> (string \<times> nat) list" where
  "piece_cells p = (case p of (handle, roff, len) \<Rightarrow> map (\<lambda>i. (ys_extent_id handle, i)) [roff..<roff + len])"

text \<open>The place of a byte of the blob: extents are counted from one.\<close>

definition place :: "rbd_options \<Rightarrow> nat \<Rightarrow> string \<times> nat" where
  "place so a = (GenerateExtentID (so_blob_id so) (a div so_extent_size so + 1), a mod so_extent_size so)"

definition handles_ok :: "rbd_stream \<Rightarrow> bool" where
  "handles_ok rbd \<longleftrightarrow> (\<forall>i h. rbd_handleMap rbd i = Some h \<longrightarrow>
     ys_extent_id h = GenerateExtentID (so_blob_id (rbd_sopts rbd)) i \<and> ys_wrapper h = rbd_esio_proto rbd)"

definition piece_fits :: "nat \<Rightarrow> ExtentIoProtocol \<Rightarrow> ystream \<times> nat \<times> nat \<Rightarrow> bool" where
  "piece_fits es proto p \<longleftrightarrow> (case p of (handle, roff, len) \<Rightarrow> 0 < len \<and> len < 2 ^ 32 \<and> roff + len \<le> es \<and> ys_wrapper handle = proto)"

lemma GetExtentStreamHandle_spec:
  assumes "handles_ok rbd"
  obtains h m where "GetExtentStreamHandle rbd i = (h, rbd \<lparr> rbd_handleMap := m \<rparr>)" "handles_ok (rbd \<lparr> rbd_handleMap := m \<rparr>)"
    "ys_extent_id h = GenerateExtentID (so_blob_id (rbd_sopts rbd)) i" "ys_wrapper h = rbd_esio_proto rbd"
proof (cases "rbd_handleMap rbd i")
  case None
  have w: "ys_wrapper (snd (YStreamHandle_SetExtentIoProto h p)) = p" "ys_extent_id (snd (YStreamHandle_SetExtentIoProto h p)) = ys_extent_id h" for h p
    by (cases p; simp add: YStreamHandle_SetExtentIoProto_def)+
  obtain h where h: "GetExtentStreamHandle rbd i = (h, rbd \<lparr> rbd_handleMap := (rbd_handleMap rbd)(i \<mapsto> h) \<rparr>)"
    "ys_extent_id h = GenerateExtentID (so_blob_id (rbd_sopts rbd)) i" "ys_wrapper h = rbd_esio_proto rbd"
    using None by (simp add: GetExtentStreamHandle_def Let_def w)
  show thesis by (rule that[OF h(1) _ h(2,3)]) (use assms h in \<open>auto simp: handles_ok_def\<close>)
next
  case (Some h)
  have "rbd = rbd \<lparr> rbd_handleMap := rbd_handleMap rbd \<rparr>" by simp
  then have "GetExtentStreamHandle rbd i = (h, rbd \<lparr> rbd_handleMap := rbd_handleMap rbd \<rparr>)"
    using Some by (simp add: GetExtentStreamHandle_def)
  from that[OF this] show thesis using assms Some by (simp add: handles_ok_def)
qed

text \<open>The split without wrap-around.\<close>

lemma splitUserRequest_eq:
  fixes rbd :: rbd_stream and ureq :: user_request
  defines "E \<equiv> so_extent_size (rbd_sopts rbd)" and "off \<equiv> ur_logic_offset ureq" and "len \<equiv> ur_logic_len ureq"
  assumes "2 \<le> E" "E \<le> 2 ^ 32" "0 < len" "len < 2 ^ 32" "off + len < 2 ^ 64"
  shows "splitUserRequest rbd ureq =
     (if (off + len - 1) div E > off div E + 1 then Some (CYPRE_C_DATA_TOO_LARGE, [], rbd)
      else let (h0, rbd) = GetExtentStreamHandle rbd (off div E + 1) in
        if (off + len - 1) div E > off div E
        then let (h1, rbd) = GetExtentStreamHandle rbd ((off + len - 1) div E + 1)
             in Some (CYPRE_OK, [(h0, off mod E, E - off mod E), (h1, 0, len - (E - off mod E))], rbd)
        else Some (CYPRE_OK, [(h0, off mod E, len)], rbd))"
proof -
  have half: "a div E < 2 ^ 63" if "a < 2 ^ 64" for a
  proof -
    have "a div E \<le> a div 2" using assms(4) by (intro div_le_mono2) simp_all
    also have "\<dots> < 2 ^ 63" using that by simp
    finally show ?thesis .
  qed
  have h: "off div E < 2 ^ 63" "(off + len - 1) div E < 2 ^ 63" using assms(8) by (intro half; simp)+
  have u: "u64_add off len = off + len" "u64_sub (off + len) 1 = off + len - 1" "u64_add (off div E) 1 = off div E + 1"
    "u64_add ((off + len - 1) div E) 1 = (off + len - 1) div E + 1" "u64_add (off div E + 1) 1 = off div E + 2"
    "u64_sub (off div E + 1) 1 = off div E"
    using h assms(6,8) by (simp_all add: u64_add_small u64_sub_small)
  have m: "off div E * E \<le> off" "off - off div E * E = off mod E" by (simp_all add: minus_div_mult_eq_mod)
  have b: "off div E * E < 2 ^ 64" by (rule le_less_trans[OF m(1)]) (use assms(8) in simp)
  have r: "u64_mul (off div E) E = off div E * E" by (rule u64_mul_small[OF b])
  have r2: "u64_sub off (off div E * E) = off mod E"
    unfolding m(2)[symmetric] by (rule u64_sub_small[OF m(1)]) (use assms(8) in simp)
  have lt: "off mod E < E" using assms(4) by simp
  then have s: "u64_sub E (off mod E) = E - off mod E" using assms(5) by (simp add: u64_sub_small)
  have two: "(E - off mod E) mod 2 ^ 32 = E - off mod E \<and> (len + 2 ^ 32 - (E - off mod E)) mod 2 ^ 32 = len - (E - off mod E)"
    if "(off + len - 1) div E > off div E"
  proof -
    have "(off div E + 1) * E \<le> off + len - 1" using that assms(4) by (metis Suc_eq_plus1 Suc_leI div_le_mono2 le_trans mult_le_mono1 div_times_less_eq_dividend)
    then have "E - off mod E \<le> len - 1" using m by (simp add: algebra_simps)
    then have "E - off mod E < len" using assms(6) by simp
    then show ?thesis using assms(7) by (simp add: le_mod_geq)
  qed
  have E0: "E \<noteq> 0" using assms(4) by simp
  note def = splitUserRequest_def[of rbd ureq, folded E_def off_def len_def, unfolded Let_def u r r2 s]
  show ?thesis
  proof (cases "(off + len - 1) div E > off div E")
    case True
    from two[OF True] have "(E - off mod E) mod 2 ^ 32 = E - off mod E" "(len + 2 ^ 32 - (E - off mod E)) mod 2 ^ 32 = len - (E - off mod E)"
      by simp_all
    note def = def[unfolded this]
    show ?thesis unfolding def Let_def using E0 True by (simp only: if_False if_True simp_thms add_less_cancel_right) (simp split: prod.split)
  next
    case False
    then show ?thesis unfolding def Let_def using E0 by (simp split: prod.split)
  qed
qed

lemma place_run:
  assumes "off mod so_extent_size so + n \<le> so_extent_size so"
  shows "map (place so) [off..<off + n] =
     map (\<lambda>i. (GenerateExtentID (so_blob_id so) (off div so_extent_size so + 1), i))
       [off mod so_extent_size so..<off mod so_extent_size so + n]"
proof (rule nth_equalityI)
  fix k assume "k < length (map (place so) [off..<off + n])"
  then have k: "k < n" by simp
  let ?E = "so_extent_size so"
  have lt: "off mod ?E + k < ?E" using k assms by simp
  have eq: "off + k = off div ?E * ?E + (off mod ?E + k)" by simp
  have "(off + k) mod ?E = off mod ?E + k" "(off + k) div ?E = off div ?E"
    unfolding eq using lt by (simp_all only: mod_mult_self3 div_mult_self3 mod_less div_less)
  then show "map (place so) [off..<off + n] ! k = map (\<lambda>i. (GenerateExtentID (so_blob_id so) (off div ?E + 1), i))
      [off mod ?E..<off mod ?E + n] ! k"
    using k by (simp add: place_def)
qed simp

text \<open>A request that touches at most two extents is cut into pieces that together are its
  range, in order; any other request is refused.\<close>

lemma split_spec:
  fixes rbd :: rbd_stream and ureq :: user_request
  defines "E \<equiv> so_extent_size (rbd_sopts rbd)" and "off \<equiv> ur_logic_offset ureq" and "len \<equiv> ur_logic_len ureq"
  assumes sz: "2 \<le> E" "E \<le> 2 ^ 32" "0 < len" "len < 2 ^ 32" "off + len < 2 ^ 64" and ok: "handles_ok rbd"
  obtains rv ps m where "splitUserRequest rbd ureq = Some (rv, ps, rbd \<lparr> rbd_handleMap := m \<rparr>)" "handles_ok (rbd \<lparr> rbd_handleMap := m \<rparr>)"
    "if (off + len - 1) div E > off div E + 1 then rv = CYPRE_C_DATA_TOO_LARGE \<and> ps = []
     else rv = CYPRE_OK \<and> concat (map piece_cells ps) = map (place (rbd_sopts rbd)) [off..<off + len] \<and>
       list_all (piece_fits E (rbd_esio_proto rbd)) ps \<and> (length ps = 1 \<or> length ps = 2) \<and> distinct (map (ys_extent_id \<circ> fst) ps)"
proof -
  note eq = splitUserRequest_eq[OF sz[unfolded E_def off_def len_def], folded E_def off_def len_def]
  have E: "0 < E" using sz(1) by simp
  define i where "i = off div E"
  define j where "j = (off + len - 1) div E"
  have lt: "off mod E < E" using E by simp
  have ij: "i \<le> j" unfolding i_def j_def by (rule div_le_mono) (use sz(3) in simp)
  have off: "off = i * E + off mod E" by (simp add: i_def)
  have last: "j * E \<le> off + len - 1" "off + len - 1 < (j + 1) * E"
    using E dividend_less_div_times[of E "off + len - 1"] by (simp_all add: j_def algebra_simps)
  note eq = eq[folded i_def j_def]
  consider "j > i + 1" | "j = i + 1" | "j = i" using ij by linarith
  then show thesis
  proof cases
    case 1
    then have "splitUserRequest rbd ureq = Some (CYPRE_C_DATA_TOO_LARGE, [], rbd \<lparr> rbd_handleMap := rbd_handleMap rbd \<rparr>)"
      unfolding eq by simp
    from that[OF this] show thesis using 1 ok by (simp add: i_def j_def)
  next
    case 2
    obtain h0 m0 where h0: "GetExtentStreamHandle rbd (i + 1) = (h0, rbd \<lparr> rbd_handleMap := m0 \<rparr>)" "handles_ok (rbd \<lparr> rbd_handleMap := m0 \<rparr>)"
      "ys_extent_id h0 = GenerateExtentID (so_blob_id (rbd_sopts rbd)) (i + 1)" "ys_wrapper h0 = rbd_esio_proto rbd"
      by (rule GetExtentStreamHandle_spec[OF ok])
    obtain h1 m1 where h1: "GetExtentStreamHandle (rbd \<lparr> rbd_handleMap := m0 \<rparr>) (j + 1) = (h1, rbd \<lparr> rbd_handleMap := m1 \<rparr>)"
      "handles_ok (rbd \<lparr> rbd_handleMap := m1 \<rparr>)" "ys_extent_id h1 = GenerateExtentID (so_blob_id (rbd_sopts rbd)) (j + 1)"
      "ys_wrapper h1 = rbd_esio_proto rbd"
      by (rule GetExtentStreamHandle_spec[OF h0(2), of "j + 1", simplified]) simp
    let ?n = "E - off mod E" and ?so = "rbd_sopts rbd"
    have n: "0 < ?n" "?n < len" "len - ?n \<le> E"
      using last lt off 2 sz(3) by (simp_all add: algebra_simps)
    have next_off: "off + ?n = (i + 1) * E" using off lt by (simp add: algebra_simps)
    have "(off + ?n) mod E = 0" "(off + ?n) div E = j" unfolding next_off using E 2 by simp_all
    then have second: "map (place ?so) [off + ?n..<off + len] = piece_cells (h1, 0, len - ?n)"
      using place_run[of "off + ?n" ?so "len - ?n"] n h1(3) by (simp add: E_def piece_cells_def)
    have "map (place ?so) [off..<off + ?n] = piece_cells (h0, off mod E, ?n)"
      using place_run[of off ?so ?n] lt h0(3) by (simp add: E_def i_def piece_cells_def)
    moreover have "[off..<off + len] = [off..<off + ?n] @ [off + ?n..<off + len]"
      using upt_add_eq_append[OF le_add1, of off ?n "len - ?n"] n(2) by simp
    ultimately have cells: "concat (map piece_cells [(h0, off mod E, ?n), (h1, 0, len - ?n)]) = map (place ?so) [off..<off + len]"
      using second by simp
    have "splitUserRequest rbd ureq = Some (CYPRE_OK, [(h0, off mod E, ?n), (h1, 0, len - ?n)], rbd \<lparr> rbd_handleMap := m1 \<rparr>)"
      unfolding eq using 2 h1(1) by (simp add: h0(1)[simplified])
    note r = that[folded i_def j_def, OF this h1(2)]
    have "list_all (piece_fits E (rbd_esio_proto rbd)) [(h0, off mod E, ?n), (h1, 0, len - ?n)]"
    proof -
      have "?n < 2 ^ 32" "0 < len - ?n" "len - ?n < 2 ^ 32" "off mod E + ?n \<le> E" "0 + (len - ?n) \<le> E"
        using n sz(4) lt by linarith+
      then show ?thesis using n(1) h0(4) h1(4) by (simp only: list.pred_inject piece_fits_def prod.case simp_thms)
    qed
    moreover have "distinct (map (ys_extent_id \<circ> fst) [(h0, off mod E, ?n), (h1, 0, len - ?n)])" "\<not> j > i + 1"
      "length [(h0, off mod E, ?n), (h1, 0, len - ?n)] = 2"
      using 2 h0(3) h1(3) by simp_all
    ultimately show thesis by (intro r) (simp only: if_False cells simp_thms)
  next
    case 3
    obtain h0 m0 where h0: "GetExtentStreamHandle rbd (i + 1) = (h0, rbd \<lparr> rbd_handleMap := m0 \<rparr>)" "handles_ok (rbd \<lparr> rbd_handleMap := m0 \<rparr>)"
      "ys_extent_id h0 = GenerateExtentID (so_blob_id (rbd_sopts rbd)) (i + 1)" "ys_wrapper h0 = rbd_esio_proto rbd"
      by (rule GetExtentStreamHandle_spec[OF ok])
    have n: "off mod E + len \<le> E" using last off 3 sz(3) by (simp add: algebra_simps)
    then have "concat (map piece_cells [(h0, off mod E, len)]) = map (place (rbd_sopts rbd)) [off..<off + len]"
      using place_run[of off "rbd_sopts rbd" len] h0(3) by (simp add: E_def i_def piece_cells_def)
    moreover have "splitUserRequest rbd ureq = Some (CYPRE_OK, [(h0, off mod E, len)], rbd \<lparr> rbd_handleMap := m0 \<rparr>)"
      unfolding eq using 3 by (simp add: h0(1)[simplified])
    ultimately show thesis
      using that[folded i_def j_def, of CYPRE_OK "[(h0, off mod E, len)]" m0] 3 n sz(3,4) h0(2,4) by (simp add: piece_fits_def)
  qed
qed

section \<open>Routes\<close>

definition address :: "es_instance \<Rightarrow> string" where
  "address es = get_connection_id (public_ip es) (public_port es)"

text \<open>Routers and pooled connections agree: the router of an extent names the server that is
  its home, and servers are told apart by their ids.\<close>

definition routed :: "('s, 'm) cl_env_scheme \<Rightarrow> (string \<Rightarrow> string) \<Rightarrow> (int \<Rightarrow> string) \<Rightarrow> rbd_stream \<Rightarrow> bool" where
  "routed e home addr_of rbd \<longleftrightarrow>
     (\<forall>eid r. fst (QueryRouter (ce_remote e) (rbd_routers rbd) eid) = Some r \<longrightarrow>
        address (er_primary r) = home eid \<and> addr_of (es_id (er_primary r)) = home eid) \<and>
     (\<forall>i c. rbd_conn_pool rbd i = Some c \<longrightarrow> c = addr_of i)"

lemma QueryRouter_stable: "fst (QueryRouter remote (snd (QueryRouter remote cache eid)) eid') = fst (QueryRouter remote cache eid')"
  by (auto simp: QueryRouter_def split: option.splits)

lemma routed_handles [simp]: "routed e home addr_of (rbd \<lparr> rbd_handleMap := m \<rparr>) = routed e home addr_of rbd"
  "routed e home addr_of (rbd \<lparr> rbd_ioInflight := n \<rparr>) = routed e home addr_of rbd"
  by (simp_all add: routed_def)

lemma wrapper_connection_home:
  assumes "\<And>i c. rbd_conn_pool rbd i = Some c \<Longrightarrow> c = addr_of i" "address es = h" "addr_of (es_id es) = h"
  obtains conn m where "wrapper_connection e rbd es = (conn, rbd \<lparr> rbd_conn_pool := m \<rparr>)" "conn = None \<or> conn = Some h"
    "\<And>i c. m i = Some c \<Longrightarrow> c = addr_of i"
proof (cases "rbd_conn_pool rbd (es_id es)")
  case None
  show thesis
  proof (cases "ce_channel e h")
    case True
    have "wrapper_connection e rbd es = (Some h, rbd \<lparr> rbd_conn_pool := (rbd_conn_pool rbd)(es_id es \<mapsto> h) \<rparr>)"
      using None True assms(2) by (simp add: wrapper_connection_def ConnectionPool2_GetConnection_def ConnectionPool2_NewConnection_def address_def Let_def)
    then show thesis by (rule that) (use assms in \<open>auto split: if_splits\<close>)
  next
    case False
    have "wrapper_connection e rbd es = (None, rbd \<lparr> rbd_conn_pool := rbd_conn_pool rbd \<rparr>)"
      using None False assms(2) by (simp add: wrapper_connection_def ConnectionPool2_GetConnection_def ConnectionPool2_NewConnection_def address_def Let_def)
    then show thesis by (rule that) (use assms in auto)
  qed
next
  case (Some c)
  have "wrapper_connection e rbd es = (Some c, rbd \<lparr> rbd_conn_pool := rbd_conn_pool rbd \<rparr>)"
    using Some by (simp add: wrapper_connection_def ConnectionPool2_GetConnection_def)
  then show thesis by (rule that) (use assms Some in auto)
qed

text \<open>A synchronous call through the brpc wrapper goes to the home of the extent.\<close>

lemma sync_call_home:
  assumes r: "routed e home addr_of rbd" and w: "ys_wrapper h = kBrpc"
    and c: "YStreamHandle_Async e s mem rbd t h req False = (rc, req', s', mem', rbd', caller)" "rc = CYPRE_OK"
  obtains cache m where "rbd' = rbd \<lparr> rbd_routers := cache, rbd_conn_pool := m \<rparr>" "routed e home addr_of rbd'" "caller = None"
    "SyncCall e s mem t (home (ys_extent_id h)) req = (req', s', mem')" "ir_status req' = CYPRE_OK"
proof -
  obtain ro cache where q: "QueryRouter (ce_remote e) (rbd_routers rbd) (ys_extent_id h) = (ro, cache)" by fastforce
  obtain router where ro: "ro = Some router" using c q by (cases ro) (auto simp: YStreamHandle_Async_def)
  let ?rbd = "rbd \<lparr> rbd_routers := cache \<rparr>" and ?es = "er_primary router"
  have es: "address ?es = home (ys_extent_id h)" "addr_of (es_id ?es) = home (ys_extent_id h)"
    using r q ro by (auto simp: routed_def)
  have pool: "rbd_conn_pool ?rbd i = Some c \<Longrightarrow> c = addr_of i" for i c using r by (simp add: routed_def)
  obtain conn m where co: "wrapper_connection e ?rbd ?es = (conn, ?rbd \<lparr> rbd_conn_pool := m \<rparr>)"
    "conn = None \<or> conn = Some (home (ys_extent_id h))" "\<And>i c. m i = Some c \<Longrightarrow> c = addr_of i"
    by (rule wrapper_connection_home[of ?rbd addr_of ?es "home (ys_extent_id h)" e, OF pool es]) blast+
  have B: "BrpcEsWrapper_Async e s mem ?rbd t ?es req False = (rc, req', s', mem', rbd', caller)"
    using c(1) q ro w by (simp add: YStreamHandle_Async_def)
  then have conn: "conn = Some (home (ys_extent_id h))"
    using co(1,2) c(2) by (cases conn) (auto simp: BrpcEsWrapper_Async_def)
  obtain q' s2 m2 where sc: "SyncCall e s mem t (home (ys_extent_id h)) req = (q', s2, m2)" by (metis prod_cases3)
  have res: "rc = ir_status q'" "req' = q'" "s' = s2" "mem' = m2" "rbd' = ?rbd \<lparr> rbd_conn_pool := m \<rparr>" "caller = None"
    using B co(1) conn sc by (auto simp: BrpcEsWrapper_Async_def)
  have "routed e home addr_of rbd'"
    using r co(3) QueryRouter_stable[of "ce_remote e" "rbd_routers rbd" "ys_extent_id h"] q
    unfolding routed_def res(5) by simp
  with res sc c(2) show thesis by (intro that[of m cache]) simp_all
qed

section \<open>Synchronous requests\<close>

lemma sync_write_ok:
  assumes "SyncCall e s mem kWrite conn req = (req', s', mem')" "ir_status req' = CYPRE_OK" "\<not> ir_is_done req"
  obtains r where "ce_write e s conn (writer_message mem req) = (s', Cntl_Reply r)" "resp_code r = 0" "mem' = mem"
  using assms by (auto simp: SyncCall_def caller_done_def BrpcEsWriter_onWriteDone_def reply_code_def
      split: prod.splits es_reply.splits if_splits)

lemma sync_read_ok:
  assumes "SyncCall e s mem kRead conn req = (req', s', mem')" "ir_status req' = CYPRE_OK" "\<not> ir_is_done req"
  obtains r where "ce_read e s conn (reader_message req) = (s', Cntl_Reply r)" "resp_code r = 0"
    "mem' = dev_write mem (ir_buf req) (resp_attachment r)"
  using assms by (auto simp: SyncCall_def caller_done_def BrpcEsReader_onReadDone_def reply_code_def Let_def
      split: prod.splits es_reply.splits if_splits)

lemma run_callback_frame:
  obtains u n where "run_callback e req f = f \<lparr> fl_ureq := u, fl_rbd := (fl_rbd f) \<lparr> rbd_ioInflight := n \<rparr> \<rparr>"
    "ur_type u = ur_type (fl_ureq f)" "ur_user_cb u = ur_user_cb (fl_ureq f)"
proof -
  have "\<exists>u n. piece_done rbd ur req = (u, rbd \<lparr> rbd_ioInflight := n \<rparr>) \<and> ur_type u = ur_type ur \<and> ur_user_cb u = ur_user_cb ur" for rbd ur
  proof -
    obtain u rbd' where p: "piece_done rbd ur req = (u, rbd')" by fastforce
    have "rbd' = rbd \<lparr> rbd_ioInflight := rbd_ioInflight rbd' \<rparr>" "ur_type u = ur_type ur" "ur_user_cb u = ur_user_cb ur"
      using p by (auto simp: piece_done_def Let_def split: if_splits)
    then show ?thesis using p by metis
  qed
  note P = this
  obtain ur where ur: "run_callback e req f = (case piece_done (fl_rbd f) ur req of (u, rbd) \<Rightarrow> f \<lparr> fl_ureq := u, fl_rbd := rbd \<rparr>)"
    "ur_type ur = ur_type (fl_ureq f)" "ur_user_cb ur = ur_user_cb (fl_ureq f)"
    by (cases "ur_type (fl_ureq f)")
      (auto simp: run_callback_def rbd_onReadDone_def rbd_onWriteDone_def Let_def split: if_splits intro: that)
  show thesis using P[of "fl_rbd f" ur] ur that by auto
qed

text \<open>An error that was recorded is returned.\<close>

lemma submit_rv_sticky: "fl_rv f \<noteq> CYPRE_OK \<Longrightarrow> fl_rv (submit_pieces e ps buf f) \<noteq> CYPRE_OK"
proof (induction ps arbitrary: buf f)
  case (Cons p ps)
  obtain h roff len where p: "p = (h, roff, len)" by (metis prod_cases3)
  let ?req = "new_request (ce_crc e) (fl_mem f) (fl_ureq f) h buf roff len"
  obtain rc req s mem rbd c where a: "YStreamHandle_Async e (fl_servers f) (fl_mem f) (fl_rbd f) (ur_type (fl_ureq f)) h ?req
      (ur_user_cb (fl_ureq f)) = (rc, req, s, mem, rbd, c)" by (metis prod.collapse)
  have cb: "fl_rv (run_callback e req g) = fl_rv g" for g :: "'a flight"
    by (rule run_callback_frame[of e req g]) simp
  show ?case unfolding p using Cons.prems by (simp add: a Let_def cb Cons.IH[simplified])
qed simp

definition same_stream :: "rbd_stream \<Rightarrow> rbd_stream \<Rightarrow> bool" where
  "same_stream rbd rbd' \<longleftrightarrow> rbd_sopts rbd' = rbd_sopts rbd \<and> rbd_handleMap rbd' = rbd_handleMap rbd \<and>
     rbd_esio_proto rbd' = rbd_esio_proto rbd \<and> rbd_isClosed rbd' = rbd_isClosed rbd"

lemma submit_step_sync:
  assumes r: "routed e home addr_of (fl_rbd f)" and w: "ys_wrapper h = kBrpc" and sync: "\<not> ur_user_cb (fl_ureq f)"
    and ok: "fl_rv (submit_pieces e ((h, roff, len) # ps) buf f) = CYPRE_OK"
  obtains f1 req' where "submit_pieces e ((h, roff, len) # ps) buf f = submit_pieces e ps (buf + len) f1"
    "SyncCall e (fl_servers f) (fl_mem f) (ur_type (fl_ureq f)) (home (ys_extent_id h))
       (new_request (ce_crc e) (fl_mem f) (fl_ureq f) h buf roff len) = (req', fl_servers f1, fl_mem f1)"
    "ir_status req' = CYPRE_OK" "routed e home addr_of (fl_rbd f1)" "same_stream (fl_rbd f) (fl_rbd f1)"
    "ur_type (fl_ureq f1) = ur_type (fl_ureq f)" "\<not> ur_user_cb (fl_ureq f1)"
proof -
  let ?req = "new_request (ce_crc e) (fl_mem f) (fl_ureq f) h buf roff len"
  obtain rc req' s mem rbd c where a: "YStreamHandle_Async e (fl_servers f) (fl_mem f) (fl_rbd f) (ur_type (fl_ureq f)) h ?req False =
     (rc, req', s, mem, rbd, c)" by (metis prod.collapse)
  define g where "g = f \<lparr> fl_rv := (if rc \<noteq> CYPRE_OK then rc else fl_rv f), fl_servers := s, fl_mem := mem, fl_rbd := rbd,
      fl_callers := fl_callers f @ (case c of None \<Rightarrow> [] | Some c \<Rightarrow> [c]) \<rparr>"
  obtain u n where u: "run_callback e req' g = g \<lparr> fl_ureq := u, fl_rbd := (fl_rbd g) \<lparr> rbd_ioInflight := n \<rparr> \<rparr>"
    "ur_type u = ur_type (fl_ureq g)" "ur_user_cb u = ur_user_cb (fl_ureq g)"
    by (rule run_callback_frame)
  have step: "submit_pieces e ((h, roff, len) # ps) buf f = submit_pieces e ps (buf + len) (run_callback e req' g)"
    using sync by (simp add: a Let_def g_def)
  have rc: "rc = CYPRE_OK"
  proof (rule ccontr)
    assume "rc \<noteq> CYPRE_OK"
    then have "fl_rv (run_callback e req' g) \<noteq> CYPRE_OK" unfolding u(1) by (simp add: g_def)
    then show False using submit_rv_sticky ok unfolding step by blast
  qed
  obtain cache m where s: "rbd = (fl_rbd f) \<lparr> rbd_routers := cache, rbd_conn_pool := m \<rparr>" "routed e home addr_of rbd"
    "SyncCall e (fl_servers f) (fl_mem f) (ur_type (fl_ureq f)) (home (ys_extent_id h)) ?req = (req', s, mem)" "ir_status req' = CYPRE_OK"
    by (rule sync_call_home[OF r w a rc])
  show thesis
  proof (rule that[OF step])
    show "SyncCall e (fl_servers f) (fl_mem f) (ur_type (fl_ureq f)) (home (ys_extent_id h)) ?req =
        (req', fl_servers (run_callback e req' g), fl_mem (run_callback e req' g))"
      using s(3) unfolding u(1) by (simp add: g_def)
    show "routed e home addr_of (fl_rbd (run_callback e req' g))" using s(2) unfolding u(1) by (simp add: g_def)
    show "same_stream (fl_rbd f) (fl_rbd (run_callback e req' g))" unfolding u(1) by (simp add: g_def s(1) same_stream_def)
  qed (use s(4) u(2,3) sync in \<open>simp_all add: u(1), simp_all add: g_def\<close>)
qed

lemma dev_write_Nil [simp]: "dev_write d a [] = d"
  by (rule ext) (auto simp: dev_write_def)

lemma place_inject: "0 < so_extent_size so \<Longrightarrow> place so a = place so b \<longleftrightarrow> a = b"
  by (auto simp: place_def) (metis div_mult_mod_eq)

lemma place_bound: "0 < so_extent_size so \<Longrightarrow> snd (place so a) < so_extent_size so"
  by (simp add: place_def)

text \<open>The blob as the user sees it: a flat sequence of bytes.\<close>

definition flat :: "('s \<Rightarrow> string \<Rightarrow> nat \<Rightarrow> char) \<Rightarrow> rbd_options \<Rightarrow> 's \<Rightarrow> nat \<Rightarrow> char" where
  "flat cell so s a = (case place so a of (x, i) \<Rightarrow> cell s x i)"

definition touched :: "rbd_options \<Rightarrow> nat \<Rightarrow> nat \<Rightarrow> string set" where
  "touched so off len = (\<lambda>a. fst (place so a)) ` {off..<off + len}"

text \<open>A request that neither wraps around nor exceeds the 32 bits of offsets and lengths.\<close>

definition request_fits :: "rbd_options \<Rightarrow> nat \<Rightarrow> nat \<Rightarrow> bool" where
  "request_fits so off len \<longleftrightarrow> 2 \<le> so_extent_size so \<and> so_extent_size so \<le> 2 ^ 32 \<and> 0 < len \<and> len < 2 ^ 32 \<and>
     off + len < 2 ^ 64 \<and> length (so_blob_id so) < 2 ^ 20"

text \<open>An open stream that uses the extent servers, for extents of a size.\<close>

definition stream_ok :: "('s, 'm) cl_env_scheme \<Rightarrow> (string \<Rightarrow> string) \<Rightarrow> (int \<Rightarrow> string) \<Rightarrow> nat \<Rightarrow> rbd_stream \<Rightarrow> bool" where
  "stream_ok e home addr_of esize rbd \<longleftrightarrow> handles_ok rbd \<and> rbd_esio_proto rbd = kBrpc \<and> routed e home addr_of rbd \<and>
     so_extent_size (rbd_sopts rbd) = esize"

definition pieces_ok :: "nat \<Rightarrow> (ystream \<times> nat \<times> nat) list \<Rightarrow> bool" where
  "pieces_ok esize ps \<longleftrightarrow> list_all (piece_fits esize kBrpc) ps \<and> distinct (map (ys_extent_id \<circ> fst) ps) \<and>
     list_all (\<lambda>p. length (ys_extent_id (fst p)) < 2 ^ 30) ps"

lemma piece_cell_in:
  assumes "list_all (piece_fits es proto) ps" "p \<in> set ps"
  shows "(ys_extent_id (fst p), fst (snd p)) \<in> set (concat (map piece_cells ps))"
proof -
  obtain h roff len where h: "p = (h, roff, len)" by (metis prod_cases3)
  have "0 < len" using assms h by (auto simp: list_all_iff piece_fits_def)
  then have "(ys_extent_id h, roff) \<in> set (piece_cells p)" by (simp add: h piece_cells_def)
  then show ?thesis using assms(2) h by auto
qed

text \<open>What the client relies on: servers that keep the bytes of extents. An answered write
  changes its range, may change the rest of an extent that was not ready before, and
  nothing of any other extent; an answered read returns the bytes and changes nothing.\<close>

locale block_servers =
  fixes inv :: "'s \<Rightarrow> bool" and cell :: "'s \<Rightarrow> string \<Rightarrow> nat \<Rightarrow> char" and ready :: "'s \<Rightarrow> string \<Rightarrow> bool"
    and esize :: nat and home :: "string \<Rightarrow> string"
    and read_call write_call :: "'s \<Rightarrow> string \<Rightarrow> pb_msg \<Rightarrow> 's \<times> es_reply"
  assumes write_law: "\<lbrakk>inv s; msg_offset m + msg_size m \<le> esize; length (msg_extent_id m) < 2 ^ 30;
      length (msg_attachment m) = msg_size m; write_call s (home (msg_extent_id m)) m = (s', Cntl_Reply r); resp_code r = 0\<rbrakk> \<Longrightarrow>
      inv s' \<and> (\<forall>k < msg_size m. cell s' (msg_extent_id m) (msg_offset m + k) = msg_attachment m ! k) \<and>
      (\<forall>x i. i < esize \<longrightarrow> \<not> (x = msg_extent_id m \<and> msg_offset m \<le> i \<and> i < msg_offset m + msg_size m) \<longrightarrow>
         x \<noteq> msg_extent_id m \<or> ready s x \<longrightarrow> cell s' x i = cell s x i) \<and>
      (\<forall>x. ready s x \<longrightarrow> ready s' x)"
    and read_law: "\<lbrakk>inv s; msg_offset m + msg_size m \<le> esize; length (msg_extent_id m) < 2 ^ 30;
      read_call s (home (msg_extent_id m)) m = (s', Cntl_Reply r); resp_code r = 0\<rbrakk> \<Longrightarrow>
      inv s' \<and> resp_attachment r = map (cell s (msg_extent_id m)) [msg_offset m..<msg_offset m + msg_size m] \<and>
      (\<forall>x i. i < esize \<longrightarrow> cell s' x i = cell s x i)"
begin

lemma write_pieces:
  assumes "pieces_ok esize ps" "esize \<le> 2 ^ 32" "ce_write e = write_call" "inv (fl_servers f)" "routed e home addr_of (fl_rbd f)"
    and "ur_type (fl_ureq f) = kWrite" "\<not> ur_user_cb (fl_ureq f)" "fl_rv (submit_pieces e ps buf f) = CYPRE_OK"
  shows "inv (fl_servers (submit_pieces e ps buf f)) \<and> fl_mem (submit_pieces e ps buf f) = fl_mem f \<and>
    routed e home addr_of (fl_rbd (submit_pieces e ps buf f)) \<and> same_stream (fl_rbd f) (fl_rbd (submit_pieces e ps buf f)) \<and>
    (\<forall>k < length (concat (map piece_cells ps)). (case concat (map piece_cells ps) ! k of (x, i) \<Rightarrow>
       cell (fl_servers (submit_pieces e ps buf f)) x i) = fl_mem f (buf + k)) \<and>
    (\<forall>x i. i < esize \<longrightarrow> (x, i) \<notin> set (concat (map piece_cells ps)) \<longrightarrow> x \<notin> (ys_extent_id \<circ> fst) ` set ps \<or> ready (fl_servers f) x \<longrightarrow>
       cell (fl_servers (submit_pieces e ps buf f)) x i = cell (fl_servers f) x i)"
  using assms
proof (induction ps arbitrary: buf f)
  case Nil
  then show ?case by (simp add: same_stream_def)
next
  case (Cons p ps)
  obtain h roff len where p: "p = (h, roff, len)" by (metis prod_cases3)
  let ?req = "new_request (ce_crc e) (fl_mem f) (fl_ureq f) h buf roff len"
  have fits: "0 < len" "len < 2 ^ 32" "roff + len \<le> esize" "ys_wrapper h = kBrpc" "length (ys_extent_id h) < 2 ^ 30"
    "ys_extent_id h \<notin> (ys_extent_id \<circ> fst) ` set ps" "pieces_ok esize ps"
    using Cons.prems(1) unfolding p by (simp_all add: pieces_ok_def piece_fits_def)
  obtain f1 req' where s: "submit_pieces e (p # ps) buf f = submit_pieces e ps (buf + len) f1"
    "SyncCall e (fl_servers f) (fl_mem f) kWrite (home (ys_extent_id h)) ?req = (req', fl_servers f1, fl_mem f1)"
    "ir_status req' = CYPRE_OK" "routed e home addr_of (fl_rbd f1)" "same_stream (fl_rbd f) (fl_rbd f1)"
    "ur_type (fl_ureq f1) = kWrite" "\<not> ur_user_cb (fl_ureq f1)"
    using submit_step_sync[OF Cons.prems(5) fits(4) Cons.prems(7) Cons.prems(8)[unfolded p]] Cons.prems(6) unfolding p by metis
  let ?m = "writer_message (fl_mem f) ?req"
  have "\<not> ir_is_done ?req" by (simp add: new_request_def)
  then obtain r where w: "write_call (fl_servers f) (home (ys_extent_id h)) ?m = (fl_servers f1, Cntl_Reply r)" "resp_code r = 0" "fl_mem f1 = fl_mem f"
    using sync_write_ok[OF s(2,3)] Cons.prems(3) by metis
  have roff: "roff < 2 ^ 32" using fits(1,3) Cons.prems(2) by linarith
  have m: "msg_extent_id ?m = ys_extent_id h" "msg_offset ?m = roff" "msg_size ?m = len" "msg_attachment ?m = dev_read (fl_mem f) buf len"
    using roff by (simp_all add: writer_message_def new_request_def)
  have "msg_offset ?m + msg_size ?m \<le> esize" "length (msg_extent_id ?m) < 2 ^ 30" "length (msg_attachment ?m) = msg_size ?m"
    using fits(3,5) m by (simp_all add: dev_read_def)
  note L = write_law[OF Cons.prems(4) this w(1)[folded m(1)] w(2), unfolded m]
  have ok1: "fl_rv (submit_pieces e ps (buf + len) f1) = CYPRE_OK" using Cons.prems(8) s(1) by simp
  note IH = Cons.IH[OF fits(7) Cons.prems(2,3) _ s(4,6,7) ok1]
  let ?f2 = "submit_pieces e ps (buf + len) f1"
  have here: "cell (fl_servers ?f2) (ys_extent_id h) i = fl_mem f (buf + (i - roff))" if i: "roff \<le> i" "i < roff + len" for i
  proof -
    have "(ys_extent_id h, i) \<notin> set (concat (map piece_cells ps))" using fits(6) by (force simp: piece_cells_def)
    then have "cell (fl_servers ?f2) (ys_extent_id h) i = cell (fl_servers f1) (ys_extent_id h) i"
      using IH L fits(3,6) i by auto
    also have "\<dots> = fl_mem f (buf + (i - roff))"
      using L i by (auto dest!: spec[of _ "i - roff"] simp: dev_read_def)
    finally show ?thesis .
  qed
  have len: "length (piece_cells p) = len" "\<And>k. k < len \<Longrightarrow> piece_cells p ! k = (ys_extent_id h, roff + k)" by (simp_all add: p piece_cells_def)
  have cells: "(case concat (map piece_cells (p # ps)) ! k of (x, i) \<Rightarrow> cell (fl_servers ?f2) x i) = fl_mem f (buf + k)"
    if k: "k < length (concat (map piece_cells (p # ps)))" for k
  proof (cases "k < len")
    case True
    then show ?thesis using here[of "roff + k"] len by (simp add: nth_append)
  next
    case False
    then have "k - len < length (concat (map piece_cells ps))" "buf + len + (k - len) = buf + k" using k len by simp_all
    then show ?thesis using IH L w(3) False len by (auto simp: nth_append)
  qed
  have other: "cell (fl_servers ?f2) x i = cell (fl_servers f) x i"
    if x: "i < esize" "(x, i) \<notin> set (concat (map piece_cells (p # ps)))" "x \<notin> (ys_extent_id \<circ> fst) ` set (p # ps) \<or> ready (fl_servers f) x" for x i
  proof -
    have "(x, i) \<notin> set (piece_cells p)" "(x, i) \<notin> set (concat (map piece_cells ps))" using x(2) by simp_all
    then have "\<not> (x = ys_extent_id h \<and> roff \<le> i \<and> i < roff + len)" by (auto simp: p piece_cells_def)
    moreover have "x \<noteq> ys_extent_id h \<or> ready (fl_servers f) x" using x(3) by (auto simp: p)
    ultimately have "cell (fl_servers f1) x i = cell (fl_servers f) x i" using L x(1) by blast
    moreover have "cell (fl_servers ?f2) x i = cell (fl_servers f1) x i" using IH L x by auto
    ultimately show ?thesis by simp
  qed
  have "inv (fl_servers ?f2) \<and> fl_mem ?f2 = fl_mem f \<and> routed e home addr_of (fl_rbd ?f2) \<and> same_stream (fl_rbd f) (fl_rbd ?f2)"
    using IH L w(3) s(5) by (auto simp: same_stream_def)
  then show ?case unfolding s(1) using cells other by blast
qed

lemma read_pieces:
  assumes "pieces_ok esize ps" "esize \<le> 2 ^ 32" "ce_read e = read_call" "inv (fl_servers f)" "routed e home addr_of (fl_rbd f)"
    and "ur_type (fl_ureq f) = kRead" "\<not> ur_user_cb (fl_ureq f)" "fl_rv (submit_pieces e ps buf f) = CYPRE_OK"
  shows "inv (fl_servers (submit_pieces e ps buf f)) \<and> routed e home addr_of (fl_rbd (submit_pieces e ps buf f)) \<and>
    same_stream (fl_rbd f) (fl_rbd (submit_pieces e ps buf f)) \<and>
    fl_mem (submit_pieces e ps buf f) = dev_write (fl_mem f) buf (map (\<lambda>(x, i). cell (fl_servers f) x i) (concat (map piece_cells ps))) \<and>
    (\<forall>x i. i < esize \<longrightarrow> cell (fl_servers (submit_pieces e ps buf f)) x i = cell (fl_servers f) x i)"
  using assms
proof (induction ps arbitrary: buf f)
  case Nil
  then show ?case by (simp add: same_stream_def)
next
  case (Cons p ps)
  obtain h roff len where p: "p = (h, roff, len)" by (metis prod_cases3)
  let ?req = "new_request (ce_crc e) (fl_mem f) (fl_ureq f) h buf roff len"
  have fits: "0 < len" "len < 2 ^ 32" "roff + len \<le> esize" "ys_wrapper h = kBrpc" "length (ys_extent_id h) < 2 ^ 30" "pieces_ok esize ps"
    using Cons.prems(1) unfolding p by (simp_all add: pieces_ok_def piece_fits_def)
  obtain f1 req' where s: "submit_pieces e (p # ps) buf f = submit_pieces e ps (buf + len) f1"
    "SyncCall e (fl_servers f) (fl_mem f) kRead (home (ys_extent_id h)) ?req = (req', fl_servers f1, fl_mem f1)"
    "ir_status req' = CYPRE_OK" "routed e home addr_of (fl_rbd f1)" "same_stream (fl_rbd f) (fl_rbd f1)"
    "ur_type (fl_ureq f1) = kRead" "\<not> ur_user_cb (fl_ureq f1)"
    using submit_step_sync[OF Cons.prems(5) fits(4) Cons.prems(7) Cons.prems(8)[unfolded p]] Cons.prems(6) unfolding p by metis
  let ?m = "reader_message ?req"
  have "\<not> ir_is_done ?req" "ir_buf ?req = buf" by (simp_all add: new_request_def)
  then obtain r where w: "read_call (fl_servers f) (home (ys_extent_id h)) ?m = (fl_servers f1, Cntl_Reply r)" "resp_code r = 0"
    "fl_mem f1 = dev_write (fl_mem f) buf (resp_attachment r)"
    using sync_read_ok[OF s(2,3)] Cons.prems(3) by metis
  have roff: "roff < 2 ^ 32" using fits(1,3) Cons.prems(2) by linarith
  have m: "msg_extent_id ?m = ys_extent_id h" "msg_offset ?m = roff" "msg_size ?m = len"
    using roff by (simp_all add: reader_message_def new_request_def)
  have "msg_offset ?m + msg_size ?m \<le> esize" "length (msg_extent_id ?m) < 2 ^ 30" using fits(3,5) m by simp_all
  note L = read_law[OF Cons.prems(4) this w(1)[folded m(1)] w(2), unfolded m]
  have ok1: "fl_rv (submit_pieces e ps (buf + len) f1) = CYPRE_OK" using Cons.prems(8) s(1) by simp
  have IH: "inv (fl_servers (submit_pieces e ps (buf + len) f1)) \<and> routed e home addr_of (fl_rbd (submit_pieces e ps (buf + len) f1)) \<and>
    same_stream (fl_rbd f1) (fl_rbd (submit_pieces e ps (buf + len) f1)) \<and>
    fl_mem (submit_pieces e ps (buf + len) f1) = dev_write (fl_mem f1) (buf + len) (map (\<lambda>(x, i). cell (fl_servers f1) x i) (concat (map piece_cells ps))) \<and>
    (\<forall>x i. i < esize \<longrightarrow> cell (fl_servers (submit_pieces e ps (buf + len) f1)) x i = cell (fl_servers f1) x i)"
    using Cons.IH[OF fits(6) Cons.prems(2,3) _ s(4,6,7) ok1] L by simp
  have bound: "i < esize" if "(x, i) \<in> set (concat (map piece_cells ps))" for x i
  proof -
    have "\<exists>q\<in>set ps. (x, i) \<in> set (piece_cells q)" using that by simp
    then obtain q where q: "q \<in> set ps" "(x, i) \<in> set (piece_cells q)" by blast
    moreover have "piece_fits esize kBrpc q" using fits(6) q(1) by (simp add: pieces_ok_def list_all_iff)
    ultimately show ?thesis by (auto simp: piece_cells_def piece_fits_def split: prod.splits)
  qed
  have rest: "map (\<lambda>(x, i). cell (fl_servers f1) x i) (concat (map piece_cells ps)) = map (\<lambda>(x, i). cell (fl_servers f) x i) (concat (map piece_cells ps))"
    using L bound by (intro map_cong) auto
  have att: "resp_attachment r = map (\<lambda>(x, i). cell (fl_servers f) x i) (piece_cells p)" "length (resp_attachment r) = len"
    using L by (simp_all add: p piece_cells_def)
  have "fl_mem (submit_pieces e ps (buf + len) f1) =
      dev_write (fl_mem f) buf (map (\<lambda>(x, i). cell (fl_servers f) x i) (concat (map piece_cells (p # ps))))"
    using IH rest att by (auto simp: w(3) dev_write_def nth_append fun_eq_iff)
  then show ?case unfolding s(1) using IH L s(5) by (auto simp: same_stream_def)
qed

lemma user_request_pieces:
  assumes d: "doUserRequest e s mem rbd ur = Some f" "fl_rv f = CYPRE_OK" and ok: "handles_ok rbd" "rbd_esio_proto rbd = kBrpc"
    and fit: "request_fits (rbd_sopts rbd) (ur_logic_offset ur) (ur_logic_len ur)" and E: "so_extent_size (rbd_sopts rbd) = esize"
  obtains ps m f0 where "f = submit_pieces e ps (ur_buf ur) f0" "pieces_ok esize ps"
    "concat (map piece_cells ps) = map (place (rbd_sopts rbd)) [ur_logic_offset ur..<ur_logic_offset ur + ur_logic_len ur]"
    "fl_servers f0 = s" "fl_mem f0 = mem" "same_stream (rbd \<lparr> rbd_handleMap := m \<rparr>) (fl_rbd f0)" "handles_ok (rbd \<lparr> rbd_handleMap := m \<rparr>)"
    "rbd_routers (fl_rbd f0) = rbd_routers rbd" "rbd_conn_pool (fl_rbd f0) = rbd_conn_pool rbd"
    "ur_type (fl_ureq f0) = ur_type ur" "ur_user_cb (fl_ureq f0) = ur_user_cb ur"
proof -
  let ?so = "rbd_sopts rbd" and ?off = "ur_logic_offset ur" and ?len = "ur_logic_len ur"
  have F: "2 \<le> so_extent_size ?so" "so_extent_size ?so \<le> 2 ^ 32" "0 < ?len" "?len < 2 ^ 32" "?off + ?len < 2 ^ 64" "length (so_blob_id ?so) < 2 ^ 20"
    using fit by (simp_all add: request_fits_def)
  obtain rv ps m where sp: "splitUserRequest rbd ur = Some (rv, ps, rbd \<lparr> rbd_handleMap := m \<rparr>)" "handles_ok (rbd \<lparr> rbd_handleMap := m \<rparr>)"
    "if (?off + ?len - 1) div esize > ?off div esize + 1 then rv = CYPRE_C_DATA_TOO_LARGE \<and> ps = []
     else rv = CYPRE_OK \<and> concat (map piece_cells ps) = map (place ?so) [?off..<?off + ?len] \<and>
       list_all (piece_fits esize kBrpc) ps \<and> (length ps = 1 \<or> length ps = 2) \<and> distinct (map (ys_extent_id \<circ> fst) ps)"
    by (rule split_spec[OF F(1-5) ok(1), unfolded E ok(2)])
  have rv: "rv = CYPRE_OK" using d sp(1,3) by (auto simp: doUserRequest_def split: if_splits)
  then have P: "concat (map piece_cells ps) = map (place ?so) [?off..<?off + ?len]" "list_all (piece_fits esize kBrpc) ps"
    "distinct (map (ys_extent_id \<circ> fst) ps)"
    using sp(3) by (simp_all split: if_splits)
  have short: "length (ys_extent_id (fst p)) < 2 ^ 30" if p: "p \<in> set ps" for p
  proof -
    have "(ys_extent_id (fst p), fst (snd p)) \<in> set (map (place ?so) [?off..<?off + ?len])"
      using piece_cell_in[OF P(2) p] unfolding P(1) .
    then obtain a where a: "ys_extent_id (fst p) = GenerateExtentID (so_blob_id ?so) (a div so_extent_size ?so + 1)" "a < ?off + ?len"
      by (auto simp: place_def)
    have "a div so_extent_size ?so + 1 < 10 ^ 20" using a(2) F(5) le_less_trans[OF div_le_dividend[of a "so_extent_size ?so"], of "10 ^ 20 - 1"] by simp
    then have "length (dec_digits (a div so_extent_size ?so + 1)) \<le> 20" by (intro dec_digits_length) simp_all
    then show ?thesis using a(1) F(6) by (simp add: GenerateExtentID_def)
  qed
  show thesis
  proof (rule that[of ps "\<lparr> fl_rv = rv, fl_servers = s, fl_mem = mem, fl_rbd = rbd \<lparr> rbd_handleMap := m, rbd_ioInflight := rbd_ioInflight rbd + 1 \<rparr>,
       fl_ureq = ur \<lparr> ur_ref := int (length ps), ur_is_splited := length ps = 2 \<rparr>, fl_callers = [] \<rparr>" m])
    show "pieces_ok esize ps" using P(2,3) short by (simp add: pieces_ok_def list_all_iff)
  qed (use d(1) sp(1,2) rv P(1) in \<open>simp_all add: doUserRequest_def same_stream_def\<close>)
qed

lemma stream_ok_kept:
  assumes "stream_ok e home addr_of esize rbd" "same_stream (rbd \<lparr> rbd_handleMap := m \<rparr>) r1" "same_stream r1 r2"
    and "handles_ok (rbd \<lparr> rbd_handleMap := m \<rparr>)" "routed e home addr_of r2"
  shows "stream_ok e home addr_of esize r2 \<and> rbd_sopts r2 = rbd_sopts rbd"
  using assms by (simp add: stream_ok_def same_stream_def handles_ok_def)

lemma client_write:
  assumes ok: "stream_ok e home addr_of esize rbd" "inv s" "ce_write e = write_call" and fit: "request_fits (rbd_sopts rbd) off len"
    and w: "rbd_Write e s mem rbd buf len off = Some (Inr f)" "fl_rv f = CYPRE_OK"
  shows "inv (fl_servers f)" "fl_mem f = mem" "stream_ok e home addr_of esize (fl_rbd f) \<and> rbd_sopts (fl_rbd f) = rbd_sopts rbd"
    "k < len \<Longrightarrow> flat cell (rbd_sopts rbd) (fl_servers f) (off + k) = mem (buf + k)"
    "\<not> (off \<le> a \<and> a < off + len) \<Longrightarrow> fst (place (rbd_sopts rbd) a) \<notin> touched (rbd_sopts rbd) off len \<or> ready s (fst (place (rbd_sopts rbd) a)) \<Longrightarrow>
       flat cell (rbd_sopts rbd) (fl_servers f) a = flat cell (rbd_sopts rbd) s a"
proof -
  let ?ur = "generateHeaderCrc32 (ce_crc e) ((new_ureq kWrite buf len off False) \<lparr> ur_data_crc32 := ce_crc e (dev_read mem buf len) \<rparr>)"
  let ?so = "rbd_sopts rbd"
  have u: "ur_logic_offset ?ur = off" "ur_logic_len ?ur = len" "ur_buf ?ur = buf" "ur_type ?ur = kWrite" "\<not> ur_user_cb ?ur"
    by (simp_all add: generateHeaderCrc32_def new_ureq_def)
  have "doUserRequest e s mem rbd ?ur = Some f"
    using w(1) by (auto simp: rbd_Write_def rbd_AsyncWrite_def split: if_splits)
  then obtain ps m f0 where p: "f = submit_pieces e ps buf f0" "pieces_ok esize ps" "concat (map piece_cells ps) = map (place ?so) [off..<off + len]"
    "fl_servers f0 = s" "fl_mem f0 = mem" "same_stream (rbd \<lparr> rbd_handleMap := m \<rparr>) (fl_rbd f0)" "handles_ok (rbd \<lparr> rbd_handleMap := m \<rparr>)"
    "rbd_routers (fl_rbd f0) = rbd_routers rbd" "rbd_conn_pool (fl_rbd f0) = rbd_conn_pool rbd" "ur_type (fl_ureq f0) = kWrite" "\<not> ur_user_cb (fl_ureq f0)"
    using ok(1) fit w(2) u by (elim user_request_pieces) (auto simp: stream_ok_def)
  have E: "esize \<le> 2 ^ 32" "0 < so_extent_size ?so" using ok(1) fit by (auto simp: stream_ok_def request_fits_def)
  have r: "routed e home addr_of (fl_rbd f0)" using ok(1) p(8,9) by (simp add: stream_ok_def routed_def)
  note W = write_pieces[OF p(2) E(1) ok(3) _ r p(10,11) w(2)[unfolded p(1)], unfolded p(4,5), folded p(1), OF ok(2)]
  show "inv (fl_servers f)" "fl_mem f = mem" using W by simp_all
  show "stream_ok e home addr_of esize (fl_rbd f) \<and> rbd_sopts (fl_rbd f) = rbd_sopts rbd"
    using stream_ok_kept[OF ok(1) p(6) _ p(7)] W by blast
  show "flat cell ?so (fl_servers f) (off + k) = mem (buf + k)" if "k < len"
    using W that unfolding p(3) by (auto simp: flat_def)
  assume a: "\<not> (off \<le> a \<and> a < off + len)" "fst (place ?so a) \<notin> touched ?so off len \<or> ready s (fst (place ?so a))"
  have "(ys_extent_id \<circ> fst) ` set ps \<subseteq> touched ?so off len"
  proof
    fix x assume "x \<in> (ys_extent_id \<circ> fst) ` set ps"
    then obtain q where q: "q \<in> set ps" "x = ys_extent_id (fst q)" by auto
    have "list_all (piece_fits esize kBrpc) ps" using p(2) by (simp add: pieces_ok_def)
    from piece_cell_in[OF this q(1)] obtain b where "b \<in> {off..<off + len}" "(x, fst (snd q)) = place ?so b"
      unfolding p(3) q(2) by auto
    then show "x \<in> touched ?so off len" unfolding touched_def by (metis fst_conv imageI)
  qed
  moreover have "place ?so a \<notin> set (map (place ?so) [off..<off + len])" using a(1) place_inject[OF E(2)] by auto
  moreover have "snd (place ?so a) < esize" using place_bound[OF E(2)] ok(1) by (simp add: stream_ok_def)
  moreover obtain x i where xi: "place ?so a = (x, i)" by fastforce
  ultimately have "i < esize" "(x, i) \<notin> set (map (place ?so) [off..<off + len])" "x \<notin> (ys_extent_id \<circ> fst) ` set ps \<or> ready s x"
    using a(2) by auto
  then have "cell (fl_servers f) x i = cell s x i" using W unfolding p(3) by blast
  then show "flat cell ?so (fl_servers f) a = flat cell ?so s a" by (simp add: flat_def xi)
qed

lemma client_read:
  assumes ok: "stream_ok e home addr_of esize rbd" "inv s" "ce_read e = read_call" and fit: "request_fits (rbd_sopts rbd) off len"
    and w: "rbd_Read e s mem rbd buf len off = Some (Inr f)" "fl_rv f = CYPRE_OK"
  shows "inv (fl_servers f)" "fl_mem f = dev_write mem buf (map (flat cell (rbd_sopts rbd) s) [off..<off + len])"
    "stream_ok e home addr_of esize (fl_rbd f) \<and> rbd_sopts (fl_rbd f) = rbd_sopts rbd"
    "flat cell (rbd_sopts rbd) (fl_servers f) = flat cell (rbd_sopts rbd) s"
proof -
  let ?ur = "generateHeaderCrc32 (ce_crc e) (new_ureq kRead buf len off False)"
  let ?so = "rbd_sopts rbd"
  have u: "ur_logic_offset ?ur = off" "ur_logic_len ?ur = len" "ur_buf ?ur = buf" "ur_type ?ur = kRead" "\<not> ur_user_cb ?ur"
    by (simp_all add: generateHeaderCrc32_def new_ureq_def)
  have "doUserRequest e s mem rbd ?ur = Some f"
    using w(1) by (auto simp: rbd_Read_def rbd_AsyncRead_def split: if_splits)
  then obtain ps m f0 where p: "f = submit_pieces e ps buf f0" "pieces_ok esize ps" "concat (map piece_cells ps) = map (place ?so) [off..<off + len]"
    "fl_servers f0 = s" "fl_mem f0 = mem" "same_stream (rbd \<lparr> rbd_handleMap := m \<rparr>) (fl_rbd f0)" "handles_ok (rbd \<lparr> rbd_handleMap := m \<rparr>)"
    "rbd_routers (fl_rbd f0) = rbd_routers rbd" "rbd_conn_pool (fl_rbd f0) = rbd_conn_pool rbd" "ur_type (fl_ureq f0) = kRead" "\<not> ur_user_cb (fl_ureq f0)"
    using ok(1) fit w(2) u by (elim user_request_pieces) (auto simp: stream_ok_def)
  have E: "esize \<le> 2 ^ 32" "0 < so_extent_size ?so" using ok(1) fit by (auto simp: stream_ok_def request_fits_def)
  have r: "routed e home addr_of (fl_rbd f0)" using ok(1) p(8,9) by (simp add: stream_ok_def routed_def)
  note W = read_pieces[OF p(2) E(1) ok(3) _ r p(10,11) w(2)[unfolded p(1)], unfolded p(4,5), folded p(1), OF ok(2)]
  show "inv (fl_servers f)" using W by simp
  show "stream_ok e home addr_of esize (fl_rbd f) \<and> rbd_sopts (fl_rbd f) = rbd_sopts rbd"
    using stream_ok_kept[OF ok(1) p(6) _ p(7)] W by blast
  have "map (\<lambda>(x, i). cell s x i) (map (place ?so) [off..<off + len]) = map (flat cell ?so s) [off..<off + len]" by (simp add: flat_def)
  then show "fl_mem f = dev_write mem buf (map (flat cell ?so s) [off..<off + len])" using W unfolding p(3) by (simp only:)
  show "flat cell ?so (fl_servers f) = flat cell ?so s"
  proof
    fix a
    have "snd (place ?so a) < esize" using place_bound[OF E(2)] ok(1) by (simp add: stream_ok_def)
    then show "flat cell ?so (fl_servers f) a = flat cell ?so s a" using W unfolding flat_def by (cases "place ?so a") auto
  qed
qed

end

section \<open>Asynchronous requests\<close>

text \<open>A request with a callback that waits for \<open>k\<close> pieces; \<open>n\<close> requests were in flight before,
  and the status is only OK when \<open>good\<close>.\<close>

definition flying :: "int \<Rightarrow> nat \<Rightarrow> bool \<Rightarrow> 's flight \<Rightarrow> bool" where
  "flying n k good f \<longleftrightarrow> ur_user_cb (fl_ureq f) \<and> ur_ref (fl_ureq f) = int k \<and> (ur_status (fl_ureq f) = CYPRE_OK \<longrightarrow> good) \<and>
     (if k = 0 then ur_called (fl_ureq f) = [ur_status (fl_ureq f)] \<and> ur_deleted (fl_ureq f) = 1 \<and> rbd_ioInflight (fl_rbd f) = n
      else ur_called (fl_ureq f) = [] \<and> ur_deleted (fl_ureq f) = 0 \<and> rbd_ioInflight (fl_rbd f) = n + 1)"

definition event_ok :: "es_caller \<times> caller_event \<Rightarrow> bool" where
  "event_ok ce \<longleftrightarrow> (case snd ce of Expired \<Rightarrow> False | Answered reply \<Rightarrow> ca_null (fst ce) \<or> reply_code reply = CYPRE_OK)"

definition fresh_caller :: "es_caller \<Rightarrow> bool" where
  "fresh_caller c \<longleftrightarrow> \<not> ir_is_done (ca_req c)"

lemma run_callback_flying:
  assumes "flying n (Suc k) good f"
  shows "flying n k (good \<and> ir_status req = CYPRE_OK) (run_callback e req f)"
proof -
  have P: "flying n k (good \<and> ir_status req = CYPRE_OK) (f \<lparr> fl_ureq := fst (piece_done (fl_rbd f) ur req), fl_rbd := snd (piece_done (fl_rbd f) ur req) \<rparr>)"
    if "flying n (Suc k) good (f \<lparr> fl_ureq := ur \<rparr>)" for ur
    using that by (auto simp: flying_def piece_done_def Let_def)
  have crc: "flying n (Suc k) good (f \<lparr> fl_ureq := (fl_ureq f) \<lparr> ur_status := CYPRE_C_CRC_ERROR \<rparr> \<rparr>)"
    using assms by (simp add: flying_def)
  have self: "flying n (Suc k) good (f \<lparr> fl_ureq := fl_ureq f \<rparr>)" using assms by simp
  define ur where "ur = (if ur_type (fl_ureq f) = kRead \<and> ir_status req = CYPRE_OK \<and> ir_has_data_crc32 req \<and>
      ir_data_crc32 req \<noteq> ce_crc e (dev_read (fl_mem f) (ir_buf req) (ir_real_len req))
    then (fl_ureq f) \<lparr> ur_status := CYPRE_C_CRC_ERROR \<rparr> else fl_ureq f)"
  have "run_callback e req f = f \<lparr> fl_ureq := fst (piece_done (fl_rbd f) ur req), fl_rbd := snd (piece_done (fl_rbd f) ur req) \<rparr>"
    by (cases "ur_type (fl_ureq f)") (simp_all add: ur_def run_callback_def rbd_onReadDone_def rbd_onWriteDone_def Let_def case_prod_beta)
  moreover have "flying n (Suc k) good (f \<lparr> fl_ureq := ur \<rparr>)" using crc self by (simp only: ur_def split: if_split) simp
  ultimately show ?thesis using P[of ur] by (simp only:)
qed

lemma async_call:
  assumes "YStreamHandle_Async e s mem rbd t h req True = (rc, req', s', mem', rbd', c)" "\<not> ir_is_done req"
  shows "rbd_ioInflight rbd' = rbd_ioInflight rbd" "rc = CYPRE_OK \<Longrightarrow> \<exists>ca. c = Some ca \<and> fresh_caller ca"
    "rc \<noteq> CYPRE_OK \<Longrightarrow> c = None \<and> ir_status req' \<noteq> CYPRE_OK"
  using assms
  by (auto simp: YStreamHandle_Async_def BrpcEsWrapper_Async_def NullEsWrapper_Async_def wrapper_connection_def fresh_caller_def
      ConnectionPool2_GetConnection_def ConnectionPool2_NewConnection_def call_refused_def Let_def
      split: prod.splits option.splits ExtentIoProtocol.splits if_splits)

lemma submit_flying:
  assumes "flying n (length ps + length (fl_callers f)) (fl_rv f = CYPRE_OK) f" "list_all fresh_caller (fl_callers f)"
  shows "flying n (length (fl_callers (submit_pieces e ps buf f))) (fl_rv (submit_pieces e ps buf f) = CYPRE_OK) (submit_pieces e ps buf f) \<and>
    list_all fresh_caller (fl_callers (submit_pieces e ps buf f))"
  using assms
proof (induction ps arbitrary: buf f)
  case (Cons p ps)
  obtain h roff len where p: "p = (h, roff, len)" by (metis prod_cases3)
  let ?req = "new_request (ce_crc e) (fl_mem f) (fl_ureq f) h buf roff len"
  obtain rc req s mem rbd c where a: "YStreamHandle_Async e (fl_servers f) (fl_mem f) (fl_rbd f) (ur_type (fl_ureq f)) h ?req True =
      (rc, req, s, mem, rbd, c)" by (metis prod.collapse)
  have "\<not> ir_is_done ?req" by (simp add: new_request_def)
  note A = async_call[OF a this]
  have cb: "ur_user_cb (fl_ureq f)" using Cons.prems(1) by (simp add: flying_def)
  define g where "g = f \<lparr> fl_rv := (if rc \<noteq> CYPRE_OK then rc else fl_rv f), fl_servers := s, fl_mem := mem, fl_rbd := rbd,
      fl_callers := fl_callers f @ (case c of None \<Rightarrow> [] | Some c \<Rightarrow> [c]) \<rparr>"
  have step: "submit_pieces e (p # ps) buf f = submit_pieces e ps (buf + len) (if rc \<noteq> CYPRE_OK then run_callback e req g else g)"
    using cb by (simp add: p a Let_def g_def)
  show ?case
  proof (cases "rc = CYPRE_OK")
    case True
    then obtain ca where "c = Some ca" "fresh_caller ca" using A(2) by blast
    then have "flying n (length ps + length (fl_callers g)) (fl_rv g = CYPRE_OK) g" "list_all fresh_caller (fl_callers g)"
      using Cons.prems True A(1) by (simp_all add: g_def flying_def)
    from Cons.IH[OF this] show ?thesis unfolding step using True by simp
  next
    case False
    then have c: "c = None" "ir_status req \<noteq> CYPRE_OK" using A(3) by simp_all
    have "flying n (Suc (length ps + length (fl_callers f))) (fl_rv f = CYPRE_OK) g"
      using Cons.prems(1) A(1) by (simp add: g_def flying_def)
    note F = run_callback_flying[OF this, of req e]
    obtain u m where u: "run_callback e req g = g \<lparr> fl_ureq := u, fl_rbd := (fl_rbd g) \<lparr> rbd_ioInflight := m \<rparr> \<rparr>"
      by (rule run_callback_frame)
    let ?g = "run_callback e req g"
    have "fl_callers ?g = fl_callers f" "fl_rv ?g = rc" using c(1) False by (simp_all add: u, simp_all add: g_def)
    then have "flying n (length ps + length (fl_callers ?g)) (fl_rv ?g = CYPRE_OK) ?g" "list_all fresh_caller (fl_callers ?g)"
      using F c(2) Cons.prems(2) by (simp_all add: flying_def)
    from Cons.IH[OF this] show ?thesis unfolding step using False by simp
  qed
qed simp

lemma caller_step_flying:
  assumes "flying n (Suc k) good f" "fresh_caller (fst ev)"
  shows "flying n k (good \<and> event_ok ev) (caller_step e f ev)"
proof (cases "snd ev")
  case Expired
  then show ?thesis
    using run_callback_flying[OF assms(1), of "SetExpired (ca_req (fst ev))" e]
    by (simp add: caller_step_def event_ok_def SetExpired_def)
next
  case (Answered reply)
  let ?r = "if ca_null (fst ev) then Cntl_Reply fresh_response else reply"
  obtain req mem run where d: "caller_done (ur_type (fl_ureq f)) ?r (ca_req (fst ev)) (fl_mem f) = (req, mem, run)"
    by (metis prod_cases3)
  then have r: "run" "ir_status req = reply_code ?r"
    using assms(2)
    by (auto simp: caller_done_def BrpcEsReader_onReadDone_def BrpcEsWriter_onWriteDone_def fresh_caller_def Let_def
        split: stream_io_type.splits prod.splits if_splits)
  have "flying n (Suc k) good (f \<lparr> fl_mem := mem \<rparr>)" using assms(1) by (simp add: flying_def)
  from run_callback_flying[OF this, of req e] show ?thesis
    using d r Answered by (simp add: caller_step_def event_ok_def reply_code_def fresh_response_def split: if_splits)
qed

text \<open>All calls of a request are completed, in some order.\<close>

lemma callers_flying:
  assumes "flying n (length evs) good f" "list_all (fresh_caller \<circ> fst) evs"
  shows "flying n 0 (good \<and> list_all event_ok evs) (foldl (caller_step e) f evs) \<and>
    (\<forall>m < length evs. ur_called (fl_ureq (foldl (caller_step e) f (take m evs))) = [])"
  using assms
proof (induction evs arbitrary: f good)
  case (Cons ev evs)
  have "flying n (length evs) (good \<and> event_ok ev) (caller_step e f ev)"
    using caller_step_flying[of n "length evs" good f ev e] Cons.prems by simp
  note IH = Cons.IH[OF this]
  have "ur_called (fl_ureq (foldl (caller_step e) f (take m (ev # evs)))) = []" if "m < length (ev # evs)" for m
    using that IH Cons.prems by (cases m) (simp_all add: flying_def)
  then show ?case using IH Cons.prems(2) by (simp add: conj_assoc)
qed simp


lemma split_shape:
  assumes "splitUserRequest rbd ur = Some (rv, ps, rbd')"
  shows "rbd_ioInflight rbd' = rbd_ioInflight rbd \<and> (rv = CYPRE_OK \<and> ps \<noteq> [] \<or> rv = CYPRE_C_DATA_TOO_LARGE \<and> ps = [])"
proof -
  have g: "rbd_ioInflight (snd (GetExtentStreamHandle r i)) = rbd_ioInflight r" for r i
    by (simp add: GetExtentStreamHandle_def Let_def split: option.split)
  show ?thesis using assms
    by (auto simp: splitUserRequest_def Let_def case_prod_beta g split: if_splits)
qed

lemma request_flying:
  assumes d: "doUserRequest e s mem rbd ur = Some f"
    and ur: "ur_user_cb ur" "ur_status ur = CYPRE_OK" "ur_called ur = []" "ur_deleted ur = 0"
  shows "fl_rv f = CYPRE_C_DATA_TOO_LARGE \<and> fl_callers f = [] \<and> ur_called (fl_ureq f) = [] \<and> ur_deleted (fl_ureq f) = 1 \<and>
      rbd_ioInflight (fl_rbd f) = rbd_ioInflight rbd \<or>
    flying (rbd_ioInflight rbd) (length (fl_callers f)) (fl_rv f = CYPRE_OK) f \<and> list_all fresh_caller (fl_callers f)"
proof -
  obtain rv ps rbd' where s: "splitUserRequest rbd ur = Some (rv, ps, rbd')"
    using d by (auto simp: doUserRequest_def split: option.splits)
  note sh = split_shape[OF s]
  show ?thesis
  proof (cases "rv = CYPRE_OK")
    case True
    let ?f = "\<lparr> fl_rv = rv, fl_servers = s, fl_mem = mem, fl_rbd = rbd' \<lparr> rbd_ioInflight := rbd_ioInflight rbd' + 1 \<rparr>,
      fl_ureq = ur \<lparr> ur_ref := int (length ps), ur_is_splited := length ps = 2 \<rparr>, fl_callers = [] \<rparr>"
    have "f = submit_pieces e ps (ur_buf ur) ?f" using d s True by (simp add: doUserRequest_def)
    moreover have "flying (rbd_ioInflight rbd) (length ps + length (fl_callers ?f)) (fl_rv ?f = CYPRE_OK) ?f"
      using True sh ur by (simp add: flying_def)
    ultimately show ?thesis using submit_flying[of "rbd_ioInflight rbd" ps ?f e "ur_buf ur"] by simp
  next
    case False
    then show ?thesis using d s sh ur by (auto simp: doUserRequest_def)
  qed
qed

section \<open>Properties of requests\<close>

text \<open>A client of a blob with extents of eight bytes, whose extents are all on one server.\<close>

definition demo_stream :: rbd_stream where
  "demo_stream = RBDStreamHandleImpl \<lparr> so_blob_id = ''b'', so_blob_name = ''n'', so_pool_id = ''p'', so_user_id = ''u'',
     so_extent_size = 8, so_blob_size = 64 \<rparr> Map.empty"

definition demo_client :: "(unit \<Rightarrow> string \<Rightarrow> pb_msg \<Rightarrow> unit \<times> es_reply) \<Rightarrow> unit cl_env" where
  "demo_client server = \<lparr> ce_crc = (\<lambda>_. 0), ce_remote = (\<lambda>eid. Rpc_Reply 0 (Some demo_router)), ce_channel = (\<lambda>_. True),
     ce_read = server, ce_write = server \<rparr>"

text \<open>C6: The callback of an asynchronous request runs exactly once, after the last of its pieces
  has been answered or expired and not before, whatever the order of the answers. It
  reports OK only when every piece was sent and answered OK. The request is deleted once,
  and the number of requests in flight is what it was before. A request over more than
  two extents is refused and its callback never runs.\<close>

theorem user_called_once:
  assumes "rbd_AsyncRead e s mem rbd buf len off True = Some (Inr f) \<or> rbd_AsyncWrite e s mem rbd buf len off True = Some (Inr f)"
    and "mset (map fst evs) = mset (fl_callers f)" "f' = foldl (caller_step e) f evs"
  shows "ur_deleted (fl_ureq f') = 1 \<and> rbd_ioInflight (fl_rbd f') = rbd_ioInflight rbd \<and>
    (fl_rv f = CYPRE_C_DATA_TOO_LARGE \<and> evs = [] \<and> ur_called (fl_ureq f') = [] \<or>
     (\<exists>st. ur_called (fl_ureq f') = [st] \<and> (st = CYPRE_OK \<longrightarrow> fl_rv f = CYPRE_OK \<and> list_all event_ok evs) \<and>
       (\<forall>m < length evs. ur_called (fl_ureq (foldl (caller_step e) f (take m evs))) = [])))"
proof -
  obtain ur where d: "doUserRequest e s mem rbd ur = Some f" "ur_user_cb ur" "ur_status ur = CYPRE_OK" "ur_called ur = []" "ur_deleted ur = 0"
    using assms(1) by (auto simp: rbd_AsyncRead_def rbd_AsyncWrite_def generateHeaderCrc32_def new_ureq_def split: if_splits)
  from request_flying[OF d] show ?thesis
  proof
    assume refused: "fl_rv f = CYPRE_C_DATA_TOO_LARGE \<and> fl_callers f = [] \<and> ur_called (fl_ureq f) = [] \<and> ur_deleted (fl_ureq f) = 1 \<and>
      rbd_ioInflight (fl_rbd f) = rbd_ioInflight rbd"
    then have "evs = []" using assms(2) by simp
    then show ?thesis using refused assms(3) by simp
  next
    assume fly: "flying (rbd_ioInflight rbd) (length (fl_callers f)) (fl_rv f = CYPRE_OK) f \<and> list_all fresh_caller (fl_callers f)"
    have "length evs = length (fl_callers f)" using assms(2) by (metis length_map size_mset)
    moreover have "list_all (fresh_caller \<circ> fst) evs"
      using fly mset_eq_setD[OF assms(2)] by (auto simp: list_all_iff)
    ultimately have "flying (rbd_ioInflight rbd) 0 (fl_rv f = CYPRE_OK \<and> list_all event_ok evs) f' \<and>
      (\<forall>m < length evs. ur_called (fl_ureq (foldl (caller_step e) f (take m evs))) = [])"
      using callers_flying[of "rbd_ioInflight rbd" evs "fl_rv f = CYPRE_OK" f e] fly assms(3) by simp
    then show ?thesis by (auto simp: flying_def)
  qed
qed

theorem user_called_once_witness:
  "\<exists>f st. rbd_AsyncWrite (demo_client (\<lambda>s c m. (s, Cntl_Failed))) () (\<lambda>_. CHR ''x'') demo_stream 100 4 6 True = Some (Inr f) \<and> length (fl_callers f) = 2 \<and>
     ur_called (fl_ureq (foldl (caller_step (demo_client (\<lambda>s c m. (s, Cntl_Failed)))) f (map (\<lambda>c. (c, Expired)) (rev (fl_callers f))))) = [st]"
proof -
  let ?e = "demo_client (\<lambda>s c m. (s, Cntl_Failed))"
  obtain f where f: "rbd_AsyncWrite ?e () (\<lambda>_. CHR ''x'') demo_stream 100 4 6 True = Some (Inr f)" "length (fl_callers f) = 2" "fl_rv f = CYPRE_OK"
    by (simp add: rbd_AsyncWrite_def demo_stream_def RBDStreamHandleImpl_def demo_client_def doUserRequest_def splitUserRequest_def
        generateHeaderCrc32_def new_ureq_def u64_add_def u64_sub_def u64_mul_def Let_def GetExtentStreamHandle_def YStreamHandle_SetExtentIoProto_def
        YStreamHandle_Async_def QueryRouter_def queryFromRemote_def BrpcEsWrapper_Async_def wrapper_connection_def
        ConnectionPool2_GetConnection_def ConnectionPool2_NewConnection_def)
  have "mset (map fst (map (\<lambda>c. (c, Expired)) (rev (fl_callers f)))) = mset (fl_callers f)" by (simp add: comp_def)
  from user_called_once[OF disjI2[OF f(1)] this refl] show ?thesis using f by auto
qed


end
