(* ===== verification/Client_Path.thy ===== *)
theory Client_Path
  imports Rbd_Stream
begin

text \<open>
  The way of a client request through the extent servers: the servers of a cluster, as the
  client calls them, interpret the interface \<open>block_servers\<close> of the client library, so a
  blob is one flat sequence of bytes to its user.

  A call on a server is run to its answer: \<open>sched\<close> gives the completions of a write in the
  order in which they arrive, \<open>dev\<close> whether the device completes a read. The servers are
  known by their connection; the copies on secondaries are not part of this state.
\<close>

section \<open>Calls on the servers of a cluster\<close>

type_synonym cluster = "string \<Rightarrow> es_state"

definition cluster_write :: "(string \<Rightarrow> es_env) \<Rightarrow> request \<Rightarrow> (pb_msg \<Rightarrow> es_instance list \<Rightarrow> bool \<Rightarrow> completion list)
    \<Rightarrow> cluster \<Rightarrow> string \<Rightarrow> pb_msg \<Rightarrow> cluster \<times> es_reply" where
  "cluster_write envs unit sched s conn msg =
     (case IoService_Write (envs conn) True unit (s conn) msg of
        None \<Rightarrow> (s, Cntl_Failed)
      | Some (req, st, sent, pending) \<Rightarrow>
          (case foldl (complete (envs conn)) (req, st) (sched msg sent pending) of
             (req, st) \<Rightarrow> (s(conn := st), Cntl_Reply (rq_resp req))))"

definition cluster_read :: "(string \<Rightarrow> es_env) \<Rightarrow> request \<Rightarrow> (pb_msg \<Rightarrow> bool)
    \<Rightarrow> cluster \<Rightarrow> string \<Rightarrow> pb_msg \<Rightarrow> cluster \<times> es_reply" where
  "cluster_read envs unit dev s conn msg =
     (case IoService_Read (envs conn) True unit (s conn) msg of
        None \<Rightarrow> (s, Cntl_Failed)
      | Some (req, st, sent, pending) \<Rightarrow>
          (case (if pending then complete (envs conn) (req, st) (Local (dev msg)) else (req, st)) of
             (req, st) \<Rightarrow> (s(conn := st), Cntl_Reply (rq_resp req))))"

definition cluster_inv :: "(string \<Rightarrow> es_env) \<Rightarrow> (pb_msg \<Rightarrow> es_instance list \<Rightarrow> bool \<Rightarrow> completion list) \<Rightarrow> nat \<Rightarrow> cluster \<Rightarrow> bool" where
  "cluster_inv envs sched esize s \<longleftrightarrow> (\<forall>m sent pending. expected sent pending (sched m sent pending)) \<and>
     (\<forall>c. se_wf (env_crc (envs c)) (s c) \<and> se_extent_size (s c) = esize)"

definition cluster_cell :: "(string \<Rightarrow> string) \<Rightarrow> cluster \<Rightarrow> string \<Rightarrow> nat \<Rightarrow> char" where
  "cluster_cell home s eid i = extent_byte (s (home eid)) eid i"

definition cluster_ready :: "(string \<Rightarrow> string) \<Rightarrow> cluster \<Rightarrow> string \<Rightarrow> bool" where
  "cluster_ready home s eid \<longleftrightarrow> lm_map (se_locs (s (home eid))) eid \<noteq> None"

section \<open>The state after the completions of a write\<close>

lemma replicas_state: "list_all (\<lambda>c. \<not> is_local c) cs \<Longrightarrow> snd (foldl (complete env) (req, st) cs) = st"
proof (induction cs arbitrary: req)
  case (Cons c cs)
  then show ?case by (cases c) auto
qed simp

lemma local_submit:
  assumes "list_all (completed_ok env) cs" "length (filter is_local cs) = 1"
  shows "env_submit env"
proof -
  have "filter is_local cs \<noteq> []" using assms(2) by auto
  then obtain c where "c \<in> set cs" "is_local c" by (auto simp: filter_empty_conv)
  moreover from this have "completed_ok env c" using assms(1) by (simp add: list_all_iff)
  ultimately show ?thesis by (cases c rule: completion.exhaust) simp_all
qed

lemma completions_state:
  assumes "waiting req (length cs) res" "length (filter is_local cs) = 1" "list_all (completed_ok env) cs"
  shows "snd (foldl (complete env) (req, st) cs) = snd (worker_step env st req True)"
  using assms
proof (induction cs arbitrary: req res)
  case (Cons c cs)
  show ?case
  proof (cases c)
    case (Local b)
    then have "b" "list_all (\<lambda>c. \<not> is_local c) cs"
      using Cons.prems(2,3) by (auto simp: list_all_iff filter_empty_conv)
    moreover obtain r' st' where w: "worker_step env st req b = (r', st')" by fastforce
    ultimately show ?thesis using Local replicas_state[of cs env r' st'] by simp
  next
    case (Replica reply)
    then have cs: "length (filter is_local cs) = 1" "list_all (completed_ok env) cs" using Cons.prems(2,3) by simp_all
    then have "cs \<noteq> []" by auto
    let ?r = "HandleResponse req reply"
    have k: "waiting req (Suc (length cs)) res" using Cons.prems(1) by simp
    then have "rq_ref_count (SetResult req (reply = Some 0)) \<noteq> 1" using \<open>cs \<noteq> []\<close> by (simp add: waiting_def SetResult_def)
    from WriteDone_more[OF this] have r: "?r = req \<lparr> rq_result := rq_result req \<and> reply = Some 0, rq_ref_count := rq_ref_count req - 1 \<rparr>"
      by (simp add: HandleResponse_def SetResult_def)
    have "waiting ?r (length cs) (res \<and> reply = Some 0)"
      using WriteDone_waiting[OF k, of "reply = Some 0"] \<open>cs \<noteq> []\<close> by (simp add: HandleResponse_def)
    from Cons.IH[OF this cs] have "snd (foldl (complete env) (req, st) (c # cs)) = snd (worker_step env st ?r True)"
      using Replica by simp
    also have "\<dots> = snd (worker_step env st req True)"
    proof -
      have "env_submit env" by (rule local_submit[OF cs(2,1)])
      moreover have "rq_type req = kTypeWrite" using k by (simp add: waiting_def)
      ultimately show ?thesis
        using worker_write[of req env st] worker_write[of ?r env st] by (simp add: r Request_Size_def)
    qed
    finally show ?thesis .
  qed
qed simp

lemma write_call:
  assumes wf: "se_wf (env_crc env) st" and len: "length (msg_extent_id msg) < 2 ^ 30"
    and w: "IoService_Write env True unit st msg = Some (req, st1, sent, pending)" and e: "expected sent pending cs"
    and f: "foldl (complete env) (req, st1) cs = (req2, st2)" and ok: "resp_code (rq_resp req2) = 0"
  shows "pending" "env_submit env" "st2 = snd (worker_step env st1 req True)"
proof -
  have W: "if pending then waiting req (Suc (length sent)) True
     else if sent = [] then answered req False else waiting req (length sent) False"
    using IoService_Write_spec[OF wf len, of unit] w by (metis option.inject prod.inject)
  have l: "length cs = length sent + (if pending then 1 else 0)"
    using e sum_length_filter_compl[of is_local cs] by (simp add: expected_def)
  have p: "pending \<and> waiting req (length cs) True \<and> list_all (completed_ok env) cs"
  proof (cases "cs = []")
    case True
    then have "answered req False" "req2 = req" using l W f by (simp_all split: if_splits)
    then show ?thesis using ok by (simp add: answered_def)
  next
    case False
    then have wt: "waiting req (length cs) pending" using l W by (auto split: if_splits)
    from completions[OF this False, of env st1] have "answered req2 (pending \<and> list_all (completed_ok env) cs)" using f by simp
    then show ?thesis using ok wt by (auto simp: answered_def split: if_splits)
  qed
  then show "pending" by simp
  have one: "length (filter is_local cs) = 1" using e p by (simp add: expected_def)
  then show "st2 = snd (worker_step env st1 req True)" using completions_state[of req cs True env st1] p f by simp
  show "env_submit env" using local_submit[OF _ one] p by simp
qed

section \<open>The laws of the servers\<close>

lemma cluster_write_law:
  assumes "cluster_inv envs sched esize s" "msg_offset m + msg_size m \<le> esize" "length (msg_extent_id m) < 2 ^ 30"
    and "length (msg_attachment m) = msg_size m"
    and c: "cluster_write envs unit sched s (home (msg_extent_id m)) m = (s', Cntl_Reply r)" "resp_code r = 0"
  shows "cluster_inv envs sched esize s' \<and> (\<forall>k < msg_size m. cluster_cell home s' (msg_extent_id m) (msg_offset m + k) = msg_attachment m ! k) \<and>
    (\<forall>x i. i < esize \<longrightarrow> \<not> (x = msg_extent_id m \<and> msg_offset m \<le> i \<and> i < msg_offset m + msg_size m) \<longrightarrow>
       x \<noteq> msg_extent_id m \<or> cluster_ready home s x \<longrightarrow> cluster_cell home s' x i = cluster_cell home s x i) \<and>
    (\<forall>x. cluster_ready home s x \<longrightarrow> cluster_ready home s' x)"
proof -
  let ?eid = "msg_extent_id m" and ?c = "home (msg_extent_id m)"
  have wf: "se_wf (env_crc (envs ?c)) (s ?c)" "se_extent_size (s ?c) = esize" "expected sent pending (sched m sent pending)" for sent pending
    using assms(1) by (simp_all add: cluster_inv_def)
  have nowrap: "msg_offset m + msg_size m < 2 ^ 64" using assms(2) se_wfD(3)[OF wf(1)] wf(2) by simp
  obtain req st1 sent pending req2 st2 where w: "IoService_Write (envs ?c) True unit (s ?c) m = Some (req, st1, sent, pending)"
    "foldl (complete (envs ?c)) (req, st1) (sched m sent pending) = (req2, st2)" "s' = s(?c := st2)" "r = rq_resp req2"
    using c(1) by (auto simp: cluster_write_def split: option.splits prod.splits)
  note W = write_call[OF wf(1) assms(3) w(1) wf(3) w(2) c(2)[unfolded w(4)]]
  have call: "start_call (envs ?c) True unit (s ?c) kTypeWrite m (\<lambda>s req. WriteDone (SetResult req False)) = Some (req, st1, sent, True)"
    using w(1) W(1) by (simp add: IoService_Write_def)
  note E = write_effect[OF wf(1) assms(3) disjI1[OF refl] call nowrap assms(4) W(2,3)]
  obtain l where l: "lm_map (se_locs st1) = (lm_map (se_locs (s ?c)))(?eid \<mapsto> l)" "rq_type req = kTypeWrite" "se_extent_size st1 = se_extent_size (s ?c)"
    using call_in_extent[OF wf(1) assms(3) _ call nowrap] by (auto simp: io_type_def)
  have st2: "se_locs st2 = se_locs st1" "se_extent_size st2 = esize"
    using worker_write[of req "envs ?c" st1] W(2,3) l(2,3) wf(2) by simp_all
  have "cluster_inv envs sched esize s'" using assms(1) E(1) st2(2) by (simp add: cluster_inv_def w(3))
  moreover have "cluster_cell home s' ?eid (msg_offset m + k) = msg_attachment m ! k" if "k < msg_size m" for k
    using E(2)[of "msg_offset m + k"] that by (simp add: cluster_cell_def w(3))
  moreover have "cluster_cell home s' x i = cluster_cell home s x i"
    if x: "i < esize" "\<not> (x = ?eid \<and> msg_offset m \<le> i \<and> i < msg_offset m + msg_size m)" "x \<noteq> ?eid \<or> cluster_ready home s x" for x i
  proof (cases "x = ?eid")
    case True
    then show ?thesis using E(3)[of i] x by (auto simp: cluster_cell_def cluster_ready_def w(3))
  next
    case False
    then show ?thesis using E(4)[OF False, of i] x(1) wf(2) by (simp add: cluster_cell_def w(3))
  qed
  moreover have "cluster_ready home s' x" if "cluster_ready home s x" for x
    using that l(1) st2(1) by (auto simp: cluster_ready_def w(3))
  ultimately show ?thesis by blast
qed

lemma ProcessRequest_read_state:
  assumes wf: "se_wf (env_crc env) st" and len: "length (ExtentID req) < 2 ^ 30" and t: "rq_type req = kTypeRead"
    and p: "StorageEngine_ProcessRequest env st req = Some (s, req', st', sent)"
  shows "se_wf (env_crc env) st' \<and> lm_map (se_locs st') = lm_map (se_locs st) \<and> se_dev st' = se_dev st \<and> se_extent_size st' = se_extent_size st"
proof -
  obtain s1 cache r where c: "doSafetyCheck env st req = Some (s1, req \<lparr> rq_router := r \<rparr>, st \<lparr> se_routers := cache \<rparr>)"
    using doSafetyCheck_spec[of env st req] by metis
  let ?req1 = "req \<lparr> rq_router := r \<rparr>" and ?st1 = "st \<lparr> se_routers := cache \<rparr>"
  show ?thesis
  proof (cases "st_ok s1")
    case False
    then have "st' = ?st1" using p c by (simp add: StorageEngine_ProcessRequest_def)
    then show ?thesis using wf by simp
  next
    case True
    have "doReplicate env ?st1 ?req1 = Some (Status_OK, ?req1, [])" using t by (simp add: doReplicate_def)
    then have bare: "BareEngine_ProcessRequest env ?st1 ?req1 = Some (s, req', st')"
      using p c True se_wfD(5)[OF wf] by (auto simp: StorageEngine_ProcessRequest_def)
    have wf1: "se_wf (env_crc env) ?st1" "length (ExtentID ?req1) < 2 ^ 30" "io_type (rq_type ?req1)"
      using wf len t by (simp_all add: io_type_def)
    obtain s3 ph locs where q: "query_location env ?st1 ?req1 False = Some (s3, ?req1 \<lparr> rq_phys := ph \<rparr>, ?st1 \<lparr> se_locs := locs \<rparr>)"
      "se_wf (env_crc env) (?st1 \<lparr> se_locs := locs \<rparr>)"
      "if st_ok s3
       then \<exists>l. lm_map locs = (lm_map (se_locs ?st1))(ExtentID ?req1 \<mapsto> l) \<and> ph = u64_add (loc_offset l) (Request_Offset ?req1) \<and>
              lm_map (se_locs ?st1) (ExtentID ?req1) \<in> {None, Some l} \<and> (lm_map (se_locs ?st1) (ExtentID ?req1) = None \<longrightarrow> False)
       else lm_map locs = lm_map (se_locs ?st1) \<and> lm_map (se_locs ?st1) (ExtentID ?req1) = None"
      by (rule query_location_spec[OF wf1(1,2), of False])
    have same: "lm_map locs = lm_map (se_locs st)" using q(3) by (auto split: if_splits simp: map_upd_triv)
    have "st' = ?st1 \<lparr> se_locs := locs \<rparr>" using bare q(1) t unfolding BareEngine_io[OF wf1(3)] by (auto split: if_splits)
    then show ?thesis using q(2) same by simp
  qed
qed

lemma read_failed:
  assumes "rq_type req = kTypeRead" "\<not> (b \<and> env_submit env)"
  shows "resp_code (rq_resp (fst (complete env (req, st) (Local b)))) \<noteq> 0"
  using assms by (auto simp: worker_step_def doRead_def worker_callback_def user_callback_def ReadDone_def SetResult_def
      respond_def Let_def run_done_def PutRequest_def Request_Reset_def split: option.splits)

lemma cluster_read_law:
  assumes "cluster_inv envs sched esize s" "msg_offset m + msg_size m \<le> esize" "length (msg_extent_id m) < 2 ^ 30"
    and c: "cluster_read envs unit dev s (home (msg_extent_id m)) m = (s', Cntl_Reply r)" "resp_code r = 0"
  shows "cluster_inv envs sched esize s' \<and>
    resp_attachment r = map (cluster_cell home s (msg_extent_id m)) [msg_offset m..<msg_offset m + msg_size m] \<and>
    (\<forall>x i. i < esize \<longrightarrow> cluster_cell home s' x i = cluster_cell home s x i)"
proof -
  let ?eid = "msg_extent_id m" and ?c = "home (msg_extent_id m)"
  have wf: "se_wf (env_crc (envs ?c)) (s ?c)" "se_extent_size (s ?c) = esize"
    using assms(1) by (simp_all add: cluster_inv_def)
  have nowrap: "msg_offset m + msg_size m < 2 ^ 64" using assms(2) se_wfD(3)[OF wf(1)] wf(2) by simp
  obtain req st1 sent pending where w: "IoService_Read (envs ?c) True unit (s ?c) m = Some (req, st1, sent, pending)"
    using c(1) by (auto simp: cluster_read_def split: option.splits)
  let ?req = "SetOperationContext (Request_Reset unit kTypeRead) m fresh_response"
  obtain s0 r0 where p: "StorageEngine_ProcessRequest (envs ?c) (s ?c) ?req = Some (s0, r0, st1, sent)"
    using w by (auto simp: IoService_Read_def start_call_def GetRequest_def Let_def split: option.splits if_splits)
  have "length (ExtentID ?req) < 2 ^ 30" using assms(3) by (simp add: ExtentID_def SetOperationContext_def Request_Reset_def)
  from ProcessRequest_read_state[OF wf(1) this _ p]
  have st1: "se_wf (env_crc (envs ?c)) st1" "lm_map (se_locs st1) = lm_map (se_locs (s ?c))" "se_dev st1 = se_dev (s ?c)" "se_extent_size st1 = esize"
    using wf(2) by (simp_all add: SetOperationContext_def Request_Reset_def)
  have "s' = s(?c := st1) \<and> resp_attachment r = map (extent_byte (s ?c) ?eid) [msg_offset m..<msg_offset m + msg_size m]"
  proof (cases pending)
    case True
    then have wt: "IoService_Read (envs ?c) True unit (s ?c) m = Some (req, st1, sent, True)" using w by simp
    obtain req2 st2 where d: "complete (envs ?c) (req, st1) (Local (dev m)) = (req2, st2)" by fastforce
    have r: "s' = s(?c := st2)" "r = rq_resp req2" using c(1) w True d by (auto simp: cluster_read_def)
    have t: "rq_type req = kTypeRead" "rq_result req"
      using call_in_extent[OF wf(1) assms(3) _ wt[unfolded IoService_Read_def] nowrap] by (auto simp: io_type_def)
    have dev: "dev m" "env_submit (envs ?c)" using read_failed[OF t(1), of "dev m" "envs ?c" st1] d c(2) r(2) by auto
    then have d: "complete (envs ?c) (req, st1) (Local True) = (req2, st2)" using d by simp
    then have "st2 = st1" using read_done[OF t(1) dev(2) t(2), of st1] by simp
    then show ?thesis using read_queued[OF wf(1) assms(3) nowrap dev(2) wt d] r by simp
  next
    case False
    then have r: "s' = s(?c := st1)" "r = rq_resp req" using c(1) w by (auto simp: cluster_read_def)
    then show ?thesis using read_refused[OF wf(1) assms(3), of unit req st1 sent] w False c(2) by simp
  qed
  moreover have "extent_byte st1 x i = extent_byte (s ?c) x i" for x i unfolding extent_byte_def st1(2,3) ..
  ultimately show ?thesis using assms(1) st1(1,4) by (auto simp: cluster_inv_def cluster_cell_def)
qed

interpretation cluster: block_servers "cluster_inv envs sched esize" "cluster_cell home" "cluster_ready home" esize home
    "cluster_read envs unit dev" "cluster_write envs unit sched" for envs sched esize home unit dev
  by unfold_locales (rule cluster_write_law, assumption+, rule cluster_read_law, assumption+)

section \<open>A cluster for the examples\<close>

definition demo_sched :: "pb_msg \<Rightarrow> es_instance list \<Rightarrow> bool \<Rightarrow> completion list" where
  "demo_sched m sent pending = (if pending then [Local True] else []) @ map (\<lambda>_. Replica (Some 0)) sent"

definition demo_home :: string where
  "demo_home = get_connection_id ''a'' 80"

definition demo_lib :: "cluster cl_env" where
  "demo_lib = \<lparr> ce_crc = (\<lambda>_. 0), ce_remote = (\<lambda>eid. Rpc_Reply 0 (Some demo_router)), ce_channel = (\<lambda>_. True),
     ce_read = cluster_read (\<lambda>_. demo_env) demo_unit (\<lambda>_. True), ce_write = cluster_write (\<lambda>_. demo_env) demo_unit demo_sched \<rparr>"

definition demo_rbd :: rbd_stream where
  "demo_rbd = RBDStreamHandleImpl \<lparr> so_blob_id = ''b'', so_blob_name = ''n'', so_pool_id = ''p'', so_user_id = ''u'',
     so_extent_size = 2 ^ 20, so_blob_size = 2 ^ 20 \<rparr> Map.empty"

definition demo_cluster :: cluster where
  "demo_cluster = (\<lambda>_. demo_server ''a'' (\<lambda>_. CHR ''s''))"

definition demo_bytes :: "nat \<Rightarrow> pb_msg" where
  "demo_bytes off = (demo_msg off 4096 (replicate 4096 CHR ''x'')) \<lparr> msg_crc32 := Some 0 \<rparr>"

definition demo_after :: es_state where
  "demo_after = snd (foldl (complete demo_env) (case IoService_Write demo_env True demo_unit (demo_server ''a'' (\<lambda>_. CHR ''s'')) (demo_bytes 4096) of
     Some (req, st, sent, pending) \<Rightarrow> (req, st)) (demo_sched (demo_bytes 4096) [demo_instance ''b'', demo_instance ''c''] True))"

lemma demo_cluster_inv: "cluster_inv (\<lambda>_. demo_env) demo_sched (2 ^ 20) demo_cluster"
proof -
  have "se_extent_size (demo_server ''a'' dev) = 2 ^ 20" for dev by (simp add: demo_server_def SetExtentSize_def)
  moreover have "expected sent pending (demo_sched m sent pending)" for m sent pending
    by (simp add: expected_def demo_sched_def filter_map comp_def)
  ultimately show ?thesis using demo_server_wf by (simp add: cluster_inv_def demo_cluster_def)
qed

lemma demo_stream_ok: "stream_ok demo_lib (\<lambda>_. demo_home) (\<lambda>_. demo_home) (2 ^ 20) demo_rbd"
  by (auto simp: stream_ok_def demo_rbd_def RBDStreamHandleImpl_def handles_ok_def routed_def QueryRouter_def queryFromRemote_def demo_lib_def
      address_def demo_home_def demo_router_def demo_instance_def split: option.splits)

lemma demo_fits: "request_fits (rbd_sopts demo_rbd) 4096 4096"
  by (simp add: request_fits_def demo_rbd_def RBDStreamHandleImpl_def)

lemma demo_bytes_write:
  "\<exists>req st'. IoService_Write demo_env True demo_unit (demo_server ''a'' dev) (demo_bytes 4096) =
     Some (req, st', [demo_instance ''b'', demo_instance ''c''], True)"
  unfolding demo_bytes_def demo_defs demo_mgr_eq IoService_Write_def by (simp add: call_eval query_eval)

lemma demo_write_answer:
  assumes "se_wf (env_crc demo_env) (s demo_home)"
    and w: "IoService_Write demo_env True demo_unit (s demo_home) (demo_bytes 4096) = Some (req, st', [demo_instance ''b'', demo_instance ''c''], True)"
  shows "\<exists>r. cluster_write (\<lambda>_. demo_env) demo_unit demo_sched s demo_home (demo_bytes 4096) =
     (s(demo_home := snd (foldl (complete demo_env) (req, st') (demo_sched (demo_bytes 4096) [demo_instance ''b'', demo_instance ''c''] True))), Cntl_Reply r) \<and>
     resp_code r = 0"
proof -
  let ?cs = "demo_sched (demo_bytes 4096) [demo_instance ''b'', demo_instance ''c''] True"
  have "length (msg_extent_id (demo_bytes 4096)) < 2 ^ 30" by (simp add: demo_bytes_def)
  then obtain rq st2 snt pnd where sp: "IoService_Write demo_env True demo_unit (s demo_home) (demo_bytes 4096) = Some (rq, st2, snt, pnd)"
    "if pnd then waiting rq (Suc (length snt)) True else if snt = [] then answered rq False else waiting rq (length snt) False"
    by (rule IoService_Write_spec[OF assms(1)])
  have "rq = req" "snt = [demo_instance ''b'', demo_instance ''c'']" "pnd" using sp(1) w by simp_all
  then have "waiting req (length ?cs) True" "?cs \<noteq> []" using sp(2) by (simp_all add: demo_sched_def)
  from completions[OF this, of demo_env st'] have "answered (fst (foldl (complete demo_env) (req, st') ?cs)) True"
    by (simp add: demo_sched_def)
  moreover obtain req2 st2 where f: "foldl (complete demo_env) (req, st') ?cs = (req2, st2)" by fastforce
  ultimately have "resp_code (rq_resp req2) = 0" by (simp add: answered_def)
  then show ?thesis using w f by (simp add: cluster_write_def)
qed

lemma demo_cluster_write:
  "\<exists>r. cluster_write (\<lambda>_. demo_env) demo_unit demo_sched demo_cluster demo_home (demo_bytes 4096) =
     (demo_cluster(demo_home := demo_after), Cntl_Reply r) \<and> resp_code r = 0"
proof -
  obtain req st' where w: "IoService_Write demo_env True demo_unit (demo_cluster demo_home) (demo_bytes 4096) =
      Some (req, st', [demo_instance ''b'', demo_instance ''c''], True)"
    using demo_bytes_write unfolding demo_cluster_def by blast
  have "se_wf (env_crc demo_env) (demo_cluster demo_home)" unfolding demo_cluster_def by (rule demo_server_wf)
  from demo_write_answer[of demo_cluster, OF this w] show ?thesis using w by (simp add: demo_after_def demo_cluster_def)
qed

lemma demo_after_state:
  "demo_after = (demo_server ''a'' (\<lambda>_. CHR ''s'')) \<lparr> se_routers := [''b.1'' \<mapsto> demo_router \<lparr> er_extent_id := ''b.1'' \<rparr>],
      se_locs := se_locs demo_after, se_dev := dev_write (\<lambda>_. CHR ''s'') 4096 (replicate 4096 CHR ''x'') \<rparr>"
  "lm_map (se_locs demo_after) = [''b.1'' \<mapsto> \<lparr> loc_offset = 0, loc_size = 2 ^ 20, loc_extent_id = ''b.1'' \<rparr>]"
  unfolding demo_after_def demo_bytes_def demo_sched_def demo_defs demo_mgr_eq IoService_Write_def
  by (simp_all add: call_eval query_eval worker_step_def doWrite_def copy_to_exact)

lemma demo_after_read:
  "\<exists>req st'. IoService_Read demo_env True demo_unit demo_after (demo_msg 4096 4096 []) = Some (req, st', [], True)"
  apply (subst demo_after_state(1))
  unfolding demo_defs demo_mgr_eq IoService_Read_def
  by (simp add: call_eval handleRead_def QueryLocation_def lookupLocation_def demo_after_state(2))

lemma demo_after_inv: "cluster_inv (\<lambda>_. demo_env) demo_sched (2 ^ 20) (demo_cluster(demo_home := demo_after))"
proof -
  obtain w where "cluster_write (\<lambda>_. demo_env) demo_unit demo_sched demo_cluster demo_home (demo_bytes 4096) =
     (demo_cluster(demo_home := demo_after), Cntl_Reply w)" "resp_code w = 0" using demo_cluster_write by blast
  from cluster_write_law[of _ _ _ _ "demo_bytes 4096" _ "\<lambda>_. demo_home", OF demo_cluster_inv _ _ _ this]
  show ?thesis by (simp add: demo_bytes_def)
qed

lemma demo_after_wf: "se_wf (env_crc demo_env) demo_after"
  using demo_after_inv by (auto simp: cluster_inv_def split: if_splits)

lemma demo_cluster_read:
  "\<exists>r s'. cluster_read (\<lambda>_. demo_env) demo_unit (\<lambda>_. True) (demo_cluster(demo_home := demo_after)) demo_home (demo_msg 4096 4096 []) =
     (s', Cntl_Reply r) \<and> resp_code r = 0"
proof -
  obtain req st' where r: "IoService_Read demo_env True demo_unit demo_after (demo_msg 4096 4096 []) = Some (req, st', [], True)"
    using demo_after_read by blast
  obtain req2 st2 where c: "complete demo_env (req, st') (Local True) = (req2, st2)" by fastforce
  have "resp_code (rq_resp req2) = 0" using read_queued[OF demo_after_wf _ _ _ r c] by simp
  then show ?thesis using r c by (simp add: cluster_read_def)
qed

lemma demo_cluster_rewrite:
  "\<exists>r s'. cluster_write (\<lambda>_. demo_env) demo_unit demo_sched (demo_cluster(demo_home := demo_after)) demo_home (demo_bytes 4096) =
     (s', Cntl_Reply r) \<and> resp_code r = 0"
proof -
  have "\<exists>req st'. IoService_Write demo_env True demo_unit demo_after (demo_bytes 4096) = Some (req, st', [demo_instance ''b'', demo_instance ''c''], True)"
    apply (subst demo_after_state(1))
    unfolding demo_bytes_def demo_defs demo_mgr_eq IoService_Write_def
    by (simp add: call_eval QueryLocation_def lookupLocation_def demo_after_state(2))
  then obtain req st' where "IoService_Write demo_env True demo_unit ((demo_cluster(demo_home := demo_after)) demo_home) (demo_bytes 4096) =
      Some (req, st', [demo_instance ''b'', demo_instance ''c''], True)" by auto
  from demo_write_answer[of "demo_cluster(demo_home := demo_after)", OF _ this] show ?thesis using demo_after_wf by auto
qed

lemma extent_one: "GenerateExtentID ''b'' (Suc 0) = ''b.1''"
  by code_simp

lemmas user_eval = rbd_AsyncWrite_def rbd_AsyncRead_def doUserRequest_def splitUserRequest_def generateHeaderCrc32_def new_ureq_def
  u64_add_def u64_sub_def u64_mul_def Let_def GetExtentStreamHandle_def YStreamHandle_SetExtentIoProto_def YStreamHandle_Async_def
  QueryRouter_def queryFromRemote_def BrpcEsWrapper_Async_def wrapper_connection_def ConnectionPool2_GetConnection_def
  ConnectionPool2_NewConnection_def SyncCall_def caller_done_def BrpcEsWriter_onWriteDone_def BrpcEsReader_onReadDone_def reply_code_def
  new_request_def writer_message_def reader_message_def run_callback_def rbd_onWriteDone_def rbd_onReadDone_def piece_done_def

lemma demo_lib_write:
  assumes "cluster_write (\<lambda>_. demo_env) demo_unit demo_sched s demo_home (demo_bytes 4096) = (s', Cntl_Reply r)" "resp_code r = 0"
  shows "\<exists>f. rbd_Write demo_lib s (\<lambda>_. CHR ''x'') demo_rbd 0 4096 4096 = Some (Inr f) \<and> fl_rv f = CYPRE_OK \<and>
     fl_servers f = s' \<and> rbd_handleMap (fl_rbd f) 1 = Some \<lparr> ys_extent_id = ''b.1'', ys_extent_idx = 1, ys_wrapper = kBrpc \<rparr> \<and>
     rbd_routers (fl_rbd f) ''b.1'' = Some (demo_router \<lparr> er_extent_id := ''b.1'' \<rparr>) \<and> rbd_conn_pool (fl_rbd f) 1 = Some demo_home \<and>
     rbd_sopts (fl_rbd f) = rbd_sopts demo_rbd \<and> \<not> rbd_isClosed (fl_rbd f)"
proof -
  have m: "demo_bytes 4096 = \<lparr> msg_extent_id = ''b.1'', msg_offset = 4096, msg_size = 4096, msg_crc32 = Some 0, msg_attachment = dev_read (\<lambda>_. CHR ''x'') 0 4096 \<rparr>"
    by (simp add: demo_bytes_def demo_msg_def dev_read_def map_replicate_const del: upt_rec_numeral)
  have h: "get_connection_id (public_ip (demo_instance ''a'')) (public_port (demo_instance ''a'')) = demo_home" "es_id (demo_instance ''a'') = 1"
    by (simp_all add: demo_home_def demo_instance_def)
  show ?thesis
    using assms(2) by (simp add: rbd_Write_def user_eval demo_lib_def demo_rbd_def RBDStreamHandleImpl_def extent_one h assms(1)[unfolded m] demo_router_def to_int32_def)
qed

lemma demo_read_ok:
  obtains r s' where "cluster_read (\<lambda>_. demo_env) demo_unit (\<lambda>_. True) (demo_cluster(demo_home := demo_after)) demo_home
     \<lparr> msg_extent_id = ''b.1'', msg_offset = 4096, msg_size = 4096, msg_crc32 = None, msg_attachment = [] \<rparr> = (s', Cntl_Reply r)" "resp_code r = 0"
  using demo_cluster_read unfolding demo_msg_def by blast

lemma demo_lib_read:
  assumes "fl_servers f = demo_cluster(demo_home := demo_after)" "rbd_handleMap (fl_rbd f) 1 = Some \<lparr> ys_extent_id = ''b.1'', ys_extent_idx = 1, ys_wrapper = kBrpc \<rparr>"
    "rbd_routers (fl_rbd f) ''b.1'' = Some (demo_router \<lparr> er_extent_id := ''b.1'' \<rparr>)" "rbd_conn_pool (fl_rbd f) 1 = Some demo_home"
    "rbd_sopts (fl_rbd f) = rbd_sopts demo_rbd" "\<not> rbd_isClosed (fl_rbd f)"
  shows "\<exists>g. rbd_Read demo_lib (fl_servers f) mem (fl_rbd f) 0 4096 4096 = Some (Inr g) \<and> fl_rv g = CYPRE_OK"
proof (rule demo_read_ok)
  fix s' r
  assume w: "cluster_read (\<lambda>_. demo_env) demo_unit (\<lambda>_. True) (demo_cluster(demo_home := demo_after)) demo_home
     \<lparr> msg_extent_id = ''b.1'', msg_offset = 4096, msg_size = 4096, msg_crc32 = None, msg_attachment = [] \<rparr> = (s', Cntl_Reply r)" "resp_code r = 0"
  have h: "es_id (demo_instance ''a'') = 1" by (simp add: demo_instance_def)
  show ?thesis
    using w(2) assms by (simp add: rbd_Read_def user_eval demo_lib_def demo_rbd_def RBDStreamHandleImpl_def extent_one h w(1) demo_router_def)
qed

lemma demo_lib_fresh_read:
  "\<exists>g. rbd_Read demo_lib (demo_cluster(demo_home := demo_after)) mem demo_rbd 0 4096 4096 = Some (Inr g) \<and> fl_rv g = CYPRE_OK"
proof (rule demo_read_ok)
  fix s' r
  assume w: "cluster_read (\<lambda>_. demo_env) demo_unit (\<lambda>_. True) (demo_cluster(demo_home := demo_after)) demo_home
     \<lparr> msg_extent_id = ''b.1'', msg_offset = 4096, msg_size = 4096, msg_crc32 = None, msg_attachment = [] \<rparr> = (s', Cntl_Reply r)" "resp_code r = 0"
  have h: "get_connection_id (public_ip (demo_instance ''a'')) (public_port (demo_instance ''a'')) = demo_home" "es_id (demo_instance ''a'') = 1"
    by (simp_all add: demo_home_def demo_instance_def)
  show ?thesis
    using w(2) by (simp add: rbd_Read_def user_eval demo_lib_def demo_rbd_def RBDStreamHandleImpl_def extent_one h w(1) demo_router_def)
qed

section \<open>Properties\<close>

text \<open>C4: A blob is a flat sequence of bytes. A synchronous write that returns OK and whose
  extents have a location changes exactly its range, to the content of the buffer, whether
  it stays in one extent or crosses into the next; a read that returns OK fills exactly its
  buffer, with the range, and changes nothing. Both leave the stream and the servers
  consistent.\<close>

theorem client_refines_flat_disk:
  assumes "stream_ok e home addr_of esize rbd" "cluster_inv envs sched esize s" "request_fits (rbd_sopts rbd) off len"
    and "ce_write e = cluster_write envs unit sched" "ce_read e = cluster_read envs unit dev"
    and "disk = flat (cluster_cell home) (rbd_sopts rbd)"
  shows "(rbd_Write e s mem rbd buf len off = Some (Inr f) \<and> fl_rv f = CYPRE_OK \<and> (\<forall>x \<in> touched (rbd_sopts rbd) off len. cluster_ready home s x) \<longrightarrow>
      disk (fl_servers f) = dev_write (disk s) off (dev_read mem buf len) \<and> fl_mem f = mem \<and>
      stream_ok e home addr_of esize (fl_rbd f) \<and> cluster_inv envs sched esize (fl_servers f)) \<and>
    (rbd_Read e s mem rbd buf len off = Some (Inr f) \<and> fl_rv f = CYPRE_OK \<longrightarrow>
      fl_mem f = dev_write mem buf (dev_read (disk s) off len) \<and> disk (fl_servers f) = disk s \<and>
      stream_ok e home addr_of esize (fl_rbd f) \<and> cluster_inv envs sched esize (fl_servers f))"
proof (intro conjI impI; (elim conjE)?)
  assume w: "rbd_Write e s mem rbd buf len off = Some (Inr f)" "fl_rv f = CYPRE_OK" and r: "\<forall>x \<in> touched (rbd_sopts rbd) off len. cluster_ready home s x"
  note W = cluster.client_write[OF assms(1,2,4,3) w]
  show "fl_mem f = mem" "stream_ok e home addr_of esize (fl_rbd f)" "cluster_inv envs sched esize (fl_servers f)" using W(1,2,3) by simp_all
  show "disk (fl_servers f) = dev_write (disk s) off (dev_read mem buf len)"
  proof
    fix a
    show "disk (fl_servers f) a = dev_write (disk s) off (dev_read mem buf len) a"
    proof (cases "off \<le> a \<and> a < off + len")
      case True
      then obtain k where "a = off + k" "k < len" by (metis add_less_cancel_left le_Suc_ex)
      then show ?thesis using W(4)[of k] by (simp add: assms(6) dev_write_def dev_read_def)
    next
      case False
      then show ?thesis using W(5)[OF False] r by (auto simp: assms(6) dev_write_def dev_read_def)
    qed
  qed
next
  assume w: "rbd_Read e s mem rbd buf len off = Some (Inr f)" "fl_rv f = CYPRE_OK"
  note R = cluster.client_read[OF assms(1,2,5,3) w]
  show "fl_mem f = dev_write mem buf (dev_read (disk s) off len)" "disk (fl_servers f) = disk s"
    "stream_ok e home addr_of esize (fl_rbd f)" "cluster_inv envs sched esize (fl_servers f)"
    using R by (simp_all add: assms(6) dev_read_def)
qed

theorem client_refines_flat_disk_witness:
  "\<exists>f g. rbd_Write demo_lib (demo_cluster(demo_home := demo_after)) (\<lambda>_. CHR ''x'') demo_rbd 0 4096 4096 = Some (Inr f) \<and>
     flat (cluster_cell (\<lambda>_. demo_home)) (rbd_sopts demo_rbd) (fl_servers f) =
       dev_write (flat (cluster_cell (\<lambda>_. demo_home)) (rbd_sopts demo_rbd) (demo_cluster(demo_home := demo_after))) 4096 (dev_read (\<lambda>_. CHR ''x'') 0 4096) \<and>
     rbd_Read demo_lib (demo_cluster(demo_home := demo_after)) (\<lambda>_. CHR ''y'') demo_rbd 0 4096 4096 = Some (Inr g) \<and>
     fl_mem g = dev_write (\<lambda>_. CHR ''y'') 0 (dev_read (flat (cluster_cell (\<lambda>_. demo_home)) (rbd_sopts demo_rbd) (demo_cluster(demo_home := demo_after))) 4096 4096)"
proof -
  let ?s = "demo_cluster(demo_home := demo_after)"
  obtain r s' where "cluster_write (\<lambda>_. demo_env) demo_unit demo_sched ?s demo_home (demo_bytes 4096) = (s', Cntl_Reply r)" "resp_code r = 0"
    using demo_cluster_rewrite by blast
  from demo_lib_write[OF this] obtain f where f: "rbd_Write demo_lib ?s (\<lambda>_. CHR ''x'') demo_rbd 0 4096 4096 = Some (Inr f)" "fl_rv f = CYPRE_OK" by blast
  obtain g where g: "rbd_Read demo_lib ?s (\<lambda>_. CHR ''y'') demo_rbd 0 4096 4096 = Some (Inr g)" "fl_rv g = CYPRE_OK"
    using demo_lib_fresh_read by blast
  have ready: "\<forall>x \<in> touched (rbd_sopts demo_rbd) 4096 4096. cluster_ready (\<lambda>_. demo_home) ?s x"
    using demo_after_state(2) extent_one
    by (auto simp: touched_def place_def cluster_ready_def demo_rbd_def RBDStreamHandleImpl_def)
  have e: "ce_write demo_lib = cluster_write (\<lambda>_. demo_env) demo_unit demo_sched" "ce_read demo_lib = cluster_read (\<lambda>_. demo_env) demo_unit (\<lambda>_. True)"
    by (simp_all add: demo_lib_def)
  note T = client_refines_flat_disk[OF demo_stream_ok demo_after_inv demo_fits e refl]
  show ?thesis using T[of "\<lambda>_. CHR ''x''" 0 f] T[of "\<lambda>_. CHR ''y''" 0 g] f g ready by blast
qed

text \<open>C2: Read after write, from client to device and back: when a synchronous write and a later
  synchronous read of the same range of a blob both return OK, the read finds what was
  written, also in a range over two extents that are on different servers and that had no
  location before the write. The rest of the memory of the client is unchanged.\<close>

theorem client_read_after_write:
  assumes "stream_ok e home addr_of esize rbd" "cluster_inv envs sched esize s" "request_fits (rbd_sopts rbd) off len"
    and "ce_write e = cluster_write envs unit sched" "ce_read e = cluster_read envs unit dev"
    and "rbd_Write e s mem rbd buf len off = Some (Inr f)" "fl_rv f = CYPRE_OK"
    and "rbd_Read e (fl_servers f) mem2 (fl_rbd f) buf2 len off = Some (Inr g)" "fl_rv g = CYPRE_OK"
  shows "fl_mem g = dev_write mem2 buf2 (dev_read mem buf len)"
proof -
  note W = cluster.client_write[OF assms(1,2,4,3,6,7)]
  have so: "rbd_sopts (fl_rbd f) = rbd_sopts rbd" "stream_ok e home addr_of esize (fl_rbd f)" using W(3) by simp_all
  have "map (flat (cluster_cell home) (rbd_sopts rbd) (fl_servers f)) [off..<off + len] = dev_read mem buf len"
    using W(4) by (intro nth_equalityI) (simp_all add: dev_read_def)
  moreover have "request_fits (rbd_sopts (fl_rbd f)) off len" using assms(3) so by simp
  ultimately show ?thesis using cluster.client_read(2)[OF so(2) W(1) assms(5) _ assms(8,9)] so(1) by simp
qed

theorem client_read_after_write_witness:
  "\<exists>f g. rbd_Write demo_lib demo_cluster (\<lambda>_. CHR ''x'') demo_rbd 0 4096 4096 = Some (Inr f) \<and>
     rbd_Read demo_lib (fl_servers f) (\<lambda>_. CHR ''y'') (fl_rbd f) 0 4096 4096 = Some (Inr g) \<and>
     fl_mem g = dev_write (\<lambda>_. CHR ''y'') 0 (dev_read (\<lambda>_. CHR ''x'') 0 4096)"
proof -
  obtain r where "cluster_write (\<lambda>_. demo_env) demo_unit demo_sched demo_cluster demo_home (demo_bytes 4096) =
     (demo_cluster(demo_home := demo_after), Cntl_Reply r)" "resp_code r = 0" using demo_cluster_write by blast
  from demo_lib_write[OF this] obtain f where f: "rbd_Write demo_lib demo_cluster (\<lambda>_. CHR ''x'') demo_rbd 0 4096 4096 = Some (Inr f)" "fl_rv f = CYPRE_OK"
    "fl_servers f = demo_cluster(demo_home := demo_after)" "rbd_handleMap (fl_rbd f) 1 = Some \<lparr> ys_extent_id = ''b.1'', ys_extent_idx = 1, ys_wrapper = kBrpc \<rparr>"
    "rbd_routers (fl_rbd f) ''b.1'' = Some (demo_router \<lparr> er_extent_id := ''b.1'' \<rparr>)" "rbd_conn_pool (fl_rbd f) 1 = Some demo_home"
    "rbd_sopts (fl_rbd f) = rbd_sopts demo_rbd" "\<not> rbd_isClosed (fl_rbd f)" by blast
  obtain g where g: "rbd_Read demo_lib (fl_servers f) (\<lambda>_. CHR ''y'') (fl_rbd f) 0 4096 4096 = Some (Inr g)" "fl_rv g = CYPRE_OK"
    using demo_lib_read[OF f(3-8)] by blast
  have "ce_write demo_lib = cluster_write (\<lambda>_. demo_env) demo_unit demo_sched" "ce_read demo_lib = cluster_read (\<lambda>_. demo_env) demo_unit (\<lambda>_. True)"
    by (simp_all add: demo_lib_def)
  from client_read_after_write[OF demo_stream_ok demo_cluster_inv demo_fits this f(1,2) g] show ?thesis using f(1) g(1) by blast
qed

end
