(* ===== verification/Client_Ring.thy ===== *)
theory Client_Ring
  imports Cypre_Base
begin

text \<open>
  The ring of the client library (\<open>src/clients/common/ring.{h,cpp}\<close>), the queue between the
  callers and the sender threads. Counters are 32-bit words that wrap around.

  Several threads use a ring at once. \<open>enq_step\<close> and \<open>deq_step\<close> are the accesses to shared
  memory of \<open>Enqueue\<close> and \<open>Dequeue\<close>, one at a time; a step may also be a failed weak
  compare-and-exchange. \<open>ring_step\<close> interleaves them in any order and records history: the
  objects in the order in which slots were claimed for them, and what was returned. Threads
  see each other's accesses in one order. A compare-and-exchange of a thread that has slept
  while \<open>2 ^ 32\<close> slots were claimed is not covered (the counter would have the same value
  again). \<open>None\<close> is an access outside the slots.
\<close>

unbundle bit_operations_syntax

section \<open>The ring\<close>

datatype RingType = RING_SP_SC | RING_MP_SC | RING_SP_MC | RING_MP_MC

record 'a ring =
  rn_type :: RingType
  rn_size :: "32 word"
  rn_mask :: "32 word"
  rn_capacity :: "32 word"
  prod_head :: "32 word"
  prod_tail :: "32 word"
  cons_head :: "32 word"
  cons_tail :: "32 word"
  rn_is_sp :: bool
  rn_is_sc :: bool
  rn_slots :: "'a option list"

definition PowerOf2 :: "32 word \<Rightarrow> bool" where
  "PowerOf2 sz \<longleftrightarrow> sz AND (sz - 1) = 0"

definition Ring :: "RingType \<Rightarrow> 32 word \<Rightarrow> 'a ring" where
  "Ring type sz = \<lparr> rn_type = type, rn_size = sz, rn_mask = 0, rn_capacity = 0, prod_head = 0, prod_tail = 0, cons_head = 0, cons_tail = 0,
     rn_is_sp = False, rn_is_sc = False, rn_slots = [] \<rparr>"

definition Ring_Init :: "'a ring \<Rightarrow> status \<times> 'a ring" where
  "Ring_Init r =
     (if \<not> PowerOf2 (rn_size r) then (Status CYPRE_ER_INVALID_ARGUMENT ''size must be power of 2'', r)
      else (Status_OK, r \<lparr> rn_mask := rn_size r - 1, rn_capacity := rn_size r - 1, prod_head := 0, prod_tail := 0,
              cons_head := 0, cons_tail := 0,
              rn_is_sp := rn_is_sp r \<or> rn_type r = RING_SP_SC \<or> rn_type r = RING_SP_MC,
              rn_is_sc := rn_is_sc r \<or> rn_type r = RING_SP_SC \<or> rn_type r = RING_MP_SC,
              rn_slots := take (unat (rn_size r)) (rn_slots r) @ replicate (unat (rn_size r) - length (rn_slots r)) None \<rparr>))"

definition Ring_Used :: "'a ring \<Rightarrow> 32 word" where
  "Ring_Used r = (let count = (prod_tail r - cons_tail r) AND rn_mask r in if count > rn_capacity r then rn_capacity r else count)"

definition Ring_Free :: "'a ring \<Rightarrow> 32 word" where
  "Ring_Free r = rn_capacity r - Ring_Used r"

definition RingFull :: "'a ring \<Rightarrow> bool" where
  "RingFull r \<longleftrightarrow> Ring_Free r = 0"

definition RingEmpty :: "'a ring \<Rightarrow> bool" where
  "RingEmpty r \<longleftrightarrow> Ring_Used r = 0"

definition slot_index :: "'a ring \<Rightarrow> 32 word \<Rightarrow> nat" where
  "slot_index r h = unat (h AND rn_mask r)"

text \<open>\<open>Enqueue\<close> and \<open>Dequeue\<close> of a thread that runs alone: the compare-and-exchange is retried until it
  succeeds. A wait loop that no other thread can end is \<open>None\<close>, like an access outside the slots.\<close>

definition Ring_Enqueue :: "'a ring \<Rightarrow> 'a \<Rightarrow> (status \<times> 'a ring) option" where
  "Ring_Enqueue r obj =
     (let h = prod_head r; next = h + 1 in
      if rn_capacity r + cons_tail r - h \<le> 0 then Some (Status CYPRE_C_RING_FULL ''ring has full'', r)
      else if \<not> slot_index r h < length (rn_slots r) then None
      else let r' = r \<lparr> prod_head := next, rn_slots := (rn_slots r)[slot_index r h := Some obj] \<rparr> in
      if \<not> rn_is_sp r \<and> prod_tail r' \<noteq> h then None
      else Some (Status_OK, r' \<lparr> prod_tail := next \<rparr>))"

definition Ring_Dequeue :: "'a ring \<Rightarrow> (status \<times> 'a option \<times> 'a ring) option" where
  "Ring_Dequeue r =
     (let h = cons_head r; next = h + 1 in
      if prod_tail r - h \<le> 0 then Some (Status CYPRE_C_RING_EMPTY ''ring empty'', None, r)
      else if \<not> slot_index r h < length (rn_slots r) then None
      else let obj = rn_slots r ! slot_index r h; r' = r \<lparr> cons_head := next \<rparr> in
      if \<not> rn_is_sc r \<and> cons_tail r' \<noteq> h then None
      else Some (Status_OK, obj, r' \<lparr> cons_tail := next \<rparr>))"

section \<open>The steps of the operations\<close>

datatype 'a prod_pc =
    P_Idle | P_Load 'a | P_Check 'a "32 word" | P_Claim 'a "32 word" | P_Store 'a "32 word" | P_Wait "32 word" | P_Publish "32 word"

datatype 'a cons_pc =
    C_Idle | C_Load | C_Check "32 word" | C_Claim "32 word" | C_Read "32 word" | C_Wait "32 word" "'a option" | C_Publish "32 word" "'a option"

text \<open>One access of \<open>Enqueue\<close>. The comparison with zero is one of unsigned numbers.\<close>

fun enq_step :: "bool \<Rightarrow> 'a ring \<Rightarrow> 'a prod_pc \<Rightarrow> ('a ring \<times> 'a prod_pc \<times> status option) option" where
  "enq_step fails r P_Idle = Some (r, P_Idle, None)"
| "enq_step fails r (P_Load obj) = Some (r, P_Check obj (prod_head r), None)"
| "enq_step fails r (P_Check obj h) =
     Some (if rn_capacity r + cons_tail r - h \<le> 0 then (r, P_Idle, Some (Status CYPRE_C_RING_FULL ''ring has full''))
           else (r, P_Claim obj h, None))"
| "enq_step fails r (P_Claim obj h) =
     Some (if rn_is_sp r then (r \<lparr> prod_head := h + 1 \<rparr>, P_Store obj h, None)
           else if prod_head r = h \<and> \<not> fails then (r \<lparr> prod_head := h + 1 \<rparr>, P_Store obj h, None)
           else (r, P_Load obj, None))"
| "enq_step fails r (P_Store obj h) =
     (if slot_index r h < length (rn_slots r)
      then Some (r \<lparr> rn_slots := (rn_slots r)[slot_index r h := Some obj] \<rparr>, P_Wait h, None) else None)"
| "enq_step fails r (P_Wait h) = Some (r, if rn_is_sp r \<or> prod_tail r = h then P_Publish h else P_Wait h, None)"
| "enq_step fails r (P_Publish h) = Some (r \<lparr> prod_tail := h + 1 \<rparr>, P_Idle, Some Status_OK)"

fun deq_step :: "bool \<Rightarrow> 'a ring \<Rightarrow> 'a cons_pc \<Rightarrow> ('a ring \<times> 'a cons_pc \<times> (status \<times> 'a option) option) option" where
  "deq_step fails r C_Idle = Some (r, C_Idle, None)"
| "deq_step fails r C_Load = Some (r, C_Check (cons_head r), None)"
| "deq_step fails r (C_Check h) =
     Some (if prod_tail r - h \<le> 0 then (r, C_Idle, Some (Status CYPRE_C_RING_EMPTY ''ring empty'', None))
           else (r, C_Claim h, None))"
| "deq_step fails r (C_Claim h) =
     Some (if rn_is_sc r then (r \<lparr> cons_head := h + 1 \<rparr>, C_Read h, None)
           else if cons_head r = h \<and> \<not> fails then (r \<lparr> cons_head := h + 1 \<rparr>, C_Read h, None)
           else (r, C_Load, None))"
| "deq_step fails r (C_Read h) =
     (if slot_index r h < length (rn_slots r) then Some (r, C_Wait h (rn_slots r ! slot_index r h), None) else None)"
| "deq_step fails r (C_Wait h obj) = Some (r, if rn_is_sc r \<or> cons_tail r = h then C_Publish h obj else C_Wait h obj, None)"
| "deq_step fails r (C_Publish h obj) = Some (r \<lparr> cons_tail := h + 1 \<rparr>, C_Idle, Some (Status_OK, obj))"

section \<open>Threads and history\<close>

text \<open>\<open>sy_log\<close> are the objects in the order of their claims, \<open>sy_got\<close> the objects that \<open>Dequeue\<close>
  returned. The other numbers count what the four counters of the ring have counted; a thread
  remembers the number at its last load.\<close>

record 'a ring_sys =
  sy_ring :: "'a ring"
  sy_prod :: "nat \<Rightarrow> 'a prod_pc"
  sy_cons :: "nat \<Rightarrow> 'a cons_pc"
  sy_log :: "'a list"
  sy_got :: "'a option list"
  sy_pub :: nat
  sy_taken :: nat
  sy_pidx :: "nat \<Rightarrow> nat"
  sy_cidx :: "nat \<Rightarrow> nat"

definition prod_history :: "nat \<Rightarrow> 'a prod_pc \<Rightarrow> 'a ring_sys \<Rightarrow> 'a ring_sys" where
  "prod_history p pc' s =
     (case (sy_prod s p, pc') of
        (P_Load obj, _) \<Rightarrow> s \<lparr> sy_pidx := (sy_pidx s)(p := length (sy_log s)) \<rparr>
      | (P_Claim obj h, P_Store _ _) \<Rightarrow> s \<lparr> sy_log := sy_log s @ [obj] \<rparr>
      | (P_Publish h, _) \<Rightarrow> s \<lparr> sy_pub := sy_pub s + 1 \<rparr>
      | _ \<Rightarrow> s)"

definition cons_history :: "nat \<Rightarrow> 'a cons_pc \<Rightarrow> 'a ring_sys \<Rightarrow> 'a ring_sys" where
  "cons_history c pc' s =
     (case (sy_cons s c, pc') of
        (C_Load, _) \<Rightarrow> s \<lparr> sy_cidx := (sy_cidx s)(c := sy_taken s) \<rparr>
      | (C_Claim h, C_Read _) \<Rightarrow> s \<lparr> sy_taken := sy_taken s + 1 \<rparr>
      | (C_Publish h obj, _) \<Rightarrow> s \<lparr> sy_got := sy_got s @ [obj] \<rparr>
      | _ \<Rightarrow> s)"

inductive ring_step :: "'a ring_sys \<Rightarrow> 'a ring_sys \<Rightarrow> bool" where
  enqueue: "\<lbrakk>sy_prod s p = P_Idle; rn_is_sp (sy_ring s) \<longrightarrow> p = 0\<rbrakk> \<Longrightarrow>
    ring_step s (s \<lparr> sy_prod := (sy_prod s)(p := P_Load obj) \<rparr>)"
| produce: "\<lbrakk>sy_prod s p \<noteq> P_Idle; enq_step fails (sy_ring s) (sy_prod s p) = Some (r', pc', res); length (sy_log s) - sy_pidx s p < 2 ^ 32\<rbrakk> \<Longrightarrow>
    ring_step s ((prod_history p pc' s) \<lparr> sy_ring := r', sy_prod := (sy_prod s)(p := pc') \<rparr>)"
| dequeue: "\<lbrakk>sy_cons s c = C_Idle; rn_is_sc (sy_ring s) \<longrightarrow> c = 0\<rbrakk> \<Longrightarrow>
    ring_step s (s \<lparr> sy_cons := (sy_cons s)(c := C_Load) \<rparr>)"
| consume: "\<lbrakk>sy_cons s c \<noteq> C_Idle; deq_step fails (sy_ring s) (sy_cons s c) = Some (r', pc', res); sy_taken s - sy_cidx s c < 2 ^ 32\<rbrakk> \<Longrightarrow>
    ring_step s ((cons_history c pc' s) \<lparr> sy_ring := r', sy_cons := (sy_cons s)(c := pc') \<rparr>)"

definition ring_start :: "RingType \<Rightarrow> 32 word \<Rightarrow> 'a ring_sys" where
  "ring_start type sz = \<lparr> sy_ring = snd (Ring_Init (Ring type sz)), sy_prod = (\<lambda>_. P_Idle), sy_cons = (\<lambda>_. C_Idle), sy_log = [], sy_got = [],
     sy_pub = 0, sy_taken = 0, sy_pidx = (\<lambda>_. 0), sy_cidx = (\<lambda>_. 0) \<rparr>"


section \<open>Sizes, indices and counters\<close>

definition ring_shape :: "nat \<Rightarrow> 'a ring \<Rightarrow> bool" where
  "ring_shape k r \<longleftrightarrow> k < 32 \<and> rn_size r = 2 ^ k \<and> rn_mask r = mask k \<and> rn_capacity r = mask k \<and> length (rn_slots r) = 2 ^ k"

lemma nat_power_of_2:
  "0 < (n :: nat) \<Longrightarrow> n AND (n - 1) = 0 \<Longrightarrow> \<exists>k. n = 2 ^ k"
proof (induction n rule: less_induct)
  case (less n)
  show ?case
  proof (cases "even n")
    case True
    then obtain m where m: "n = 2 * m"
      by blast
    then have pos: "0 < m"
      using less.prems by simp
    have "n AND (n - 1) = 2 * (m AND (m - 1))"
      using m pos by (subst and_rec) (simp add: div_mult2_eq, cases m, auto)
    then have "m AND (m - 1) = 0"
      using less.prems by simp
    then obtain k where "m = 2 ^ k"
      using less.IH [of m] m pos by auto
    then have "n = 2 ^ Suc k"
      using m by simp
    then show ?thesis
      by blast
  next
    case False
    then obtain m where m: "n = 2 * m + 1"
      by (elim oddE)
    have "n AND (n - 1) = 2 * m"
      using m by (subst and_rec) simp
    then have "n = 2 ^ 0"
      using less.prems m by simp
    then show ?thesis
      by blast
  qed
qed

lemma PowerOf2_iff:
  "PowerOf2 sz \<longleftrightarrow> sz = 0 \<or> (\<exists>k<32. sz = 2 ^ k)"
proof
  assume p: "PowerOf2 sz"
  show "sz = 0 \<or> (\<exists>k<32. sz = 2 ^ k)"
  proof (cases "sz = 0")
    case False
    then have pos: "0 < unat sz"
      by (simp add: unat_gt_0)
    have "unat (sz - 1) = unat sz - 1"
      using False by (simp add: unat_minus_one)
    then have "unat sz AND (unat sz - 1) = 0"
      using p unfolding PowerOf2_def by (metis unat_0 unsigned_and_eq)
    then obtain k where k: "unat sz = 2 ^ k"
      using nat_power_of_2 [OF pos] by blast
    have "unat sz < 2 ^ LENGTH(32)"
      by (rule unsigned_less)
    then have "(2::nat) ^ k < 2 ^ 32"
      unfolding k by simp
    then have "k < 32"
      by (rule power_less_imp_less_exp [rotated]) simp
    moreover have "sz = 2 ^ k"
      using arg_cong [OF k, of "of_nat :: nat \<Rightarrow> 32 word"] by simp
    ultimately show ?thesis
      by blast
  qed simp
next
  assume "sz = 0 \<or> (\<exists>k<32. sz = 2 ^ k)"
  then show "PowerOf2 sz"
    unfolding PowerOf2_def mask_eq_exp_minus_1 [symmetric]
    by (auto simp flip: mask_eq_exp_minus_1 simp: and_exp_eq_0_iff_not_bit bit_mask_iff and.commute)
qed

lemma slot_index_of_nat:
  assumes "ring_shape k r"
  shows "slot_index r (of_nat i) = i mod 2 ^ k"
  using assms unfolding ring_shape_def slot_index_def
  by (simp add: take_bit_eq_mask [symmetric] unsigned_take_bit_eq unsigned_of_nat take_bit_eq_mod [symmetric] min_def)

lemma slot_index_in_range:
  assumes "ring_shape k r"
  shows "slot_index r h < length (rn_slots r)"
  using slot_index_of_nat [OF assms, of "unat h"] assms by (simp add: ring_shape_def)

lemma mod_window:
  assumes "i mod n = j mod (n::nat)" "c \<le> i" "i < c + n" "c \<le> j" "j < c + n"
  shows "i = j"
proof -
  have *: "a = b" if "a mod n = b mod n" "a \<le> b" "b < a + n" for a b :: nat
  proof -
    have "n dvd b - a"
      using that mod_eq_dvd_iff_nat [of a b n] by simp
    then show ?thesis
      using that by (metis add_diff_cancel_left' dvd_imp_le le_add_diff_inverse less_diff_conv2 linorder_not_less not_gr_zero diff_is_0_eq' add.commute)
  qed
  show ?thesis
    using * [of i j] * [of j i] assms by (cases "i \<le> j") auto
qed

lemma of_nat_eq_close:
  assumes "of_nat a = (of_nat b :: 32 word)" "a \<le> b" "b - a < 2 ^ 32"
  shows "a = b"
proof -
  have "a mod 2 ^ 32 = b mod 2 ^ 32"
    using assms(1) by (simp add: word_of_nat_eq_iff take_bit_eq_mod)
  then show ?thesis
    using mod_window [of a "2 ^ 32" b a] assms(2,3) by simp
qed

lemma mask_of_nat:
  "k < 32 \<Longrightarrow> (mask k :: 32 word) = of_nat (2 ^ k - 1)"
  by (simp add: mask_eq_exp_minus_1)


section \<open>One thread at a time: a bounded queue\<close>

datatype 'a ring_op = Op_Enqueue 'a | Op_Dequeue

datatype 'a ring_out = Out_Enqueue status | Out_Dequeue status "'a option"

fun ring_run :: "'a ring_op list \<Rightarrow> 'a ring \<Rightarrow> 'a ring_out list option" where
  "ring_run [] r = Some []"
| "ring_run (Op_Enqueue a # ops) r =
     (case Ring_Enqueue r a of None \<Rightarrow> None | Some (st, r') \<Rightarrow> map_option (Cons (Out_Enqueue st)) (ring_run ops r'))"
| "ring_run (Op_Dequeue # ops) r =
     (case Ring_Dequeue r of None \<Rightarrow> None | Some (st, a, r') \<Rightarrow> map_option (Cons (Out_Dequeue st a)) (ring_run ops r'))"

text \<open>The specification: a list of at most \<open>cap\<close> objects.\<close>

fun queue_run :: "nat \<Rightarrow> 'a ring_op list \<Rightarrow> 'a list \<Rightarrow> 'a ring_out list" where
  "queue_run cap [] xs = []"
| "queue_run cap (Op_Enqueue a # ops) xs =
     (if length xs < cap then Out_Enqueue Status_OK # queue_run cap ops (xs @ [a])
      else Out_Enqueue (Status CYPRE_C_RING_FULL ''ring has full'') # queue_run cap ops xs)"
| "queue_run cap (Op_Dequeue # ops) [] = Out_Dequeue (Status CYPRE_C_RING_EMPTY ''ring empty'') None # queue_run cap ops []"
| "queue_run cap (Op_Dequeue # ops) (x # xs) = Out_Dequeue Status_OK (Some x) # queue_run cap ops xs"

locale bounded_queue =
  fixes rep :: "'a ring \<Rightarrow> 'a list \<Rightarrow> bool" and cap :: nat
  assumes enq_full: "rep r xs \<Longrightarrow> \<not> length xs < cap \<Longrightarrow> Ring_Enqueue r a = Some (Status CYPRE_C_RING_FULL ''ring has full'', r)"
    and enq_room: "rep r xs \<Longrightarrow> length xs < cap \<Longrightarrow> \<exists>r'. Ring_Enqueue r a = Some (Status_OK, r') \<and> rep r' (xs @ [a])"
    and deq_empty: "rep r [] \<Longrightarrow> Ring_Dequeue r = Some (Status CYPRE_C_RING_EMPTY ''ring empty'', None, r)"
    and deq_first: "rep r (x # xs) \<Longrightarrow> \<exists>r'. Ring_Dequeue r = Some (Status_OK, Some x, r') \<and> rep r' xs"
begin

lemma run_refines:
  "rep r xs \<Longrightarrow> ring_run ops r = Some (queue_run cap ops xs)"
proof (induction ops arbitrary: r xs)
  case (Cons op ops)
  show ?case
  proof (cases op)
    case (Op_Enqueue a)
    then show ?thesis
      using Cons enq_full [of r xs a] enq_room [of r xs a] by (cases "length xs < cap") auto
  next
    case Op_Dequeue
    then show ?thesis
      using Cons deq_empty [of r] deq_first [of r] by (cases xs) fastforce+
  qed
qed simp

end

definition ring_rep :: "nat \<Rightarrow> 'a ring \<Rightarrow> 'a list \<Rightarrow> bool" where
  "ring_rep k r xs \<longleftrightarrow> ring_shape k r \<and> length xs < 2 ^ k \<and> (\<exists>c. cons_head r = of_nat c \<and> cons_tail r = of_nat c \<and>
     prod_head r = of_nat (c + length xs) \<and> prod_tail r = of_nat (c + length xs) \<and>
     (\<forall>i<length xs. rn_slots r ! ((c + i) mod 2 ^ k) = Some (xs ! i)))"

lemma counter_diff:
  assumes "a \<le> b" "b - a < 2 ^ 32"
  shows "of_nat b - (of_nat a :: 32 word) \<le> 0 \<longleftrightarrow> b = a"
  using of_nat_eq_close [of a b] assms by auto

lemma power_less_32:
  "k < 32 \<Longrightarrow> (2::nat) ^ k < 2 ^ 32"
  by (rule power_strict_increasing) simp_all

lemma unat_power_2:
  assumes "k < 32"
  shows "unat (2 ^ k :: 32 word) = 2 ^ k"
proof -
  have "unat (of_nat (2 ^ k) :: 32 word) = 2 ^ k"
    using power_less_32 [OF assms] by (simp only: unsigned_of_nat of_nat_id) (rule take_bit_nat_eq_self, simp)
  then show ?thesis
    by simp
qed

lemma room_iff:
  assumes "ring_shape k r" "cons_tail r = of_nat c" "n \<le> c + (2 ^ k - 1)" "c \<le> n"
  shows "rn_capacity r + cons_tail r - of_nat n \<le> 0 \<longleftrightarrow> n = c + (2 ^ k - 1)"
proof -
  have k: "k < 32" and cap: "rn_capacity r = of_nat (2 ^ k - 1)"
    using assms(1) mask_of_nat [of k] by (simp_all add: ring_shape_def)
  have "rn_capacity r + cons_tail r = of_nat (c + (2 ^ k - 1))"
    unfolding cap assms(2) of_nat_add by (rule add.commute)
  moreover have "c + (2 ^ k - 1) - n < 2 ^ 32"
    using assms(4) power_less_32 [OF k] by linarith
  ultimately show ?thesis
    using counter_diff [OF assms(3)] by auto
qed

lemma rep_enq_room:
  assumes rep: "ring_rep k r xs" and room: "length xs < 2 ^ k - 1"
  shows "\<exists>r'. Ring_Enqueue r a = Some (Status_OK, r') \<and> ring_rep k r' (xs @ [a])"
proof -
  from rep obtain c where shape: "ring_shape k r" and ch: "cons_head r = of_nat c" and ct: "cons_tail r = of_nat c"
    and ph: "prod_head r = of_nat (c + length xs)" and pt: "prod_tail r = of_nat (c + length xs)"
    and slots: "\<And>i. i < length xs \<Longrightarrow> rn_slots r ! ((c + i) mod 2 ^ k) = Some (xs ! i)"
    unfolding ring_rep_def by blast
  let ?j = "(c + length xs) mod 2 ^ k"
  let ?r = "r \<lparr> prod_head := prod_head r + 1, rn_slots := (rn_slots r)[?j := Some a], prod_tail := prod_head r + 1 \<rparr>"
  have len: "length (rn_slots r) = 2 ^ k"
    using shape by (simp add: ring_shape_def)
  have idx: "slot_index r (prod_head r) = ?j"
    unfolding ph by (rule slot_index_of_nat [OF shape])
  have "\<not> rn_capacity r + cons_tail r - prod_head r \<le> 0"
    unfolding ph room_iff [OF shape ct, of "c + length xs", OF add_left_mono [OF less_imp_le [OF room]] le_add1] using room by simp
  then have "Ring_Enqueue r a = Some (Status_OK, ?r)"
    using trans [OF pt ph [symmetric]] slot_index_in_range [OF shape, of "prod_head r"] by (simp add: Ring_Enqueue_def Let_def idx)
  moreover have other: "(c + i) mod 2 ^ k \<noteq> ?j" if "i < length xs" for i
    using mod_window [of "c + i" "2 ^ k" "c + length xs" c] that rep by (auto simp: ring_rep_def)
  have "rn_slots ?r ! ((c + i) mod 2 ^ k) = Some ((xs @ [a]) ! i)" if "i < length (xs @ [a])" for i
    using that slots [of i] other [of i] len by (cases "i = length xs") (auto simp: nth_append)
  then have "ring_rep k ?r (xs @ [a])"
    unfolding ring_rep_def using shape ch ct ph room
    by (intro conjI exI [of _ c]) (auto simp: ring_shape_def ac_simps)
  ultimately show ?thesis
    by blast
qed

lemma rep_deq_first:
  assumes rep: "ring_rep k r (x # xs)"
  shows "\<exists>r'. Ring_Dequeue r = Some (Status_OK, Some x, r') \<and> ring_rep k r' xs"
proof -
  from rep obtain c where shape: "ring_shape k r" and ch: "cons_head r = of_nat c" and ct: "cons_tail r = of_nat c"
    and ph: "prod_head r = of_nat (c + length (x # xs))" and pt: "prod_tail r = of_nat (c + length (x # xs))"
    and slots: "\<And>i. i < length (x # xs) \<Longrightarrow> rn_slots r ! ((c + i) mod 2 ^ k) = Some ((x # xs) ! i)"
    and fits: "length (x # xs) < 2 ^ k"
    unfolding ring_rep_def by blast
  let ?r = "r \<lparr> cons_head := cons_head r + 1, cons_tail := cons_head r + 1 \<rparr>"
  have k: "k < 32"
    using shape by (simp add: ring_shape_def)
  have "\<not> prod_tail r - cons_head r \<le> 0"
    unfolding ch pt using counter_diff [of c "c + length (x # xs)"] fits power_less_32 [OF k] by simp
  moreover have "rn_slots r ! slot_index r (cons_head r) = Some x"
    unfolding ch slot_index_of_nat [OF shape] using slots [of 0] by simp
  ultimately have "Ring_Dequeue r = Some (Status_OK, Some x, ?r)"
    using trans [OF ct ch [symmetric]] slot_index_in_range [OF shape, of "cons_head r"] by (simp add: Ring_Dequeue_def Let_def)
  moreover have "ring_rep k ?r xs"
    unfolding ring_rep_def using shape ch ph pt fits slots [of "Suc i" for i]
    by (intro conjI exI [of _ "Suc c"]) (auto simp: ring_shape_def ac_simps)
  ultimately show ?thesis
    by blast
qed

interpretation rings: bounded_queue "ring_rep k" "2 ^ k - 1" for k
proof
  fix r :: "'a ring" and xs and a
  assume rep: "ring_rep k r xs" and full: "\<not> length xs < 2 ^ k - 1"
  then obtain c where c: "ring_shape k r" "cons_tail r = of_nat c" "prod_head r = of_nat (c + length xs)" "length xs < 2 ^ k"
    unfolding ring_rep_def by blast
  have len: "length xs = 2 ^ k - 1"
    using full c(4) by linarith
  have "rn_capacity r + cons_tail r - prod_head r \<le> 0"
    unfolding c(3) len room_iff [OF c(1,2) order_refl le_add1] by (rule refl)
  then show "Ring_Enqueue r a = Some (Status CYPRE_C_RING_FULL ''ring has full'', r)"
    by (simp add: Ring_Enqueue_def Let_def)
next
  fix r :: "'a ring"
  assume "ring_rep k r []"
  then show "Ring_Dequeue r = Some (Status CYPRE_C_RING_EMPTY ''ring empty'', None, r)"
    by (auto simp: ring_rep_def Ring_Dequeue_def Let_def)
qed (rule rep_enq_room rep_deq_first, assumption+)+

lemma init_shape:
  assumes "k < 32"
  shows "Ring_Init (Ring type (2 ^ k)) = (Status_OK, \<lparr> rn_type = type, rn_size = 2 ^ k, rn_mask = mask k, rn_capacity = mask k, prod_head = 0, prod_tail = 0,
     cons_head = 0, cons_tail = 0, rn_is_sp = (type = RING_SP_SC \<or> type = RING_SP_MC), rn_is_sc = (type = RING_SP_SC \<or> type = RING_MP_SC),
     rn_slots = replicate (2 ^ k) None \<rparr>)"
proof -
  have "PowerOf2 (2 ^ k)"
    using assms PowerOf2_iff by blast
  moreover have "unat (2 ^ k :: 32 word) = 2 ^ k"
    by (rule unat_power_2 [OF assms])
  ultimately show ?thesis
    by (simp add: Ring_Init_def Ring_def mask_eq_exp_minus_1)
qed

text \<open>C33: A ring of size \<open>2 ^ k\<close> used by one thread at a time behaves for ever like a list of at most \<open>2 ^ k - 1\<close> objects:
  every sequence of enqueues and dequeues gives the results of the first-in-first-out queue, full and empty
  answers included, however often the 32-bit counters wrap around.\<close>

theorem ring_refines_queue:
  assumes "k < 32"
  shows "ring_run ops (snd (Ring_Init (Ring type (2 ^ k)))) = Some (queue_run (2 ^ k - 1) ops [])"
proof (rule rings.run_refines)
  show "ring_rep k (snd (Ring_Init (Ring type (2 ^ k)))) []"
    unfolding ring_rep_def init_shape [OF assms] using assms by (intro conjI exI [of _ 0]) (simp_all add: ring_shape_def)
qed

theorem ring_refines_queue_witness:
  "ring_run [Op_Enqueue (1::nat), Op_Enqueue 2, Op_Dequeue, Op_Dequeue] (snd (Ring_Init (Ring RING_MP_MC (2 ^ 1))))
     = Some [Out_Enqueue Status_OK, Out_Enqueue (Status CYPRE_C_RING_FULL ''ring has full''), Out_Dequeue Status_OK (Some 1),
             Out_Dequeue (Status CYPRE_C_RING_EMPTY ''ring empty'') None]"
  using ring_refines_queue [of 1 "[Op_Enqueue (1::nat), Op_Enqueue 2, Op_Dequeue, Op_Dequeue]" RING_MP_MC] by simp


section \<open>Any number of threads\<close>

fun prod_holds :: "'a prod_pc \<Rightarrow> bool" where
  "prod_holds (P_Store obj h) = True"
| "prod_holds (P_Wait h) = True"
| "prod_holds (P_Publish h) = True"
| "prod_holds _ = False"

fun cons_holds :: "'a cons_pc \<Rightarrow> bool" where
  "cons_holds (C_Read h) = True"
| "cons_holds (C_Wait h obj) = True"
| "cons_holds (C_Publish h obj) = True"
| "cons_holds _ = False"

text \<open>What a thread at each point knows about its number \<open>i\<close>.\<close>

fun prod_knows :: "nat \<Rightarrow> 'a ring_sys \<Rightarrow> nat \<Rightarrow> 'a prod_pc \<Rightarrow> bool" where
  "prod_knows cap s i (P_Check obj h) \<longleftrightarrow> h = of_nat i \<and> i \<le> length (sy_log s)"
| "prod_knows cap s i (P_Claim obj h) \<longleftrightarrow>
     h = of_nat i \<and> i \<le> length (sy_log s) \<and> (i = length (sy_log s) \<longrightarrow> i < length (sy_got s) + cap)"
| "prod_knows cap s i (P_Store obj h) \<longleftrightarrow> h = of_nat i \<and> sy_pub s \<le> i \<and> i < length (sy_log s) \<and> sy_log s ! i = obj"
| "prod_knows cap s i (P_Wait h) \<longleftrightarrow> h = of_nat i \<and> sy_pub s \<le> i \<and> i < length (sy_log s)"
| "prod_knows cap s i (P_Publish h) \<longleftrightarrow> h = of_nat i \<and> sy_pub s = i \<and> i < length (sy_log s)"
| "prod_knows cap s i _ \<longleftrightarrow> True"

fun cons_knows :: "'a ring_sys \<Rightarrow> nat \<Rightarrow> 'a cons_pc \<Rightarrow> bool" where
  "cons_knows s i (C_Check h) \<longleftrightarrow> h = of_nat i \<and> i \<le> sy_taken s"
| "cons_knows s i (C_Claim h) \<longleftrightarrow> h = of_nat i \<and> i \<le> sy_taken s \<and> (i = sy_taken s \<longrightarrow> i < sy_pub s)"
| "cons_knows s i (C_Read h) \<longleftrightarrow> h = of_nat i \<and> length (sy_got s) \<le> i \<and> i < sy_taken s"
| "cons_knows s i (C_Wait h obj) \<longleftrightarrow>
     h = of_nat i \<and> length (sy_got s) \<le> i \<and> i < sy_taken s \<and> obj = Some (sy_log s ! i)"
| "cons_knows s i (C_Publish h obj) \<longleftrightarrow>
     h = of_nat i \<and> length (sy_got s) = i \<and> i < sy_taken s \<and> obj = Some (sy_log s ! i)"
| "cons_knows s i _ \<longleftrightarrow> True"

definition counts_ok :: "nat \<Rightarrow> 'a ring_sys \<Rightarrow> bool" where
  "counts_ok k s \<longleftrightarrow> ring_shape k (sy_ring s) \<and>
     prod_head (sy_ring s) = of_nat (length (sy_log s)) \<and> prod_tail (sy_ring s) = of_nat (sy_pub s) \<and>
     cons_head (sy_ring s) = of_nat (sy_taken s) \<and> cons_tail (sy_ring s) = of_nat (length (sy_got s)) \<and>
     length (sy_got s) \<le> sy_taken s \<and> sy_taken s \<le> sy_pub s \<and> sy_pub s \<le> length (sy_log s) \<and>
     length (sy_log s) \<le> length (sy_got s) + (2 ^ k - 1) \<and>
     sy_got s = map Some (take (length (sy_got s)) (sy_log s))"

definition prods_ok :: "nat \<Rightarrow> 'a ring_sys \<Rightarrow> bool" where
  "prods_ok k s \<longleftrightarrow> (\<forall>p. prod_knows (2 ^ k - 1) s (sy_pidx s p) (sy_prod s p)) \<and>
     (\<forall>p q. prod_holds (sy_prod s p) \<longrightarrow> prod_holds (sy_prod s q) \<longrightarrow> sy_pidx s p = sy_pidx s q \<longrightarrow> p = q) \<and>
     (rn_is_sp (sy_ring s) \<longrightarrow> (\<forall>p. p \<noteq> 0 \<longrightarrow> sy_prod s p = P_Idle) \<and>
        length (sy_log s) = sy_pub s + (if prod_holds (sy_prod s 0) then 1 else 0) \<and>
        (\<forall>obj h. sy_prod s 0 = P_Check obj h \<or> sy_prod s 0 = P_Claim obj h \<longrightarrow> sy_pidx s 0 = length (sy_log s)))"

definition conss_ok :: "'a ring_sys \<Rightarrow> bool" where
  "conss_ok s \<longleftrightarrow> (\<forall>c. cons_knows s (sy_cidx s c) (sy_cons s c)) \<and>
     (\<forall>c d. cons_holds (sy_cons s c) \<longrightarrow> cons_holds (sy_cons s d) \<longrightarrow> sy_cidx s c = sy_cidx s d \<longrightarrow> c = d) \<and>
     (rn_is_sc (sy_ring s) \<longrightarrow> (\<forall>c. c \<noteq> 0 \<longrightarrow> sy_cons s c = C_Idle) \<and>
        sy_taken s = length (sy_got s) + (if cons_holds (sy_cons s 0) then 1 else 0) \<and>
        (\<forall>h. sy_cons s 0 = C_Check h \<or> sy_cons s 0 = C_Claim h \<longrightarrow> sy_cidx s 0 = sy_taken s))"

definition slots_ok :: "nat \<Rightarrow> 'a ring_sys \<Rightarrow> bool" where
  "slots_ok k s \<longleftrightarrow> (\<forall>i. length (sy_got s) \<le> i \<longrightarrow> i < length (sy_log s) \<longrightarrow>
     rn_slots (sy_ring s) ! (i mod 2 ^ k) = Some (sy_log s ! i) \<or>
     (\<exists>p obj h. sy_prod s p = P_Store obj h \<and> sy_pidx s p = i))"

definition ring_inv :: "nat \<Rightarrow> 'a ring_sys \<Rightarrow> bool" where
  "ring_inv k s \<longleftrightarrow> counts_ok k s \<and> prods_ok k s \<and> conss_ok s \<and> slots_ok k s"

lemma knows_frame [simp]:
  "prod_knows cap (s \<lparr> sy_prod := a \<rparr>) = prod_knows cap s" "prod_knows cap (s \<lparr> sy_ring := r \<rparr>) = prod_knows cap s"
  "prod_knows cap (s \<lparr> sy_cons := b \<rparr>) = prod_knows cap s" "prod_knows cap (s \<lparr> sy_pidx := f \<rparr>) = prod_knows cap s"
  "prod_knows cap (s \<lparr> sy_cidx := f \<rparr>) = prod_knows cap s" "prod_knows cap (s \<lparr> sy_taken := n \<rparr>) = prod_knows cap s"
  "cons_knows (s \<lparr> sy_prod := a \<rparr>) = cons_knows s" "cons_knows (s \<lparr> sy_ring := r \<rparr>) = cons_knows s"
  "cons_knows (s \<lparr> sy_cons := b \<rparr>) = cons_knows s" "cons_knows (s \<lparr> sy_pidx := f \<rparr>) = cons_knows s"
  "cons_knows (s \<lparr> sy_cidx := f \<rparr>) = cons_knows s"
  by (intro ext, case_tac xa; simp)+

lemma start_inv:
  assumes "k < 32"
  shows "ring_inv k (ring_start type (2 ^ k))"
  using assms unfolding ring_inv_def slots_ok_def ring_start_def init_shape [OF assms]
  by (simp add: counts_ok_def prods_ok_def conss_ok_def ring_shape_def)


text \<open>Steps of a producer that claim, fill and publish nothing.\<close>

lemma prod_local:
  assumes inv: "ring_inv k s" and sp: "rn_is_sp (sy_ring s) \<longrightarrow> p = 0"
    and knows: "prod_knows (2 ^ k - 1) s i pc'" and holds: "prod_holds pc' = prod_holds (sy_prod s p)"
    and same: "prod_holds pc' \<longrightarrow> i = sy_pidx s p" and store: "\<nexists>obj h. sy_prod s p = P_Store obj h"
    and fresh: "\<And>obj h. rn_is_sp (sy_ring s) \<Longrightarrow> pc' = P_Check obj h \<or> pc' = P_Claim obj h \<Longrightarrow> i = length (sy_log s)"
  shows "ring_inv k (s \<lparr> sy_pidx := (sy_pidx s)(p := i), sy_prod := (sy_prod s)(p := pc') \<rparr>)" (is "ring_inv k ?s")
proof -
  have P: "prods_ok k s" and S: "slots_ok k s"
    using inv by (simp_all add: ring_inv_def)
  have "prods_ok k ?s"
    unfolding prods_ok_def
  proof (intro conjI allI impI)
    show "prod_knows (2 ^ k - 1) ?s (sy_pidx ?s q) (sy_prod ?s q)" for q
      using P knows by (simp add: prods_ok_def)
    show "q = q'" if "prod_holds (sy_prod ?s q)" "prod_holds (sy_prod ?s q')" "sy_pidx ?s q = sy_pidx ?s q'" for q q'
      using P that holds same unfolding prods_ok_def by (auto split: if_splits)
    show "sy_prod ?s q = P_Idle" if "rn_is_sp (sy_ring ?s)" "q \<noteq> 0" for q
      using P that sp by (simp add: prods_ok_def)
    show "length (sy_log ?s) = sy_pub ?s + (if prod_holds (sy_prod ?s 0) then 1 else 0)" if "rn_is_sp (sy_ring ?s)"
      using P that holds sp by (simp add: prods_ok_def)
    show "sy_pidx ?s 0 = length (sy_log ?s)" if "rn_is_sp (sy_ring ?s)" "sy_prod ?s 0 = P_Check obj h \<or> sy_prod ?s 0 = P_Claim obj h" for obj h
      using that sp fresh [of obj h] by simp
  qed
  moreover have "slots_ok k ?s"
    unfolding slots_ok_def
  proof (intro allI impI)
    fix j assume "length (sy_got ?s) \<le> j" "j < length (sy_log ?s)"
    then consider "rn_slots (sy_ring s) ! (j mod 2 ^ k) = Some (sy_log s ! j)"
      | q obj h where "sy_prod s q = P_Store obj h" "sy_pidx s q = j"
      using S by (auto simp: slots_ok_def)
    then show "rn_slots (sy_ring ?s) ! (j mod 2 ^ k) = Some (sy_log ?s ! j) \<or> (\<exists>q obj h. sy_prod ?s q = P_Store obj h \<and> sy_pidx ?s q = j)"
    proof cases
      case 2
      then have "q \<noteq> p"
        using store by auto
      then have "sy_prod ?s q = P_Store obj h \<and> sy_pidx ?s q = j"
        using 2 by simp
      then show ?thesis
        by blast
    qed simp
  qed
  ultimately show ?thesis
    using inv by (simp add: ring_inv_def counts_ok_def conss_ok_def)
qed

lemma cons_local:
  assumes inv: "ring_inv k s" and sc: "rn_is_sc (sy_ring s) \<longrightarrow> c = 0"
    and knows: "cons_knows s i pc'" and holds: "cons_holds pc' = cons_holds (sy_cons s c)"
    and same: "cons_holds pc' \<longrightarrow> i = sy_cidx s c"
    and fresh: "\<And>h. rn_is_sc (sy_ring s) \<Longrightarrow> pc' = C_Check h \<or> pc' = C_Claim h \<Longrightarrow> i = sy_taken s"
  shows "ring_inv k (s \<lparr> sy_cidx := (sy_cidx s)(c := i), sy_cons := (sy_cons s)(c := pc') \<rparr>)" (is "ring_inv k ?s")
proof -
  have C: "conss_ok s"
    using inv by (simp add: ring_inv_def)
  have "conss_ok ?s"
    unfolding conss_ok_def
  proof (intro conjI allI impI)
    show "cons_knows ?s (sy_cidx ?s d) (sy_cons ?s d)" for d
      using C knows by (simp add: conss_ok_def)
    show "d = d'" if "cons_holds (sy_cons ?s d)" "cons_holds (sy_cons ?s d')" "sy_cidx ?s d = sy_cidx ?s d'" for d d'
      using C that holds same unfolding conss_ok_def by (auto split: if_splits)
    show "sy_cons ?s d = C_Idle" if "rn_is_sc (sy_ring ?s)" "d \<noteq> 0" for d
      using C that sc by (simp add: conss_ok_def)
    show "sy_taken ?s = length (sy_got ?s) + (if cons_holds (sy_cons ?s 0) then 1 else 0)" if "rn_is_sc (sy_ring ?s)"
      using C that holds sc by (simp add: conss_ok_def)
    show "sy_cidx ?s 0 = sy_taken ?s" if "rn_is_sc (sy_ring ?s)" "sy_cons ?s 0 = C_Check h \<or> sy_cons ?s 0 = C_Claim h" for h
      using that sc fresh [of h] by simp
  qed
  then show ?thesis
    using inv by (simp add: ring_inv_def counts_ok_def prods_ok_def slots_ok_def)
qed


lemma prod_store:
  assumes inv: "ring_inv k s" and at: "sy_prod s p = P_Store obj h"
  shows "ring_inv k (s \<lparr> sy_ring := (sy_ring s) \<lparr> rn_slots := (rn_slots (sy_ring s))[slot_index (sy_ring s) h := Some obj] \<rparr>,
     sy_prod := (sy_prod s)(p := P_Wait h) \<rparr>)" (is "ring_inv k ?s")
proof -
  have P: "prods_ok k s" and S: "slots_ok k s" and N: "counts_ok k s"
    using inv by (simp_all add: ring_inv_def)
  let ?i = "sy_pidx s p"
  have knows: "prod_knows (2 ^ k - 1) s ?i (P_Store obj h)"
    using P at unfolding prods_ok_def by metis
  have shape: "ring_shape k (sy_ring s)" and len: "length (rn_slots (sy_ring s)) = 2 ^ k"
    using N by (simp_all add: counts_ok_def ring_shape_def)
  have idx: "slot_index (sy_ring s) h = ?i mod 2 ^ k"
    using slot_index_of_nat [OF shape] knows by simp
  have "prods_ok k ?s"
    unfolding prods_ok_def
  proof (intro conjI allI impI)
    show "prod_knows (2 ^ k - 1) ?s (sy_pidx ?s q) (sy_prod ?s q)" for q
      using P knows by (simp add: prods_ok_def)
    show "q = q'" if "prod_holds (sy_prod ?s q)" "prod_holds (sy_prod ?s q')" "sy_pidx ?s q = sy_pidx ?s q'" for q q'
    proof -
      have "prod_holds (sy_prod s q)" "prod_holds (sy_prod s q')"
        using that(1,2) at by (auto split: if_splits)
      then show ?thesis
        using P that(3) by (simp add: prods_ok_def)
    qed
    show "sy_prod ?s q = P_Idle" if "rn_is_sp (sy_ring ?s)" "q \<noteq> 0" for q
      using P that at by (auto simp: prods_ok_def)
    show "length (sy_log ?s) = sy_pub ?s + (if prod_holds (sy_prod ?s 0) then 1 else 0)" if "rn_is_sp (sy_ring ?s)"
      using P that at by (auto simp: prods_ok_def)
    show "sy_pidx ?s 0 = length (sy_log ?s)" if "rn_is_sp (sy_ring ?s)" "sy_prod ?s 0 = P_Check obj' h' \<or> sy_prod ?s 0 = P_Claim obj' h'" for obj' h'
      using P that by (auto simp: prods_ok_def split: if_splits)
  qed
  moreover have "slots_ok k ?s"
    unfolding slots_ok_def
  proof (intro allI impI)
    fix j assume j: "length (sy_got ?s) \<le> j" "j < length (sy_log ?s)"
    have window: "?i mod 2 ^ k \<noteq> j mod 2 ^ k" if "j \<noteq> ?i"
    proof
      assume eq: "?i mod 2 ^ k = j mod 2 ^ k"
      have "(0::nat) < 2 ^ k" and "length (sy_got s) \<le> ?i" "?i < length (sy_log s)" "length (sy_log s) \<le> length (sy_got s) + (2 ^ k - 1)"
        using knows N by (auto simp: counts_ok_def)
      then have "?i = j"
        using mod_window [OF eq, of "length (sy_got s)"] j by simp
      then show False
        using that by simp
    qed
    show "rn_slots (sy_ring ?s) ! (j mod 2 ^ k) = Some (sy_log ?s ! j) \<or> (\<exists>q obj h. sy_prod ?s q = P_Store obj h \<and> sy_pidx ?s q = j)"
    proof (cases "j = ?i")
      case True
      then show ?thesis
        using knows len unfolding idx by simp
    next
      case False
      then have *: "rn_slots (sy_ring ?s) ! (j mod 2 ^ k) = rn_slots (sy_ring s) ! (j mod 2 ^ k)"
        using window unfolding idx by simp
      have "\<exists>q obj h. sy_prod ?s q = P_Store obj h \<and> sy_pidx ?s q = j" if "sy_prod s q = P_Store obj' h'" "sy_pidx s q = j" for q obj' h'
        using that False by (intro exI [of _ q]) auto
      then show ?thesis
        using S j unfolding * slots_ok_def by (simp del: fun_upd_apply) blast
    qed
  qed
  ultimately show ?thesis
    using inv by (simp add: ring_inv_def counts_ok_def conss_ok_def ring_shape_def)
qed

lemma knows_append:
  "prod_knows cap s i pc \<Longrightarrow> sy_pub s \<le> length (sy_log s) \<Longrightarrow> prod_knows cap (s \<lparr> sy_log := sy_log s @ [obj] \<rparr>) i pc"
  "cons_knows s i cpc \<Longrightarrow> sy_taken s \<le> length (sy_log s) \<Longrightarrow> cons_knows (s \<lparr> sy_log := sy_log s @ [obj] \<rparr>) i cpc"
  by (cases pc; auto simp: nth_append) (cases cpc; auto simp: nth_append)

lemma prod_claim:
  assumes inv: "ring_inv k s" and at: "sy_prod s p = P_Claim obj h" and sp: "rn_is_sp (sy_ring s) \<longrightarrow> p = 0"
    and i: "sy_pidx s p = length (sy_log s)"
  shows "ring_inv k (s \<lparr> sy_log := sy_log s @ [obj], sy_ring := (sy_ring s) \<lparr> prod_head := h + 1 \<rparr>, sy_prod := (sy_prod s)(p := P_Store obj h) \<rparr>)"
    (is "ring_inv k ?s")
proof -
  have P: "prods_ok k s" and S: "slots_ok k s" and N: "counts_ok k s" and C: "conss_ok s"
    using inv by (simp_all add: ring_inv_def)
  have knows: "prod_knows (2 ^ k - 1) s (sy_pidx s p) (P_Claim obj h)"
    using P at unfolding prods_ok_def by metis
  have le: "sy_pub s \<le> length (sy_log s)" "sy_taken s \<le> length (sy_log s)" "length (sy_got s) \<le> length (sy_log s)"
    using N by (auto simp: counts_ok_def)
  have "prods_ok k ?s"
    unfolding prods_ok_def
  proof (intro conjI allI impI)
    show "prod_knows (2 ^ k - 1) ?s (sy_pidx ?s q) (sy_prod ?s q)" for q
      using P knows i le knows_append(1) [of _ s] by (simp add: prods_ok_def)
    have below: "sy_pidx s q < length (sy_log s)" if "prod_holds (sy_prod s q)" for q
    proof -
      have "prod_knows (2 ^ k - 1) s (sy_pidx s q) (sy_prod s q)"
        using P by (simp add: prods_ok_def)
      then show ?thesis
        using that by (cases "sy_prod s q") auto
    qed
    show "q = q'" if "prod_holds (sy_prod ?s q)" "prod_holds (sy_prod ?s q')" "sy_pidx ?s q = sy_pidx ?s q'" for q q'
    proof -
      have old: "prod_holds (sy_prod s x)" if "prod_holds (sy_prod ?s x)" "x \<noteq> p" for x
        using that by simp
      have eq: "sy_pidx s q = sy_pidx s q'"
        using that(3) by simp
      have both: "q = q'" if "q \<noteq> p" "q' \<noteq> p"
        using P old [OF \<open>prod_holds (sy_prod ?s q)\<close> that(1)] old [OF \<open>prod_holds (sy_prod ?s q')\<close> that(2)] eq unfolding prods_ok_def by blast
      show ?thesis
        using both below [OF old [OF that(1)]] below [OF old [OF that(2)]] eq i by (cases "q = p"; cases "q' = p") simp_all
    qed
    show "sy_prod ?s q = P_Idle" if "rn_is_sp (sy_ring ?s)" "q \<noteq> 0" for q
      using P that sp by (simp add: prods_ok_def)
    show "length (sy_log ?s) = sy_pub ?s + (if prod_holds (sy_prod ?s 0) then 1 else 0)" if "rn_is_sp (sy_ring ?s)"
      using P that sp at by (simp add: prods_ok_def)
    show "sy_pidx ?s 0 = length (sy_log ?s)" if "rn_is_sp (sy_ring ?s)" "sy_prod ?s 0 = P_Check obj' h' \<or> sy_prod ?s 0 = P_Claim obj' h'" for obj' h'
      using that sp by simp
  qed
  moreover have "slots_ok k ?s"
    unfolding slots_ok_def
  proof (intro allI impI)
    fix j assume j: "length (sy_got ?s) \<le> j" "j < length (sy_log ?s)"
    have new: "sy_prod ?s p = P_Store obj h \<and> sy_pidx ?s p = length (sy_log s)"
      using i by simp
    have old: "sy_prod ?s q = P_Store obj' h' \<and> sy_pidx ?s q = j" if "sy_prod s q = P_Store obj' h'" "sy_pidx s q = j" for q obj' h'
      using that at by auto
    show "rn_slots (sy_ring ?s) ! (j mod 2 ^ k) = Some (sy_log ?s ! j) \<or> (\<exists>q obj h. sy_prod ?s q = P_Store obj h \<and> sy_pidx ?s q = j)"
    proof (cases "j = length (sy_log s)")
      case True
      then show ?thesis
        using new by blast
    next
      case False
      then have lt: "j < length (sy_log s)" and nth: "sy_log ?s ! j = sy_log s ! j"
        using j by (auto simp: nth_append)
      consider "rn_slots (sy_ring s) ! (j mod 2 ^ k) = Some (sy_log s ! j)"
        | q obj' h' where "sy_prod s q = P_Store obj' h'" "sy_pidx s q = j"
        using S lt j(1) by (auto simp: slots_ok_def)
      then show ?thesis
        using old nth by cases (simp, blast)
    qed
  qed
  moreover have "conss_ok ?s"
    using C le knows_append(2) [of s] by (simp add: conss_ok_def)
  moreover have "counts_ok k ?s"
    using N knows i le by (simp add: counts_ok_def ring_shape_def add.commute)
  ultimately show ?thesis
    by (simp add: ring_inv_def)
qed


lemma prod_publish:
  assumes inv: "ring_inv k s" and at: "sy_prod s p = P_Publish h"
  shows "ring_inv k (s \<lparr> sy_pub := sy_pub s + 1, sy_ring := (sy_ring s) \<lparr> prod_tail := h + 1 \<rparr>, sy_prod := (sy_prod s)(p := P_Idle) \<rparr>)"
    (is "ring_inv k ?s")
proof -
  have P: "prods_ok k s" and S: "slots_ok k s" and N: "counts_ok k s" and C: "conss_ok s"
    using inv by (simp_all add: ring_inv_def)
  have K: "prod_knows (2 ^ k - 1) s (sy_pidx s q) (sy_prod s q)" for q
    using P by (simp add: prods_ok_def)
  have me: "h = of_nat (sy_pub s)" "sy_pidx s p = sy_pub s" "sy_pub s < length (sy_log s)"
    using K [of p] at by auto
  have other: "sy_pidx s q \<noteq> sy_pub s" if "q \<noteq> p" "prod_holds (sy_prod s q)" for q
    using P that at me(2) unfolding prods_ok_def by (metis prod_holds.simps(3))
  have "prods_ok k ?s"
    unfolding prods_ok_def
  proof (intro conjI allI impI)
    show "prod_knows (2 ^ k - 1) ?s (sy_pidx ?s q) (sy_prod ?s q)" for q
      using K [of q] other [of q] by (cases "q = p"; cases "sy_prod s q") auto
    show "q = q'" if "prod_holds (sy_prod ?s q)" "prod_holds (sy_prod ?s q')" "sy_pidx ?s q = sy_pidx ?s q'" for q q'
    proof -
      have "prod_holds (sy_prod s q)" "prod_holds (sy_prod s q')" "sy_pidx s q = sy_pidx s q'"
        using that by (simp_all split: if_splits)
      then show ?thesis
        using P unfolding prods_ok_def by blast
    qed
    show "sy_prod ?s q = P_Idle" if "rn_is_sp (sy_ring ?s)" "q \<noteq> 0" for q
      using P that by (simp add: prods_ok_def)
    show "length (sy_log ?s) = sy_pub ?s + (if prod_holds (sy_prod ?s 0) then 1 else 0)" if "rn_is_sp (sy_ring ?s)"
      using P that at by (cases "p = 0") (auto simp: prods_ok_def)
    show "sy_pidx ?s 0 = length (sy_log ?s)" if "rn_is_sp (sy_ring ?s)" "sy_prod ?s 0 = P_Check obj' h' \<or> sy_prod ?s 0 = P_Claim obj' h'" for obj' h'
      using P that by (cases "p = 0") (auto simp: prods_ok_def)
  qed
  moreover have "slots_ok k ?s"
    unfolding slots_ok_def
  proof (intro allI impI)
    fix j assume j: "length (sy_got ?s) \<le> j" "j < length (sy_log ?s)"
    have old: "sy_prod ?s q = P_Store obj' h' \<and> sy_pidx ?s q = j" if "sy_prod s q = P_Store obj' h'" "sy_pidx s q = j" for q obj' h'
      using that at by auto
    consider "rn_slots (sy_ring s) ! (j mod 2 ^ k) = Some (sy_log s ! j)"
      | q obj' h' where "sy_prod s q = P_Store obj' h'" "sy_pidx s q = j"
      using S j by (auto simp: slots_ok_def)
    then show "rn_slots (sy_ring ?s) ! (j mod 2 ^ k) = Some (sy_log ?s ! j) \<or> (\<exists>q obj h. sy_prod ?s q = P_Store obj h \<and> sy_pidx ?s q = j)"
      using old by cases (simp, blast)
  qed
  moreover have "cons_knows ?s i pc" if "cons_knows s i pc" for i pc
    using that by (cases pc) auto
  then have "conss_ok ?s"
    using C by (simp add: conss_ok_def)
  moreover have "counts_ok k ?s"
    using N me by (simp add: counts_ok_def ring_shape_def add.commute)
  ultimately show ?thesis
    by (simp add: ring_inv_def)
qed

lemma cons_claim:
  assumes inv: "ring_inv k s" and at: "sy_cons s c = C_Claim h" and sc: "rn_is_sc (sy_ring s) \<longrightarrow> c = 0"
    and i: "sy_cidx s c = sy_taken s"
  shows "ring_inv k (s \<lparr> sy_taken := sy_taken s + 1, sy_ring := (sy_ring s) \<lparr> cons_head := h + 1 \<rparr>, sy_cons := (sy_cons s)(c := C_Read h) \<rparr>)"
    (is "ring_inv k ?s")
proof -
  have C: "conss_ok s" and N: "counts_ok k s"
    using inv by (simp_all add: ring_inv_def)
  have K: "cons_knows s (sy_cidx s d) (sy_cons s d)" for d
    using C by (simp add: conss_ok_def)
  have me: "h = of_nat (sy_taken s)" "sy_taken s < sy_pub s" and le: "length (sy_got s) \<le> sy_taken s"
    using K [of c] at i N by (auto simp: counts_ok_def)
  have below: "sy_cidx s d < sy_taken s" if "cons_holds (sy_cons s d)" for d
    using K [of d] that by (cases "sy_cons s d") auto
  have "conss_ok ?s"
    unfolding conss_ok_def
  proof (intro conjI allI impI)
    show "cons_knows ?s (sy_cidx ?s d) (sy_cons ?s d)" for d
      using K [of d] me le i by (cases "d = c"; cases "sy_cons s d") auto
    show "d = d'" if "cons_holds (sy_cons ?s d)" "cons_holds (sy_cons ?s d')" "sy_cidx ?s d = sy_cidx ?s d'" for d d'
    proof -
      have old: "cons_holds (sy_cons s x)" if "cons_holds (sy_cons ?s x)" "x \<noteq> c" for x
        using that by simp
      have eq: "sy_cidx s d = sy_cidx s d'"
        using that(3) by simp
      have both: "d = d'" if "d \<noteq> c" "d' \<noteq> c"
        using C old [OF \<open>cons_holds (sy_cons ?s d)\<close> that(1)] old [OF \<open>cons_holds (sy_cons ?s d')\<close> that(2)] eq unfolding conss_ok_def by blast
      show ?thesis
        using both below [OF old [OF that(1)]] below [OF old [OF that(2)]] eq i by (cases "d = c"; cases "d' = c") simp_all
    qed
    show "sy_cons ?s d = C_Idle" if "rn_is_sc (sy_ring ?s)" "d \<noteq> 0" for d
      using C that sc by (simp add: conss_ok_def)
    show "sy_taken ?s = length (sy_got ?s) + (if cons_holds (sy_cons ?s 0) then 1 else 0)" if "rn_is_sc (sy_ring ?s)"
      using C that at sc by (simp add: conss_ok_def)
    show "sy_cidx ?s 0 = sy_taken ?s" if "rn_is_sc (sy_ring ?s)" "sy_cons ?s 0 = C_Check h' \<or> sy_cons ?s 0 = C_Claim h'" for h'
      using that sc by simp
  qed
  moreover have "counts_ok k ?s"
    using N me by (simp add: counts_ok_def ring_shape_def add.commute)
  ultimately show ?thesis
    using inv by (simp add: ring_inv_def prods_ok_def slots_ok_def)
qed

lemma cons_publish:
  assumes inv: "ring_inv k s" and at: "sy_cons s c = C_Publish h obj"
  shows "ring_inv k (s \<lparr> sy_got := sy_got s @ [obj], sy_ring := (sy_ring s) \<lparr> cons_tail := h + 1 \<rparr>, sy_cons := (sy_cons s)(c := C_Idle) \<rparr>)"
    (is "ring_inv k ?s")
proof -
  have C: "conss_ok s" and N: "counts_ok k s" and P: "prods_ok k s" and S: "slots_ok k s"
    using inv by (simp_all add: ring_inv_def)
  have K: "cons_knows s (sy_cidx s d) (sy_cons s d)" for d
    using C by (simp add: conss_ok_def)
  have me: "h = of_nat (length (sy_got s))" "sy_cidx s c = length (sy_got s)" "length (sy_got s) < sy_taken s" "obj = Some (sy_log s ! length (sy_got s))"
    using K [of c] at by auto
  have other: "sy_cidx s d \<noteq> length (sy_got s)" if "d \<noteq> c" "cons_holds (sy_cons s d)" for d
    using C that at me(2) unfolding conss_ok_def by (metis cons_holds.simps(3))
  have "conss_ok ?s"
    unfolding conss_ok_def
  proof (intro conjI allI impI)
    show "cons_knows ?s (sy_cidx ?s d) (sy_cons ?s d)" for d
      using K [of d] other [of d] by (cases "d = c"; cases "sy_cons s d") auto
    show "d = d'" if "cons_holds (sy_cons ?s d)" "cons_holds (sy_cons ?s d')" "sy_cidx ?s d = sy_cidx ?s d'" for d d'
    proof -
      have "cons_holds (sy_cons s d)" "cons_holds (sy_cons s d')" "sy_cidx s d = sy_cidx s d'"
        using that by (simp_all split: if_splits)
      then show ?thesis
        using C unfolding conss_ok_def by blast
    qed
    show "sy_cons ?s d = C_Idle" if "rn_is_sc (sy_ring ?s)" "d \<noteq> 0" for d
      using C that by (simp add: conss_ok_def)
    show "sy_taken ?s = length (sy_got ?s) + (if cons_holds (sy_cons ?s 0) then 1 else 0)" if "rn_is_sc (sy_ring ?s)"
      using C that at by (cases "c = 0") (auto simp: conss_ok_def)
    show "sy_cidx ?s 0 = sy_taken ?s" if "rn_is_sc (sy_ring ?s)" "sy_cons ?s 0 = C_Check h' \<or> sy_cons ?s 0 = C_Claim h'" for h'
      using C that by (cases "c = 0") (auto simp: conss_ok_def)
  qed
  moreover have "prod_knows (2 ^ k - 1) ?s i pc" if "prod_knows (2 ^ k - 1) s i pc" for i pc
    using that by (cases pc) auto
  then have "prods_ok k ?s"
    using P by (simp add: prods_ok_def)
  moreover have "slots_ok k ?s"
    using S by (simp add: slots_ok_def)
  moreover have "counts_ok k ?s"
    using N me by (simp add: counts_ok_def ring_shape_def add.commute take_Suc_conv_app_nth) (elim conjE, linarith)
  ultimately show ?thesis
    by (simp add: ring_inv_def)
qed


lemma counts_window:
  assumes "counts_ok k s"
  shows "length (sy_log s) < length (sy_got s) + 2 ^ 32" "length (sy_got s) \<le> sy_pub s" "length (sy_got s) \<le> sy_taken s" "sy_taken s \<le> length (sy_log s)"
proof -
  have "(2::nat) ^ k < 2 ^ 32"
    using assms by (intro power_less_32) (simp add: counts_ok_def ring_shape_def)
  then show "length (sy_log s) < length (sy_got s) + 2 ^ 32"
    using assms unfolding counts_ok_def by linarith
qed (use assms in \<open>simp_all add: counts_ok_def\<close>)

lemma enq_claim_cases:
  assumes "enq_step fails r (P_Claim obj h) = Some (r', pc', res)"
  obtains (claimed) "rn_is_sp r \<or> prod_head r = h" "pc' = P_Store obj h" "r' = r \<lparr> prod_head := h + 1 \<rparr>"
    | (retry) "pc' = P_Load obj" "r' = r"
proof (cases "rn_is_sp r \<or> prod_head r = h \<and> \<not> fails")
  case True
  then have "pc' = P_Store obj h \<and> r' = r \<lparr> prod_head := h + 1 \<rparr>"
    using assms by (cases "rn_is_sp r") auto
  then show ?thesis
    using True claimed by blast
next
  case False
  then have "pc' = P_Load obj \<and> r' = r"
    using assms by (simp split: if_splits)
  then show ?thesis
    using retry by blast
qed

lemma deq_claim_cases:
  assumes "deq_step fails r (C_Claim h) = Some (r', pc', res)"
  obtains (claimed) "rn_is_sc r \<or> cons_head r = h" "pc' = C_Read h" "r' = r \<lparr> cons_head := h + 1 \<rparr>"
    | (retry) "pc' = C_Load" "r' = r"
proof (cases "rn_is_sc r \<or> cons_head r = h \<and> \<not> fails")
  case True
  then have "pc' = C_Read h \<and> r' = r \<lparr> cons_head := h + 1 \<rparr>"
    using assms by (cases "rn_is_sc r") auto
  then show ?thesis
    using True claimed by blast
next
  case False
  then have "pc' = C_Load \<and> r' = r"
    using assms by (simp split: if_splits)
  then show ?thesis
    using retry by blast
qed

lemma produce_inv:
  assumes inv: "ring_inv k s" and busy: "sy_prod s p \<noteq> P_Idle"
    and step: "enq_step fails (sy_ring s) (sy_prod s p) = Some (r', pc', res)" and lag: "length (sy_log s) - sy_pidx s p < 2 ^ 32"
  shows "ring_inv k ((prod_history p pc' s) \<lparr> sy_ring := r', sy_prod := (sy_prod s)(p := pc') \<rparr>)" (is "ring_inv k ?s")
proof -
  have P: "prods_ok k s" and N: "counts_ok k s"
    using inv by (simp_all add: ring_inv_def)
  have K: "prod_knows (2 ^ k - 1) s (sy_pidx s p) (sy_prod s p)"
    using P by (simp add: prods_ok_def)
  have sp: "rn_is_sp (sy_ring s) \<longrightarrow> p = 0"
    using P busy by (auto simp: prods_ok_def)
  note stay = prod_local [OF inv sp, of "sy_pidx s p" pc', unfolded fun_upd_triv]
  show ?thesis
  proof (cases "sy_prod s p")
    case (P_Load obj)
    then show ?thesis
      using step N prod_local [OF inv sp, of "length (sy_log s)" pc'] by (auto simp: prod_history_def counts_ok_def)
  next
    case (P_Check obj h)
    have room: "rn_capacity (sy_ring s) + cons_tail (sy_ring s) - of_nat (length (sy_log s)) \<le> 0 \<longleftrightarrow> length (sy_log s) = length (sy_got s) + (2 ^ k - 1)"
      using N by (intro room_iff) (auto simp: counts_ok_def)
    have fresh: "sy_pidx s p = length (sy_log s)" if "rn_is_sp (sy_ring s)"
      using P P_Check sp that by (auto simp: prods_ok_def)
    have h: "h = of_nat (sy_pidx s p)" "sy_pidx s p \<le> length (sy_log s)"
      using K P_Check by simp_all
    have pc': "pc' = P_Idle \<or> pc' = P_Claim obj h \<and> \<not> rn_capacity (sy_ring s) + cons_tail (sy_ring s) - h \<le> 0" and r': "r' = sy_ring s"
      using step unfolding P_Check enq_step.simps by (simp_all only: option.inject split: if_splits) blast+
    have "sy_pidx s p < length (sy_got s) + (2 ^ k - 1)" if "pc' \<noteq> P_Idle" "sy_pidx s p = length (sy_log s)"
    proof -
      have "length (sy_log s) \<noteq> length (sy_got s) + (2 ^ k - 1)"
        using pc' that(1) room unfolding h(1) [unfolded that(2)] by blast
      moreover have "length (sy_log s) \<le> length (sy_got s) + (2 ^ k - 1)"
        using N unfolding counts_ok_def by blast
      ultimately show ?thesis
        using that(2) by linarith
    qed
    then have "prod_knows (2 ^ k - 1) s (sy_pidx s p) pc'"
      using pc' h by auto
    then show ?thesis
      using P_Check stay fresh pc' r' by (auto simp: prod_history_def)
  next
    case (P_Claim obj h)
    have h: "h = of_nat (sy_pidx s p)" "sy_pidx s p \<le> length (sy_log s)" and head: "prod_head (sy_ring s) = of_nat (length (sy_log s))"
      using K P_Claim N unfolding counts_ok_def by simp_all
    have now: "sy_pidx s p = length (sy_log s)" if "rn_is_sp (sy_ring s) \<or> prod_head (sy_ring s) = h"
    proof (cases "rn_is_sp (sy_ring s)")
      case True
      then have "sy_prod s 0 = P_Claim obj h" "p = 0"
        using sp P_Claim by auto
      then show ?thesis
        using True P unfolding prods_ok_def by blast
    next
      case False
      then have "of_nat (sy_pidx s p) = (of_nat (length (sy_log s)) :: 32 word)"
        using that h(1) head by metis
      then show ?thesis
        using h(2) lag by (rule of_nat_eq_close)
    qed
    from step [unfolded P_Claim] show ?thesis
    proof (cases rule: enq_claim_cases)
      case claimed
      show ?thesis
        using prod_claim [OF inv P_Claim sp now [OF claimed(1)]] by (simp add: prod_history_def P_Claim claimed(2,3))
    next
      case retry
      have "ring_inv k (s \<lparr> sy_pidx := (sy_pidx s)(p := sy_pidx s p), sy_prod := (sy_prod s)(p := P_Load obj) \<rparr>)"
        by (rule prod_local [OF inv sp]) (simp_all add: P_Claim)
      then show ?thesis
        by (simp add: prod_history_def P_Claim retry)
    qed
  next
    case (P_Store obj h)
    then show ?thesis
      using step prod_store [OF inv P_Store] by (auto simp: prod_history_def split: if_splits)
  next
    case (P_Wait h)
    have h: "h = of_nat (sy_pidx s p)" "sy_pub s \<le> sy_pidx s p" "sy_pidx s p < length (sy_log s)"
      and tail: "prod_tail (sy_ring s) = of_nat (sy_pub s)"
      using K P_Wait N unfolding counts_ok_def by simp_all
    have "sy_pidx s p = sy_pub s" if "rn_is_sp (sy_ring s)"
    proof -
      have "prod_holds (sy_prod s 0)"
        using that sp P_Wait by auto
      then have "length (sy_log s) = sy_pub s + 1"
        using that P unfolding prods_ok_def by simp
      then show ?thesis
        using h by linarith
    qed
    moreover have "sy_pidx s p = sy_pub s" if "prod_tail (sy_ring s) = h"
      using of_nat_eq_close [OF trans [OF tail [symmetric] trans [OF that h(1)]] h(2)] h counts_window [OF N] by linarith
    moreover have pc': "pc' = (if rn_is_sp (sy_ring s) \<or> prod_tail (sy_ring s) = h then P_Publish h else P_Wait h)" and r': "r' = sy_ring s"
      using step unfolding P_Wait enq_step.simps option.inject prod.inject by (elim conjE; metis)+
    ultimately have "prod_knows (2 ^ k - 1) s (sy_pidx s p) pc'"
      using h by (simp only: pc' if_split prod_knows.simps) auto
    moreover have "prod_holds pc'"
      by (simp add: pc')
    ultimately have "ring_inv k (s \<lparr> sy_pidx := (sy_pidx s)(p := sy_pidx s p), sy_prod := (sy_prod s)(p := pc') \<rparr>)"
      by (intro prod_local [OF inv sp]) (auto simp: P_Wait)
    then show ?thesis
      by (simp add: prod_history_def P_Wait r')
  next
    case (P_Publish h)
    then show ?thesis
      using step prod_publish [OF inv P_Publish] by (auto simp: prod_history_def)
  qed (use busy in simp)
qed

lemma read_slot:
  assumes inv: "ring_inv k s" and at: "sy_cons s c = C_Read h"
  shows "rn_slots (sy_ring s) ! slot_index (sy_ring s) h = Some (sy_log s ! sy_cidx s c)"
proof -
  have "cons_knows s (sy_cidx s c) (C_Read h)"
    using inv at unfolding ring_inv_def conss_ok_def by metis
  then have i: "h = of_nat (sy_cidx s c)" "length (sy_got s) \<le> sy_cidx s c" "sy_cidx s c < sy_pub s" "sy_cidx s c < length (sy_log s)"
    using inv by (auto simp: ring_inv_def counts_ok_def)
  have "\<not> (sy_prod s p = P_Store obj g \<and> sy_pidx s p = sy_cidx s c)" for p obj g
  proof
    assume p: "sy_prod s p = P_Store obj g \<and> sy_pidx s p = sy_cidx s c"
    have "prod_knows (2 ^ k - 1) s (sy_pidx s p) (sy_prod s p)"
      using inv by (simp add: ring_inv_def prods_ok_def)
    then show False
      using p i(3) by simp
  qed
  then have "rn_slots (sy_ring s) ! (sy_cidx s c mod 2 ^ k) = Some (sy_log s ! sy_cidx s c)"
    using inv i(2,4) unfolding ring_inv_def slots_ok_def by blast
  moreover have "ring_shape k (sy_ring s)"
    using inv by (simp add: ring_inv_def counts_ok_def)
  ultimately show ?thesis
    by (simp add: i(1) slot_index_of_nat)
qed

lemma consume_inv:
  assumes inv: "ring_inv k s" and busy: "sy_cons s c \<noteq> C_Idle"
    and step: "deq_step fails (sy_ring s) (sy_cons s c) = Some (r', pc', res)" and lag: "sy_taken s - sy_cidx s c < 2 ^ 32"
  shows "ring_inv k ((cons_history c pc' s) \<lparr> sy_ring := r', sy_cons := (sy_cons s)(c := pc') \<rparr>)"
proof -
  have C: "conss_ok s" and N: "counts_ok k s"
    using inv by (simp_all add: ring_inv_def)
  have K: "cons_knows s (sy_cidx s c) (sy_cons s c)"
    using C by (simp add: conss_ok_def)
  have sc: "rn_is_sc (sy_ring s) \<longrightarrow> c = 0"
    using C busy by (auto simp: conss_ok_def)
  note stay = cons_local [OF inv sc, of "sy_cidx s c" pc', unfolded fun_upd_triv]
  show ?thesis
  proof (cases "sy_cons s c")
    case C_Load
    then show ?thesis
      using step N cons_local [OF inv sc, of "sy_taken s" pc'] by (auto simp: cons_history_def counts_ok_def)
  next
    case (C_Check h)
    have fresh: "sy_cidx s c = sy_taken s" if "rn_is_sc (sy_ring s)"
      using C C_Check sc that by (auto simp: conss_ok_def)
    have h: "h = of_nat (sy_cidx s c)" "sy_cidx s c \<le> sy_taken s" and tail: "prod_tail (sy_ring s) = of_nat (sy_pub s)" "sy_taken s \<le> sy_pub s"
      using K C_Check N unfolding counts_ok_def by simp_all
    have pc': "pc' = C_Idle \<or> pc' = C_Claim h \<and> \<not> prod_tail (sy_ring s) - h \<le> 0" and r': "r' = sy_ring s"
      using step unfolding C_Check deq_step.simps by (simp_all only: option.inject split: if_splits) blast+
    have "sy_cidx s c < sy_pub s" if "pc' \<noteq> C_Idle" "sy_cidx s c = sy_taken s"
    proof -
      have "sy_cidx s c \<noteq> sy_pub s"
        using pc' that(1) unfolding h(1) tail(1) by auto
      then show ?thesis
        using that(2) tail(2) by linarith
    qed
    then have "cons_knows s (sy_cidx s c) pc'"
      using pc' h by auto
    then show ?thesis
      using C_Check stay fresh pc' r' by (auto simp: cons_history_def)
  next
    case (C_Claim h)
    have h: "h = of_nat (sy_cidx s c)" "sy_cidx s c \<le> sy_taken s" and head: "cons_head (sy_ring s) = of_nat (sy_taken s)"
      using K C_Claim N unfolding counts_ok_def by simp_all
    have now: "sy_cidx s c = sy_taken s" if "rn_is_sc (sy_ring s) \<or> cons_head (sy_ring s) = h"
    proof (cases "rn_is_sc (sy_ring s)")
      case True
      then have "sy_cons s 0 = C_Claim h" "c = 0"
        using sc C_Claim by auto
      then show ?thesis
        using True C unfolding conss_ok_def by blast
    next
      case False
      then have "of_nat (sy_cidx s c) = (of_nat (sy_taken s) :: 32 word)"
        using that h(1) head by metis
      then show ?thesis
        using h(2) lag by (rule of_nat_eq_close)
    qed
    from step [unfolded C_Claim] show ?thesis
    proof (cases rule: deq_claim_cases)
      case claimed
      show ?thesis
        using cons_claim [OF inv C_Claim sc now [OF claimed(1)]] by (simp add: cons_history_def C_Claim claimed(2,3))
    next
      case retry
      have "ring_inv k (s \<lparr> sy_cidx := (sy_cidx s)(c := sy_cidx s c), sy_cons := (sy_cons s)(c := C_Load) \<rparr>)"
        by (rule cons_local [OF inv sc]) (simp_all add: C_Claim)
      then show ?thesis
        by (simp add: cons_history_def C_Claim retry)
    qed
  next
    case (C_Read h)
    then show ?thesis
      using step stay K read_slot [OF inv C_Read] by (auto simp: cons_history_def split: if_splits)
  next
    case (C_Wait h obj)
    have h: "h = of_nat (sy_cidx s c)" "length (sy_got s) \<le> sy_cidx s c" "sy_cidx s c < sy_taken s"
      and tail: "cons_tail (sy_ring s) = of_nat (length (sy_got s))"
      using K C_Wait N unfolding counts_ok_def by simp_all
    have "sy_cidx s c = length (sy_got s)" if "rn_is_sc (sy_ring s)"
    proof -
      have "cons_holds (sy_cons s 0)"
        using that sc C_Wait by auto
      then have "sy_taken s = length (sy_got s) + 1"
        using that C unfolding conss_ok_def by simp
      then show ?thesis
        using h by linarith
    qed
    moreover have "sy_cidx s c = length (sy_got s)" if "cons_tail (sy_ring s) = h"
      using of_nat_eq_close [OF trans [OF tail [symmetric] trans [OF that h(1)]] h(2)] h counts_window [OF N] by linarith
    moreover have pc': "pc' = (if rn_is_sc (sy_ring s) \<or> cons_tail (sy_ring s) = h then C_Publish h obj else C_Wait h obj)" and r': "r' = sy_ring s"
      using step unfolding C_Wait deq_step.simps option.inject prod.inject by (elim conjE; metis)+
    moreover have "obj = Some (sy_log s ! sy_cidx s c)"
      using K C_Wait by simp
    ultimately have "cons_knows s (sy_cidx s c) pc'"
      using h by (simp only: pc' if_split cons_knows.simps) auto
    moreover have "cons_holds pc'"
      by (simp add: pc')
    ultimately have "ring_inv k (s \<lparr> sy_cidx := (sy_cidx s)(c := sy_cidx s c), sy_cons := (sy_cons s)(c := pc') \<rparr>)"
      by (intro cons_local [OF inv sc]) (auto simp: C_Wait)
    then show ?thesis
      by (simp add: cons_history_def C_Wait r')
  next
    case (C_Publish h obj)
    then show ?thesis
      using step cons_publish [OF inv C_Publish] by (auto simp: cons_history_def)
  qed (use busy in simp)
qed


lemma step_inv:
  assumes "ring_step s s'" "ring_inv k s"
  shows "ring_inv k s'"
  using assms
proof (cases rule: ring_step.cases)
  case (enqueue p obj)
  then show ?thesis
    using prod_local [OF assms(2), of p "sy_pidx s p" "P_Load obj"] by simp
next
  case (dequeue c)
  then show ?thesis
    using cons_local [OF assms(2), of c "sy_cidx s c" C_Load] by simp
qed (use assms(2) in \<open>simp_all add: produce_inv consume_inv\<close>)

lemma reachable_inv:
  assumes "ring_step\<^sup>*\<^sup>* (ring_start type (2 ^ k)) s" "k < 32"
  shows "ring_inv k s"
  using assms by (induction rule: rtranclp_induct) (auto intro: start_inv step_inv)

lemma steps_defined:
  assumes "ring_inv k s"
  shows "enq_step fails (sy_ring s) pc \<noteq> None" "deq_step fails (sy_ring s) cpc \<noteq> None"
proof -
  have "slot_index (sy_ring s) h < length (rn_slots (sy_ring s))" for h
    using assms by (intro slot_index_in_range [of k]) (simp add: ring_inv_def counts_ok_def)
  then show "enq_step fails (sy_ring s) pc \<noteq> None" "deq_step fails (sy_ring s) cpc \<noteq> None"
    by (cases pc; simp) (cases cpc; simp add: \<open>\<And>h. slot_index (sy_ring s) h < length (rn_slots (sy_ring s))\<close>)
qed

text \<open>Schedules: which thread moves next. A schedule runs to a state that \<open>ring_step\<close> reaches.\<close>

datatype 'a ring_act = Begin_Enqueue nat 'a | Move_Producer nat bool | Begin_Dequeue nat | Move_Consumer nat bool

fun act_step :: "'a ring_act \<Rightarrow> 'a ring_sys \<Rightarrow> 'a ring_sys option" where
  "act_step (Begin_Enqueue p obj) s =
     (if sy_prod s p = P_Idle \<and> (rn_is_sp (sy_ring s) \<longrightarrow> p = 0) then Some (s \<lparr> sy_prod := (sy_prod s)(p := P_Load obj) \<rparr>) else None)"
| "act_step (Move_Producer p fails) s =
     (if sy_prod s p \<noteq> P_Idle \<and> length (sy_log s) - sy_pidx s p < 2 ^ 32 then
        map_option (\<lambda>(r', pc', res). (prod_history p pc' s) \<lparr> sy_ring := r', sy_prod := (sy_prod s)(p := pc') \<rparr>)
          (enq_step fails (sy_ring s) (sy_prod s p))
      else None)"
| "act_step (Begin_Dequeue c) s =
     (if sy_cons s c = C_Idle \<and> (rn_is_sc (sy_ring s) \<longrightarrow> c = 0) then Some (s \<lparr> sy_cons := (sy_cons s)(c := C_Load) \<rparr>) else None)"
| "act_step (Move_Consumer c fails) s =
     (if sy_cons s c \<noteq> C_Idle \<and> sy_taken s - sy_cidx s c < 2 ^ 32 then
        map_option (\<lambda>(r', pc', res). (cons_history c pc' s) \<lparr> sy_ring := r', sy_cons := (sy_cons s)(c := pc') \<rparr>)
          (deq_step fails (sy_ring s) (sy_cons s c))
      else None)"

fun acts_run :: "'a ring_act list \<Rightarrow> 'a ring_sys \<Rightarrow> 'a ring_sys option" where
  "acts_run [] s = Some s"
| "acts_run (a # as) s = (case act_step a s of None \<Rightarrow> None | Some s' \<Rightarrow> acts_run as s')"

lemma act_step_sound:
  assumes "act_step a s = Some s'"
  shows "ring_step s s'"
proof (cases a)
  case (Begin_Enqueue p obj)
  then show ?thesis
    using assms ring_step.enqueue [of s p obj] by (auto split: if_splits)
next
  case (Move_Producer p fails)
  then obtain r' pc' res where "enq_step fails (sy_ring s) (sy_prod s p) = Some (r', pc', res)" "sy_prod s p \<noteq> P_Idle"
    "length (sy_log s) - sy_pidx s p < 2 ^ 32" "s' = (prod_history p pc' s) \<lparr> sy_ring := r', sy_prod := (sy_prod s)(p := pc') \<rparr>"
    using assms by (auto split: if_splits)
  then show ?thesis
    using ring_step.produce [of s p fails r' pc' res] by simp
next
  case (Begin_Dequeue c)
  then show ?thesis
    using assms ring_step.dequeue [of s c] by (auto split: if_splits)
next
  case (Move_Consumer c fails)
  then obtain r' pc' res where "deq_step fails (sy_ring s) (sy_cons s c) = Some (r', pc', res)" "sy_cons s c \<noteq> C_Idle"
    "sy_taken s - sy_cidx s c < 2 ^ 32" "s' = (cons_history c pc' s) \<lparr> sy_ring := r', sy_cons := (sy_cons s)(c := pc') \<rparr>"
    using assms by (auto split: if_splits)
  then show ?thesis
    using ring_step.consume [of s c fails r' pc' res] by simp
qed

lemma acts_run_sound:
  "acts_run as s = Some s' \<Longrightarrow> ring_step\<^sup>*\<^sup>* s s'"
proof (induction as arbitrary: s)
  case (Cons a as)
  then obtain t where "act_step a s = Some t" "acts_run as t = Some s'"
    by (auto split: option.splits)
  then show ?case
    using Cons.IH [of t] act_step_sound [of a s t] by (auto intro: converse_rtranclp_into_rtranclp)
qed simp

text \<open>A thread that runs alone makes exactly the six accesses of \<open>Enqueue\<close> or \<open>Dequeue\<close>.\<close>

fun enq_solo :: "nat \<Rightarrow> 'a ring \<Rightarrow> 'a prod_pc \<Rightarrow> (status \<times> 'a ring) option" where
  "enq_solo 0 r pc = None"
| "enq_solo (Suc n) r pc =
     (case enq_step False r pc of None \<Rightarrow> None | Some (r', pc', Some st) \<Rightarrow> Some (st, r') | Some (r', pc', None) \<Rightarrow> enq_solo n r' pc')"

fun deq_solo :: "nat \<Rightarrow> 'a ring \<Rightarrow> 'a cons_pc \<Rightarrow> (status \<times> 'a option \<times> 'a ring) option" where
  "deq_solo 0 r pc = None"
| "deq_solo (Suc n) r pc =
     (case deq_step False r pc of None \<Rightarrow> None | Some (r', pc', Some (st, obj)) \<Rightarrow> Some (st, obj, r') | Some (r', pc', None) \<Rightarrow> deq_solo n r' pc')"

lemma slot_index_frame [simp]:
  "slot_index (r \<lparr> prod_head := a \<rparr>) h = slot_index r h" "slot_index (r \<lparr> cons_head := a \<rparr>) h = slot_index r h"
  by (simp_all add: slot_index_def)

lemma Ring_Enqueue_steps:
  "Ring_Enqueue r obj = enq_solo 6 r (P_Load obj)"
  by (simp add: Ring_Enqueue_def Let_def eval_nat_numeral)

lemma Ring_Dequeue_steps:
  "Ring_Dequeue r = deq_solo 6 r C_Load"
  by (simp add: Ring_Dequeue_def Let_def eval_nat_numeral)


section \<open>First in, first out\<close>

lemma power_of_2_word:
  assumes "PowerOf2 sz" "sz \<noteq> 0"
  obtains k where "k < 32" "sz = 2 ^ k" "unat sz = 2 ^ k"
proof -
  obtain k where k: "k < 32" "sz = 2 ^ k"
    using assms PowerOf2_iff by blast
  then show ?thesis
    using that unat_power_2 by simp
qed

text \<open>C7: However the accesses of any number of producers and consumers interleave, on a ring of any kind whose size is a power
  of two other than zero: the objects that dequeues returned are, in order and each once, the first objects for which
  slots were claimed; fewer objects than the ring has slots are claimed and not yet returned; and no thread is about
  to access memory outside the slots.\<close>

theorem ring_fifo:
  assumes "PowerOf2 sz" "sz \<noteq> 0" "ring_step\<^sup>*\<^sup>* (ring_start type sz) s"
  shows "sy_got s = map Some (take (length (sy_got s)) (sy_log s)) \<and>
    length (sy_got s) \<le> length (sy_log s) \<and> length (sy_log s) < length (sy_got s) + unat sz \<and>
    enq_step fails (sy_ring s) (sy_prod s p) \<noteq> None \<and> deq_step fails (sy_ring s) (sy_cons s c) \<noteq> None"
proof -
  obtain k where k: "k < 32" "sz = 2 ^ k" "unat sz = 2 ^ k"
    using assms(1,2) by (rule power_of_2_word)
  then have inv: "ring_inv k s"
    using assms(3) reachable_inv by blast
  then have N: "counts_ok k s"
    by (simp add: ring_inv_def)
  have pos: "(0::nat) < 2 ^ k"
    by simp
  have "length (sy_log s) \<le> length (sy_got s) + (2 ^ k - 1)" "length (sy_got s) \<le> length (sy_log s)"
    and got: "sy_got s = map Some (take (length (sy_got s)) (sy_log s))"
    using N unfolding counts_ok_def by linarith+
  then show ?thesis
    using steps_defined [OF inv] pos k(3) got by (intro conjI) (assumption | linarith)+
qed

text \<open>Two producers load the same head; the second claims the slot first and the first has to try again.\<close>

definition demo_schedule :: "nat ring_act list" where
  "demo_schedule = [Begin_Enqueue 0 1, Begin_Enqueue 1 2, Move_Producer 0 False, Move_Producer 1 False, Move_Producer 0 False, Move_Producer 1 False,
     Move_Producer 1 False, Move_Producer 0 False, Move_Producer 0 False, Move_Producer 0 False, Move_Producer 0 False, Move_Producer 0 False,
     Move_Producer 0 False, Move_Producer 1 False, Move_Producer 1 False, Move_Producer 1 False,
     Begin_Dequeue 5, Move_Consumer 5 False, Move_Consumer 5 False, Move_Consumer 5 True, Move_Consumer 5 False, Move_Consumer 5 False,
     Move_Consumer 5 False, Move_Consumer 5 False, Move_Consumer 5 False, Move_Consumer 5 False]"

definition demo_end :: "nat ring_sys" where
  "demo_end = the (acts_run demo_schedule (ring_start RING_MP_MC 4))"

lemma demo_ring:
  "snd (Ring_Init (Ring RING_MP_MC 4)) = \<lparr> rn_type = RING_MP_MC, rn_size = 4, rn_mask = 3, rn_capacity = 3, prod_head = 0, prod_tail = 0,
     cons_head = 0, cons_tail = 0, rn_is_sp = False, rn_is_sc = False, rn_slots = [None, None, None, None] \<rparr>"
  by (simp add: Ring_Init_def Ring_def PowerOf2_def) (simp add: numeral_eq_Suc)

lemma demo_run:
  "\<exists>s. acts_run demo_schedule (ring_start RING_MP_MC 4) = Some s \<and> sy_log s = [2, 1] \<and> sy_got s = [Some 2]"
  by (simp add: demo_schedule_def ring_start_def demo_ring prod_history_def cons_history_def slot_index_def)

lemma demo_end_log:
  "acts_run demo_schedule (ring_start RING_MP_MC 4) \<noteq> None" "sy_log demo_end = [2, 1]" "sy_got demo_end = [Some 2]"
  using demo_run by (auto simp: demo_end_def)

theorem ring_fifo_witness:
  "PowerOf2 4 \<and> ring_step\<^sup>*\<^sup>* (ring_start RING_MP_MC 4) demo_end \<and> sy_log demo_end = [2, 1] \<and>
   [Some 2] = map Some (take 1 (sy_log demo_end)) \<and> (2::nat) < 1 + unat (4 :: 32 word) \<and> enq_step False (sy_ring demo_end) (sy_prod demo_end 0) \<noteq> None"
proof -
  have size: "PowerOf2 (4 :: 32 word)" "(4 :: 32 word) \<noteq> 0"
    by code_simp+
  have reach: "ring_step\<^sup>*\<^sup>* (ring_start RING_MP_MC 4) demo_end"
    using demo_end_log(1) acts_run_sound [of demo_schedule] by (auto simp: demo_end_def)
  show ?thesis
    using ring_fifo [OF size reach, of False 0 0] size(1) reach demo_end_log(2,3) by simp
qed

text \<open>Without other threads inside an operation, the counts the ring reports are exact.\<close>

theorem ring_counts_exact:
  assumes "ring_rep k r xs"
  shows "unat (Ring_Used r) = length xs" "unat (Ring_Free r) = 2 ^ k - 1 - length xs"
    "RingEmpty r \<longleftrightarrow> xs = []" "RingFull r \<longleftrightarrow> length xs = 2 ^ k - 1"
proof -
  from assms obtain c where c: "k < 32" "rn_mask r = mask k" "rn_capacity r = mask k" "length xs < 2 ^ k"
    "prod_tail r = of_nat (c + length xs)" "cons_tail r = of_nat c"
    by (auto simp: ring_rep_def ring_shape_def)
  have small: "unat (of_nat n :: 32 word) = n" if "n < 2 ^ k" for n
    using that power_less_32 [OF c(1)] by (simp add: unsigned_of_nat take_bit_nat_eq_self)
  have "of_nat (length xs) AND mask k = (of_nat (length xs) :: 32 word)"
    unfolding take_bit_eq_mask [symmetric] word_unat_eq_iff using small [OF c(4)] c(4)
    by (simp add: unsigned_take_bit_eq take_bit_nat_eq_self)
  moreover have "prod_tail r - cons_tail r = of_nat (length xs)"
    by (simp add: c(5,6))
  moreover have cap: "rn_capacity r = of_nat (2 ^ k - 1)"
    unfolding c(3) using mask_of_nat [OF c(1)] .
  have "\<not> rn_capacity r < of_nat (length xs)"
    unfolding cap word_less_nat_alt using small [of "length xs"] small [of "2 ^ k - 1"] c(4) by simp
  ultimately have used: "Ring_Used r = of_nat (length xs)"
    by (simp add: Ring_Used_def c(2))
  then show u: "unat (Ring_Used r) = length xs"
    using small c(4) by simp
  have free: "Ring_Free r = of_nat (2 ^ k - 1 - length xs)"
    unfolding Ring_Free_def used cap using c(4) by (simp only: of_nat_diff [symmetric])
  then show f: "unat (Ring_Free r) = 2 ^ k - 1 - length xs"
    using small [of "2 ^ k - 1 - length xs"] c(4) by simp
  show "RingEmpty r \<longleftrightarrow> xs = []"
    unfolding RingEmpty_def unat_eq_0 [symmetric] u by simp
  show "RingFull r \<longleftrightarrow> length xs = 2 ^ k - 1"
    unfolding RingFull_def unat_eq_0 [symmetric] f using c(4) by linarith
qed

end
