(* ===== verification/Spec2Isabelle.thy ===== *)
theory Spec2Isabelle
  imports Space_Allocator Utils Write_Completion Client_Path Client_Ring
begin

text \<open>
  A verification development of cyprestore, a distributed block store.
  To be completed as the components are added.
\<close>

section \<open>A created blob can be reached\<close>



section \<open>The garbage collector and the extent servers\<close>

text \<open>The answer to a request of the collector to clear a block, from an extent server that has
  no location for the extent: the call failed, or the code is that of \<open>Delete\<close> on the
  server.\<close>

definition clear_msg :: "string \<Rightarrow> pb_msg" where
  "clear_msg i = \<lparr> msg_extent_id = i, msg_offset = 0, msg_size = block_size, msg_crc32 = None, msg_attachment = [] \<rparr>"

definition answers_unwritten :: "gc_world \<Rightarrow> string \<Rightarrow> bool" where
  "answers_unwritten w i \<longleftrightarrow> (\<forall>n c. gw_reply w n c (DeleteRequest i 0 block_size) = None \<or>
     (\<exists>env avail unit st req st' sent pending. lm_map (se_locs st) i = None \<and> \<not> se_log_engine st \<and>
        IoService_Delete env avail unit st (clear_msg i) = Some (req, st', sent, pending) \<and>
        gw_reply w n c (DeleteRequest i 0 block_size) = Some (resp_code (rq_resp req))))"

lemma Delete_unwritten:
  assumes "lm_map (se_locs st) (msg_extent_id msg) = None" "\<not> se_log_engine st"
    and "IoService_Delete env avail unit st msg = Some (req, st', sent, pending)"
  shows "\<not> pending" "resp_code (rq_resp req) \<noteq> 0"
proof -
  have rejected: "StorageEngine_ProcessRequest env st r = Some (s, r', st', sent) \<Longrightarrow> \<not> st_ok s"
    if "rq_type r = kTypeDelete" "rq_msg r = msg" for r s r' st' sent
    using that assms(1,2)
    by (auto simp: StorageEngine_ProcessRequest_def doReplicate_def BareEngine_ProcessRequest_def handleDelete_def query_location_def
        QueryLocation_def lookupLocation_def ExtentID_def doSafetyCheck_def StorageEngine_queryRouter_def Let_def
        st_ok_def split: option.splits if_splits)
  let ?r = "SetOperationContext (Request_Reset unit kTypeDelete) msg fresh_response"
  have r: "rq_type ?r = kTypeDelete" "rq_msg ?r = msg" by (simp_all add: SetOperationContext_def Request_Reset_def)
  have "\<not> pending \<and> resp_code (rq_resp req) \<noteq> 0"
  proof (cases avail)
    case True
    obtain s r' st1 sent1 where p: "StorageEngine_ProcessRequest env st ?r = Some (s, r', st1, sent1)"
      using assms(3) True by (auto simp: IoService_Delete_def start_call_def GetRequest_def Let_def split: option.splits)
    then show ?thesis using assms(3) True rejected[OF r p]
      by (auto simp: IoService_Delete_def start_call_def GetRequest_def Let_def run_done_def DeleteDone_def PutRequest_def respond_def SetResult_def
          Request_Reset_def)
  qed (use assms(3) in \<open>auto simp: IoService_Delete_def start_call_def GetRequest_def no_request_def run_done_def\<close>)
  then show "\<not> pending" "resp_code (rq_resp req) \<noteq> 0" by blast+
qed

lemma unwritten_not_granted:
  assumes "answers_unwritten w i"
  shows "\<not> granted w (DeleteRequest i 0 block_size)"
proof
  assume "granted w (DeleteRequest i 0 block_size)"
  then obtain n c where g: "gw_reply w n c (DeleteRequest i 0 block_size) = Some 0" unfolding granted_def by blast
  then obtain env avail unit st req st' sent pending where
    r: "lm_map (se_locs st) i = None" "\<not> se_log_engine st" "IoService_Delete env avail unit st (clear_msg i) = Some (req, st', sent, pending)"
      "resp_code (rq_resp req) = 0"
    using assms unfolding answers_unwritten_def by (metis option.distinct(1) option.inject)
  have "msg_extent_id (clear_msg i) = i" by (simp add: clear_msg_def)
  with Delete_unwritten(2)[OF _ r(2,3)] r(1,4) show False by simp
qed

text \<open>C34: A blob with an extent that was never written is never removed. The extent server
  answers the request to clear a block with an error when it has no location for the
  extent, so the removal fails and the blob stays in its pool; nothing is done first that
  would make the next attempt succeed.\<close>

theorem unwritten_blob_kept:
  assumes "gc_inv crc gs m" "routers_known (em_pools (gs_em gs)) m" "distinct (map fst (em_pools (gs_em gs)))"
    and "blob_in (em_pools (gs_em gs)) pid bid b" "0 < cf_extent_size cf" "cf_extent_size cf + block_size \<le> 2 ^ 64"
    and "1 \<le> i" "i \<le> b_size b div cf_extent_size cf" "answers_unwritten w (GenerateExtentID bid i)"
  shows "\<exists>s gs' p'. deleteOneBlob w crc cf gs pid bid True = Some (s, gs') \<and> \<not> st_ok s \<and>
    map_of (em_pools (gs_em gs')) pid = Some p' \<and> map_of (p_blob_mgr p') bid = Some b"
proof -
  from deleteOneBlob_spec[OF assms(1-6), of w True] obtain s gs' p' where
    d: "deleteOneBlob w crc cf gs pid bid True = Some (s, gs')" "map_of (em_pools (gs_em gs')) pid = Some p'"
      "\<not> st_ok s \<longrightarrow> map_of (p_blob_mgr p') bid = Some b"
    and served: "st_ok s \<Longrightarrow> \<exists>er. served w (em_pools (gs_em gs)) (cf_extent_size cf) gs' (GenerateExtentID bid i) er"
    using assms(7,8) by blast
  have "\<not> st_ok s" using served unwritten_not_granted[OF assms(9)] assms(5) by (auto simp: served_def)
  then show ?thesis using d by blast
qed

theorem unwritten_blob_kept_witness:
  "\<exists>st w s gs'. w = demo_world [] \<lparr> gw_reply := (\<lambda>_ _ _. Some CYPRE_ES_PROCESS_REQ_ERROR) \<rparr> \<and>
     deleteOneBlob w (\<lambda>_. 0) demo_conf (demo_gc st) ''pool-a'' ''bb-x'' True = Some (s, gs') \<and> \<not> st_ok s"
proof -
  let ?w = "demo_world [] \<lparr> gw_reply := (\<lambda>_ _ _. Some CYPRE_ES_PROCESS_REQ_ERROR) \<rparr>"
  let ?i = "GenerateExtentID ''bb-x'' 1"
  let ?st = "demo_server ''a'' (\<lambda>_. CHR ''s'')"
  obtain st m where r: "gc_ready (\<lambda>_. 0) 10 (demo_gc st) m" "blob_in (em_pools (gs_em (demo_gc st))) ''pool-a'' ''bb-x'' demo_deleted_blob"
    using demo_gc_ready by blast
  have x: "0 < cf_extent_size demo_conf" "cf_extent_size demo_conf + block_size \<le> 2 ^ 64" "1 \<le> (1::nat)" "1 \<le> b_size demo_deleted_blob div cf_extent_size demo_conf"
    by (simp_all add: demo_conf_def block_size_def demo_deleted_blob_def Blob_def)
  have l: "lm_map (se_locs ?st) ?i = None" "\<not> se_log_engine ?st"
    by (simp_all add: demo_server_def SetExtentSize_def StorageEngine_def demo_mgr_eq demo_mgr0_def)
  have "\<exists>req st' sent. IoService_Delete demo_env True demo_unit ?st (clear_msg ?i) = Some (req, st', sent, False) \<and>
      resp_code (rq_resp req) = CYPRE_ES_PROCESS_REQ_ERROR"
    using l by (simp add: clear_msg_def IoService_Delete_def start_call_def GetRequest_def Let_def StorageEngine_ProcessRequest_def doSafetyCheck_def
        StorageEngine_queryRouter_def checkParameters_def checkOwnership_def checkChecksum_def doReplicate_def BareEngine_ProcessRequest_def
        handleDelete_def query_location_def QueryLocation_def lookupLocation_def ExtentID_def Request_Offset_def Request_Size_def
        SetOperationContext_def Request_Reset_def DeleteDone_def run_done_def PutRequest_def respond_def SetResult_def st_ok_def)
  then have "answers_unwritten ?w ?i" unfolding answers_unwritten_def using l by (intro allI disjI2) (simp, blast)
  from unwritten_blob_kept[OF gc_ready_parts(1-3)[OF r(1)] r(2) x this] show ?thesis by blast
qed

end
